(* ===== verification/Prelude.thy ===== *)
theory Prelude
  imports Complex_Main "HOL-Library.Word" "HOL-Library.Sublist"
begin

text \<open>
  Shared vocabulary of the development: Python's exceptions as values of a sum type, the byte
  and text types, the carry of an integer addition (for code that uses Python's unbounded
  integers as bit vectors), and generic lemmas on lists, association lists and folds.

  Text is Python's \<^verbatim>\<open>str\<close> restricted to the code points U+0000 to U+00FF: a
  \<^typ>\<open>char\<close> is the code point of the same number, so \<^const>\<open>length\<close> counts code points
  as Python's \<^verbatim>\<open>len\<close> does. Bytes are lists of 8-bit words. Python's
  unbounded integers are \<^typ>\<open>int\<close>; floats are \<^typ>\<open>real\<close>, so IEEE rounding is not
  modelled.
\<close>

unbundle bit_operations_syntax

type_synonym byte = "8 word"
type_synonym bytes = "byte list"
type_synonym str = string

named_theorems py_simps \<open>unfoldings of the small Python operations\<close>

section \<open>Errors as values\<close>

datatype py_error =
    ValueError str
  | KeyError str
  | IndexError str
  | AssertionError str
  | TypeError str
  | RuntimeError str
  | PermissionError str
  | FileNotFoundError str
  | AttributeError str
  | SecurityViolation str
  | ResourceBudgetExceeded str
  | UnboundLocalError str
  | LegalV3Error str
  | TrustPolicyError str
  | RouterError str
  | SpendCeilingError str
  | BudgetExhaustedError str
  | AirGapViolationError str
  | InferenceGatewayError str

type_synonym 'a result = "py_error + 'a"

abbreviation Ok :: "'a \<Rightarrow> 'a result" where "Ok \<equiv> Inr"
abbreviation Raise :: "py_error \<Rightarrow> 'a result" where "Raise \<equiv> Inl"

definition is_ok :: "'e + 'a \<Rightarrow> bool" where
  "is_ok r = (case r of Inl _ \<Rightarrow> False | Inr _ \<Rightarrow> True)"

lemma is_ok_simps [simp]: "is_ok (Inr a)" "\<not> is_ok (Inl e)"
  by (simp_all add: is_ok_def)

definition bind_ok :: "'a result \<Rightarrow> ('a \<Rightarrow> 'b result) \<Rightarrow> 'b result" where
  "bind_ok r f = (case r of Inl e \<Rightarrow> Inl e | Inr a \<Rightarrow> f a)"

lemma bind_ok_simps [simp]: "bind_ok (Inr a) f = f a" "bind_ok (Inl e) f = Inl e"
  by (simp_all add: bind_ok_def)

lemma bind_ok_Inr: "bind_ok r f = Inr b \<longleftrightarrow> (\<exists>a. r = Inr a \<and> f a = Inr b)"
  by (cases r) auto

section \<open>Addition on Python integers, bit by bit\<close>

primrec carry :: "bool \<Rightarrow> int \<Rightarrow> int \<Rightarrow> nat \<Rightarrow> bool" where
  "carry c a b 0 = c"
| "carry c a b (Suc n) =
     (bit a n \<and> bit b n \<or> carry c a b n \<and> (bit a n \<or> bit b n))"

lemma carry_Suc_shift:
  "carry c a b (Suc n) =
     carry (odd a \<and> odd b \<or> c \<and> (odd a \<or> odd b)) (a div 2) (b div 2) n"
  by (induction n) (auto simp: bit_Suc bit_0)

lemma half_add_carry:
  "(a + b + of_bool c) div 2 =
     a div 2 + b div 2 + of_bool (odd a \<and> odd b \<or> c \<and> (odd a \<or> odd b))"
  for a b :: int
  by (cases c; cases "even a"; cases "even b") (auto elim!: evenE oddE)

lemma bit_add_carry_in:
  "bit (a + b + of_bool c) n = (bit a n \<noteq> (bit b n \<noteq> carry c a b n))" for a b :: int
proof (induction n arbitrary: a b c)
  case 0
  show ?case by (cases c) (auto simp: bit_0)
next
  case (Suc n)
  show ?case unfolding bit_Suc half_add_carry Suc carry_Suc_shift ..
qed

lemma bit_add_carry:
  "bit (a + b) n = (bit a n \<noteq> (bit b n \<noteq> carry False a b n))" for a b :: int
  using bit_add_carry_in [of a b False n] by simp

section \<open>Lists\<close>

lemma list_all2_nthI:
  "length xs = length ys \<Longrightarrow> (\<And>i. i < length xs \<Longrightarrow> P (xs ! i) (ys ! i)) \<Longrightarrow> list_all2 P xs ys"
  by (simp add: list_all2_conv_all_nth)

lemma append_eq_same_length:
  "xs @ ys = us @ vs \<Longrightarrow> length xs = length us \<Longrightarrow> xs = us \<and> ys = vs"
  by simp

lemma fold_inv: "(\<And>x s. x \<in> set xs \<Longrightarrow> P s \<Longrightarrow> P (f x s)) \<Longrightarrow> P s \<Longrightarrow> P (fold f xs s)"
  by (induction xs arbitrary: s) auto

lemma filter_length_split:
  "length (filter P xs) + length (filter (\<lambda>x. \<not> P x) xs) = length xs"
  by (rule sum_length_filter_compl)

text \<open>A loop that keeps the best element seen so far, replacing it only on a strict
  improvement that also reaches a threshold: the shape of every ``best match'' scan.\<close>

fun best_above :: "('a \<Rightarrow> real) \<Rightarrow> real \<Rightarrow> real \<Rightarrow> 'a option \<Rightarrow> 'a list \<Rightarrow> real \<times> 'a option" where
  "best_above f th b w [] = (b, w)"
| "best_above f th b w (x # xs) =
     (if f x \<ge> th \<and> f x > b then best_above f th (f x) (Some x) xs
      else best_above f th b w xs)"

lemma best_above_cases:
  "best_above f th b w xs = (b', w') \<Longrightarrow>
     (b', w') = (b, w) \<or> (\<exists>x \<in> set xs. w' = Some x \<and> b' = f x \<and> f x \<ge> th \<and> f x > b)"
  by (induction f th b w xs rule: best_above.induct) (force split: if_splits)+

lemma best_above_max:
  "best_above f th b w xs = (b', w') \<Longrightarrow>
     b \<le> b' \<and> (\<forall>x \<in> set xs. f x \<ge> th \<longrightarrow> f x \<le> b')"
  by (induction f th b w xs rule: best_above.induct) (force split: if_splits)+

lemma best_above_None:
  "best_above f th b None xs = (b', None) \<Longrightarrow> \<forall>x \<in> set xs. f x \<ge> th \<longrightarrow> f x \<le> b"
  using best_above_cases [of f th b None xs b' None] best_above_max [of f th b None xs b' None]
  by auto

section \<open>Association lists as Python dictionaries\<close>

text \<open>A Python \<^verbatim>\<open>dict\<close> keeps insertion order and overwrites in place: an
  association list with distinct keys, updated where the key stands.\<close>

type_synonym ('k, 'v) dict = "('k \<times> 'v) list"

primrec dict_get :: "('k, 'v) dict \<Rightarrow> 'k \<Rightarrow> 'v option" where
  "dict_get [] k = None"
| "dict_get (p # ps) k = (if fst p = k then Some (snd p) else dict_get ps k)"

primrec dict_set :: "'k \<Rightarrow> 'v \<Rightarrow> ('k, 'v) dict \<Rightarrow> ('k, 'v) dict" where
  "dict_set k v [] = [(k, v)]"
| "dict_set k v (p # ps) = (if fst p = k then (k, v) # ps else p # dict_set k v ps)"

abbreviation dict_keys :: "('k, 'v) dict \<Rightarrow> 'k list" where
  "dict_keys d \<equiv> map fst d"

abbreviation dict_values :: "('k, 'v) dict \<Rightarrow> 'v list" where
  "dict_values d \<equiv> map snd d"

lemma dict_get_set [simp]:
  "dict_get (dict_set k v d) k' = (if k' = k then Some v else dict_get d k')"
  by (induction d) auto

lemma set_dict_keys_set [simp]: "fst ` set (dict_set k v d) = insert k (fst ` set d)"
  by (induction d) auto

lemma distinct_dict_set [simp]: "distinct (dict_keys d) \<Longrightarrow> distinct (dict_keys (dict_set k v d))"
proof (induction d)
  case (Cons p d)
  then show ?case using set_dict_keys_set [of k v d] by (auto simp del: set_dict_keys_set)
qed simp

lemma dict_get_None: "dict_get d k = None \<longleftrightarrow> k \<notin> set (dict_keys d)"
  by (induction d) auto

lemma dict_get_Some_in: "dict_get d k = Some v \<Longrightarrow> (k, v) \<in> set d"
  by (induction d) (auto split: if_splits)

lemma dict_get_in: "distinct (dict_keys d) \<Longrightarrow> (k, v) \<in> set d \<Longrightarrow> dict_get d k = Some v"
  by (induction d) (auto, force)

lemma length_dict_set:
  "length (dict_set k v d) = (if k \<in> set (dict_keys d) then length d else Suc (length d))"
  by (induction d) auto

lemma set_dict_set_subset: "set (dict_set k v d) \<subseteq> insert (k, v) (set d)"
  by (induction d) auto

lemma set_dict_set:
  "distinct (dict_keys d) \<Longrightarrow> set (dict_set k v d) = insert (k, v) {p \<in> set d. fst p \<noteq> k}"
  by (induction d) (auto, force+)

end
