(* ===== verification/PyStr.thy ===== *)
theory PyStr
  imports Prelude
begin

text \<open>
  Python's string operations as the modelled modules use them, on text of code points U+0000
  to U+00FF: \<^verbatim>\<open>lower\<close>, \<^verbatim>\<open>isspace\<close>, \<^verbatim>\<open>strip\<close>,
  \<^verbatim>\<open>split\<close>, \<^verbatim>\<open>join\<close>, \<^verbatim>\<open>find\<close>, \<^verbatim>\<open>in\<close>,
  slicing, the \<^verbatim>\<open>\w\<close> and \<^verbatim>\<open>\S+\<close> classes of \<^verbatim>\<open>re\<close>,
  decimal and hexadecimal printing, UTF-8. On this range \<^verbatim>\<open>lower\<close> keeps the
  length, which the offset arithmetic of the grounding code relies on.
\<close>

section \<open>Characters\<close>

definition lower_char :: "char \<Rightarrow> char" where
  "lower_char c = (let n = (of_char c :: nat) in
     if 65 \<le> n \<and> n \<le> 90 \<or> 192 \<le> n \<and> n \<le> 222 \<and> n \<noteq> 215 then char_of (n + 32) else c)"

definition is_space :: "char \<Rightarrow> bool" where
  "is_space c = (let n = (of_char c :: nat) in
     9 \<le> n \<and> n \<le> 13 \<or> 28 \<le> n \<and> n \<le> 32 \<or> n = 133 \<or> n = 160)"

definition is_digit :: "char \<Rightarrow> bool" where
  "is_digit c = (let n = (of_char c :: nat) in 48 \<le> n \<and> n \<le> 57)"

definition is_word :: "char \<Rightarrow> bool" where
  "is_word c = (let n = (of_char c :: nat) in
     48 \<le> n \<and> n \<le> 57 \<or> 65 \<le> n \<and> n \<le> 90 \<or> n = 95 \<or> 97 \<le> n \<and> n \<le> 122
     \<or> n = 170 \<or> n = 178 \<or> n = 179 \<or> n = 181 \<or> n = 185 \<or> n = 186
     \<or> 188 \<le> n \<and> n \<le> 190 \<or> 192 \<le> n \<and> n \<noteq> 215 \<and> n \<noteq> 247)"

lemma of_char_less [simp]: "(of_char c :: nat) < 256"
  by (metis of_char_mod_256 mod_less_divisor zero_less_numeral)

lemma lower_char_idem [simp]: "lower_char (lower_char c) = lower_char c"
  by (auto simp: lower_char_def Let_def)

definition lower :: "str \<Rightarrow> str" where
  "lower = map lower_char"

lemma length_lower [simp]: "length (lower s) = length s"
  by (simp add: lower_def)

lemma lower_idem [simp]: "lower (lower s) = lower s"
  by (simp add: lower_def)

lemma lower_append [simp]: "lower (s @ t) = lower s @ lower t"
  by (simp add: lower_def)

lemma lower_Nil_iff [simp]: "lower s = [] \<longleftrightarrow> s = []"
  by (simp add: lower_def)

lemma take_lower: "take n (lower s) = lower (take n s)"
  by (simp add: lower_def take_map)

lemma drop_lower: "drop n (lower s) = lower (drop n s)"
  by (simp add: lower_def drop_map)

section \<open>Trimming, splitting, joining\<close>

definition lstrip :: "str \<Rightarrow> str" where
  "lstrip s = dropWhile is_space s"

definition rstrip :: "str \<Rightarrow> str" where
  "rstrip s = rev (dropWhile is_space (rev s))"

definition strip :: "str \<Rightarrow> str" where
  "strip s = rstrip (lstrip s)"

lemma strip_Nil_iff: "strip s = [] \<longleftrightarrow> (\<forall>c \<in> set s. is_space c)"
proof -
  have "(\<forall>c \<in> set (dropWhile is_space s). is_space c) \<longleftrightarrow> (\<forall>c \<in> set s. is_space c)"
    by (induction s) auto
  then show ?thesis by (simp add: strip_def rstrip_def lstrip_def)
qed

function split_ws :: "str \<Rightarrow> str list" where
  "split_ws s =
     (case dropWhile is_space s of
        [] \<Rightarrow> []
      | c # t \<Rightarrow> (c # takeWhile (\<lambda>x. \<not> is_space x) t) # split_ws (dropWhile (\<lambda>x. \<not> is_space x) t))"
  by pat_completeness auto
termination
proof (relation "measure length")
  fix s c t assume "dropWhile is_space s = c # t"
  then have "length (c # t) \<le> length s" using length_dropWhile_le by metis
  then show "(dropWhile (\<lambda>x. \<not> is_space x) t, s) \<in> measure length"
    using length_dropWhile_le [of "\<lambda>x. \<not> is_space x" t] by simp
qed simp

declare split_ws.simps [simp del]

lemma split_ws_unfold:
  "dropWhile is_space s = [] \<Longrightarrow> split_ws s = []"
  "dropWhile is_space s = c # t \<Longrightarrow>
     split_ws s = (c # takeWhile (\<lambda>x. \<not> is_space x) t) # split_ws (dropWhile (\<lambda>x. \<not> is_space x) t)"
  by (simp_all only: split_ws.simps [of s] list.case)

definition join :: "str \<Rightarrow> str list \<Rightarrow> str" where
  "join sep ws = (case ws of [] \<Rightarrow> [] | w # ws' \<Rightarrow> w @ concat (map (\<lambda>v. sep @ v) ws'))"

text \<open>\<^verbatim>\<open>str.split(sep)\<close> for a one-character separator: always at least one part.\<close>

primrec split_on :: "char \<Rightarrow> str \<Rightarrow> str list" where
  "split_on d [] = [[]]"
| "split_on d (c # s) =
     (if c = d then [] # split_on d s
      else (case split_on d s of [] \<Rightarrow> [[c]] | p # ps \<Rightarrow> (c # p) # ps))"

lemma split_on_nonempty [simp]: "split_on d s \<noteq> []"
  by (induction s) (auto split: list.splits)

lemma split_ws_words:
  "w \<in> set (split_ws s) \<Longrightarrow> w \<noteq> [] \<and> (\<forall>c \<in> set w. \<not> is_space c)"
proof (induction s rule: split_ws.induct)
  case (1 s)
  show ?case
  proof (cases "dropWhile is_space s")
    case Nil
    with "1.prems" show ?thesis by (simp add: split_ws_unfold)
  next
    case (Cons c t)
    then have c: "\<not> is_space c" using hd_dropWhile [of is_space s] by simp
    from "1.prems" have "w = c # takeWhile (\<lambda>x. \<not> is_space x) t
        \<or> w \<in> set (split_ws (dropWhile (\<lambda>x. \<not> is_space x) t))"
      by (simp add: split_ws_unfold(2) [OF Cons])
    then show ?thesis
    proof
      assume w: "w = c # takeWhile (\<lambda>x. \<not> is_space x) t"
      show ?thesis unfolding w using c by (auto dest: set_takeWhileD)
    next
      assume "w \<in> set (split_ws (dropWhile (\<lambda>x. \<not> is_space x) t))"
      then show ?thesis by (rule "1.IH" [OF Cons])
    qed
  qed
qed

lemma split_ws_Nil_iff: "split_ws s = [] \<longleftrightarrow> (\<forall>c \<in> set s. is_space c)"
proof -
  have "split_ws s = [] \<longleftrightarrow> dropWhile is_space s = []"
    by (cases "dropWhile is_space s") (simp_all add: split_ws_unfold)
  then show ?thesis by (simp add: dropWhile_eq_Nil_conv)
qed

text \<open>The spans of \<^verbatim>\<open>re.finditer(r'\S+', text)\<close>: word, start and end offset.\<close>

function word_spans :: "nat \<Rightarrow> str \<Rightarrow> (str \<times> nat \<times> nat) list" where
  "word_spans k s =
     (case dropWhile is_space s of
        [] \<Rightarrow> []
      | c # t \<Rightarrow>
          (let w = c # takeWhile (\<lambda>x. \<not> is_space x) t;
               i = k + length (takeWhile is_space s);
               j = i + length w
           in (w, i, j) # word_spans j (dropWhile (\<lambda>x. \<not> is_space x) t)))"
  by pat_completeness auto
termination
proof (relation "measure (\<lambda>(k, s). length s)")
  fix k :: nat and s c t x xa xb assume "dropWhile is_space s = c # t"
  then have "length (c # t) \<le> length s" using length_dropWhile_le by metis
  then show "((xb, dropWhile (\<lambda>x. \<not> is_space x) t), k, s) \<in> measure (\<lambda>(k, s). length s)"
    using length_dropWhile_le [of "\<lambda>x. \<not> is_space x" t] by simp
qed simp

declare word_spans.simps [simp del]

section \<open>Searching\<close>

fun str_find :: "str \<Rightarrow> str \<Rightarrow> nat option" where
  "str_find p [] = (if p = [] then Some 0 else None)"
| "str_find p (c # s) = (if prefix p (c # s) then Some 0 else map_option Suc (str_find p s))"

definition str_in :: "str \<Rightarrow> str \<Rightarrow> bool" where
  "str_in p s = (str_find p s \<noteq> None)"

lemma str_find_Some:
  "str_find p s = Some i \<Longrightarrow> i + length p \<le> length s \<and> take (length p) (drop i s) = p"
proof (induction p s arbitrary: i rule: str_find.induct)
  case (1 p)
  then show ?case by (auto split: if_splits)
next
  case (2 p c s)
  show ?case
  proof (cases "prefix p (c # s)")
    case True
    with "2.prems" have "i = 0" by simp
    with True show ?thesis using prefix_length_le [OF True] by (auto simp: prefix_def)
  next
    case False
    with "2.prems" obtain j where "str_find p s = Some j" "i = Suc j" by auto
    with "2.IH" [OF False] show ?thesis by simp
  qed
qed

lemma str_find_first:
  "str_find p s = Some i \<Longrightarrow> k < i \<Longrightarrow> take (length p) (drop k s) \<noteq> p"
proof (induction p s arbitrary: i k rule: str_find.induct)
  case (2 p c s)
  then show ?case
    by (cases k) (auto split: if_splits simp: take_is_prefix, metis take_is_prefix)
qed (auto split: if_splits)

lemma str_in_sublist: "str_in p s \<longleftrightarrow> sublist p s"
  by (induction p s rule: str_find.induct) (auto simp: str_in_def sublist_Cons_right)

lemma str_in_refl [simp]: "str_in s s"
  by (simp add: str_in_sublist)

lemma str_in_Nil [simp]: "str_in [] s"
  by (simp add: str_in_sublist)

section \<open>Numbers\<close>

definition digit_char :: "nat \<Rightarrow> char" where
  "digit_char d = char_of (48 + d)"

fun nat_str :: "nat \<Rightarrow> str" where
  "nat_str n = (if n < 10 then [digit_char n] else nat_str (n div 10) @ [digit_char (n mod 10)])"

declare nat_str.simps [simp del]

definition int_str :: "int \<Rightarrow> str" where
  "int_str z = (if z < 0 then CHR ''-'' # nat_str (nat (- z)) else nat_str (nat z))"

definition digit_val :: "char \<Rightarrow> nat" where
  "digit_val c = of_char c - 48"

definition nat_of_digits :: "str \<Rightarrow> nat" where
  "nat_of_digits s = foldl (\<lambda>n c. 10 * n + digit_val c) 0 s"

lemma digit_char_simps [simp]:
  "d < 10 \<Longrightarrow> is_digit (digit_char d)" "d < 10 \<Longrightarrow> digit_val (digit_char d) = d"
  by (simp_all add: is_digit_def digit_char_def digit_val_def)

lemma nat_of_digits_snoc [simp]: "nat_of_digits (s @ [c]) = 10 * nat_of_digits s + digit_val c"
  by (simp add: nat_of_digits_def)

lemma nat_of_digits_Nil [simp]: "nat_of_digits [] = 0"
  by (simp add: nat_of_digits_def)

lemma nat_str_digits: "\<forall>c \<in> set (nat_str n). is_digit c"
proof (induction n rule: nat_str.induct)
  case (1 n)
  show ?case by (subst nat_str.simps) (use 1 in auto)
qed

lemma nat_str_nonempty [simp]: "nat_str n \<noteq> []"
  by (subst nat_str.simps) simp

lemma nat_of_digits_nat_str [simp]: "nat_of_digits (nat_str n) = n"
proof (induction n rule: nat_str.induct)
  case (1 n)
  show ?case
  proof (cases "n < 10")
    case True
    then show ?thesis using nat_of_digits_snoc [of "[]"] by (subst nat_str.simps) simp
  next
    case False
    with 1 show ?thesis by (subst nat_str.simps) simp
  qed
qed

lemma nat_str_inject [simp]: "nat_str m = nat_str n \<longleftrightarrow> m = n"
  by (metis nat_of_digits_nat_str)

lemma nat_str_leading: "0 < n \<Longrightarrow> hd (nat_str n) \<noteq> CHR ''0''"
proof (induction n rule: nat_str.induct)
  case (1 n)
  show ?case
  proof (cases "n < 10")
    case True
    then have "digit_char n \<noteq> digit_char 0" using 1 digit_char_simps(2) by (metis less_irrefl zero_less_numeral)
    moreover have "digit_char 0 = CHR ''0''" by code_simp
    ultimately show ?thesis using True by (subst nat_str.simps) simp
  next
    case False
    with 1 show ?thesis by (subst nat_str.simps) simp
  qed
qed

lemma is_digit_not_minus: "is_digit c \<Longrightarrow> c \<noteq> CHR ''-''"
  by (auto simp: is_digit_def)

lemma int_str_inject [simp]: "int_str a = int_str b \<longleftrightarrow> a = b"
proof
  assume eq: "int_str a = int_str b"
  have hd: "hd (nat_str n) \<noteq> CHR ''-''" for n
    using nat_str_digits [of n] is_digit_not_minus hd_in_set [OF nat_str_nonempty] by blast
  then have "nat_str n \<noteq> CHR ''-'' # s" for n s
    by (metis list.sel(1))
  with eq show "a = b"
    by (auto simp: int_str_def split: if_splits dest: sym)
qed simp

section \<open>Bytes\<close>

definition hex_char :: "nat \<Rightarrow> char" where
  "hex_char d = (if d < 10 then char_of (48 + d) else char_of (87 + d))"

definition hex_byte :: "byte \<Rightarrow> str" where
  "hex_byte b = [hex_char (unat b div 16), hex_char (unat b mod 16)]"

definition hex :: "bytes \<Rightarrow> str" where
  "hex bs = concat (map hex_byte bs)"

definition hex_val :: "char \<Rightarrow> nat option" where
  "hex_val c = (let n = of_char c in
     if 48 \<le> n \<and> n \<le> 57 then Some (n - 48)
     else if 97 \<le> n \<and> n \<le> 102 then Some (n - 87)
     else if 65 \<le> n \<and> n \<le> 70 then Some (n - 55)
     else None)"

definition hex_ws :: "char \<Rightarrow> bool" where
  "hex_ws c = (let n = (of_char c :: nat) in 9 \<le> n \<and> n \<le> 13 \<or> n = 32)"

text \<open>\<^verbatim>\<open>bytes.fromhex\<close>: pairs of hexadecimal digits of either case, with ASCII
  whitespace allowed between the pairs; \<^const>\<open>None\<close> is the \<^verbatim>\<open>ValueError\<close>.\<close>

fun fromhex :: "str \<Rightarrow> bytes option" where
  "fromhex [] = Some []"
| "fromhex (c # s) =
     (if hex_ws c then fromhex s
      else (case s of
              [] \<Rightarrow> None
            | d # t \<Rightarrow>
                (case (hex_val c, hex_val d, fromhex t) of
                   (Some x, Some y, Some bs) \<Rightarrow> Some (word_of_nat (16 * x + y) # bs)
                 | _ \<Rightarrow> None)))"

lemma hex_val_hex_char [simp]: "d < 16 \<Longrightarrow> hex_val (hex_char d) = Some d"
  by (auto simp: hex_val_def hex_char_def Let_def)

lemma hex_ws_hex_char [simp]: "d < 16 \<Longrightarrow> \<not> hex_ws (hex_char d)"
  by (auto simp: hex_ws_def hex_char_def Let_def)

lemma fromhex_hex [simp]: "fromhex (hex bs) = Some bs"
proof (induction bs)
  case (Cons b bs)
  have "unat b < 256" using unsigned_less [of b, where ?'a = nat] by simp
  then have "unat b div 16 < 16" "unat b mod 16 < 16" by auto
  with Cons show ?case by (simp add: hex_def hex_byte_def)
qed (simp add: hex_def)

lemma hex_inject [simp]: "hex a = hex b \<longleftrightarrow> a = b"
  by (metis fromhex_hex option.inject)

lemma length_hex [simp]: "length (hex bs) = 2 * length bs"
  by (induction bs) (auto simp: hex_def hex_byte_def)

definition utf8_char :: "char \<Rightarrow> bytes" where
  "utf8_char c = (let n = of_char c in
     if n < 128 then [word_of_nat n] else [word_of_nat (192 + n div 64), word_of_nat (128 + n mod 64)])"

definition utf8 :: "str \<Rightarrow> bytes" where
  "utf8 s = concat (map utf8_char s)"

fun utf8_decode :: "bytes \<Rightarrow> str option" where
  "utf8_decode [] = Some []"
| "utf8_decode (b # bs) =
     (if unat b < 128 then map_option (Cons (char_of (unat b))) (utf8_decode bs)
      else case bs of
        [] \<Rightarrow> None
      | b' # bs' \<Rightarrow>
          (if 194 \<le> unat b \<and> unat b \<le> 195 \<and> 128 \<le> unat b' \<and> unat b' < 192
           then map_option (Cons (char_of ((unat b - 192) * 64 + (unat b' - 128)))) (utf8_decode bs')
           else None))"

lemma unat_byte_of_nat: "n < 256 \<Longrightarrow> unat (word_of_nat n :: byte) = n"
  by (simp add: unat_of_nat)

lemma utf8_decode_char: "utf8_decode (utf8_char c @ bs) = map_option (Cons c) (utf8_decode bs)"
proof (cases "(of_char c :: nat) < 128")
  case True
  then show ?thesis by (simp add: utf8_char_def unat_byte_of_nat)
next
  case False
  define n where "n = (of_char c :: nat)"
  have n: "128 \<le> n" "n < 256" using False by (simp_all add: n_def)
  then have d: "2 \<le> n div 64" "n div 64 \<le> 3" "n mod 64 < 64" by (auto simp: div_le_mono)
  then have u: "unat (word_of_nat (192 + n div 64) :: byte) = 192 + n div 64"
    "unat (word_of_nat (128 + n mod 64) :: byte) = 128 + n mod 64"
    by (intro unat_byte_of_nat; linarith)+
  have "n div 64 * 64 + n mod 64 = n" by simp
  then have "char_of (n div 64 * 64 + n mod 64) = c" by (simp add: n_def)
  with False d u show ?thesis by (simp add: utf8_char_def Let_def flip: n_def)
qed

lemma utf8_decode_utf8 [simp]: "utf8_decode (utf8 s) = Some s"
  by (induction s) (simp_all add: utf8_def utf8_decode_char)

lemma utf8_inject [simp]: "utf8 s = utf8 t \<longleftrightarrow> s = t"
  by (metis utf8_decode_utf8 option.inject)

end
