(* ===== verification/Levenshtein.thy ===== *)
theory Levenshtein
  imports PyStr
begin

text \<open>
  The edit distance behind fuzzy grounding, in its three forms: the specification (fewest
  insertions, deletions and substitutions between two prefixes), the dynamic-programming table
  of the standalone verifier, and the bit-vector routine of the kernel, which keeps a whole
  column of the table in two Python integers. The bit-vector routine is proved equal to the
  specification by relating each bit to a vertical difference of the table.
\<close>

section \<open>Specification\<close>

text \<open>\<open>edits xs ys n\<close>: \<open>n\<close> unit-cost edits turn \<open>xs\<close> into \<open>ys\<close>, read from the left.\<close>

inductive edits :: "'a list \<Rightarrow> 'a list \<Rightarrow> nat \<Rightarrow> bool" where
  edits_Nil: "edits [] [] 0"
| edits_delete: "edits xs ys n \<Longrightarrow> edits (xs @ [x]) ys (Suc n)"
| edits_insert: "edits xs ys n \<Longrightarrow> edits xs (ys @ [y]) (Suc n)"
| edits_keep: "edits xs ys n \<Longrightarrow> edits (xs @ [x]) (ys @ [x]) n"
| edits_subst: "edits xs ys n \<Longrightarrow> edits (xs @ [x]) (ys @ [y]) (Suc n)"

text \<open>The distance between the first \<open>i\<close> and the first \<open>j\<close> elements, by the usual recurrence.\<close>

fun ed :: "'a list \<Rightarrow> 'a list \<Rightarrow> nat \<Rightarrow> nat \<Rightarrow> nat" where
  "ed s t 0 j = j"
| "ed s t (Suc i) 0 = Suc i"
| "ed s t (Suc i) (Suc j) =
     min (min (Suc (ed s t i (Suc j))) (Suc (ed s t (Suc i) j)))
         (ed s t i j + (if s ! i = t ! j then 0 else 1))"

definition edit_distance :: "'a list \<Rightarrow> 'a list \<Rightarrow> nat" where
  "edit_distance s t = ed s t (length s) (length t)"

lemma ed_0_right [simp]: "ed s t i 0 = i"
  by (cases i) auto

lemma edits_only_insert: "edits [] ys (length ys)"
  by (induction ys rule: rev_induct) (auto intro: edits.intros)

lemma edits_only_delete: "edits xs [] (length xs)"
  by (induction xs rule: rev_induct) (auto intro: edits.intros)

lemma edits_ed:
  "i \<le> length s \<Longrightarrow> j \<le> length t \<Longrightarrow> edits (take i s) (take j t) (ed s t i j)"
proof (induction s t i j rule: ed.induct)
  case (1 s t j)
  then show ?case using edits_only_insert [of "take j t"] by simp
next
  case (2 s t i)
  then show ?case using edits_only_delete [of "take (Suc i) s"] by simp
next
  case (3 s t i j)
  then have s: "take (Suc i) s = take i s @ [s ! i]" and t: "take (Suc j) t = take j t @ [t ! j]"
    by (simp_all add: take_Suc_conv_app_nth)
  from "3.IH" "3.prems" have "edits (take i s) (take (Suc j) t) (ed s t i (Suc j))"
    "edits (take (Suc i) s) (take j t) (ed s t (Suc i) j)"
    "edits (take i s) (take j t) (ed s t i j)" by simp_all
  then have "edits (take (Suc i) s) (take (Suc j) t) (Suc (ed s t i (Suc j)))"
    "edits (take (Suc i) s) (take (Suc j) t) (Suc (ed s t (Suc i) j))"
    "edits (take (Suc i) s) (take (Suc j) t) (ed s t i j + (if s ! i = t ! j then 0 else 1))"
    by (auto simp: s t intro: edits.intros)
  then show ?case by (simp add: min_def)
qed

lemma ed_minimal:
  assumes "edits xs ys n" and "xs = take i s" and "ys = take j t"
    and "i \<le> length s" and "j \<le> length t"
  shows "ed s t i j \<le> n"
  using assms
proof (induction xs ys n arbitrary: i j rule: edits.induct)
  case edits_Nil
  then show ?case by auto
next
  case (edits_delete xs ys n x)
  then obtain k where k: "i = Suc k" by (cases i) auto
  with edits_delete.prems have "xs = take k s" by (simp add: take_Suc_conv_app_nth)
  with edits_delete k have "ed s t k j \<le> n" by simp
  then show ?case unfolding k by (cases j) auto
next
  case (edits_insert xs ys n y)
  then obtain k where k: "j = Suc k" by (cases j) auto
  with edits_insert.prems have "ys = take k t" by (simp add: take_Suc_conv_app_nth)
  with edits_insert k have "ed s t i k \<le> n" by simp
  then show ?case unfolding k by (cases i) auto
next
  case (edits_keep xs ys n x)
  then obtain k l where kl: "i = Suc k" "j = Suc l" by (cases i; cases j) auto
  with edits_keep.prems have "xs = take k s" "ys = take l t" "s ! k = t ! l"
    by (auto simp: take_Suc_conv_app_nth)
  with edits_keep.IH [of k l] edits_keep.prems kl show ?case by simp
next
  case (edits_subst xs ys n x y)
  then obtain k l where kl: "i = Suc k" "j = Suc l" by (cases i; cases j) auto
  with edits_subst.prems have "xs = take k s" "ys = take l t"
    by (auto simp: take_Suc_conv_app_nth)
  with edits_subst.IH [of k l] edits_subst.prems kl show ?case by auto
qed

text \<open>Neighbouring entries of the table differ by at most one.\<close>

lemma ed_neighbours:
  "ed s t (Suc i) j \<le> Suc (ed s t i j) \<and> ed s t i j \<le> Suc (ed s t (Suc i) j)
   \<and> ed s t i (Suc j) \<le> Suc (ed s t i j) \<and> ed s t i j \<le> Suc (ed s t i (Suc j))"
proof (induction "i + j" arbitrary: i j rule: less_induct)
  case less
  show ?case
  proof (cases i)
    case 0
    then show ?thesis using less [of 0 "j - 1"] by (cases j) (auto simp: min_def)
  next
    case (Suc k)
    note i = this
    show ?thesis
    proof (cases j)
      case 0
      then show ?thesis using less [of k 0] i by (auto simp: min_def)
    next
      case (Suc l)
      have "ed s t i l \<le> Suc (ed s t k l)" "ed s t k l \<le> Suc (ed s t i l)"
        "ed s t k j \<le> Suc (ed s t k l)" "ed s t k l \<le> Suc (ed s t k j)"
        using less [of k l] i Suc by auto
      moreover have "ed s t (Suc i) l \<le> Suc (ed s t i l)" "ed s t i l \<le> Suc (ed s t (Suc i) l)"
        using less [of i l] Suc by auto
      moreover have "ed s t k (Suc j) \<le> Suc (ed s t k j)" "ed s t k j \<le> Suc (ed s t k (Suc j))"
        using less [of k j] i by auto
      ultimately show ?thesis unfolding i Suc by (auto simp: min_def split: if_splits)
    qed
  qed
qed

lemma ed_upper: "ed s t i j \<le> max i j"
  by (induction s t i j rule: ed.induct) auto

lemma ed_lower: "i \<le> ed s t i j + j \<and> j \<le> ed s t i j + i"
  by (induction s t i j rule: ed.induct) (auto simp: min_def)

lemma ed_eq_0: "i \<le> length s \<Longrightarrow> j \<le> length t \<Longrightarrow> ed s t i j = 0 \<longleftrightarrow> take i s = take j t"
proof (induction s t i j rule: ed.induct)
  case (3 s t i j)
  then show ?case by (auto simp: min_def take_Suc_conv_app_nth)
qed auto

section \<open>The kernel's bit-vector routine\<close>

definition mask_get :: "(char \<Rightarrow> int option) \<Rightarrow> char \<Rightarrow> int" where
  "mask_get m c = (case m c of None \<Rightarrow> 0 | Some v \<Rightarrow> v)"

fun build_masks :: "nat \<Rightarrow> str \<Rightarrow> (char \<Rightarrow> int option) \<Rightarrow> (char \<Rightarrow> int option)" where
  "build_masks index [] masks = masks"
| "build_masks index (c # s) masks =
     build_masks (Suc index) s (masks(c \<mapsto> (mask_get masks c OR push_bit index 1)))"

definition myers_step :: "(char \<Rightarrow> int option) \<Rightarrow> int \<Rightarrow> char \<Rightarrow> int \<times> int \<times> int \<Rightarrow> int \<times> int \<times> int" where
  "myers_step masks high_bit c st =
     (let (positive, negative, distance) = st;
          equal = mask_get masks c;
          vertical = equal OR negative;
          horizontal = (((equal AND positive) + positive) XOR positive) OR equal;
          plus = negative OR NOT (horizontal OR positive);
          minus = positive AND horizontal;
          distance' = (if plus AND high_bit \<noteq> 0 then distance + 1
                       else if minus AND high_bit \<noteq> 0 then distance - 1
                       else distance);
          plus' = push_bit 1 plus OR 1;
          minus' = push_bit 1 minus;
          positive' = minus' OR NOT (vertical OR plus');
          negative' = plus' AND vertical
      in (positive', negative', distance'))"

definition myers_distance :: "str \<Rightarrow> str \<Rightarrow> int" where
  "myers_distance s1 s2 =
     (let masks = build_masks 0 s1 Map.empty;
          positive = push_bit (length s1) 1 - 1;
          high_bit = push_bit (length s1 - 1) 1
      in snd (snd (fold (myers_step masks high_bit) s2 (positive, 0, int (length s1)))))"

lemma bit_mask_get_build:
  "bit (mask_get (build_masks k s m) c) i \<longleftrightarrow>
     bit (mask_get m c) i \<or> (k \<le> i \<and> i < k + length s \<and> s ! (i - k) = c)"
proof (induction s arbitrary: k m)
  case (Cons d s)
  define m' where "m' = m(d \<mapsto> (mask_get m d OR push_bit k 1))"
  have "bit (mask_get m' c) i \<longleftrightarrow> bit (mask_get m c) i \<or> d = c \<and> i = k"
    by (auto simp: m'_def mask_get_def bit_simps)
  moreover have "build_masks k (d # s) m = build_masks (Suc k) s m'"
    by (simp add: m'_def)
  moreover have "k \<le> i \<and> i < k + length (d # s) \<and> (d # s) ! (i - k) = c \<longleftrightarrow>
      d = c \<and> i = k \<or> Suc k \<le> i \<and> i < Suc k + length s \<and> s ! (i - Suc k) = c"
    by (cases "i = k") (auto simp: nth_Cons')
  ultimately show ?case using Cons [of "Suc k" m'] by metis
qed auto

corollary bit_mask_get:
  "i < length s \<Longrightarrow> bit (mask_get (build_masks 0 s Map.empty) c) i \<longleftrightarrow> s ! i = c"
  by (simp add: bit_mask_get_build) (simp add: mask_get_def)

text \<open>One column: bit \<open>i\<close> of \<open>positive\<close> and \<open>negative\<close> says that the table rises or falls by one
  from row \<open>i\<close> to row \<open>i + 1\<close>.\<close>

definition column_inv :: "str \<Rightarrow> str \<Rightarrow> nat \<Rightarrow> int \<times> int \<times> int \<Rightarrow> bool" where
  "column_inv s t j st \<longleftrightarrow>
     (case st of (p, n, d) \<Rightarrow>
        (\<forall>i < length s. (bit p i \<longleftrightarrow> ed s t (Suc i) j = Suc (ed s t i j)) \<and>
                        (bit n i \<longleftrightarrow> ed s t i j = Suc (ed s t (Suc i) j))) \<and>
        d = int (ed s t (length s) j))"

lemma column_inv_init: "column_inv s t 0 (push_bit (length s) 1 - 1, 0, int (length s))"
proof -
  have "bit (push_bit (length s) 1 - 1 :: int) i \<longleftrightarrow> i < length s" for i
    using bit_mask_iff [of "length s" i, where ?'a = int] by (simp add: mask_eq_exp_minus_1 push_bit_eq_mult)
  then show ?thesis by (simp add: column_inv_def)
qed

text \<open>The carry of \<open>(equal AND positive) + positive\<close> reaches row \<open>i\<close> exactly when the table falls
  by one from column \<open>j\<close> to column \<open>j + 1\<close> in that row.\<close>

lemma carry_falls:
  assumes "\<forall>i < length s. bit e i \<longleftrightarrow> s ! i = t ! j"
    and "\<forall>i < length s. bit p i \<longleftrightarrow> ed s t (Suc i) j = Suc (ed s t i j)"
    and "i \<le> length s"
  shows "carry False (e AND p) p i \<longleftrightarrow> ed s t i j = Suc (ed s t i (Suc j))"
  using assms(3)
proof (induction i)
  case (Suc i)
  then have "carry False (e AND p) p (Suc i) \<longleftrightarrow>
      bit p i \<and> (bit e i \<or> ed s t i j = Suc (ed s t i (Suc j)))"
    by (auto simp: bit_simps)
  also have "\<dots> \<longleftrightarrow> ed s t (Suc i) j = Suc (ed s t (Suc i) (Suc j))"
    using Suc.prems assms(1,2) ed_neighbours [of s t i j] by (auto simp: min_def)
  finally show ?case .
qed simp

lemma bit_horizontal:
  fixes e p :: int
  assumes "\<forall>i < length s. bit e i \<longleftrightarrow> s ! i = t ! j"
    and "\<forall>i < length s. bit p i \<longleftrightarrow> ed s t (Suc i) j = Suc (ed s t i j)"
    and "i < length s"
  shows "bit ((((e AND p) + p) XOR p) OR e) i \<longleftrightarrow>
    s ! i = t ! j \<or> ed s t i j = Suc (ed s t i (Suc j))"
  using carry_falls [OF assms(1,2), of i] assms(1,3)
  by (auto simp: bit_simps bit_add_carry)

lemma and_high_bit: "x AND push_bit k 1 \<noteq> 0 \<longleftrightarrow> bit x k" for x :: int
  by (simp add: and_exp_eq_0_iff_not_bit push_bit_eq_mult)

text \<open>Myers' cell: how the differences on two sides of a cell and the comparison of its two
  characters give the differences on the other two sides.\<close>

lemma cell_deltas:
  fixes x u v w :: nat
  assumes "w = min (min (Suc v) (Suc u)) (x + (if E then 0 else 1))"
    and "u \<le> Suc x" "x \<le> Suc u" "v \<le> Suc x" "x \<le> Suc v"
  shows "w = Suc u \<longleftrightarrow> x = Suc u \<or> \<not> ((E \<or> x = Suc v) \<or> u = Suc x)"
    and "u = Suc w \<longleftrightarrow> u = Suc x \<and> (E \<or> x = Suc v)"
    and "w = Suc v \<longleftrightarrow> x = Suc v \<or> \<not> ((E \<or> x = Suc u) \<or> v = Suc x)"
    and "v = Suc w \<longleftrightarrow> v = Suc x \<and> (E \<or> x = Suc u)"
  using assms by (cases E; simp; linarith)+

lemma ed_deltas:
  shows "ed s t (Suc i) (Suc j) = Suc (ed s t (Suc i) j) \<longleftrightarrow> ed s t i j = Suc (ed s t (Suc i) j)
      \<or> \<not> ((s ! i = t ! j \<or> ed s t i j = Suc (ed s t i (Suc j))) \<or> ed s t (Suc i) j = Suc (ed s t i j))"
    and "ed s t (Suc i) j = Suc (ed s t (Suc i) (Suc j)) \<longleftrightarrow> ed s t (Suc i) j = Suc (ed s t i j)
      \<and> (s ! i = t ! j \<or> ed s t i j = Suc (ed s t i (Suc j)))"
    and "ed s t (Suc i) (Suc j) = Suc (ed s t i (Suc j)) \<longleftrightarrow> ed s t i j = Suc (ed s t i (Suc j))
      \<or> \<not> ((s ! i = t ! j \<or> ed s t i j = Suc (ed s t (Suc i) j)) \<or> ed s t i (Suc j) = Suc (ed s t i j))"
    and "ed s t i (Suc j) = Suc (ed s t (Suc i) (Suc j)) \<longleftrightarrow> ed s t i (Suc j) = Suc (ed s t i j)
      \<and> (s ! i = t ! j \<or> ed s t i j = Suc (ed s t (Suc i) j))"
  using cell_deltas [OF ed.simps(3) [of s t i j]] ed_neighbours [of s t i j] by blast+

text \<open>The two words \<open>plus\<close> and \<open>minus\<close> hold the horizontal differences one row further down.\<close>

lemma horizontal_deltas:
  fixes e p n :: int
  assumes e: "\<forall>i < length s. bit e i \<longleftrightarrow> s ! i = t ! j"
    and p: "\<forall>i < length s. bit p i \<longleftrightarrow> ed s t (Suc i) j = Suc (ed s t i j)"
    and n: "\<forall>i < length s. bit n i \<longleftrightarrow> ed s t i j = Suc (ed s t (Suc i) j)"
    and h: "h = (((e AND p) + p) XOR p) OR e" and i: "i < length s"
  shows "bit (n OR NOT (h OR p)) i \<longleftrightarrow> ed s t (Suc i) (Suc j) = Suc (ed s t (Suc i) j)"
    and "bit (p AND h) i \<longleftrightarrow> ed s t (Suc i) j = Suc (ed s t (Suc i) (Suc j))"
  using bit_horizontal [OF e p i] p n i unfolding ed_deltas(1,2)
  by (simp_all only: h [symmetric] bit_or_iff bit_and_iff bit_not_iff) (simp_all)

lemma bit_shift_in:
  fixes x :: int
  shows "bit (push_bit 1 x OR 1) i \<longleftrightarrow> i = 0 \<or> bit x (i - 1)"
    and "bit (push_bit 1 x) i \<longleftrightarrow> 0 < i \<and> bit x (i - 1)"
  by (auto simp only: bit_or_iff bit_push_bit_iff_int bit_1_iff)

lemma column_inv_step:
  assumes inv: "column_inv s t j st" and s: "s \<noteq> []" and j: "j < length t"
  shows "column_inv s t (Suc j)
    (myers_step (build_masks 0 s Map.empty) (push_bit (length s - 1) 1) (t ! j) st)"
proof -
  obtain p n d where st: "st = (p, n, d)" by (cases st) auto
  define e where "e = mask_get (build_masks 0 s Map.empty) (t ! j)"
  define h where "h = (((e AND p) + p) XOR p) OR e"
  have e: "\<forall>i < length s. bit e i \<longleftrightarrow> s ! i = t ! j" by (simp add: e_def bit_mask_get)
  have p: "\<forall>i < length s. bit p i \<longleftrightarrow> ed s t (Suc i) j = Suc (ed s t i j)"
    and n: "\<forall>i < length s. bit n i \<longleftrightarrow> ed s t i j = Suc (ed s t (Suc i) j)"
    and d: "d = int (ed s t (length s) j)" using inv by (auto simp: column_inv_def st)
  note hor = horizontal_deltas [OF e p n h_def]
  have plus: "bit (push_bit 1 (n OR NOT (h OR p)) OR 1) i \<longleftrightarrow> ed s t i (Suc j) = Suc (ed s t i j)"
    and minus: "bit (push_bit 1 (p AND h)) i \<longleftrightarrow> ed s t i j = Suc (ed s t i (Suc j))"
    if "i < length s" for i
    unfolding bit_shift_in using that hor [of "i - 1"] by (cases i; simp only: diff_Suc_1; simp)+
  have "bit (push_bit 1 (p AND h) OR NOT ((e OR n) OR (push_bit 1 (n OR NOT (h OR p)) OR 1))) i
      \<longleftrightarrow> ed s t (Suc i) (Suc j) = Suc (ed s t i (Suc j))"
    and "bit ((push_bit 1 (n OR NOT (h OR p)) OR 1) AND (e OR n)) i
      \<longleftrightarrow> ed s t i (Suc j) = Suc (ed s t (Suc i) (Suc j))" if "i < length s" for i
    using e n that
    by (simp_all only: bit_or_iff [of _ _ i] bit_and_iff [of _ _ i] bit_not_iff
          plus [OF that, unfolded bit_or_iff] minus [OF that] ed_deltas(3,4)) auto
  moreover have "int (ed s t (length s) (Suc j)) =
      (if bit (n OR NOT (h OR p)) (length s - 1) then d + 1
       else if bit (p AND h) (length s - 1) then d - 1 else d)"
  proof -
    obtain m where m: "length s = Suc m" using s by (cases s) auto
    have "bit (n OR NOT (h OR p)) m \<longleftrightarrow> ed s t (length s) (Suc j) = Suc (ed s t (length s) j)"
      "bit (p AND h) m \<longleftrightarrow> ed s t (length s) j = Suc (ed s t (length s) (Suc j))"
      using hor [of m] m by (simp_all only:)
    with ed_neighbours [of s t "length s" j] d m show ?thesis by auto
  qed
  moreover have "myers_step (build_masks 0 s Map.empty) (push_bit (length s - 1) 1) (t ! j) st =
      (push_bit 1 (p AND h) OR NOT ((e OR n) OR (push_bit 1 (n OR NOT (h OR p)) OR 1)),
       (push_bit 1 (n OR NOT (h OR p)) OR 1) AND (e OR n),
       if bit (n OR NOT (h OR p)) (length s - 1) then d + 1
       else if bit (p AND h) (length s - 1) then d - 1 else d)"
    by (simp only: myers_step_def st Let_def and_high_bit e_def [symmetric] h_def [symmetric] case_prod_conv)
  ultimately show ?thesis by (simp only: column_inv_def case_prod_conv) blast
qed

lemma column_inv_fold:
  assumes "s \<noteq> []" and "k \<le> length t"
  shows "column_inv s t k
    (fold (myers_step (build_masks 0 s Map.empty) (push_bit (length s - 1) 1)) (take k t)
       (push_bit (length s) 1 - 1, 0, int (length s)))"
  using assms(2)
proof (induction k)
  case 0
  show ?case by (simp only: take_0 fold_Nil id_apply column_inv_init)
next
  case (Suc k)
  then show ?case
    using column_inv_step [OF _ assms(1), of t k] by (simp add: take_Suc_conv_app_nth)
qed

lemma myers_distance_eq: "s \<noteq> [] \<Longrightarrow> myers_distance s t = int (edit_distance s t)"
  using column_inv_fold [of s "length t" t]
  by (auto simp: myers_distance_def edit_distance_def column_inv_def Let_def split: prod.splits)

section \<open>The standalone verifier's table\<close>

type_synonym table = "nat list list"

definition cell_set :: "nat \<Rightarrow> nat \<Rightarrow> nat \<Rightarrow> table \<Rightarrow> table" where
  "cell_set row col v d = d[row := (d ! row)[col := v]]"

definition dp_init :: "nat \<Rightarrow> nat \<Rightarrow> table" where
  "dp_init rows cols =
     fold (\<lambda>j. cell_set 0 j j) [1..<cols]
       (fold (\<lambda>i. cell_set i 0 i) [1..<rows] (replicate rows (replicate cols 0)))"

definition dp_cell :: "str \<Rightarrow> str \<Rightarrow> nat \<Rightarrow> nat \<Rightarrow> table \<Rightarrow> table" where
  "dp_cell s1 s2 col row d =
     (let cost = (if s1 ! (row - 1) = s2 ! (col - 1) then 0 else 1)
      in cell_set row col
           (min (min (d ! (row - 1) ! col + 1) (d ! row ! (col - 1) + 1)) (d ! (row - 1) ! (col - 1) + cost)) d)"

definition dp_table :: "str \<Rightarrow> str \<Rightarrow> table" where
  "dp_table s1 s2 =
     (let rows = length s1 + 1; cols = length s2 + 1
      in fold (\<lambda>col. fold (dp_cell s1 s2 col) [1..<rows]) [1..<cols] (dp_init rows cols))"

definition shaped :: "nat \<Rightarrow> nat \<Rightarrow> table \<Rightarrow> bool" where
  "shaped rows cols d \<longleftrightarrow> length d = rows \<and> (\<forall>i < rows. length (d ! i) = cols)"

lemma shaped_cell_set [simp]: "shaped rows cols d \<Longrightarrow> shaped rows cols (cell_set i j v d)"
  by (cases "i < length d") (auto simp: shaped_def cell_set_def nth_list_update list_update_beyond)

lemma nth_cell_set:
  "shaped rows cols d \<Longrightarrow> i < rows \<Longrightarrow> j < cols \<Longrightarrow> row < rows \<Longrightarrow> col < cols \<Longrightarrow>
     cell_set row col v d ! i ! j = (if i = row \<and> j = col then v else d ! i ! j)"
  by (auto simp: shaped_def cell_set_def nth_list_update)

text \<open>The entries that are final once the cells before \<open>(row, col)\<close> in loop order are done.\<close>

definition filled :: "str \<Rightarrow> str \<Rightarrow> nat \<Rightarrow> nat \<Rightarrow> table \<Rightarrow> bool" where
  "filled s t col row d \<longleftrightarrow> shaped (length s + 1) (length t + 1) d \<and>
     (\<forall>i \<le> length s. \<forall>j \<le> length t. i = 0 \<or> j < col \<or> j = col \<and> i < row \<longrightarrow> d ! i ! j = ed s t i j)"

lemma fold_first_column:
  "k < rows \<Longrightarrow> 0 < cols \<Longrightarrow> d = fold (\<lambda>i. cell_set i 0 i) [1..<Suc k] (replicate rows (replicate cols 0)) \<Longrightarrow>
     shaped rows cols d \<and> (\<forall>i < rows. \<forall>j < cols. d ! i ! j = (if j = 0 \<and> i \<le> k then i else 0))"
proof (induction k arbitrary: d)
  case 0
  then show ?case by (simp add: shaped_def)
next
  case (Suc k)
  then show ?case by (auto simp: nth_cell_set)
qed

lemma fold_first_row:
  "k < cols \<Longrightarrow> 0 < rows \<Longrightarrow> shaped rows cols d0 \<Longrightarrow> d = fold (\<lambda>j. cell_set 0 j j) [1..<Suc k] d0 \<Longrightarrow>
     shaped rows cols d \<and> (\<forall>i < rows. \<forall>j < cols.
       d ! i ! j = (if i = 0 \<and> 0 < j \<and> j \<le> k then j else d0 ! i ! j))"
proof (induction k arbitrary: d)
  case 0
  then show ?case by simp
next
  case (Suc k)
  then show ?case by (auto simp: nth_cell_set)
qed

lemma filled_init: "filled s t 1 1 (dp_init (length s + 1) (length t + 1))"
proof -
  define d0 where "d0 = fold (\<lambda>i. cell_set i 0 i) [1..<Suc (length s)]
    (replicate (length s + 1) (replicate (length t + 1) 0))"
  have "shaped (length s + 1) (length t + 1) d0 \<and> (\<forall>i < length s + 1. \<forall>j < length t + 1.
      d0 ! i ! j = (if j = 0 \<and> i \<le> length s then i else 0))"
    by (rule fold_first_column) (simp_all add: d0_def)
  with fold_first_row [of "length t" "length t + 1" "length s + 1" d0 "dp_init (length s + 1) (length t + 1)"]
  show ?thesis by (auto simp: filled_def dp_init_def d0_def Suc_le_eq less_Suc_eq_le)
qed

lemma filled_cell:
  assumes "filled s t (Suc l) (Suc k) d" and "k < length s" and "l < length t"
  shows "filled s t (Suc l) (Suc (Suc k)) (dp_cell s t (Suc l) (Suc k) d)"
proof -
  have sh: "shaped (length s + 1) (length t + 1) d"
    and d: "\<And>i j. i \<le> length s \<Longrightarrow> j \<le> length t \<Longrightarrow> i = 0 \<or> j < Suc l \<or> j = Suc l \<and> i < Suc k
      \<Longrightarrow> d ! i ! j = ed s t i j"
    using assms(1) by (auto simp: filled_def)
  have "dp_cell s t (Suc l) (Suc k) d = cell_set (Suc k) (Suc l) (ed s t (Suc k) (Suc l)) d"
    using assms(2,3) by (simp add: dp_cell_def d)
  moreover have "cell_set (Suc k) (Suc l) (ed s t (Suc k) (Suc l)) d ! i ! j = ed s t i j"
    if "i \<le> length s" "j \<le> length t" "i = 0 \<or> j < Suc l \<or> j = Suc l \<and> i < Suc (Suc k)" for i j
  proof (cases "i = Suc k \<and> j = Suc l")
    case True
    with assms(2,3) show ?thesis using nth_cell_set [OF sh, of i j i j] by simp
  next
    case False
    with that have "i = 0 \<or> j < Suc l \<or> j = Suc l \<and> i < Suc k" by auto
    with False that assms(2,3) d show ?thesis using nth_cell_set [OF sh, of i j "Suc k" "Suc l"] by auto
  qed
  ultimately show ?thesis using sh by (simp only: filled_def shaped_cell_set) blast
qed

lemma filled_column:
  assumes "filled s t (Suc l) 1 d" and "l < length t" and "k \<le> length s"
  shows "filled s t (Suc l) (Suc k) (fold (dp_cell s t (Suc l)) [1..<Suc k] d)"
  using assms(3)
proof (induction k)
  case 0
  with assms(1) show ?case by simp
next
  case (Suc k)
  then show ?case using filled_cell [of s t l k] assms(2) by simp
qed

lemma filled_next_column: "filled s t col (Suc (length s)) d \<Longrightarrow> filled s t (Suc col) 1 d"
  by (auto simp: filled_def less_Suc_eq_le) (metis nat_less_le)

lemma filled_table:
  "k \<le> length t \<Longrightarrow> filled s t (Suc k) 1
     (fold (\<lambda>col. fold (dp_cell s t col) [1..<length s + 1]) [1..<Suc k] (dp_init (length s + 1) (length t + 1)))"
proof (induction k)
  case 0
  show ?case using filled_init [of s t] by simp
next
  case (Suc k)
  have "[1..<Suc (Suc k)] = [1..<Suc k] @ [Suc k]" by simp
  moreover from Suc have "filled s t (Suc k) 1
      (fold (\<lambda>col. fold (dp_cell s t col) [1..<length s + 1]) [1..<Suc k] (dp_init (length s + 1) (length t + 1)))"
    by (simp only: Suc_leD)
  from filled_column [OF this, of "length s"] Suc.prems have "filled s t (Suc k) (Suc (length s))
      (fold (dp_cell s t (Suc k)) [1..<Suc (length s)]
        (fold (\<lambda>col. fold (dp_cell s t col) [1..<length s + 1]) [1..<Suc k] (dp_init (length s + 1) (length t + 1))))"
    by (simp only: Suc_le_eq le_refl)
  from filled_next_column [OF this] calculation show ?case
    by (simp only: fold_append fold_Cons fold_Nil o_apply id_apply Suc_eq_plus1)
qed

lemma dp_table_corner: "dp_table s t ! length s ! length t = edit_distance s t"
  using filled_table [of "length t" t s]
  by (auto simp: filled_def dp_table_def edit_distance_def)

section \<open>Similarity ratios\<close>

definition LEVENSHTEIN_MAX_LEN :: nat where
  "LEVENSHTEIN_MAX_LEN = 200"

text \<open>The kernel's ratio: lower-case, two early exits, the length guard, truncation, bit vectors.\<close>

definition levenshtein_ratio :: "str \<Rightarrow> str \<Rightarrow> real" where
  "levenshtein_ratio a b =
     (let s1 = lower a; s2 = lower b in
      if s1 = s2 then 1
      else if length s1 = 0 \<or> length s2 = 0 then 0
      else let max_len = max (length s1) (length s2); min_len = min (length s1) (length s2) in
      if real min_len / real max_len < 1 / 2 then 0
      else let s1 = (if length s1 > LEVENSHTEIN_MAX_LEN then take LEVENSHTEIN_MAX_LEN s1 else s1);
               s2 = (if length s2 > LEVENSHTEIN_MAX_LEN then take LEVENSHTEIN_MAX_LEN s2 else s2)
      in 1 - real_of_int (myers_distance s1 s2) / real (max (length s1) (length s2)))"

text \<open>The standalone verifier's ratio: the same two exits, then the full table.\<close>

definition sa_levenshtein_ratio :: "str \<Rightarrow> str \<Rightarrow> real" where
  "sa_levenshtein_ratio a b =
     (let s1 = lower a; s2 = lower b in
      if s1 = s2 then 1
      else if length s1 = 0 \<or> length s2 = 0 then 0
      else let rows = length s1 + 1; cols = length s2 + 1 in
      1 - real (dp_table s1 s2 ! (rows - 1) ! (cols - 1)) / real (max (length s1) (length s2)))"

lemma edit_distance_le: "edit_distance s t \<le> max (length s) (length t)"
  by (simp add: edit_distance_def ed_upper)

lemma edit_distance_ge: "max (length s) (length t) \<le> edit_distance s t + min (length s) (length t)"
  using ed_lower [of "length s" s t "length t"] by (auto simp: edit_distance_def)

lemma edit_distance_0_iff [simp]: "edit_distance s t = 0 \<longleftrightarrow> s = t"
  by (simp add: edit_distance_def ed_eq_0)

lemma similarity_bounds:
  "s \<noteq> [] \<Longrightarrow> 0 \<le> 1 - real (edit_distance s t) / real (max (length s) (length t)) \<and>
    1 - real (edit_distance s t) / real (max (length s) (length t)) \<le> real (min (length s) (length t)) / real (max (length s) (length t))"
proof -
  assume "s \<noteq> []"
  then have pos: "0 < real (max (length s) (length t))" by (simp add: less_max_iff_disj)
  have "real (edit_distance s t) \<le> real (max (length s) (length t))"
    using edit_distance_le by (simp only: of_nat_le_iff)
  moreover have "real (max (length s) (length t)) \<le> real (edit_distance s t) + real (min (length s) (length t))"
    using edit_distance_ge by (simp only: of_nat_le_iff flip: of_nat_add)
  ultimately have "1 \<le> (real (edit_distance s t) + real (min (length s) (length t))) / real (max (length s) (length t))"
    using pos by (simp only: le_divide_eq_1_pos)
  with \<open>real (edit_distance s t) \<le> real (max (length s) (length t))\<close> pos show ?thesis
    by (simp add: add_divide_distrib)
qed

lemma sa_levenshtein_ratio_eq:
  "sa_levenshtein_ratio a b =
     (if lower a = lower b then 1 else if a = [] \<or> b = [] then 0
      else 1 - real (edit_distance (lower a) (lower b)) / real (max (length a) (length b)))"
  using dp_table_corner [of "lower a" "lower b"] by (simp add: sa_levenshtein_ratio_def Let_def)

lemma levenshtein_ratio_eq:
  "levenshtein_ratio a b =
     (if lower a = lower b then 1 else if a = [] \<or> b = [] then 0
      else if real (min (length a) (length b)) / real (max (length a) (length b)) < 1 / 2 then 0
      else 1 - real (edit_distance (take 200 (lower a)) (take 200 (lower b)))
               / real (max (min (length a) 200) (min (length b) 200)))"
proof (cases "a = [] \<or> b = []")
  case False
  define s where "s = (if length (lower a) > 200 then take 200 (lower a) else lower a)"
  define t where "t = (if length (lower b) > 200 then take 200 (lower b) else lower b)"
  have st: "s = take 200 (lower a)" "t = take 200 (lower b)" by (simp_all add: s_def t_def)
  with False have "s \<noteq> []" by simp
  then have "real_of_int (myers_distance s t) = real (edit_distance s t)"
    by (simp add: myers_distance_eq)
  moreover have "max (length s) (length t) = max (min (length a) 200) (min (length b) 200)"
    by (simp add: st)
  ultimately show ?thesis using False
    unfolding levenshtein_ratio_def Let_def LEVENSHTEIN_MAX_LEN_def s_def [symmetric] t_def [symmetric]
    by (simp add: st)
qed (auto simp: levenshtein_ratio_def Let_def)

lemma edit_distance_same_length_bound:
  "0 \<le> 1 - real (edit_distance s t) / real (max (length s) (length t))"
  "1 - real (edit_distance s t) / real (max (length s) (length t)) \<le> 1"
  using similarity_bounds [of s t] by (cases "s = []"; cases t; simp add: edit_distance_def)+

section \<open>Properties\<close>

text \<open>C21: the kernel's bit-vector routine computes the edit distance. For a non-empty first string,
  its result is the cost of some sequence of insertions, deletions and substitutions from the
  first string to the second, and no such sequence costs less.\<close>

theorem myers_distance_minimal:
  assumes "s1 \<noteq> []"
  shows "edits s1 s2 (nat (myers_distance s1 s2)) \<and> (\<forall>n. edits s1 s2 n \<longrightarrow> myers_distance s1 s2 \<le> int n)"
  using edits_ed [of "length s1" s1 "length s2" s2] ed_minimal [of s1 s2 _ "length s1" s1 "length s2" s2]
  by (auto simp: myers_distance_eq [OF assms] edit_distance_def)

theorem myers_distance_minimal_witness:
  "myers_distance ''kitten'' ''sitting'' = 3 \<and> edits ''kitten'' ''sitting'' 3 \<and>
   \<not> edits ''kitten'' ''sitting'' 2"
proof -
  have "myers_distance ''kitten'' ''sitting'' = 3" by code_simp
  with myers_distance_minimal [of "''kitten''" "''sitting''"] show ?thesis by fastforce
qed

text \<open>The kernel and the standalone verifier reach the same fuzzy verdict. For strings of at
  most 200 characters and any threshold of at least one half, the kernel's ratio (bit vectors,
  with its early exit on very different lengths) reaches the threshold exactly when the ratio of
  the standalone verifier's table does.\<close>

theorem fuzzy_verdict_agrees:
  assumes "length a \<le> 200" and "length b \<le> 200" and "1 / 2 \<le> \<theta>"
  shows "\<theta> \<le> levenshtein_ratio a b \<longleftrightarrow> \<theta> \<le> sa_levenshtein_ratio a b"
proof (cases "real (min (length a) (length b)) / real (max (length a) (length b)) < 1 / 2")
  case True
  have "\<not> \<theta> \<le> 1 - real (edit_distance (lower a) (lower b)) / real (max (length a) (length b))"
    if "a \<noteq> []"
  proof -
    from that have "lower a \<noteq> []" by simp
    from similarity_bounds [OF this, of "lower b"] True assms(3) show ?thesis
      by (simp only: length_lower not_le) linarith
  qed
  with True assms(3) show ?thesis
    by (auto simp: levenshtein_ratio_eq sa_levenshtein_ratio_eq)
next
  case False
  with assms(1,2) show ?thesis by (auto simp: levenshtein_ratio_eq sa_levenshtein_ratio_eq)
qed

theorem fuzzy_verdict_agrees_witness:
  "(92 / 100 \<le> levenshtein_ratio ''Acme Corp'' ''acme corp.'') = (92 / 100 \<le> sa_levenshtein_ratio ''Acme Corp'' ''acme corp.'')"
  by (rule fuzzy_verdict_agrees) simp_all

text \<open>The kernel's ratio is a similarity: it lies between 0 and 1, and it is 1 exactly when the
  lower-cased strings are equal or both are non-empty, of lengths within a factor of two, and agree
  on their first 200 characters (the truncation of long strings).\<close>

theorem levenshtein_ratio_range:
  "0 \<le> levenshtein_ratio a b \<and> levenshtein_ratio a b \<le> 1 \<and>
   (levenshtein_ratio a b = 1 \<longleftrightarrow> lower a = lower b \<or>
      a \<noteq> [] \<and> b \<noteq> [] \<and> max (length a) (length b) \<le> 2 * min (length a) (length b) \<and>
      take 200 (lower a) = take 200 (lower b))"
proof -
  define s where "s = take 200 (lower a)"
  define t where "t = take 200 (lower b)"
  have len: "max (length s) (length t) = max (min (length a) 200) (min (length b) 200)"
    by (simp add: s_def t_def)
  have guard: "real (min (length a) (length b)) / real (max (length a) (length b)) < 1 / 2 \<longleftrightarrow>
      \<not> max (length a) (length b) \<le> 2 * min (length a) (length b)" if "a \<noteq> []"
    using that by (simp add: divide_less_eq less_max_iff_disj) linarith
  have "1 - real (edit_distance s t) / real (max (length s) (length t)) = 1 \<longleftrightarrow> s = t" if "a \<noteq> []"
  proof -
    from that have "s \<noteq> []" by (simp add: s_def)
    then show ?thesis by simp
  qed
  with edit_distance_same_length_bound [of s t] guard show ?thesis
    unfolding levenshtein_ratio_eq len [symmetric] s_def [symmetric] t_def [symmetric] by auto
qed

end
