(* ===== verification/Json.thy ===== *)
theory Json
  imports PyStr "HOL-Library.List_Lexorder" "HOL-Library.Char_ord"
begin

text \<open>
  Python's \<^verbatim>\<open>json\<close> module as the modelled code uses it: \<^verbatim>\<open>json.dumps\<close> with
  its separators, \<^verbatim>\<open>indent\<close>, \<^verbatim>\<open>ensure_ascii\<close> and
  \<^verbatim>\<open>sort_keys\<close> options, and \<^verbatim>\<open>json.loads\<close> as a lexer and a parser.
  A \<^verbatim>\<open>dict\<close> is an association list in insertion order. A float is represented by
  the text Python prints for it, so a \<open>JFloat\<close> holds a JSON number literal with a fraction or an
  exponent. The round trip \<open>loads_dumps\<close> is what the hash chains, the receipts and the stored
  records of the other components rest on: it makes the canonical text injective.
\<close>

section \<open>Values\<close>

datatype json =
    JNull
  | JBool bool
  | JInt int
  | JFloat str
  | JStr str
  | JList "json list"
  | JObj "(str \<times> json) list"

definition num_char :: "char \<Rightarrow> bool" where
  "num_char c \<longleftrightarrow> is_digit c \<or> c \<in> set ''+-.eE''"

definition digits :: "str \<Rightarrow> bool" where
  "digits s \<longleftrightarrow> s \<noteq> [] \<and> list_all is_digit s"

definition int_lit :: "str \<Rightarrow> bool" where
  "int_lit s = (let u = (case s of c # t \<Rightarrow> if c = CHR ''-'' then t else s | [] \<Rightarrow> [])
     in digits u \<and> (length u = 1 \<or> hd u \<noteq> CHR ''0''))"

definition exp_lit :: "str \<Rightarrow> bool" where
  "exp_lit s = (case s of
     [] \<Rightarrow> False
   | c # t \<Rightarrow> if c = CHR ''+'' \<or> c = CHR ''-'' then digits t else digits s)"

definition is_exp :: "char \<Rightarrow> bool" where
  "is_exp c \<longleftrightarrow> c = CHR ''e'' \<or> c = CHR ''E''"

definition float_lit :: "str \<Rightarrow> bool" where
  "float_lit s = (let m = takeWhile (\<lambda>c. \<not> is_exp c) s; e = dropWhile (\<lambda>c. \<not> is_exp c) s;
       i = takeWhile (\<lambda>c. c \<noteq> CHR ''.'') m; f = dropWhile (\<lambda>c. c \<noteq> CHR ''.'') m
     in int_lit i \<and> (f \<noteq> [] \<or> e \<noteq> []) \<and> (f = [] \<or> digits (tl f)) \<and> (e = [] \<or> exp_lit (tl e)))"

text \<open>The values Python can hold: distinct keys in every dictionary, finite floats.\<close>

fun json_wf :: "json \<Rightarrow> bool" where
  "json_wf (JFloat r) = (float_lit r \<and> list_all num_char r \<and> \<not> int_lit r)"
| "json_wf (JList vs) = list_all json_wf vs"
| "json_wf (JObj kvs) = (distinct (map fst kvs) \<and> list_all (\<lambda>p. json_wf (snd p)) kvs)"
| "json_wf _ = True"

text \<open>\<^verbatim>\<open>sort_keys=True\<close>: every dictionary ordered by key, at every depth.\<close>

fun sort_json :: "json \<Rightarrow> json" where
  "sort_json (JList vs) = JList (map sort_json vs)"
| "sort_json (JObj kvs) = JObj (sort_key fst (map (\<lambda>p. (fst p, sort_json (snd p))) kvs))"
| "sort_json v = v"

section \<open>Printing\<close>

record style =
  ensure_ascii :: bool
  indent :: "nat option"
  item_ws :: str
  key_ws :: str

definition compact :: style where
  "compact = \<lparr>ensure_ascii = True, indent = None, item_ws = [], key_ws = []\<rparr>"

definition compact_unicode :: style where
  "compact_unicode = \<lparr>ensure_ascii = False, indent = None, item_ws = [], key_ws = []\<rparr>"

definition plain_unicode :: style where
  "plain_unicode = \<lparr>ensure_ascii = False, indent = None, item_ws = '' '', key_ws = '' ''\<rparr>"

definition plain :: style where
  "plain = \<lparr>ensure_ascii = True, indent = None, item_ws = '' '', key_ws = '' ''\<rparr>"

definition indent2 :: style where
  "indent2 = \<lparr>ensure_ascii = True, indent = Some 2, item_ws = [], key_ws = '' ''\<rparr>"

definition esc_char :: "bool \<Rightarrow> char \<Rightarrow> str" where
  "esc_char asc c = (let n = (of_char c :: nat) in
     if n = 34 then [CHR 0x5C, CHR 0x22]
     else if n = 92 then [CHR 0x5C, CHR 0x5C]
     else if n = 8 then [CHR 0x5C, CHR ''b'']
     else if n = 9 then [CHR 0x5C, CHR ''t'']
     else if n = 10 then [CHR 0x5C, CHR ''n'']
     else if n = 12 then [CHR 0x5C, CHR ''f'']
     else if n = 13 then [CHR 0x5C, CHR ''r'']
     else if n < 32 \<or> asc \<and> 126 < n
     then [CHR 0x5C, CHR ''u'', CHR ''0'', CHR ''0'', hex_char (n div 16), hex_char (n mod 16)]
     else [c])"

definition str_lit :: "bool \<Rightarrow> str \<Rightarrow> str" where
  "str_lit asc s = CHR 0x22 # concat (map (esc_char asc) s) @ [CHR 0x22]"

definition newline :: "style \<Rightarrow> nat \<Rightarrow> str" where
  "newline st lvl = (case indent st of None \<Rightarrow> [] | Some k \<Rightarrow> CHR 0x0A # replicate (k * lvl) CHR '' '')"

definition comma_ws :: "style \<Rightarrow> nat \<Rightarrow> str" where
  "comma_ws st lvl = (case indent st of None \<Rightarrow> item_ws st | Some _ \<Rightarrow> newline st lvl)"

fun dumps_at :: "style \<Rightarrow> nat \<Rightarrow> json \<Rightarrow> str"
  and dumps_items :: "style \<Rightarrow> nat \<Rightarrow> json list \<Rightarrow> str"
  and dumps_members :: "style \<Rightarrow> nat \<Rightarrow> (str \<times> json) list \<Rightarrow> str" where
  "dumps_at st lvl JNull = ''null''"
| "dumps_at st lvl (JBool b) = (if b then ''true'' else ''false'')"
| "dumps_at st lvl (JInt i) = int_str i"
| "dumps_at st lvl (JFloat r) = r"
| "dumps_at st lvl (JStr s) = str_lit (ensure_ascii st) s"
| "dumps_at st lvl (JList vs) = (case vs of
     [] \<Rightarrow> ''[]''
   | v # vs' \<Rightarrow> ''['' @ newline st (Suc lvl) @ dumps_at st (Suc lvl) v
       @ dumps_items st (Suc lvl) vs' @ newline st lvl @ '']'')"
| "dumps_at st lvl (JObj kvs) = (case kvs of
     [] \<Rightarrow> ''{}''
   | kv # kvs' \<Rightarrow> ''{'' @ newline st (Suc lvl) @ str_lit (ensure_ascii st) (fst kv) @ '':'' @ key_ws st
       @ dumps_at st (Suc lvl) (snd kv) @ dumps_members st (Suc lvl) kvs' @ newline st lvl @ ''}'')"
| "dumps_items st lvl [] = []"
| "dumps_items st lvl (v # vs) = '','' @ comma_ws st lvl @ dumps_at st lvl v @ dumps_items st lvl vs"
| "dumps_members st lvl [] = []"
| "dumps_members st lvl (kv # kvs) = '','' @ comma_ws st lvl @ str_lit (ensure_ascii st) (fst kv) @ '':''
     @ key_ws st @ dumps_at st lvl (snd kv) @ dumps_members st lvl kvs"

definition dumps :: "style \<Rightarrow> json \<Rightarrow> str" where
  "dumps st v = dumps_at st 0 v"

section \<open>Reading\<close>

datatype tok =
    TLBrace | TRBrace | TLBrack | TRBrack | TComma | TColon
  | TNull | TTrue | TFalse | TInt int | TFloat str | TStr str

definition json_ws :: "char \<Rightarrow> bool" where
  "json_ws c \<longleftrightarrow> c = CHR '' '' \<or> c = CHR 0x09 \<or> c = CHR 0x0A \<or> c = CHR 0x0D"

text \<open>The escape after a backslash: the character and what follows. A \<^verbatim>\<open>\u\<close>
  escape beyond U+00FF leaves the text type and is refused.\<close>

definition unescape :: "str \<Rightarrow> (char \<times> str) option" where
  "unescape s = (case s of
     [] \<Rightarrow> None
   | c # t \<Rightarrow>
       if c = CHR 0x22 \<or> c = CHR 0x5C \<or> c = CHR 0x2F then Some (c, t)
       else if c = CHR ''b'' then Some (CHR 0x08, t)
       else if c = CHR ''f'' then Some (CHR 0x0C, t)
       else if c = CHR ''n'' then Some (CHR 0x0A, t)
       else if c = CHR ''r'' then Some (CHR 0x0D, t)
       else if c = CHR ''t'' then Some (CHR 0x09, t)
       else if c = CHR ''u'' then
         (case t of
            a # b # h # l # t' \<Rightarrow>
              (if a = CHR ''0'' \<and> b = CHR ''0'' then
                 (case (hex_val h, hex_val l) of
                    (Some x, Some y) \<Rightarrow> Some (char_of (16 * x + y), t')
                  | _ \<Rightarrow> None)
               else None)
          | _ \<Rightarrow> None)
       else None)"

lemma unescape_shorter: "unescape s = Some (c, r) \<Longrightarrow> length r < length s"
  by (auto simp: unescape_def split: list.splits if_splits option.splits)

function lex_string :: "str \<Rightarrow> (str \<times> str) option" where
  "lex_string [] = None"
| "lex_string (c # s) =
     (if c = CHR 0x22 then Some ([], s)
      else if c = CHR 0x5C then
        (case unescape s of
           None \<Rightarrow> None
         | Some (d, r) \<Rightarrow> map_option (\<lambda>(x, y). (d # x, y)) (lex_string r))
      else if (of_char c :: nat) < 32 then None
      else map_option (\<lambda>(x, y). (c # x, y)) (lex_string s))"
  by pat_completeness auto
termination
  by (relation "measure length") (auto dest: unescape_shorter)

lemma lex_string_shorter: "lex_string s = Some (x, r) \<Longrightarrow> length r < length s"
proof (induction s arbitrary: x r rule: lex_string.induct)
  case (2 c s)
  show ?case
  proof (cases "c = CHR 0x22")
    case True
    with "2.prems" show ?thesis by simp
  next
    case q: False
    show ?thesis
    proof (cases "c = CHR 0x5C")
      case True
      with q "2.prems" obtain d r' y where u: "unescape s = Some (d, r')" and l: "lex_string r' = Some (y, r)"
        by (auto split: option.splits)
      have "length r < length r'" by (rule "2.IH"(1) [OF q True u refl l])
      with unescape_shorter [OF u] show ?thesis by simp
    next
      case False
      with q "2.prems" obtain y where n: "\<not> (of_char c :: nat) < 32" and l: "lex_string s = Some (y, r)"
        by (auto split: if_splits)
      have "length r < length s" by (rule "2.IH"(2) [OF q False n l])
      then show ?thesis by simp
    qed
  qed
qed simp

definition lex_number :: "str \<Rightarrow> (tok \<times> str) option" where
  "lex_number s = (let n = takeWhile num_char s; r = dropWhile num_char s in
     if int_lit n then
       Some (TInt (case n of c # t \<Rightarrow> if c = CHR ''-'' then - int (nat_of_digits t) else int (nat_of_digits n) | [] \<Rightarrow> 0), r)
     else if float_lit n then Some (TFloat n, r)
     else None)"

lemma no_empty_literal: "\<not> int_lit []" "\<not> float_lit []"
  by (simp_all add: int_lit_def float_lit_def digits_def)

lemma lex_number_shorter: "lex_number s = Some (t, r) \<Longrightarrow> length r < length s"
proof -
  assume a: "lex_number s = Some (t, r)"
  then have "takeWhile num_char s \<noteq> []"
    by (cases "takeWhile num_char s = []") (simp_all add: lex_number_def no_empty_literal)
  moreover have "r = dropWhile num_char s" using a by (auto simp: lex_number_def Let_def split: if_splits)
  moreover have "length s = length (takeWhile num_char s) + length (dropWhile num_char s)"
    by (metis length_append takeWhile_dropWhile_id)
  ultimately show ?thesis by (cases "takeWhile num_char s") auto
qed

definition punct :: "char \<Rightarrow> tok option" where
  "punct c = (if c = CHR ''{'' then Some TLBrace else if c = CHR ''}'' then Some TRBrace
     else if c = CHR ''['' then Some TLBrack else if c = CHR '']'' then Some TRBrack
     else if c = CHR '','' then Some TComma else if c = CHR '':'' then Some TColon else None)"

function lex :: "str \<Rightarrow> tok list option" where
  "lex [] = Some []"
| "lex (c # s) =
     (if json_ws c then lex s
      else case punct c of
        Some t \<Rightarrow> map_option (Cons t) (lex s)
      | None \<Rightarrow>
          (if c = CHR 0x22 then
             (case lex_string s of None \<Rightarrow> None | Some (x, r) \<Rightarrow> map_option (Cons (TStr x)) (lex r))
           else if prefix ''null'' (c # s) then map_option (Cons TNull) (lex (drop 3 s))
           else if prefix ''true'' (c # s) then map_option (Cons TTrue) (lex (drop 3 s))
           else if prefix ''false'' (c # s) then map_option (Cons TFalse) (lex (drop 4 s))
           else (case lex_number (c # s) of None \<Rightarrow> None | Some (t, r) \<Rightarrow> map_option (Cons t) (lex r))))"
  by pat_completeness auto
termination
  by (relation "measure length") (auto dest: lex_string_shorter lex_number_shorter)

text \<open>The parser spends one unit of fuel per call; \<open>loads\<close> gives it two units per token and
  two more, which is enough because every second call consumes a token.\<close>

fun parse :: "nat \<Rightarrow> tok list \<Rightarrow> (json \<times> tok list) option"
  and parse_items :: "nat \<Rightarrow> tok list \<Rightarrow> (json list \<times> tok list) option"
  and parse_members :: "nat \<Rightarrow> tok list \<Rightarrow> ((str \<times> json) list \<times> tok list) option" where
  "parse 0 ts = None"
| "parse (Suc f) ts = (case ts of
     TNull # r \<Rightarrow> Some (JNull, r)
   | TTrue # r \<Rightarrow> Some (JBool True, r)
   | TFalse # r \<Rightarrow> Some (JBool False, r)
   | TInt i # r \<Rightarrow> Some (JInt i, r)
   | TFloat x # r \<Rightarrow> Some (JFloat x, r)
   | TStr s # r \<Rightarrow> Some (JStr s, r)
   | TLBrack # TRBrack # r \<Rightarrow> Some (JList [], r)
   | TLBrack # r \<Rightarrow> map_option (\<lambda>(vs, r'). (JList vs, r')) (parse_items f r)
   | TLBrace # TRBrace # r \<Rightarrow> Some (JObj [], r)
   | TLBrace # r \<Rightarrow>
       map_option (\<lambda>(kvs, r'). (JObj (fold (\<lambda>(k, v). dict_set k v) kvs []), r')) (parse_members f r)
   | _ \<Rightarrow> None)"
| "parse_items 0 ts = None"
| "parse_items (Suc f) ts = (case parse f ts of
     None \<Rightarrow> None
   | Some (v, TComma # r) \<Rightarrow> map_option (\<lambda>(vs, r'). (v # vs, r')) (parse_items f r)
   | Some (v, TRBrack # r) \<Rightarrow> Some ([v], r)
   | Some _ \<Rightarrow> None)"
| "parse_members 0 ts = None"
| "parse_members (Suc f) ts = (case ts of
     TStr k # TColon # r \<Rightarrow>
       (case parse f r of
          None \<Rightarrow> None
        | Some (v, TComma # r') \<Rightarrow> map_option (\<lambda>(kvs, r''). ((k, v) # kvs, r'')) (parse_members f r')
        | Some (v, TRBrace # r') \<Rightarrow> Some ([(k, v)], r')
        | Some _ \<Rightarrow> None)
   | _ \<Rightarrow> None)"

definition loads :: "str \<Rightarrow> json option" where
  "loads s = (case lex s of
     None \<Rightarrow> None
   | Some ts \<Rightarrow> (case parse (2 * length ts + 2) ts of Some (v, []) \<Rightarrow> Some v | _ \<Rightarrow> None))"

section \<open>Round trip: lexing\<close>

fun toks :: "json \<Rightarrow> tok list"
  and toks_items :: "json list \<Rightarrow> tok list"
  and toks_members :: "(str \<times> json) list \<Rightarrow> tok list" where
  "toks JNull = [TNull]"
| "toks (JBool b) = [if b then TTrue else TFalse]"
| "toks (JInt i) = [TInt i]"
| "toks (JFloat r) = [TFloat r]"
| "toks (JStr s) = [TStr s]"
| "toks (JList vs) = TLBrack # (case vs of [] \<Rightarrow> [] | v # vs' \<Rightarrow> toks v @ toks_items vs') @ [TRBrack]"
| "toks (JObj kvs) = TLBrace # (case kvs of [] \<Rightarrow> []
     | kv # kvs' \<Rightarrow> TStr (fst kv) # TColon # toks (snd kv) @ toks_members kvs') @ [TRBrace]"
| "toks_items [] = []"
| "toks_items (v # vs) = TComma # toks v @ toks_items vs"
| "toks_members [] = []"
| "toks_members (kv # kvs) = TComma # TStr (fst kv) # TColon # toks (snd kv) @ toks_members kvs"

definition delim :: "str \<Rightarrow> bool" where
  "delim r \<longleftrightarrow> r = [] \<or> \<not> num_char (hd r)"

definition style_ok :: "style \<Rightarrow> bool" where
  "style_ok st \<longleftrightarrow> list_all json_ws (item_ws st) \<and> list_all json_ws (key_ws st)"

lemma style_ok_styles [simp]:
  "style_ok compact" "style_ok compact_unicode" "style_ok plain" "style_ok plain_unicode" "style_ok indent2"
  by (simp_all add: style_ok_def compact_def compact_unicode_def plain_def plain_unicode_def indent2_def json_ws_def)

lemma lex_ws: "list_all json_ws w \<Longrightarrow> lex (w @ r) = lex r"
  by (induction w) auto

lemma newline_ws: "list_all json_ws (newline st lvl)"
  by (auto simp: newline_def json_ws_def list_all_iff split: option.splits)

lemma comma_ws_ws: "style_ok st \<Longrightarrow> list_all json_ws (comma_ws st lvl)"
  by (auto simp: comma_ws_def style_ok_def newline_ws split: option.splits)

lemma json_ws_not_num: "json_ws c \<Longrightarrow> \<not> num_char c"
  by (auto simp: json_ws_def num_char_def is_digit_def)

lemma delim_ws: "list_all json_ws w \<Longrightarrow> delim r \<Longrightarrow> delim (w @ r)"
  by (cases w) (auto simp: delim_def dest: json_ws_not_num)

lemma delim_punct [simp]:
  "delim (CHR '']'' # r)" "delim (CHR ''}'' # r)" "delim (CHR '','' # r)" "delim []"
  by (simp_all add: delim_def num_char_def is_digit_def)

lemma delim_items: "delim r \<Longrightarrow> delim (dumps_items st lvl vs @ r)"
  by (cases vs) auto

lemma delim_members: "delim r \<Longrightarrow> delim (dumps_members st lvl kvs @ r)"
  by (cases kvs) auto

lemma lex_punct [simp]:
  "lex (CHR ''['' # r) = map_option (Cons TLBrack) (lex r)"
  "lex (CHR '']'' # r) = map_option (Cons TRBrack) (lex r)"
  "lex (CHR ''{'' # r) = map_option (Cons TLBrace) (lex r)"
  "lex (CHR ''}'' # r) = map_option (Cons TRBrace) (lex r)"
  "lex (CHR '','' # r) = map_option (Cons TComma) (lex r)"
  "lex (CHR '':'' # r) = map_option (Cons TColon) (lex r)"
  by (simp_all add: json_ws_def punct_def)

lemma lex_words [simp]:
  "lex (CHR ''n'' # CHR ''u'' # CHR ''l'' # CHR ''l'' # r) = map_option (Cons TNull) (lex r)"
  "lex (CHR ''t'' # CHR ''r'' # CHR ''u'' # CHR ''e'' # r) = map_option (Cons TTrue) (lex r)"
  "lex (CHR ''f'' # CHR ''a'' # CHR ''l'' # CHR ''s'' # CHR ''e'' # r) = map_option (Cons TFalse) (lex r)"
  by (simp_all add: json_ws_def punct_def)

lemma hex_char_pair: "n < 256 \<Longrightarrow> hex_val (hex_char (n div 16)) = Some (n div 16)"
  "hex_val (hex_char (n mod 16)) = Some (n mod 16)"
  by simp_all

lemma unescape_u:
  "unescape (CHR ''u'' # CHR ''0'' # CHR ''0'' # hex_char ((of_char c :: nat) div 16) # hex_char (of_char c mod 16) # r)
     = Some (c, r)"
  by (simp add: unescape_def hex_char_pair)

lemma char_code_eqs:
  "(of_char c :: nat) = 34 \<longleftrightarrow> c = CHR 0x22" "(of_char c :: nat) = 92 \<longleftrightarrow> c = CHR 0x5C"
  "(of_char c :: nat) = 8 \<longleftrightarrow> c = CHR 0x08" "(of_char c :: nat) = 9 \<longleftrightarrow> c = CHR 0x09"
  "(of_char c :: nat) = 10 \<longleftrightarrow> c = CHR 0x0A" "(of_char c :: nat) = 12 \<longleftrightarrow> c = CHR 0x0C"
  "(of_char c :: nat) = 13 \<longleftrightarrow> c = CHR 0x0D"
  using of_char_eq_iff [of c "CHR 0x22", where ?'a = nat] of_char_eq_iff [of c "CHR 0x5C", where ?'a = nat]
    of_char_eq_iff [of c "CHR 0x08", where ?'a = nat] of_char_eq_iff [of c "CHR 0x09", where ?'a = nat]
    of_char_eq_iff [of c "CHR 0x0A", where ?'a = nat] of_char_eq_iff [of c "CHR 0x0C", where ?'a = nat]
    of_char_eq_iff [of c "CHR 0x0D", where ?'a = nat]
  by simp_all

lemma lex_string_esc_char:
  "lex_string (esc_char asc c @ r) = map_option (\<lambda>(x, y). (c # x, y)) (lex_string r)"
proof (cases "(of_char c :: nat) \<in> {34, 92, 8, 9, 10, 12, 13}")
  case True
  then show ?thesis by (auto simp: esc_char_def char_code_eqs unescape_def)
next
  case False
  then have "c \<noteq> CHR 0x22" "c \<noteq> CHR 0x5C" by auto
  with False show ?thesis by (auto simp: esc_char_def Let_def unescape_u)
qed

lemma lex_string_str_lit:
  "lex_string (concat (map (esc_char asc) s) @ CHR 0x22 # r) = Some (s, r)"
  by (induction s) (simp_all add: lex_string_esc_char)

lemma lex_str_lit [simp]: "lex (str_lit asc s @ r) = map_option (Cons (TStr s)) (lex r)"
  by (simp add: str_lit_def json_ws_def punct_def lex_string_str_lit)

lemma takeWhile_num: "list_all num_char n \<Longrightarrow> delim r \<Longrightarrow> takeWhile num_char (n @ r) = n \<and> dropWhile num_char (n @ r) = r"
  by (induction n) (auto simp: delim_def hd_append takeWhile_eq_Nil_iff dropWhile_eq_self_iff)

lemma is_digit_num_char: "is_digit c \<Longrightarrow> num_char c"
  by (simp add: num_char_def)

lemma num_start:
  "is_digit c \<or> c = CHR ''-'' \<Longrightarrow> lex (c # s) = (case lex_number (c # s) of None \<Rightarrow> None | Some (t, r) \<Rightarrow> map_option (Cons t) (lex r))"
proof -
  assume "is_digit c \<or> c = CHR ''-''"
  then have "\<not> json_ws c" "punct c = None" "c \<noteq> CHR 0x22" "c \<noteq> CHR ''n''" "c \<noteq> CHR ''t''" "c \<noteq> CHR ''f''"
    by (auto simp: json_ws_def punct_def is_digit_def)
  then show ?thesis by simp
qed

declare lex.simps(2) [simp del]

lemma nat_str_lit: "digits (nat_str n) \<and> (length (nat_str n) = 1 \<or> hd (nat_str n) \<noteq> CHR ''0'')"
proof (cases "n = 0")
  case True
  then show ?thesis using nat_str_digits [of 0] by (subst (1 2 3) nat_str.simps) (simp add: digits_def)
next
  case False
  then show ?thesis using nat_str_digits [of n] nat_str_leading [of n] by (simp add: digits_def list_all_iff)
qed

lemma nat_str_hd_digit: "is_digit (hd (nat_str n))"
  using nat_str_digits [of n] hd_in_set [OF nat_str_nonempty] by blast

lemma int_str_lit: "int_lit (int_str i)" "list_all num_char (int_str i)"
  "is_digit (hd (int_str i)) \<or> hd (int_str i) = CHR ''-''"
proof -
  have d: "nat_str n = c # t \<Longrightarrow> c \<noteq> CHR ''-''" for n c t
    using nat_str_hd_digit [of n] is_digit_not_minus by fastforce
  show "int_lit (int_str i)"
    using nat_str_lit [of "nat (- i)"] nat_str_lit [of "nat i"] d [of "nat i"]
    by (cases "nat_str (nat i)") (auto simp: int_lit_def int_str_def)
  show "list_all num_char (int_str i)"
    using nat_str_digits by (auto simp: int_str_def list_all_iff num_char_def)
  show "is_digit (hd (int_str i)) \<or> hd (int_str i) = CHR ''-''"
    using nat_str_hd_digit by (simp add: int_str_def)
qed

lemma int_lit_value:
  "(case int_str i of c # t \<Rightarrow> if c = CHR ''-'' then - int (nat_of_digits t) else int (nat_of_digits (int_str i)) | [] \<Rightarrow> 0) = i"
proof (cases "i < 0")
  case False
  obtain c t where n: "nat_str (nat i) = c # t" by (cases "nat_str (nat i)") auto
  with nat_str_hd_digit [of "nat i"] have "c \<noteq> CHR ''-''" by (auto dest: is_digit_not_minus)
  moreover have "nat_of_digits (c # t) = nat i" using n nat_of_digits_nat_str [of "nat i"] by simp
  ultimately show ?thesis using False n by (simp add: int_str_def)
qed (simp add: int_str_def)

lemma lex_int: "delim r \<Longrightarrow> lex (int_str i @ r) = map_option (Cons (TInt i)) (lex r)"
proof -
  assume r: "delim r"
  obtain c t where n: "int_str i = c # t"
    by (cases "int_str i") (auto simp: int_str_def split: if_splits)
  have "lex_number (int_str i @ r) = Some (TInt i, r)"
    using takeWhile_num [OF int_str_lit(2) r, of i] int_str_lit(1) [of i] int_lit_value [of i]
    by (simp add: lex_number_def Let_def)
  then show ?thesis using int_str_lit(3) [of i] by (simp add: n num_start del: lex.simps)
qed

lemma float_lit_hd: "float_lit s \<Longrightarrow> is_digit (hd s) \<or> hd s = CHR ''-''"
proof -
  assume "float_lit s"
  then have i: "int_lit (takeWhile (\<lambda>c. c \<noteq> CHR ''.'') (takeWhile (\<lambda>c. \<not> is_exp c) s))"
    by (simp add: float_lit_def Let_def)
  have hd: "int_lit u \<Longrightarrow> u \<noteq> [] \<and> (is_digit (hd u) \<or> hd u = CHR ''-'')" for u
    by (cases u) (auto simp: int_lit_def digits_def list_all_iff split: if_splits)
  show ?thesis using hd [OF i] by (cases s) (auto split: if_splits)
qed

lemma lex_float:
  "float_lit x \<Longrightarrow> list_all num_char x \<Longrightarrow> \<not> int_lit x \<Longrightarrow> delim r \<Longrightarrow>
     lex (x @ r) = map_option (Cons (TFloat x)) (lex r)"
proof -
  assume a: "float_lit x" "list_all num_char x" "\<not> int_lit x" "delim r"
  obtain c t where n: "x = c # t" using a(1) no_empty_literal by (cases x) auto
  have "lex_number (x @ r) = Some (TFloat x, r)"
    using takeWhile_num [OF a(2,4)] a(1,3) by (simp add: lex_number_def Let_def)
  then show ?thesis using float_lit_hd [OF a(1)] by (simp add: n num_start del: lex.simps)
qed

lemma lex_dumps_gen:
  shows "style_ok st \<Longrightarrow> json_wf v \<Longrightarrow> delim r \<Longrightarrow>
      lex (dumps_at st lvl v @ r) = map_option (append (toks v)) (lex r)"
    and "style_ok st \<Longrightarrow> list_all json_wf vs \<Longrightarrow> delim r \<Longrightarrow>
      lex (dumps_items st lvl vs @ r) = map_option (append (toks_items vs)) (lex r)"
    and "style_ok st \<Longrightarrow> list_all (\<lambda>p. json_wf (snd p)) kvs \<Longrightarrow> delim r \<Longrightarrow>
      lex (dumps_members st lvl kvs @ r) = map_option (append (toks_members kvs)) (lex r)"
proof (induction st lvl v and st lvl vs and st lvl kvs arbitrary: r and r and r
    rule: dumps_at_dumps_items_dumps_members.induct)
  case (3 st lvl i)
  then show ?case by (simp add: lex_int map_option_case)
next
  case (4 st lvl x)
  then show ?case by (simp add: lex_float map_option_case)
next
  case (6 st lvl vs)
  show ?case
  proof (cases vs)
    case (Cons v vs')
    define rest where "rest = newline st lvl @ CHR '']'' # r"
    have "delim rest" by (simp add: rest_def delim_ws newline_ws)
    then have "lex (dumps_at st (Suc lvl) v @ dumps_items st (Suc lvl) vs' @ rest)
        = map_option (append (toks v)) (map_option (append (toks_items vs')) (lex rest))"
      using 6 Cons by (simp add: delim_items)
    then show ?thesis using Cons
      by (simp add: lex_ws newline_ws rest_def option.map_comp comp_def)
  qed (simp add: option.map_comp comp_def)
next
  case (7 st lvl kvs)
  show ?case
  proof (cases kvs)
    case (Cons kv kvs')
    define rest where "rest = newline st lvl @ CHR ''}'' # r"
    have "delim rest" by (simp add: rest_def delim_ws newline_ws)
    then have "lex (dumps_at st (Suc lvl) (snd kv) @ dumps_members st (Suc lvl) kvs' @ rest)
        = map_option (append (toks (snd kv))) (map_option (append (toks_members kvs')) (lex rest))"
      using 7 Cons by (simp add: delim_members)
    moreover have "list_all json_ws (key_ws st)" using 7 by (simp add: style_ok_def)
    ultimately show ?thesis using Cons
      by (simp add: lex_ws newline_ws rest_def option.map_comp comp_def)
  qed (simp add: option.map_comp comp_def)
next
  case (9 st lvl v vs)
  then show ?case
    by (simp add: lex_ws comma_ws_ws delim_items option.map_comp comp_def)
next
  case (11 st lvl kv kvs)
  moreover have "list_all json_ws (key_ws st)" using 11 by (simp add: style_ok_def)
  ultimately show ?case
    by (simp add: lex_ws comma_ws_ws delim_members option.map_comp comp_def)
qed (simp_all add: option.map_comp comp_def option.map_ident map_option_case split: option.split)

lemma lex_dumps: "style_ok st \<Longrightarrow> json_wf v \<Longrightarrow> lex (dumps st v) = Some (toks v)"
  using lex_dumps_gen(1) [of st v "[]" 0] by (simp add: dumps_def)

section \<open>Round trip: parsing\<close>

lemma toks_hd: "\<exists>t ts. toks v = t # ts \<and> t \<noteq> TRBrack \<and> t \<noteq> TRBrace"
  by (cases v) auto

lemma dict_set_new: "k \<notin> set (dict_keys d) \<Longrightarrow> dict_set k v d = d @ [(k, v)]"
  by (induction d) auto

lemma fold_dict_set:
  "distinct (dict_keys (acc @ kvs)) \<Longrightarrow> fold (\<lambda>(k, v). dict_set k v) kvs acc = acc @ kvs"
  by (induction kvs arbitrary: acc) (auto simp: dict_set_new)

lemma parse_items_cons:
  "parse f (toks v @ ts) = Some (v, ts) \<Longrightarrow> ts = TComma # r \<Longrightarrow> parse_items f r = Some (vs, r') \<Longrightarrow>
     parse_items (Suc f) (toks v @ ts) = Some (v # vs, r')"
  by simp

lemma parse_brack: "parse_items f (toks v @ r) = Some (vs, r') \<Longrightarrow>
    parse (Suc f) (TLBrack # toks v @ r) = Some (JList vs, r')"
  using toks_hd [of v] by (auto split: tok.splits)

definition reads :: "json \<Rightarrow> bool" where
  "reads v \<longleftrightarrow> (\<forall>f r. 2 * length (toks v) \<le> f \<longrightarrow> parse f (toks v @ r) = Some (v, r))"

lemma readsD: "reads v \<Longrightarrow> 2 * length (toks v) \<le> f \<Longrightarrow> parse f (toks v @ r) = Some (v, r)"
  by (simp add: reads_def)

lemma reads_atom: "(\<And>g r. parse (Suc g) (toks v @ r) = Some (v, r)) \<Longrightarrow> reads v"
proof -
  assume a: "\<And>g r. parse (Suc g) (toks v @ r) = Some (v, r)"
  have "toks v \<noteq> []" using toks_hd [of v] by auto
  then have "2 * length (toks v) \<le> f \<Longrightarrow> \<exists>g. f = Suc g" for f by (cases f) auto
  with a show ?thesis unfolding reads_def by metis
qed

lemma parse_toks:
  shows "json_wf v \<Longrightarrow> reads v"
    and "list_all json_wf vs \<Longrightarrow> \<forall>v0 f r. reads v0 \<longrightarrow> 2 * (length (toks v0) + length (toks_items vs)) < f \<longrightarrow>
      parse_items f (toks v0 @ toks_items vs @ TRBrack # r) = Some (v0 # vs, r)"
    and "list_all (\<lambda>p. json_wf (snd p)) kvs \<Longrightarrow>
      \<forall>k v0 f r. reads v0 \<longrightarrow> 2 * (length (toks v0) + length (toks_members kvs)) < f \<longrightarrow>
      parse_members f (TStr k # TColon # toks v0 @ toks_members kvs @ TRBrace # r) = Some ((k, v0) # kvs, r)"
proof (induction v and vs and kvs rule: toks_toks_items_toks_members.induct)
  case (6 vs)
  show ?case
  proof (cases vs)
    case Nil
    then show ?thesis by (intro reads_atom) simp
  next
    case (Cons v vs')
    show ?thesis unfolding reads_def
    proof (intro allI impI)
      fix f r assume "2 * length (toks (JList vs)) \<le> f"
      then obtain g where g: "f = Suc g" "2 * (length (toks v) + length (toks_items vs')) < g"
        using Cons by (cases f) auto
      have "parse_items g (toks v @ toks_items vs' @ TRBrack # r) = Some (v # vs', r)"
        using 6 Cons g(2) by simp
      then have "parse (Suc g) (TLBrack # toks v @ toks_items vs' @ TRBrack # r) = Some (JList (v # vs'), r)"
        by (rule parse_brack)
      then show "parse f (toks (JList vs) @ r) = Some (JList vs, r)"
        using Cons g(1) by (simp del: parse.simps)
    qed
  qed
next
  case (7 kvs)
  show ?case
  proof (cases kvs)
    case Nil
    then show ?thesis by (intro reads_atom) simp
  next
    case (Cons kv kvs')
    show ?thesis unfolding reads_def
    proof (intro allI impI)
      fix f r assume "2 * length (toks (JObj kvs)) \<le> f"
      then obtain g where g: "f = Suc g" "2 * (length (toks (snd kv)) + length (toks_members kvs')) < g"
        using Cons by (cases f) auto
      have "parse_members g (TStr (fst kv) # TColon # toks (snd kv) @ toks_members kvs' @ TRBrace # r)
          = Some (kvs, r)"
        using 7 Cons g(2) by simp
      moreover have "fold (\<lambda>(k, v). dict_set k v) kvs [] = kvs"
        using "7.prems" fold_dict_set [of "[]" kvs] by simp
      ultimately show "parse f (toks (JObj kvs) @ r) = Some (JObj kvs, r)"
        using Cons g(1) by simp
    qed
  qed
next
  case (8)
  show ?case
  proof (intro allI impI)
    fix v0 f r assume "reads v0" "2 * (length (toks v0) + length (toks_items [])) < f"
    then show "parse_items f (toks v0 @ toks_items [] @ TRBrack # r) = Some ([v0], r)"
      by (cases f) (simp_all add: readsD)
  qed
next
  case (9 v vs)
  show ?case
  proof (intro allI impI)
    fix v0 f r assume a: "reads v0" "2 * (length (toks v0) + length (toks_items (v # vs))) < f"
    then show "parse_items f (toks v0 @ toks_items (v # vs) @ TRBrack # r) = Some (v0 # v # vs, r)"
      using 9 by (cases f) (simp_all add: readsD)
  qed
next
  case (10)
  show ?case
  proof (intro allI impI)
    fix k v0 f r assume "reads v0" "2 * (length (toks v0) + length (toks_members [])) < f"
    then show "parse_members f (TStr k # TColon # toks v0 @ toks_members [] @ TRBrace # r) = Some ([(k, v0)], r)"
      by (cases f) (simp_all add: readsD)
  qed
next
  case (11 kv kvs)
  show ?case
  proof (intro allI impI)
    fix k v0 f r assume a: "reads v0" "2 * (length (toks v0) + length (toks_members (kv # kvs))) < f"
    then show "parse_members f (TStr k # TColon # toks v0 @ toks_members (kv # kvs) @ TRBrace # r)
        = Some ((k, v0) # kv # kvs, r)"
      using 11 by (cases f) (simp_all add: readsD)
  qed
qed (rule reads_atom; simp)+

lemma loads_dumps: "style_ok st \<Longrightarrow> json_wf v \<Longrightarrow> loads (dumps st v) = Some v"
  using readsD [OF parse_toks(1), of v "2 * length (toks v) + 2" "[]"] by (simp add: loads_def lex_dumps)

lemma dumps_inject:
  "style_ok st \<Longrightarrow> json_wf v \<Longrightarrow> json_wf w \<Longrightarrow> dumps st v = dumps st w \<longleftrightarrow> v = w"
  by (metis loads_dumps option.inject)

section \<open>Sorted keys\<close>

lemma json_wf_sort [simp]: "json_wf v \<Longrightarrow> json_wf (sort_json v)"
proof (induction v rule: sort_json.induct)
  case (2 kvs)
  let ?l = "map (\<lambda>p. (fst p, sort_json (snd p))) kvs"
  have "distinct (map fst (sort_key fst ?l))"
    using 2(2) by (simp add: distinct_map comp_def) (auto simp: distinct_map inj_on_def)
  moreover have "\<forall>p \<in> set (sort_key fst ?l). json_wf (snd p)"
    using 2 by (auto simp: list_all_iff)
  ultimately show ?case by (simp add: list_all_iff)
qed (auto simp: list_all_iff)

text \<open>Python compares dictionaries without regard to order; two values are equal in that sense
  when sorting makes them identical.\<close>

definition json_eq :: "json \<Rightarrow> json \<Rightarrow> bool" where
  "json_eq v w \<longleftrightarrow> sort_json v = sort_json w"

lemma dict_get_iff: "distinct (dict_keys d) \<Longrightarrow> dict_get d k = Some v \<longleftrightarrow> (k, v) \<in> set d"
  by (auto intro: dict_get_in dest: dict_get_Some_in)

lemma dict_get_same_set:
  assumes "distinct (dict_keys d)" "distinct (dict_keys d')" "set d = set d'"
  shows "dict_get d k = dict_get d' k"
proof (cases "dict_get d k")
  case None
  then show ?thesis using assms(3) by (metis dict_get_None list.set_map)
next
  case (Some v)
  then show ?thesis using assms by (metis dict_get_iff)
qed

lemma dict_get_map: "dict_get (map (\<lambda>p. (fst p, f (snd p))) d) k = map_option f (dict_get d k)"
  by (induction d) auto

lemma sort_json_obj_get:
  assumes "sort_json (JObj d) = sort_json (JObj d')" "distinct (dict_keys d)" "distinct (dict_keys d')"
  shows "map_option sort_json (dict_get d k) = map_option sort_json (dict_get d' k)"
proof -
  let ?m = "map (\<lambda>p. (fst p, sort_json (snd p)))"
  have "sort_key fst (?m d) = sort_key fst (?m d')" using assms(1) by simp
  then have "set (sort_key fst (?m d)) = set (sort_key fst (?m d'))" by (rule arg_cong)
  then have "set (?m d) = set (?m d')" by (simp only: set_sort)
  then have "dict_get (?m d) k = dict_get (?m d') k"
    using assms(2,3) by (intro dict_get_same_set) (simp_all add: comp_def)
  then show ?thesis by (simp add: dict_get_map)
qed

lemma dumps_sorted_inject:
  "style_ok st \<Longrightarrow> json_wf v \<Longrightarrow> json_wf w \<Longrightarrow> dumps st (sort_json v) = dumps st (sort_json w) \<longleftrightarrow> json_eq v w"
  by (simp add: dumps_inject json_eq_def)

section \<open>Reading fields of an object\<close>

text \<open>\<^verbatim>\<open>d["k"]\<close> where the code relies on the type of the value.\<close>

definition get_str :: "(str, json) dict \<Rightarrow> str \<Rightarrow> str result" where
  "get_str d k = (case dict_get d k of
     None \<Rightarrow> Raise (KeyError k)
   | Some v \<Rightarrow> (case v of JStr s \<Rightarrow> Ok s | _ \<Rightarrow> Raise (TypeError k)))"

definition get_bool :: "(str, json) dict \<Rightarrow> str \<Rightarrow> bool result" where
  "get_bool d k = (case dict_get d k of
     None \<Rightarrow> Raise (KeyError k)
   | Some v \<Rightarrow> (case v of JBool b \<Rightarrow> Ok b | _ \<Rightarrow> Raise (TypeError k)))"

definition get_obj :: "(str, json) dict \<Rightarrow> str \<Rightarrow> (str, json) dict result" where
  "get_obj d k = (case dict_get d k of
     None \<Rightarrow> Raise (KeyError k)
   | Some v \<Rightarrow> (case v of JObj o' \<Rightarrow> Ok o' | _ \<Rightarrow> Raise (TypeError k)))"

lemma get_simps [simp]:
  "dict_get d k = Some (JStr s) \<Longrightarrow> get_str d k = Ok s"
  "dict_get d k = Some (JBool b) \<Longrightarrow> get_bool d k = Ok b"
  "dict_get d k = Some (JObj o') \<Longrightarrow> get_obj d k = Ok o'"
  by (simp_all add: get_str_def get_bool_def get_obj_def)

text \<open>Truth of a JSON value as Python's \<^verbatim>\<open>if\<close> takes it.\<close>

fun json_truthy :: "json \<Rightarrow> bool" where
  "json_truthy JNull = False"
| "json_truthy (JBool b) = b"
| "json_truthy (JInt i) = (i \<noteq> 0)"
| "json_truthy (JFloat r) = (\<exists>c \<in> set (takeWhile (\<lambda>c. \<not> is_exp c) r). is_digit c \<and> c \<noteq> CHR ''0'')"
| "json_truthy (JStr s) = (s \<noteq> [])"
| "json_truthy (JList vs) = (vs \<noteq> [])"
| "json_truthy (JObj kvs) = (kvs \<noteq> [])"

end
