(* ===== verification/DataModel.thy ===== *)
theory DataModel
  imports Json
begin

text \<open>
  The frozen dataclasses and enumerations of \<^verbatim>\<open>kernel/core/data_model.py\<close> and the
  data of \<^verbatim>\<open>kernel/core/contracts.py\<close>. A dataclass is a record, an enumeration a
  datatype whose constructors carry a prefix for the class; \<open>*_value\<close> is the enumeration's
  \<^verbatim>\<open>.value\<close>. A constructor with a \<^verbatim>\<open>__post_init__\<close> check is a
  \<open>mk_*\<close> function that raises or returns the record. Identifiers and time stamps that the code
  draws at random or from the clock are ordinary fields.
\<close>

section \<open>Enumerations\<close>

datatype ExtractionStatus = ES_SUGGESTED | ES_ACCEPTED | ES_EDITED | ES_REJECTED | ES_BLOCKED | ES_PENDING_REVIEW

fun ExtractionStatus_value :: "ExtractionStatus \<Rightarrow> str" where
  "ExtractionStatus_value ES_SUGGESTED = ''suggested''"
| "ExtractionStatus_value ES_ACCEPTED = ''accepted''"
| "ExtractionStatus_value ES_EDITED = ''edited''"
| "ExtractionStatus_value ES_REJECTED = ''rejected''"
| "ExtractionStatus_value ES_BLOCKED = ''blocked''"
| "ExtractionStatus_value ES_PENDING_REVIEW = ''pending_review''"

definition ExtractionStatus_all :: "ExtractionStatus list" where
  "ExtractionStatus_all = [ES_SUGGESTED, ES_ACCEPTED, ES_EDITED, ES_REJECTED, ES_BLOCKED, ES_PENDING_REVIEW]"

text \<open>\<^verbatim>\<open>ExtractionStatus(v)\<close>: the member with that value, or a \<^verbatim>\<open>ValueError\<close>.\<close>

definition ExtractionStatus_of :: "str \<Rightarrow> ExtractionStatus result" where
  "ExtractionStatus_of v = (case find (\<lambda>s. ExtractionStatus_value s = v) ExtractionStatus_all of
     Some s \<Rightarrow> Ok s | None \<Rightarrow> Raise (ValueError v))"

lemma ExtractionStatus_of_value [simp]: "ExtractionStatus_of (ExtractionStatus_value s) = Ok s"
  by (cases s) (simp_all add: ExtractionStatus_of_def ExtractionStatus_all_def)

datatype GroundingMethod = GM_EXACT | GM_FUZZY | GM_SEMANTIC | GM_VISUAL | GM_BLOCK

fun GroundingMethod_value :: "GroundingMethod \<Rightarrow> str" where
  "GroundingMethod_value GM_EXACT = ''exact''"
| "GroundingMethod_value GM_FUZZY = ''fuzzy''"
| "GroundingMethod_value GM_SEMANTIC = ''semantic''"
| "GroundingMethod_value GM_VISUAL = ''visual''"
| "GroundingMethod_value GM_BLOCK = ''block''"

datatype ActionKind = AK_READ | AK_SUGGEST

fun ActionKind_value :: "ActionKind \<Rightarrow> str" where
  "ActionKind_value AK_READ = ''read''"
| "ActionKind_value AK_SUGGEST = ''suggest''"

datatype ActionStatus = AS_PENDING | AS_CONFIRMED | AS_APPLIED | AS_REJECTED | AS_REFUSED

fun ActionStatus_value :: "ActionStatus \<Rightarrow> str" where
  "ActionStatus_value AS_PENDING = ''pending''"
| "ActionStatus_value AS_CONFIRMED = ''confirmed''"
| "ActionStatus_value AS_APPLIED = ''applied''"
| "ActionStatus_value AS_REJECTED = ''rejected''"
| "ActionStatus_value AS_REFUSED = ''refused''"

datatype ClassificationMarking = CM_UNCLASSIFIED | CM_CONFIDENTIAL | CM_SECRET | CM_TOP_SECRET

fun ClassificationMarking_value :: "ClassificationMarking \<Rightarrow> str" where
  "ClassificationMarking_value CM_UNCLASSIFIED = ''UNCLASSIFIED''"
| "ClassificationMarking_value CM_CONFIDENTIAL = ''CONFIDENTIAL''"
| "ClassificationMarking_value CM_SECRET = ''SECRET''"
| "ClassificationMarking_value CM_TOP_SECRET = ''TOP_SECRET''"

section \<open>Graph nodes\<close>

record BBox =
  bx0 :: real
  by0 :: real
  bx1 :: real
  by1 :: real

definition mk_bbox :: "real \<Rightarrow> real \<Rightarrow> real \<Rightarrow> real \<Rightarrow> BBox result" where
  "mk_bbox x0 y0 x1 y1 =
     (if x0 > x1 \<or> y0 > y1 then Raise (ValueError ''Invalid bbox'')
      else Ok \<lparr>bx0 = x0, by0 = y0, bx1 = x1, by1 = y1\<rparr>)"

definition bbox_ok :: "BBox \<Rightarrow> bool" where
  "bbox_ok b \<longleftrightarrow> bx0 b \<le> bx1 b \<and> by0 b \<le> by1 b"

lemma mk_bbox_ok: "mk_bbox x0 y0 x1 y1 = Ok b \<Longrightarrow> bbox_ok b"
  by (auto simp: mk_bbox_def bbox_ok_def split: if_splits)

record Document =
  doc_id :: str
  source_path :: str
  doc_sha256 :: str
  page_count :: int
  ingested_at :: str

record Page =
  page_doc_id :: str
  page_index :: int
  width_px :: int
  height_px :: int
  image_sha256 :: str

record Chunk =
  chunk_id :: str
  chunk_doc_id :: str
  chunk_page :: int
  chunk_bbox :: "BBox option"
  chunk_text :: str
  source_type :: str
  embedding :: "real list"

definition mk_chunk :: "str \<Rightarrow> str \<Rightarrow> int \<Rightarrow> BBox option \<Rightarrow> str \<Rightarrow> str \<Rightarrow> real list \<Rightarrow> Chunk result" where
  "mk_chunk cid did page bbox txt st emb =
     (if page < 0 then Raise (ValueError (''page must be >= 0, got '' @ int_str page))
      else Ok \<lparr>chunk_id = cid, chunk_doc_id = did, chunk_page = page, chunk_bbox = bbox,
               chunk_text = txt, source_type = st, embedding = emb\<rparr>)"

record Entity =
  entity_id :: str
  entity_kind :: str
  entity_value :: str
  normalized :: str

record ModelVersion =
  mv_model_id :: str
  mv_name :: str
  weights_hash :: str
  mv_tier :: int

record Anchor =
  anchor_chunk_id :: str
  char_span :: "int \<times> int"
  anchor_page :: int
  anchor_bbox :: "BBox option"

record Extraction =
  ext_id :: str
  pack_id :: str
  field_name :: str
  ext_value :: str
  source_span :: str
  confidence :: real
  model_version :: str
  ext_status :: ExtractionStatus
  ext_chunk_id :: str
  ext_method :: GroundingMethod
  anchors :: "Anchor list"

record Correction =
  corr_id :: str
  corr_ext_id :: str
  original :: str
  corrected :: str
  reason :: str
  corr_by :: str
  corr_at :: str

record Action =
  action_id :: str
  action_ext_id :: str
  action_kind :: ActionKind
  target_app :: str
  payload :: "(str, json) dict"
  action_confidence :: real
  action_status :: ActionStatus

record User =
  user_id :: str

section \<open>The provenance chain\<close>

record Chain =
  chain_action :: "Action option"
  chain_extraction :: "Extraction option"
  chain_chunk :: "Chunk option"
  chain_document :: "Document option"

definition empty_chain :: Chain where
  "empty_chain = \<lparr>chain_action = None, chain_extraction = None, chain_chunk = None, chain_document = None\<rparr>"

definition chain_is_complete :: "Chain \<Rightarrow> bool" where
  "chain_is_complete ch =
     (case (chain_document ch, chain_chunk ch) of
        (Some d, Some c) \<Rightarrow>
          (case chain_extraction ch of
             None \<Rightarrow> False
           | Some e \<Rightarrow>
               if chunk_doc_id c \<noteq> doc_id d then False
               else if ext_chunk_id e \<noteq> chunk_id c then False
               else chunk_bbox c \<noteq> None)
      | _ \<Rightarrow> False)"

lemma chain_is_complete_iff:
  "chain_is_complete ch \<longleftrightarrow>
     (\<exists>e c d. chain_extraction ch = Some e \<and> chain_chunk ch = Some c \<and> chain_document ch = Some d \<and>
        chunk_doc_id c = doc_id d \<and> ext_chunk_id e = chunk_id c \<and> chunk_bbox c \<noteq> None)"
  by (auto simp: chain_is_complete_def split: option.splits)

lemma empty_chain_incomplete [simp]: "\<not> chain_is_complete empty_chain"
  by (simp add: chain_is_complete_def empty_chain_def)

section \<open>Traces, answers, suggestions\<close>

text \<open>\<^verbatim>\<open>Any\<close> data of a stage is a JSON value, \<open>JNull\<close> being \<^verbatim>\<open>None\<close>.\<close>

record TraceStage =
  stage_name :: str
  input_data :: json
  output_data :: json
  duration_ms :: real
  stage_status :: str

record Trace =
  stages :: "TraceStage list"
  halted :: bool
  halt_reason :: str
  trace_extractions :: "Extraction list"

definition trace_is_complete :: "Trace \<Rightarrow> bool" where
  "trace_is_complete t \<longleftrightarrow> length (stages t) > 0 \<and>
     list_all (\<lambda>s. input_data s \<noteq> JNull \<and> output_data s \<noteq> JNull) (stages t)"

record Answer =
  answer_id :: str
  query :: str
  answer_text :: str
  citations :: "Anchor list"
  grounded :: bool
  refused :: bool
  refusal_stage :: str
  refusal_reason :: str
  refusal_suggestion :: str

record Suggestion =
  sugg_action :: Action
  sugg_provenance :: Chain
  sugg_confidence :: real
  display_text :: str

section \<open>Contracts\<close>

text \<open>\<^verbatim>\<open>InferenceTier\<close> is an \<^verbatim>\<open>IntEnum\<close>: its members are ordered as integers.\<close>

datatype InferenceTier = TIER1_LOCAL | TIER3_CLOUD

fun InferenceTier_value :: "InferenceTier \<Rightarrow> int" where
  "InferenceTier_value TIER1_LOCAL = 1"
| "InferenceTier_value TIER3_CLOUD = 3"

lemma InferenceTier_value_inject: "InferenceTier_value a = InferenceTier_value b \<longleftrightarrow> a = b"
  by (cases a; cases b) simp_all

instantiation InferenceTier :: linorder
begin

definition less_eq_InferenceTier :: "InferenceTier \<Rightarrow> InferenceTier \<Rightarrow> bool" where
  "less_eq_InferenceTier a b \<longleftrightarrow> InferenceTier_value a \<le> InferenceTier_value b"

definition less_InferenceTier :: "InferenceTier \<Rightarrow> InferenceTier \<Rightarrow> bool" where
  "less_InferenceTier a b \<longleftrightarrow> InferenceTier_value a < InferenceTier_value b"

instance
  by standard (auto simp: less_eq_InferenceTier_def less_InferenceTier_def InferenceTier_value_inject)

end

record InferenceResult =
  result_text :: str
  result_call_id :: str

record ScanResult =
  scan_blocked :: bool
  scan_reasons :: "str list"

datatype GateVerdict = GV_PASS | GV_FLAG | GV_BLOCK

fun GateVerdict_value :: "GateVerdict \<Rightarrow> str" where
  "GateVerdict_value GV_PASS = ''pass''"
| "GateVerdict_value GV_FLAG = ''flag''"
| "GateVerdict_value GV_BLOCK = ''block''"

record GateResult =
  verdict :: GateVerdict
  calibrated_confidence :: real
  gate_reasons :: "str list"

record ApplyResult =
  success :: bool
  post_state :: json
  apply_error :: "str option"

section \<open>Sample nodes\<close>

text \<open>A one-page invoice with one line of text and one field read from it, used by the concrete
  instances of the properties.\<close>

definition sample_box :: BBox where
  "sample_box = \<lparr>bx0 = 10, by0 = 20, bx1 = 110, by1 = 40\<rparr>"

definition sample_doc :: Document where
  "sample_doc = \<lparr>doc_id = ''d1'', source_path = ''invoice.pdf'', doc_sha256 = ''00'', page_count = 1,
     ingested_at = ''2026-01-01T00:00:00+00:00''\<rparr>"

definition sample_chunk :: Chunk where
  "sample_chunk = \<lparr>chunk_id = ''c1'', chunk_doc_id = ''d1'', chunk_page = 1, chunk_bbox = Some sample_box,
     chunk_text = ''Total due: 420 EUR'', source_type = ''text'', embedding = []\<rparr>"

definition sample_ext :: Extraction where
  "sample_ext = \<lparr>ext_id = ''e1'', pack_id = ''invoice'', field_name = ''total'', ext_value = ''420 EUR'',
     source_span = ''total DUE'', confidence = 9 / 10, model_version = ''m'', ext_status = ES_SUGGESTED,
     ext_chunk_id = ''c1'', ext_method = GM_BLOCK, anchors = []\<rparr>"

lemmas sample_defs = sample_box_def sample_doc_def sample_chunk_def sample_ext_def

end
