(* ===== verification/Provenance.thy ===== *)
theory Provenance
  imports DataModel
begin

text \<open>
  \<^verbatim>\<open>kernel/core/provenance.py\<close>: the in-memory registry of documents, chunks,
  extractions and actions, and the resolution of a provenance chain. The four private
  dictionaries are association lists in insertion order, because
  \<^verbatim>\<open>chunks_for_doc\<close> returns the chunks in that order. The class decorator
  \<^verbatim>\<open>synchronized_class\<close> makes each public method one atomic step; \<open>prov_step\<close> is
  the relation of those steps and \<open>prov_reachable\<close> the states a log can get into.
\<close>

section \<open>State and operations\<close>

record ProvenanceLog =
  pl_documents :: "(str, Document) dict"
  pl_chunks :: "(str, Chunk) dict"
  pl_extractions :: "(str, Extraction) dict"
  pl_actions :: "(str, Action) dict"

definition empty_log :: ProvenanceLog where
  "empty_log = \<lparr>pl_documents = [], pl_chunks = [], pl_extractions = [], pl_actions = []\<rparr>"

definition register_document :: "Document \<Rightarrow> ProvenanceLog \<Rightarrow> ProvenanceLog" where
  "register_document doc pl = pl\<lparr>pl_documents := dict_set (doc_id doc) doc (pl_documents pl)\<rparr>"

definition register_chunk :: "Chunk \<Rightarrow> ProvenanceLog \<Rightarrow> ProvenanceLog result" where
  "register_chunk chunk pl =
     (if chunk_bbox chunk = None
      then Raise (ValueError (''Chunk '' @ chunk_id chunk @ '' has no bbox''))
      else Ok (pl\<lparr>pl_chunks := dict_set (chunk_id chunk) chunk (pl_chunks pl)\<rparr>))"

definition register_extraction :: "Extraction \<Rightarrow> ProvenanceLog \<Rightarrow> ProvenanceLog" where
  "register_extraction e pl = pl\<lparr>pl_extractions := dict_set (ext_id e) e (pl_extractions pl)\<rparr>"

definition register_action :: "Action \<Rightarrow> ProvenanceLog \<Rightarrow> ProvenanceLog" where
  "register_action a pl = pl\<lparr>pl_actions := dict_set (action_id a) a (pl_actions pl)\<rparr>"

definition chunks_for_doc :: "ProvenanceLog \<Rightarrow> str \<Rightarrow> Chunk list" where
  "chunks_for_doc pl did = filter (\<lambda>c. chunk_doc_id c = did) (dict_values (pl_chunks pl))"

definition all_chunks :: "ProvenanceLog \<Rightarrow> Chunk list" where
  "all_chunks pl = dict_values (pl_chunks pl)"

definition get_provenance :: "ProvenanceLog \<Rightarrow> str \<Rightarrow> Chain" where
  "get_provenance pl eid =
     (let walk = (\<lambda>action extraction.
            let chunk = (case extraction of None \<Rightarrow> None | Some e \<Rightarrow> dict_get (pl_chunks pl) (ext_chunk_id e));
                document = (case chunk of None \<Rightarrow> None | Some c \<Rightarrow> dict_get (pl_documents pl) (chunk_doc_id c))
            in \<lparr>chain_action = action, chain_extraction = extraction, chain_chunk = chunk,
                chain_document = document\<rparr>)
      in case dict_get (pl_actions pl) eid of
           Some a \<Rightarrow> walk (Some a) (dict_get (pl_extractions pl) (action_ext_id a))
         | None \<Rightarrow>
             (case dict_get (pl_extractions pl) eid of
                Some e \<Rightarrow> walk None (Some e)
              | None \<Rightarrow> empty_chain))"

definition ungrounded_of :: "ProvenanceLog \<Rightarrow> Extraction list \<Rightarrow> str list" where
  "ungrounded_of pl exts =
     fold (\<lambda>e acc. if \<not> chain_is_complete (get_provenance pl (ext_id e)) then acc @ [ext_id e] else acc) exts []"

definition verify_provenance_coverage :: "ProvenanceLog \<Rightarrow> Extraction list \<Rightarrow> real \<times> str list" where
  "verify_provenance_coverage pl exts =
     (if exts = [] then (100, [])
      else let ungrounded = ungrounded_of pl exts;
               total = length exts;
               grounded = int total - int (length ungrounded)
           in (real_of_int grounded / real total * 100, ungrounded))"

definition prov_stats :: "ProvenanceLog \<Rightarrow> (str, nat) dict" where
  "prov_stats pl = [(''documents'', length (pl_documents pl)), (''chunks'', length (pl_chunks pl)),
     (''extractions'', length (pl_extractions pl)), (''actions'', length (pl_actions pl))]"

section \<open>Reachable logs and the invariant\<close>

inductive prov_step :: "ProvenanceLog \<Rightarrow> ProvenanceLog \<Rightarrow> bool" where
  document: "prov_step pl (register_document d pl)"
| chunk: "register_chunk c pl = Ok pl' \<Longrightarrow> prov_step pl pl'"
| extraction: "prov_step pl (register_extraction e pl)"
| action: "prov_step pl (register_action a pl)"

inductive prov_reachable :: "ProvenanceLog \<Rightarrow> bool" where
  init: "prov_reachable empty_log"
| step: "prov_reachable pl \<Longrightarrow> prov_step pl pl' \<Longrightarrow> prov_reachable pl'"

inductive_cases prov_stepE: "prov_step pl pl'"

definition keyed_by :: "('v \<Rightarrow> str) \<Rightarrow> (str, 'v) dict \<Rightarrow> bool" where
  "keyed_by key d \<longleftrightarrow> distinct (dict_keys d) \<and> list_all (\<lambda>p. key (snd p) = fst p) d"

definition prov_inv :: "ProvenanceLog \<Rightarrow> bool" where
  "prov_inv pl \<longleftrightarrow> keyed_by doc_id (pl_documents pl) \<and> keyed_by chunk_id (pl_chunks pl) \<and>
     keyed_by ext_id (pl_extractions pl) \<and> keyed_by action_id (pl_actions pl) \<and>
     list_all (\<lambda>p. chunk_bbox (snd p) \<noteq> None) (pl_chunks pl)"

lemma keyed_by_set [simp]: "keyed_by key d \<Longrightarrow> keyed_by key (dict_set (key v) v d)"
  using set_dict_set_subset [of "key v" v d] by (fastforce simp: keyed_by_def list_all_iff)

lemma keyed_by_get: "keyed_by key d \<Longrightarrow> dict_get d k = Some v \<Longrightarrow> key v = k"
  by (auto simp: keyed_by_def list_all_iff dest!: dict_get_Some_in)

lemma prov_inv_empty: "prov_inv empty_log"
  by (simp add: prov_inv_def empty_log_def keyed_by_def)

lemma prov_inv_step: "prov_step pl pl' \<Longrightarrow> prov_inv pl \<Longrightarrow> prov_inv pl'"
proof (induction rule: prov_step.induct)
  case (chunk c pl pl')
  then show ?case using set_dict_set_subset [of "chunk_id c" c "pl_chunks pl"]
    by (fastforce simp: prov_inv_def register_chunk_def list_all_iff split: if_splits)
qed (auto simp: prov_inv_def register_document_def register_extraction_def register_action_def)

lemma prov_inv_reachable: "prov_reachable pl \<Longrightarrow> prov_inv pl"
  by (induction rule: prov_reachable.induct) (auto intro: prov_inv_empty prov_inv_step)

section \<open>Resolution\<close>

text \<open>The extraction an entity identifier stands for: that of the action of that name, else the
  extraction of that name.\<close>

definition resolves_to :: "ProvenanceLog \<Rightarrow> str \<Rightarrow> Extraction option" where
  "resolves_to pl eid = (case dict_get (pl_actions pl) eid of
     Some a \<Rightarrow> dict_get (pl_extractions pl) (action_ext_id a)
   | None \<Rightarrow> dict_get (pl_extractions pl) eid)"

lemma get_provenance_parts:
  "chain_extraction (get_provenance pl eid) = resolves_to pl eid"
  "chain_chunk (get_provenance pl eid) =
     (case resolves_to pl eid of None \<Rightarrow> None | Some e \<Rightarrow> dict_get (pl_chunks pl) (ext_chunk_id e))"
  "chain_document (get_provenance pl eid) =
     (case chain_chunk (get_provenance pl eid) of None \<Rightarrow> None
      | Some c \<Rightarrow> dict_get (pl_documents pl) (chunk_doc_id c))"
  by (auto simp: get_provenance_def resolves_to_def Let_def empty_chain_def split: option.split)

lemma ungrounded_of_eq:
  "ungrounded_of pl exts =
     map ext_id (filter (\<lambda>e. \<not> chain_is_complete (get_provenance pl (ext_id e))) exts)"
proof -
  have "fold (\<lambda>e acc. if P e then acc @ [f e] else acc) xs acc = acc @ map f (filter P xs)"
    for P and f :: "Extraction \<Rightarrow> str" and xs acc
    by (induction xs arbitrary: acc) auto
  then show ?thesis by (simp add: ungrounded_of_def)
qed

lemma complete_iff_resolves:
  assumes "prov_inv pl"
  shows "chain_is_complete (get_provenance pl eid) \<longleftrightarrow>
    (\<exists>e c d. resolves_to pl eid = Some e \<and> dict_get (pl_chunks pl) (ext_chunk_id e) = Some c \<and>
       dict_get (pl_documents pl) (chunk_doc_id c) = Some d)"
proof -
  have "chunk_bbox c \<noteq> None" if "dict_get (pl_chunks pl) k = Some c" for k c
    using dict_get_Some_in [OF that] assms by (auto simp: prov_inv_def list_all_iff)
  moreover have "chunk_id c = k" if "dict_get (pl_chunks pl) k = Some c" for k c
    using assms that by (auto simp: prov_inv_def intro: keyed_by_get)
  moreover have "doc_id d = k" if "dict_get (pl_documents pl) k = Some d" for k d
    using assms that by (auto simp: prov_inv_def intro: keyed_by_get)
  ultimately have "dict_get (pl_chunks pl) k = Some c \<Longrightarrow> chunk_id c = k \<and> chunk_bbox c \<noteq> None"
    "dict_get (pl_documents pl) k = Some d \<Longrightarrow> doc_id d = k" for k c d by blast+
  note facts = this
  show ?thesis
  proof (cases "resolves_to pl eid")
    case (Some e)
    show ?thesis
    proof (cases "dict_get (pl_chunks pl) (ext_chunk_id e)")
      case (Some c)
      with \<open>resolves_to pl eid = Some e\<close> facts(1) [OF Some] show ?thesis
        by (cases "dict_get (pl_documents pl) (chunk_doc_id c)")
           (auto simp: chain_is_complete_iff get_provenance_parts dest: facts(2))
    qed (simp add: chain_is_complete_iff get_provenance_parts Some)
  qed (simp add: chain_is_complete_iff get_provenance_parts)
qed

section \<open>The interface its clients rely on\<close>

text \<open>What the executor and the orchestrator use of a provenance log: registering documents,
  chunks and extractions, and resolving. The promise is that a chunk and an extraction registered
  under fresh names resolve completely once their document is there.\<close>

locale provenance_provider =
  fixes inv :: "'s \<Rightarrow> bool"
    and resolve :: "'s \<Rightarrow> str \<Rightarrow> Chain"
    and reg_doc :: "Document \<Rightarrow> 's \<Rightarrow> 's"
    and reg_chunk :: "Chunk \<Rightarrow> 's \<Rightarrow> 's result"
    and reg_ext :: "Extraction \<Rightarrow> 's \<Rightarrow> 's"
  assumes inv_doc: "inv s \<Longrightarrow> inv (reg_doc d s)"
    and inv_chunk: "inv s \<Longrightarrow> reg_chunk c s = Ok s' \<Longrightarrow> inv s'"
    and inv_ext: "inv s \<Longrightarrow> inv (reg_ext e s)"
    and chunk_ok: "is_ok (reg_chunk c s) \<longleftrightarrow> chunk_bbox c \<noteq> None"
    and complete_localised: "inv s \<Longrightarrow> chain_is_complete (resolve s i) \<Longrightarrow>
      \<exists>c. chain_chunk (resolve s i) = Some c \<and> chunk_bbox c \<noteq> None"
begin

primrec reg_chunks :: "Chunk list \<Rightarrow> 's \<Rightarrow> 's result" where
  "reg_chunks [] s = Ok s"
| "reg_chunks (c # cs) s = (case reg_chunk c s of Inl e \<Rightarrow> Inl e | Inr s' \<Rightarrow> reg_chunks cs s')"

lemma reg_chunks_ok: "is_ok (reg_chunks cs s) \<longleftrightarrow> list_all (\<lambda>c. chunk_bbox c \<noteq> None) cs"
proof (induction cs arbitrary: s)
  case (Cons c cs)
  show ?case using chunk_ok [of c s] Cons by (cases "reg_chunk c s") auto
qed simp

lemma reg_chunks_inv: "inv s \<Longrightarrow> reg_chunks cs s = Ok s' \<Longrightarrow> inv s'"
  by (induction cs arbitrary: s) (auto split: sum.splits dest: inv_chunk)

end

interpretation prov: provenance_provider prov_inv get_provenance register_document register_chunk register_extraction
proof unfold_locales
  show "is_ok (register_chunk c s) \<longleftrightarrow> chunk_bbox c \<noteq> None" for c s by (simp add: register_chunk_def)
  show "\<exists>c. chain_chunk (get_provenance s i) = Some c \<and> chunk_bbox c \<noteq> None"
    if "prov_inv s" "chain_is_complete (get_provenance s i)" for s i
    using that(2) by (auto simp: chain_is_complete_iff)
qed (auto intro: prov_inv_step prov_step.intros)

definition sample_log :: ProvenanceLog where
  "sample_log = register_extraction sample_ext
     (case register_chunk sample_chunk (register_document sample_doc empty_log) of Inr pl \<Rightarrow> pl | Inl _ \<Rightarrow> empty_log)"

lemma sample_log_reachable: "prov_reachable sample_log"
proof -
  have "\<exists>pl. register_chunk sample_chunk (register_document sample_doc empty_log) = Ok pl"
    by (simp add: register_chunk_def sample_chunk_def)
  then obtain pl where pl: "register_chunk sample_chunk (register_document sample_doc empty_log) = Ok pl" ..
  have "prov_reachable pl"
    by (rule prov_reachable.step [OF prov_reachable.step [OF prov_reachable.init prov_step.document] prov_step.chunk [OF pl]])
  then show ?thesis unfolding sample_log_def pl
    by (auto intro: prov_reachable.step [OF _ prov_step.extraction])
qed

lemmas sample_log_eval = sample_log_def register_extraction_def register_chunk_def register_document_def
  empty_log_def sample_defs

section \<open>Properties\<close>

text \<open>C30: in every log the public operations can produce, each node is filed under its own
  identifier, no identifier is filed twice, and every registered chunk has a bounding box.\<close>

theorem prov_reachable_inv:
  assumes "prov_reachable pl"
  shows "prov_inv pl"
  using assms by (rule prov_inv_reachable)

theorem prov_reachable_inv_witness: "prov_inv sample_log \<and> length (pl_chunks sample_log) = 1"
  using prov_reachable_inv [OF sample_log_reachable] by (simp add: sample_log_eval)

text \<open>C23: in a reachable log a chain is complete exactly when the three look-ups succeed: the
  entity resolves to an extraction, its chunk is registered and the chunk's document is
  registered. The link and localisation checks of \<^verbatim>\<open>is_complete\<close> can then not fail,
  and the chain shown is the resolved one.\<close>

theorem chain_complete_iff_registered:
  assumes "prov_reachable pl"
  shows "chain_is_complete (get_provenance pl eid) \<longleftrightarrow>
    (\<exists>e c d. resolves_to pl eid = Some e \<and> dict_get (pl_chunks pl) (ext_chunk_id e) = Some c \<and>
       dict_get (pl_documents pl) (chunk_doc_id c) = Some d)"
  using complete_iff_resolves [OF prov_inv_reachable [OF assms]] .

theorem chain_complete_iff_registered_witness:
  "chain_is_complete (get_provenance sample_log ''e1'') \<and> \<not> chain_is_complete (get_provenance sample_log ''d1'')"
  unfolding chain_complete_iff_registered [OF sample_log_reachable]
  by (simp add: resolves_to_def sample_log_eval)

text \<open>The coverage figure is right: it lies between 0 and 100, the reported identifiers are,
  in order, those of the extractions whose chain is incomplete, and the figure is 100 exactly when
  there are none.\<close>

theorem coverage_correct:
  "verify_provenance_coverage pl exts = (cov, bad) \<Longrightarrow>
     0 \<le> cov \<and> cov \<le> 100 \<and> (cov = 100 \<longleftrightarrow> bad = []) \<and>
     bad = map ext_id (filter (\<lambda>e. \<not> chain_is_complete (get_provenance pl (ext_id e))) exts)"
proof (cases "exts = []")
  case False
  assume a: "verify_provenance_coverage pl exts = (cov, bad)"
  let ?bad = "filter (\<lambda>e. \<not> chain_is_complete (get_provenance pl (ext_id e))) exts"
  have le: "length ?bad \<le> length exts" by (rule length_filter_le)
  have bad: "bad = map ext_id ?bad"
    using a False by (simp add: verify_provenance_coverage_def Let_def ungrounded_of_eq)
  define q where "q = real (length ?bad) / real (length exts)"
  have "cov = real_of_int (int (length exts) - int (length ?bad)) / real (length exts) * 100"
    using a False by (simp add: verify_provenance_coverage_def Let_def ungrounded_of_eq)
  then have cov: "cov = (1 - q) * 100"
    using False by (simp add: diff_divide_distrib q_def)
  have "0 \<le> q" "q \<le> 1" using le False by (simp_all add: q_def)
  then have "0 \<le> cov" "cov \<le> 100" by (simp_all add: cov)
  moreover have "cov = 100 \<longleftrightarrow> length ?bad = 0" unfolding cov q_def using False by simp
  ultimately show ?thesis using bad by (simp only: map_is_Nil_conv length_0_conv simp_thms)
qed (simp add: verify_provenance_coverage_def)

theorem coverage_correct_witness:
  "verify_provenance_coverage sample_log [sample_ext, sample_ext\<lparr>ext_id := ''e2''\<rparr>] = (50, [''e2'']) \<and>
   (50::real) \<noteq> 100"
proof -
  have "verify_provenance_coverage sample_log [sample_ext, sample_ext\<lparr>ext_id := ''e2''\<rparr>] = (50, [''e2''])"
    by (simp add: verify_provenance_coverage_def ungrounded_of_def get_provenance_def chain_is_complete_def
        sample_log_eval empty_chain_def)
  with coverage_correct [OF this] show ?thesis by simp
qed

end
