(* ===== verification/Embeddings.thy ===== *)
theory Embeddings
  imports PyStr
begin

text \<open>
  \<^verbatim>\<open>kernel/core/embeddings.py\<close>: the word-hashing vector of a text and the cosine
  similarity of two vectors, over the reals. The two branches of the source (with and without
  \<^verbatim>\<open>numpy\<close>) compute the same sums. SHA-256 is the parameter \<open>H\<close>, a function
  from bytes to a digest of 32 bytes.
\<close>

definition EMBEDDING_DIM :: nat where
  "EMBEDDING_DIM = 384"

definition int_from_bytes_little :: "bytes \<Rightarrow> nat" where
  "int_from_bytes_little bs = foldr (\<lambda>b acc. unat b + 256 * acc) bs 0"

definition add_slot :: "nat \<Rightarrow> bytes \<Rightarrow> nat \<Rightarrow> real list \<Rightarrow> real list" where
  "add_slot dm h idx vec =
     (let slot = int_from_bytes_little (take 2 (drop (idx * 2) h)) mod dm;
          val = real (unat (h ! (idx * 2 + 8))) / 255 * 2 - 1
      in vec[slot := vec ! slot + val])"

definition sum_squares :: "real list \<Rightarrow> real" where
  "sum_squares v = sum_list (map (\<lambda>x. x * x) v)"

definition vec_norm :: "real list \<Rightarrow> real" where
  "vec_norm v = sqrt (sum_squares v)"

definition hash_vector :: "(bytes \<Rightarrow> bytes) \<Rightarrow> nat \<Rightarrow> str list \<Rightarrow> real list" where
  "hash_vector H dm words =
     fold (\<lambda>word vec. fold (add_slot dm (H (utf8 word))) [0..<4] vec) words (replicate dm 0)"

definition get_embedding :: "(bytes \<Rightarrow> bytes) \<Rightarrow> nat \<Rightarrow> str \<Rightarrow> real list" where
  "get_embedding H dm txt =
     (let words = split_ws (lower txt) in
      if words = [] then replicate dm 0
      else let vec = hash_vector H dm words; norm = vec_norm vec in
        if norm > 0 then map (\<lambda>x. x / norm) vec else vec)"

definition cosine_similarity :: "real list \<Rightarrow> real list \<Rightarrow> real" where
  "cosine_similarity v1 v2 =
     (let dot = sum_list (map (\<lambda>(x, y). x * y) (zip v1 v2)); norm_a = vec_norm v1; norm_b = vec_norm v2 in
      if norm_a = 0 \<or> norm_b = 0 then 0 else dot / (norm_a * norm_b))"

section \<open>Norms\<close>

lemma sum_squares_nonneg [simp]: "0 \<le> sum_squares v"
  by (induction v) (simp_all add: sum_squares_def)

lemma sum_squares_append: "sum_squares (u @ v) = sum_squares u + sum_squares v"
  by (simp add: sum_squares_def)

lemma sum_squares_take: "sum_squares (take n v) \<le> sum_squares v"
  using sum_squares_append [of "take n v" "drop n v"] sum_squares_nonneg [of "drop n v"] by simp

lemma abs_vec_norm [simp]: "\<bar>vec_norm v\<bar> = vec_norm v"
  by (simp add: vec_norm_def)

lemma sum_squares_scale: "sum_squares (map (\<lambda>x. x / c) v) = sum_squares v / (c * c)"
  by (induction v) (simp_all add: sum_squares_def add_divide_distrib)

lemma length_hash_vector [simp]: "length (hash_vector H dm words) = dm"
proof -
  have inner: "length (fold (add_slot dm h) is v) = length v" for h "is" v
    by (induction "is" arbitrary: v) (simp_all add: add_slot_def Let_def)
  have "length (fold (\<lambda>w v. fold (add_slot dm (H (utf8 w))) [0..<4] v) ws v) = length v" for ws v
    by (induction ws arbitrary: v) (simp_all add: inner)
  then show ?thesis by (simp add: hash_vector_def)
qed

lemma sum_squares_pairs:
  fixes ps :: "(real \<times> real) list"
  shows "(\<Sum>p\<leftarrow>ps. (b * fst p - c * snd p)\<^sup>2) =
     b\<^sup>2 * sum_squares (map fst ps) - 2 * b * c * (\<Sum>p\<leftarrow>ps. fst p * snd p) + c\<^sup>2 * sum_squares (map snd ps)"
  by (induction ps) (simp_all add: sum_squares_def power2_eq_square algebra_simps)

lemma cauchy_schwarz_pairs:
  fixes ps :: "(real \<times> real) list"
  shows "(\<Sum>p\<leftarrow>ps. fst p * snd p)\<^sup>2 \<le> sum_squares (map fst ps) * sum_squares (map snd ps)"
proof -
  define A where "A = sum_squares (map fst ps)"
  define B where "B = sum_squares (map snd ps)"
  define C where "C = (\<Sum>p\<leftarrow>ps. fst p * snd p)"
  have nonneg: "0 \<le> (\<Sum>p\<leftarrow>ps. (b * fst p - c * snd p)\<^sup>2)" for b c
    by (rule sum_list_nonneg) auto
  have expand: "0 \<le> b\<^sup>2 * A - 2 * b * c * C + c\<^sup>2 * B" for b c
    using nonneg [of b c] unfolding sum_squares_pairs A_def B_def C_def .
  have AB: "0 \<le> A" "0 \<le> B" by (simp_all add: A_def B_def)
  have "C\<^sup>2 \<le> A * B"
  proof (cases "B = 0")
    case True
    have "C = 0"
    proof (rule ccontr)
      assume "C \<noteq> 0"
      have "0 \<le> A - 2 * ((A + 1) / C) * C" using expand [of 1 "(A + 1) / C"] True by simp
      then show False using \<open>C \<noteq> 0\<close> AB by simp
    qed
    then show ?thesis using True by simp
  next
    case False
    have "0 \<le> B * (A * B - C\<^sup>2)"
      using expand [of B C] by (simp add: algebra_simps power2_eq_square)
    then show ?thesis using False AB by (simp add: zero_le_mult_iff)
  qed
  then show ?thesis by (simp add: A_def B_def C_def)
qed

lemma cosine_similarity_le_1: "\<bar>cosine_similarity v1 v2\<bar> \<le> 1"
proof (cases "vec_norm v1 = 0 \<or> vec_norm v2 = 0")
  case False
  define dot where "dot = (\<Sum>(x, y)\<leftarrow>zip v1 v2. x * y)"
  have z: "map fst (zip v1 v2) = take (length v2) v1" "map snd (zip v1 v2) = take (length v1) v2"
    by (auto simp: map_fst_zip_take map_snd_zip_take min_def)
  have "dot\<^sup>2 \<le> sum_squares (take (length v2) v1) * sum_squares (take (length v1) v2)"
    using cauchy_schwarz_pairs [of "zip v1 v2"] unfolding z dot_def by (simp only: case_prod_unfold)
  also have "\<dots> \<le> sum_squares v1 * sum_squares v2"
    by (intro mult_mono sum_squares_take) simp_all
  finally have "sqrt (dot\<^sup>2) \<le> sqrt (sum_squares v1 * sum_squares v2)" by (rule real_sqrt_le_mono)
  then have "\<bar>dot\<bar> \<le> vec_norm v1 * vec_norm v2" by (simp add: vec_norm_def real_sqrt_mult)
  moreover have "0 < vec_norm v1 * vec_norm v2"
    using False by (simp add: vec_norm_def less_le)
  ultimately show ?thesis using False
    by (simp add: cosine_similarity_def Let_def dot_def [symmetric] abs_mult abs_divide divide_le_eq_1)
qed (simp add: cosine_similarity_def)

section \<open>Properties\<close>

text \<open>An embedding has the requested dimension and is either the zero vector or of length one,
  whatever the hash function, and the cosine similarity of any two vectors lies between -1 and 1.\<close>

theorem embedding_normalised:
  "length (get_embedding H dm txt) = dm \<and>
   vec_norm (get_embedding H dm txt) \<in> {0, 1} \<and>
   \<bar>cosine_similarity (get_embedding H dm txt) v\<bar> \<le> 1"
proof -
  let ?v = "hash_vector H dm (split_ws (lower txt))"
  have zero: "vec_norm (replicate dm 0) = 0"
    by (induction dm) (simp_all add: vec_norm_def sum_squares_def)
  have "vec_norm (map (\<lambda>x. x / vec_norm ?v) ?v) = 1" if "0 < vec_norm ?v"
    using that unfolding vec_norm_def sum_squares_scale by (simp add: real_sqrt_divide)
  moreover have "vec_norm ?v = 0" if "\<not> 0 < vec_norm ?v"
    using that by (simp add: vec_norm_def not_less) (metis dual_order.antisym sum_squares_nonneg)
  ultimately have "vec_norm (get_embedding H dm txt) \<in> {0, 1}"
    by (auto simp: get_embedding_def Let_def zero)
  moreover have "length (get_embedding H dm txt) = dm"
    by (simp add: get_embedding_def Let_def)
  ultimately show ?thesis using cosine_similarity_le_1 by blast
qed

end
