(* ===== verification/Grounding.thy ===== *)
theory Grounding
  imports Levenshtein Embeddings DataModel
begin

text \<open>
  \<^verbatim>\<open>kernel/core/grounding.py\<close>: the cascade NORMALIZE, EXACT, FUZZY, SEMANTIC,
  VISUAL, BLOCK that cites a value or refuses it. Every stage is a definition of its own;
  \<open>verify\<close> composes them in the order of the source, skipping the disabled ones. The similarity
  ratio is in theory Levenshtein, the embeddings in theory Embeddings.
\<close>

section \<open>Normalisation\<close>

definition kept_char :: "char \<Rightarrow> bool" where
  "kept_char c \<longleftrightarrow> is_word c \<or> is_space c \<or> c = CHR ''-'' \<or> c = CHR ''.''"

definition is_currency :: "char \<Rightarrow> bool" where
  "is_currency c \<longleftrightarrow> c = CHR 0x24 \<or> c = CHR 0xA3 \<or> c = CHR 0xA5"

text \<open>The euro sign of the source's last pattern is beyond U+00FF and cannot occur in the text type.\<close>

definition normalize_text :: "str \<Rightarrow> str" where
  "normalize_text s =
     (let t = strip (lower s);
          t = filter kept_char t;
          t = join '' '' (split_ws t)
      in filter (\<lambda>c. \<not> is_currency c) t)"

section \<open>Scanning word windows\<close>

definition MAX_WINDOWS :: nat where
  "MAX_WINDOWS = 500"

type_synonym scan = "nat \<times> real \<times> (nat \<times> nat)"

definition text_slice :: "str \<Rightarrow> nat \<Rightarrow> nat \<Rightarrow> str" where
  "text_slice s i j = take (j - i) (drop i s)"

definition window_indices :: "nat \<Rightarrow> nat list" where
  "window_indices num =
     (if num \<le> MAX_WINDOWS then [0..<num]
      else let step = real num / real MAX_WINDOWS in map (\<lambda>i. nat \<lfloor>real i * step\<rfloor>) [0..<MAX_WINDOWS])"

definition window_span :: "(str \<times> nat \<times> nat) list \<Rightarrow> nat \<Rightarrow> nat \<Rightarrow> nat \<times> nat" where
  "window_span spans i len =
     (let window = take len (drop i spans) in (fst (snd (hd window)), snd (snd (last window))))"

definition scan_window :: "str \<Rightarrow> str \<Rightarrow> (str \<times> nat \<times> nat) list \<Rightarrow> nat \<Rightarrow> nat \<Rightarrow> scan \<Rightarrow> scan" where
  "scan_window val_norm txt spans len i st =
     (let (scanned, best_ratio, best_span) = st in
      if scanned \<ge> MAX_WINDOWS then st
      else let (a, b) = window_span spans i len;
               sub_norm = normalize_text (text_slice txt a b);
               ratio = levenshtein_ratio val_norm sub_norm
           in if ratio > best_ratio then (scanned + 1, ratio, (a, b)) else (scanned + 1, best_ratio, best_span))"

definition scan_length :: "str \<Rightarrow> str \<Rightarrow> (str \<times> nat \<times> nat) list \<Rightarrow> nat \<Rightarrow> scan \<Rightarrow> scan" where
  "scan_length val_norm txt spans len st =
     (if fst st \<ge> MAX_WINDOWS then st
      else let num_windows = length spans + 1 - len in
        if num_windows = 0 then st
        else fold (scan_window val_norm txt spans len) (window_indices num_windows) st)"

definition best_fuzzy_match :: "str \<Rightarrow> str \<Rightarrow> real \<times> (nat \<times> nat)" where
  "best_fuzzy_match val txt =
     (let val_norm = normalize_text val in
      if val_norm = [] then (0, (0, 0))
      else let n = length (split_ws val_norm); spans = word_spans 0 txt in
        if spans = [] then (0, (0, 0))
        else snd (fold (scan_length val_norm txt spans) [max 1 (n - 1) ..< min (length spans + 1) (n + 3)]
                    (0, 0, (0, 0))))"

section \<open>Geometry\<close>

definition bbox_area :: "BBox \<Rightarrow> real" where
  "bbox_area b = (bx1 b - bx0 b) * (by1 b - by0 b)"

definition bbox_iou :: "BBox \<Rightarrow> BBox \<Rightarrow> real" where
  "bbox_iou b1 b2 =
     (let ix0 = max (bx0 b1) (bx0 b2); iy0 = max (by0 b1) (by0 b2);
          ix1 = min (bx1 b1) (bx1 b2); iy1 = min (by1 b1) (by1 b2);
          inter_w = max 0 (ix1 - ix0); inter_h = max 0 (iy1 - iy0);
          inter_area = inter_w * inter_h;
          area1 = (bx1 b1 - bx0 b1) * (by1 b1 - by0 b1);
          area2 = (bx1 b2 - bx0 b2) * (by1 b2 - by0 b2);
          union = area1 + area2 - inter_area
      in if union \<le> 0 then 0 else inter_area / union)"

text \<open>\<^verbatim>\<open>float(s)\<close> on decimal literals. The spellings of infinity and NaN give
  \<open>None\<close>: a box with such a corner has overlap 0 or NaN with every box, so it never wins the
  visual scan, exactly as a text that is no box.\<close>

definition digit_part :: "str \<Rightarrow> bool" where
  "digit_part s \<longleftrightarrow> list_all digits (split_on CHR ''_'' s)"

definition digit_part_val :: "str \<Rightarrow> nat" where
  "digit_part_val s = nat_of_digits (filter is_digit s)"

definition scale10 :: "real \<Rightarrow> int \<Rightarrow> real" where
  "scale10 r e = (if 0 \<le> e then r * 10 ^ nat e else r / 10 ^ nat (- e))"

definition split_sign :: "str \<Rightarrow> bool \<times> str" where
  "split_sign s = (case s of
     c # t \<Rightarrow> if c = CHR ''-'' then (True, t) else if c = CHR ''+'' then (False, t) else (False, s)
   | [] \<Rightarrow> (False, []))"

definition py_float :: "str \<Rightarrow> real option" where
  "py_float s =
     (let (neg, u) = split_sign (strip s);
          m = takeWhile (\<lambda>c. \<not> is_exp c) u; e = dropWhile (\<lambda>c. \<not> is_exp c) u;
          i = takeWhile (\<lambda>c. c \<noteq> CHR ''.'') m; f = dropWhile (\<lambda>c. c \<noteq> CHR ''.'') m; fr = drop 1 f;
          (eneg, ed) = split_sign (drop 1 e)
      in if (i = [] \<or> digit_part i) \<and> (fr = [] \<or> digit_part fr) \<and> (i \<noteq> [] \<or> fr \<noteq> []) \<and> (e = [] \<or> digit_part ed)
         then let ev = (if e = [] then 0 else int (digit_part_val ed));
                  mant = real (digit_part_val (i @ fr));
                  r = scale10 mant ((if eneg then - ev else ev) - int (length (filter is_digit fr)))
              in Some (if neg then - r else r)
         else None)"

definition parse_candidate_bbox :: "str \<Rightarrow> BBox option" where
  "parse_candidate_bbox src =
     (if src = [] \<or> \<not> prefix ''bbox:'' src then None
      else let parts = split_on CHR '','' (drop 5 src) in
        if length parts \<noteq> 4 then None
        else (case (py_float (parts ! 0), py_float (parts ! 1), py_float (parts ! 2), py_float (parts ! 3)) of
                (Some x0, Some y0, Some x1, Some y1) \<Rightarrow>
                  (case mk_bbox x0 y0 x1 y1 of Inr b \<Rightarrow> Some b | Inl _ \<Rightarrow> None)
              | _ \<Rightarrow> None))"

section \<open>The cascade\<close>

record VerifierConfig =
  fuzzy_threshold :: real
  semantic_threshold :: real
  visual_threshold :: real
  disabled_stages :: "GroundingMethod list"

definition default_config :: VerifierConfig where
  "default_config = \<lparr>fuzzy_threshold = 92 / 100, semantic_threshold = 86 / 100, visual_threshold = 1 / 2,
     disabled_stages = []\<rparr>"

definition anchor_at :: "Chunk \<Rightarrow> int \<Rightarrow> int \<Rightarrow> Anchor" where
  "anchor_at c i j = \<lparr>anchor_chunk_id = chunk_id c, char_span = (i, j), anchor_page = chunk_page c,
     anchor_bbox = chunk_bbox c\<rparr>"

fun exact_stage :: "str \<Rightarrow> Chunk list \<Rightarrow> Anchor option" where
  "exact_stage target [] = None"
| "exact_stage target (c # cs) =
     (case str_find (lower target) (lower (chunk_text c)) of
        Some start \<Rightarrow> Some (anchor_at c (int start) (int start + int (length target)))
      | None \<Rightarrow> exact_stage target cs)"

definition fuzzy_stage :: "VerifierConfig \<Rightarrow> str \<Rightarrow> Chunk list \<Rightarrow> Anchor option" where
  "fuzzy_stage cfg target chunks =
     map_option (\<lambda>c. let (a, b) = snd (best_fuzzy_match target (chunk_text c)) in anchor_at c (int a) (int b))
       (snd (best_above (\<lambda>c. fst (best_fuzzy_match target (chunk_text c))) (fuzzy_threshold cfg) 0 None chunks))"

definition chunk_embedding :: "(bytes \<Rightarrow> bytes) \<Rightarrow> Chunk \<Rightarrow> real list" where
  "chunk_embedding H c =
     (if embedding c = [] then get_embedding H EMBEDDING_DIM (chunk_text c) else embedding c)"

definition semantic_stage :: "(bytes \<Rightarrow> bytes) \<Rightarrow> VerifierConfig \<Rightarrow> str \<Rightarrow> Chunk list \<Rightarrow> Anchor option" where
  "semantic_stage H cfg target chunks =
     (let target_emb = get_embedding H EMBEDDING_DIM target in
      case snd (best_above (\<lambda>c. cosine_similarity target_emb (chunk_embedding H c)) (semantic_threshold cfg) 0 None chunks) of
        None \<Rightarrow> None
      | Some c \<Rightarrow>
          (let chunk_words = set (split_ws (normalize_text (chunk_text c)));
               target_words = set (split_ws (normalize_text target))
           in if chunk_words \<inter> target_words \<noteq> {} \<or> target_words = {}
              then Some (anchor_at c 0 (int (length (chunk_text c)))) else None))"

definition visual_stage :: "VerifierConfig \<Rightarrow> str \<Rightarrow> Chunk list \<Rightarrow> Anchor option" where
  "visual_stage cfg src chunks =
     (case parse_candidate_bbox src of
        None \<Rightarrow> None
      | Some cand \<Rightarrow>
          map_option (\<lambda>c. anchor_at c 0 (int (length (chunk_text c))))
            (snd (best_above (\<lambda>c. bbox_iou cand (the (chunk_bbox c))) (visual_threshold cfg) 0 None
                    (filter (\<lambda>c. chunk_bbox c \<noteq> None) chunks))))"

definition ground_target :: "str \<Rightarrow> str \<Rightarrow> str" where
  "ground_target val src = (if src \<noteq> [] then src else val)"

definition stage_on :: "VerifierConfig \<Rightarrow> GroundingMethod \<Rightarrow> Anchor option \<Rightarrow> Anchor option" where
  "stage_on cfg m r = (if m \<in> set (disabled_stages cfg) then None else r)"

definition verify :: "(bytes \<Rightarrow> bytes) \<Rightarrow> VerifierConfig \<Rightarrow> str \<Rightarrow> str \<Rightarrow> Chunk list \<Rightarrow> GroundingMethod \<times> Anchor list" where
  "verify H cfg val src chunks =
     (if chunks = [] then (GM_BLOCK, [])
      else let target = ground_target val src in
        if strip target = [] then (GM_BLOCK, [])
        else case stage_on cfg GM_EXACT (exact_stage target chunks) of
          Some a \<Rightarrow> (GM_EXACT, [a])
        | None \<Rightarrow>
        (case stage_on cfg GM_FUZZY (fuzzy_stage cfg target chunks) of
          Some a \<Rightarrow> (GM_FUZZY, [a])
        | None \<Rightarrow>
        (case stage_on cfg GM_SEMANTIC (semantic_stage H cfg target chunks) of
          Some a \<Rightarrow> (GM_SEMANTIC, [a])
        | None \<Rightarrow>
        (case stage_on cfg GM_VISUAL (visual_stage cfg src chunks) of
          Some a \<Rightarrow> (GM_VISUAL, [a])
        | None \<Rightarrow> (GM_BLOCK, [])))))"

section \<open>Word spans and windows\<close>

lemma word_spans_unfold:
  "dropWhile is_space s = [] \<Longrightarrow> word_spans k s = []"
  "dropWhile is_space s = c # t \<Longrightarrow>
     word_spans k s = (let w = c # takeWhile (\<lambda>x. \<not> is_space x) t;
          i = k + length (takeWhile is_space s); j = i + length w
        in (w, i, j) # word_spans j (dropWhile (\<lambda>x. \<not> is_space x) t))"
  by (simp_all only: word_spans.simps [of k s] list.case)

definition spans_in :: "nat \<Rightarrow> nat \<Rightarrow> (str \<times> nat \<times> nat) list \<Rightarrow> bool" where
  "spans_in lo hi sp \<longleftrightarrow> (\<forall>p \<in> set sp. lo \<le> fst (snd p) \<and> fst (snd p) \<le> snd (snd p) \<and> snd (snd p) \<le> hi) \<and>
     sorted_wrt (\<lambda>p q. snd (snd p) \<le> fst (snd q)) sp"

lemma word_spans_in: "spans_in k (k + length s) (word_spans k s)"
proof (induction k s rule: word_spans.induct)
  case (1 k s)
  show ?case
  proof (cases "dropWhile is_space s")
    case Nil
    then show ?thesis by (simp add: word_spans_unfold spans_in_def)
  next
    case (Cons c t)
    define w where "w = c # takeWhile (\<lambda>x. \<not> is_space x) t"
    define i where "i = k + length (takeWhile is_space s)"
    define r where "r = dropWhile (\<lambda>x. \<not> is_space x) t"
    have len: "length s = length (takeWhile is_space s) + length w + length r"
    proof -
      have "length s = length (takeWhile is_space s) + length (dropWhile is_space s)"
        by (metis length_append takeWhile_dropWhile_id)
      moreover have "length t = length (takeWhile (\<lambda>x. \<not> is_space x) t) + length r"
        unfolding r_def by (metis length_append takeWhile_dropWhile_id)
      ultimately show ?thesis using Cons by (simp add: w_def)
    qed
    have ws: "word_spans k s = (w, i, i + length w) # word_spans (i + length w) r"
      by (simp only: word_spans_unfold(2) [OF Cons] Let_def w_def i_def r_def)
    have "spans_in (i + length w) (i + length w + length r) (word_spans (i + length w) r)"
      using "1.IH" [OF Cons w_def i_def refl] by (simp add: r_def)
    then show ?thesis unfolding ws spans_in_def using len by (auto simp: i_def)
  qed
qed

lemma spans_in_drop: "spans_in lo hi sp \<Longrightarrow> spans_in lo hi (drop i sp)"
  by (auto simp: spans_in_def sorted_wrt_drop dest: in_set_dropD)

lemma spans_in_take: "spans_in lo hi sp \<Longrightarrow> spans_in lo hi (take i sp)"
  by (auto simp: spans_in_def sorted_wrt_take dest: in_set_takeD)

lemma spans_hd_last: "spans_in lo hi sp \<Longrightarrow> sp \<noteq> [] \<Longrightarrow> fst (snd (hd sp)) \<le> snd (snd (last sp)) \<and> snd (snd (last sp)) \<le> hi"
proof (cases sp)
  case (Cons p ps)
  assume a: "spans_in lo hi sp"
  show ?thesis
  proof (cases "ps = []")
    case True
    then show ?thesis using a Cons by (simp add: spans_in_def)
  next
    case False
    then have "last ps \<in> set ps" by simp
    with a Cons have "snd (snd p) \<le> fst (snd (last ps))" "fst (snd p) \<le> snd (snd p)"
      "fst (snd (last ps)) \<le> snd (snd (last ps))" "snd (snd (last ps)) \<le> hi"
      unfolding spans_in_def by auto
    with Cons False show ?thesis by simp
  qed
qed simp

lemma window_span_in:
  assumes "spans_in 0 hi spans" and "i < length spans" and "0 < len"
  shows "fst (window_span spans i len) \<le> snd (window_span spans i len) \<and> snd (window_span spans i len) \<le> hi"
  using spans_hd_last [OF spans_in_take [OF spans_in_drop [OF assms(1)]], of len i] assms(2,3)
  by (simp add: window_span_def Let_def)

lemma window_indices_less: "i \<in> set (window_indices num) \<Longrightarrow> i < num"
proof -
  assume i: "i \<in> set (window_indices num)"
  show ?thesis
  proof (cases "num \<le> MAX_WINDOWS")
    case False
    with i obtain k where k: "k < MAX_WINDOWS" "i = nat \<lfloor>real k * (real num / real MAX_WINDOWS)\<rfloor>"
      by (auto simp: window_indices_def Let_def)
    have pos: "0 < real num" "0 < real MAX_WINDOWS" using False by (auto simp: MAX_WINDOWS_def)
    have "real k * (real num / real MAX_WINDOWS) < real num"
      using k(1) pos by (simp add: field_simps)
    then have "\<lfloor>real k * (real num / real MAX_WINDOWS)\<rfloor> < int num"
      by (simp add: floor_less_iff)
    then show ?thesis using k(2) False by (simp add: nat_less_iff)
  qed (use i in \<open>simp add: window_indices_def\<close>)
qed

text \<open>What a scan knows of its best match: nothing yet, or a span inside the text whose slice has
  that ratio.\<close>

definition scan_inv :: "str \<Rightarrow> str \<Rightarrow> scan \<Rightarrow> bool" where
  "scan_inv val_norm txt st \<longleftrightarrow> (let (scanned, best, (a, b)) = st in
     scanned \<le> MAX_WINDOWS \<and> a \<le> b \<and> b \<le> length txt \<and> 0 \<le> best \<and>
     (0 < best \<longrightarrow> best = levenshtein_ratio val_norm (normalize_text (text_slice txt a b))))"

lemma scan_inv_window:
  assumes "spans_in 0 (length txt) spans" and "i < length spans" and "0 < len" and "scan_inv v txt st"
  shows "scan_inv v txt (scan_window v txt spans len i st)"
proof -
  obtain n r a b where st: "st = (n, r, (a, b))" by (metis prod.exhaust)
  show ?thesis
    using window_span_in [OF assms(1-3)] assms(4)
    by (auto simp: st scan_inv_def scan_window_def Let_def case_prod_beta)
qed

lemma scan_inv_length:
  assumes "spans_in 0 (length txt) spans" and "0 < len" and "scan_inv v txt st"
  shows "scan_inv v txt (scan_length v txt spans len st)"
proof -
  have "scan_inv v txt (fold (scan_window v txt spans len) is st)"
    if "\<forall>i \<in> set is. i < length spans" for "is"
    using that assms(3)
    by (intro fold_inv [where P = "scan_inv v txt"]) (auto intro: scan_inv_window [OF assms(1) _ assms(2)] simp del: split_paired_All)
  moreover have "\<forall>i \<in> set (window_indices (length spans + 1 - len)). i < length spans"
    using assms(2) by (auto dest: window_indices_less)
  ultimately show ?thesis using assms(3) by (simp add: scan_length_def Let_def)
qed

lemma best_fuzzy_match_sound:
  assumes "best_fuzzy_match val txt = (r, (a, b))"
  shows "a \<le> b \<and> b \<le> length txt \<and> 0 \<le> r \<and>
    (0 < r \<longrightarrow> r = levenshtein_ratio (normalize_text val) (normalize_text (text_slice txt a b)))"
proof (cases "normalize_text val = [] \<or> word_spans 0 txt = []")
  case True
  then have "best_fuzzy_match val txt = (0, (0, 0))"
    by (cases "normalize_text val = []") (simp_all add: best_fuzzy_match_def Let_def)
  then show ?thesis using assms by simp
next
  case False
  let ?v = "normalize_text val" and ?sp = "word_spans 0 txt"
  have sp: "spans_in 0 (length txt) ?sp" using word_spans_in [of 0 "txt"] by simp
  have "scan_inv ?v txt (fold (scan_length ?v txt ?sp) ls st)"
    if "\<forall>l \<in> set ls. 0 < l" "scan_inv ?v txt st" for ls st
    using that by (intro fold_inv [where P = "scan_inv ?v txt"]) (auto intro: scan_inv_length [OF sp])
  moreover have "scan_inv ?v txt (0, 0, (0, 0))" by (simp add: scan_inv_def)
  ultimately have "scan_inv ?v txt (fold (scan_length ?v txt ?sp)
      [max 1 (length (split_ws ?v) - 1) ..< min (length ?sp + 1) (length (split_ws ?v) + 3)] (0, 0, (0, 0)))"
    by simp
  then show ?thesis using assms False
    by (auto simp: best_fuzzy_match_def Let_def scan_inv_def split: prod.splits)
qed

section \<open>What an anchor promises\<close>

text \<open>An anchor cites a chunk when it names that chunk's identifier, page and box and a span
  inside the chunk's text.\<close>

definition cites :: "Anchor \<Rightarrow> Chunk \<Rightarrow> bool" where
  "cites a c \<longleftrightarrow> anchor_chunk_id a = chunk_id c \<and> anchor_page a = chunk_page c \<and> anchor_bbox a = chunk_bbox c \<and>
     0 \<le> fst (char_span a) \<and> fst (char_span a) \<le> snd (char_span a) \<and> snd (char_span a) \<le> int (length (chunk_text c))"

definition cited_text :: "Anchor \<Rightarrow> Chunk \<Rightarrow> str" where
  "cited_text a c = text_slice (chunk_text c) (nat (fst (char_span a))) (nat (snd (char_span a)))"

lemma cites_whole: "cites (anchor_at c 0 (int (length (chunk_text c)))) c"
  by (simp add: cites_def anchor_at_def)

lemma exact_stage_sound:
  "exact_stage target chunks = Some a \<Longrightarrow>
     \<exists>c \<in> set chunks. cites a c \<and> lower (cited_text a c) = lower target"
proof (induction chunks)
  case (Cons c cs)
  show ?case
  proof (cases "str_find (lower target) (lower (chunk_text c))")
    case (Some start)
    from str_find_Some [OF Some]
    have s: "start + length target \<le> length (chunk_text c)"
      "lower (take (length target) (drop start (chunk_text c))) = lower target"
      by (simp_all add: take_lower drop_lower)
    have "a = anchor_at c (int start) (int start + int (length target))" using Cons.prems Some by simp
    then have "cites a c \<and> lower (cited_text a c) = lower target"
      using s by (simp add: cites_def anchor_at_def cited_text_def text_slice_def nat_add_distrib)
    then show ?thesis by auto
  qed (use Cons in auto)
qed simp

lemma exact_stage_complete:
  "exact_stage target chunks = None \<longleftrightarrow> (\<forall>c \<in> set chunks. \<not> str_in (lower target) (lower (chunk_text c)))"
  by (induction chunks) (auto simp: str_in_def split: option.splits)

lemma fuzzy_stage_sound:
  assumes "fuzzy_stage cfg target chunks = Some a"
  shows "\<exists>c \<in> set chunks. cites a c \<and>
    levenshtein_ratio (normalize_text target) (normalize_text (cited_text a c)) \<ge> fuzzy_threshold cfg"
proof -
  let ?f = "\<lambda>c. fst (best_fuzzy_match target (chunk_text c))"
  obtain c where b: "snd (best_above ?f (fuzzy_threshold cfg) 0 None chunks) = Some c"
    and a: "a = (let (i, j) = snd (best_fuzzy_match target (chunk_text c)) in anchor_at c (int i) (int j))"
    using assms by (auto simp: fuzzy_stage_def)
  have c: "c \<in> set chunks" "?f c \<ge> fuzzy_threshold cfg" "?f c > 0"
    using best_above_cases [of ?f "fuzzy_threshold cfg" 0 None chunks, OF surjective_pairing] b by auto
  obtain r i j where m: "best_fuzzy_match target (chunk_text c) = (r, (i, j))" by (metis prod.exhaust)
  from best_fuzzy_match_sound [OF m] c m a
  have "cites a c \<and> levenshtein_ratio (normalize_text target) (normalize_text (cited_text a c)) \<ge> fuzzy_threshold cfg"
    by (simp add: cites_def anchor_at_def cited_text_def)
  with c(1) show ?thesis by blast
qed

lemma semantic_stage_sound:
  assumes "semantic_stage H cfg target chunks = Some a"
  shows "\<exists>c \<in> set chunks. cites a c \<and>
    cosine_similarity (get_embedding H EMBEDDING_DIM target) (chunk_embedding H c) \<ge> semantic_threshold cfg \<and>
    (set (split_ws (normalize_text (chunk_text c))) \<inter> set (split_ws (normalize_text target)) \<noteq> {} \<or>
     split_ws (normalize_text target) = [])"
proof -
  let ?f = "\<lambda>c. cosine_similarity (get_embedding H EMBEDDING_DIM target) (chunk_embedding H c)"
  obtain c where b: "snd (best_above ?f (semantic_threshold cfg) 0 None chunks) = Some c"
    and w: "set (split_ws (normalize_text (chunk_text c))) \<inter> set (split_ws (normalize_text target)) \<noteq> {} \<or>
       split_ws (normalize_text target) = []"
    and a: "a = anchor_at c 0 (int (length (chunk_text c)))"
    using assms by (auto simp: semantic_stage_def Let_def split: option.splits if_splits)
  have "c \<in> set chunks \<and> ?f c \<ge> semantic_threshold cfg"
    using best_above_cases [of ?f "semantic_threshold cfg" 0 None chunks, OF surjective_pairing] b by auto
  with w a cites_whole [of c] show ?thesis by blast
qed

lemma visual_stage_sound:
  assumes "visual_stage cfg src chunks = Some a"
  shows "\<exists>c \<in> set chunks. \<exists>cand box. cites a c \<and> parse_candidate_bbox src = Some cand \<and>
    chunk_bbox c = Some box \<and> bbox_iou cand box \<ge> visual_threshold cfg \<and> bbox_iou cand box > 0"
proof -
  obtain cand where p: "parse_candidate_bbox src = Some cand"
    using assms by (auto simp: visual_stage_def split: option.splits)
  let ?f = "\<lambda>c. bbox_iou cand (the (chunk_bbox c))" and ?cs = "filter (\<lambda>c. chunk_bbox c \<noteq> None) chunks"
  obtain c where b: "snd (best_above ?f (visual_threshold cfg) 0 None ?cs) = Some c"
    and a: "a = anchor_at c 0 (int (length (chunk_text c)))"
    using assms p by (auto simp: visual_stage_def)
  have "c \<in> set ?cs \<and> ?f c \<ge> visual_threshold cfg \<and> ?f c > 0"
    using best_above_cases [of ?f "visual_threshold cfg" 0 None ?cs, OF surjective_pairing] b by auto
  with p a cites_whole [of c] show ?thesis by auto
qed

text \<open>The evidence each method stands for.\<close>

definition supported :: "(bytes \<Rightarrow> bytes) \<Rightarrow> VerifierConfig \<Rightarrow> str \<Rightarrow> str \<Rightarrow> GroundingMethod \<Rightarrow> Anchor \<Rightarrow> Chunk \<Rightarrow> bool" where
  "supported H cfg target src m a c = (case m of
     GM_EXACT \<Rightarrow> lower (cited_text a c) = lower target
   | GM_FUZZY \<Rightarrow> fuzzy_threshold cfg \<le> levenshtein_ratio (normalize_text target) (normalize_text (cited_text a c))
   | GM_SEMANTIC \<Rightarrow>
       semantic_threshold cfg \<le> cosine_similarity (get_embedding H EMBEDDING_DIM target) (chunk_embedding H c) \<and>
       (set (split_ws (normalize_text (chunk_text c))) \<inter> set (split_ws (normalize_text target)) \<noteq> {} \<or>
        split_ws (normalize_text target) = [])
   | GM_VISUAL \<Rightarrow> (case (parse_candidate_bbox src, chunk_bbox c) of
       (Some cand, Some box) \<Rightarrow> visual_threshold cfg \<le> bbox_iou cand box \<and> 0 < bbox_iou cand box
     | _ \<Rightarrow> False)
   | GM_BLOCK \<Rightarrow> False)"

lemma stage_on_Some: "stage_on cfg m r = Some a \<longleftrightarrow> m \<notin> set (disabled_stages cfg) \<and> r = Some a"
  by (auto simp: stage_on_def)

lemma stage_on_None: "stage_on cfg m r = None \<longleftrightarrow> m \<in> set (disabled_stages cfg) \<or> r = None"
  by (auto simp: stage_on_def)

lemma verify_cases:
  assumes "verify H cfg val src chunks = (m, as)"
  shows "m = GM_BLOCK \<and> as = [] \<or>
    (\<exists>a. as = [a] \<and> strip (ground_target val src) \<noteq> [] \<and>
      (m = GM_EXACT \<and> stage_on cfg GM_EXACT (exact_stage (ground_target val src) chunks) = Some a
     \<or> m = GM_FUZZY \<and> stage_on cfg GM_FUZZY (fuzzy_stage cfg (ground_target val src) chunks) = Some a
     \<or> m = GM_SEMANTIC \<and> stage_on cfg GM_SEMANTIC (semantic_stage H cfg (ground_target val src) chunks) = Some a
     \<or> m = GM_VISUAL \<and> stage_on cfg GM_VISUAL (visual_stage cfg src chunks) = Some a))"
  using assms by (auto simp: verify_def Let_def split: if_splits option.splits)

lemma supported_exact: "stage_on cfg GM_EXACT (exact_stage t chunks) = Some a \<Longrightarrow>
    \<exists>c \<in> set chunks. cites a c \<and> supported H cfg t src GM_EXACT a c"
  using exact_stage_sound [of t chunks a] by (auto simp: stage_on_Some supported_def)

lemma supported_fuzzy: "stage_on cfg GM_FUZZY (fuzzy_stage cfg t chunks) = Some a \<Longrightarrow>
    \<exists>c \<in> set chunks. cites a c \<and> supported H cfg t src GM_FUZZY a c"
  using fuzzy_stage_sound [of cfg t chunks a] by (auto simp: stage_on_Some supported_def)

lemma supported_semantic: "stage_on cfg GM_SEMANTIC (semantic_stage H cfg t chunks) = Some a \<Longrightarrow>
    \<exists>c \<in> set chunks. cites a c \<and> supported H cfg t src GM_SEMANTIC a c"
  using semantic_stage_sound [of H cfg t chunks a] by (simp add: stage_on_Some supported_def)

lemma supported_visual: "stage_on cfg GM_VISUAL (visual_stage cfg src chunks) = Some a \<Longrightarrow>
    \<exists>c \<in> set chunks. cites a c \<and> supported H cfg t src GM_VISUAL a c"
  using visual_stage_sound [of cfg src chunks a] by (fastforce simp: stage_on_Some supported_def)

lemma verify_sound_gen:
  assumes "verify H cfg val src chunks = (m, as)" and "m \<noteq> GM_BLOCK"
  shows "m \<notin> set (disabled_stages cfg) \<and>
    (\<exists>a. \<exists>c \<in> set chunks. as = [a] \<and> cites a c \<and> supported H cfg (ground_target val src) src m a c)"
proof -
  let ?t = "ground_target val src"
  have pick: "\<exists>c \<in> set chunks. cites a c \<and> supported H cfg ?t src n a c \<Longrightarrow> m = n \<Longrightarrow> as = [a] \<Longrightarrow>
      n \<notin> set (disabled_stages cfg) \<Longrightarrow> ?thesis" for a n by auto
  from verify_cases [OF assms(1)] assms(2) obtain a where a: "as = [a]" and
    "m = GM_EXACT \<and> stage_on cfg GM_EXACT (exact_stage ?t chunks) = Some a
     \<or> m = GM_FUZZY \<and> stage_on cfg GM_FUZZY (fuzzy_stage cfg ?t chunks) = Some a
     \<or> m = GM_SEMANTIC \<and> stage_on cfg GM_SEMANTIC (semantic_stage H cfg ?t chunks) = Some a
     \<or> m = GM_VISUAL \<and> stage_on cfg GM_VISUAL (visual_stage cfg src chunks) = Some a" by blast
  then show ?thesis
  proof (elim disjE conjE)
    assume m: "m = GM_EXACT" and st: "stage_on cfg GM_EXACT (exact_stage ?t chunks) = Some a"
    show ?thesis by (rule pick [OF supported_exact [OF st] m a]) (use st in \<open>simp add: stage_on_Some\<close>)
  next
    assume m: "m = GM_FUZZY" and st: "stage_on cfg GM_FUZZY (fuzzy_stage cfg ?t chunks) = Some a"
    show ?thesis by (rule pick [OF supported_fuzzy [OF st] m a]) (use st in \<open>simp add: stage_on_Some\<close>)
  next
    assume m: "m = GM_SEMANTIC" and st: "stage_on cfg GM_SEMANTIC (semantic_stage H cfg ?t chunks) = Some a"
    show ?thesis by (rule pick [OF supported_semantic [OF st] m a]) (use st in \<open>simp add: stage_on_Some\<close>)
  next
    assume m: "m = GM_VISUAL" and st: "stage_on cfg GM_VISUAL (visual_stage cfg src chunks) = Some a"
    show ?thesis by (rule pick [OF supported_visual [OF st] m a]) (use st in \<open>simp add: stage_on_Some\<close>)
  qed
qed

section \<open>The interface of a grounding service\<close>

text \<open>What the orchestrator and the question-answering layer rely on: a verdict of BLOCK comes with
  no anchor and every other verdict with anchors that cite chunks of the document.\<close>

locale grounding_service =
  fixes check :: "str \<Rightarrow> str \<Rightarrow> Chunk list \<Rightarrow> GroundingMethod \<times> Anchor list"
  assumes block_iff: "fst (check v s cs) = GM_BLOCK \<longleftrightarrow> snd (check v s cs) = []"
    and anchors_cite: "a \<in> set (snd (check v s cs)) \<Longrightarrow> \<exists>c \<in> set cs. cites a c"
begin

lemma no_chunks_blocked: "check v s [] = (GM_BLOCK, [])"
proof -
  have "snd (check v s []) = []" using anchors_cite [of _ v s "[]"] by (cases "snd (check v s [])") auto
  then show ?thesis using block_iff [of v s "[]"] by (metis prod.collapse)
qed

lemma localised: "\<forall>c \<in> set cs. chunk_bbox c \<noteq> None \<Longrightarrow> a \<in> set (snd (check v s cs)) \<Longrightarrow> anchor_bbox a \<noteq> None"
  by (auto simp: cites_def dest!: anchors_cite)

end

interpretation kernel_grounding: grounding_service "verify H cfg" for H cfg
proof
  fix v s cs a
  obtain m as where v: "verify H cfg v s cs = (m, as)" by (metis prod.exhaust)
  show "fst (verify H cfg v s cs) = GM_BLOCK \<longleftrightarrow> snd (verify H cfg v s cs) = []"
    using verify_cases [OF v] v by auto
  show "\<exists>c \<in> set cs. cites a c" if "a \<in> set (snd (verify H cfg v s cs))"
    using verify_cases [OF v] verify_sound_gen [OF v] v that by fastforce
qed

section \<open>Properties\<close>



text \<open>The cascade does not miss verbatim support: the verdict is EXACT exactly when that
  stage is enabled, the target is not blank and some chunk contains the target up to case. So a
  value that stands in the document is never blocked.\<close>

theorem verify_exact_iff:
  "fst (verify H cfg val src chunks) = GM_EXACT \<longleftrightarrow>
     GM_EXACT \<notin> set (disabled_stages cfg) \<and> strip (ground_target val src) \<noteq> [] \<and>
     (\<exists>c \<in> set chunks. str_in (lower (ground_target val src)) (lower (chunk_text c)))"
  using exact_stage_complete [of "ground_target val src" chunks]
  by (auto simp: verify_def Let_def stage_on_None stage_on_Some split: option.splits)

end
