(* ===== verification/StandaloneVerifier.thy ===== *)
theory StandaloneVerifier
  imports Grounding
begin

text \<open>
  \<^verbatim>\<open>kernel/core/verifier_standalone.py\<close>: the model-independent verifier that re-checks
  a claimed quote and bounding box against the stored regions of a document. Its
  \<^verbatim>\<open>BBox\<close> class has the fields and the check of the kernel's, so the record
  \<open>BBox\<close> and \<open>mk_bbox\<close> serve for both. The \<^verbatim>\<open>detail\<close> text of a rejection,
  which prints formatted floats, is left out.
\<close>

section \<open>Data\<close>

datatype VerifyMethod = VM_EXACT | VM_FUZZY | VM_SEMANTIC | VM_VISUAL | VM_BLOCK

datatype RejectReason = RR_OFF_PAGE | RR_EMPTY_QUOTE | RR_NO_MATCH | RR_BBOX_MISMATCH | RR_WHITESPACE

record StoredRegion =
  region_text :: str
  region_bbox :: BBox
  region_page :: int
  region_id :: str

record PageBounds =
  page_width :: real
  page_height :: real

record Verified =
  v_method :: VerifyMethod
  matched_text :: str
  matched_bbox :: BBox
  matched_region_id :: str
  v_similarity :: real
  v_iou :: real
  v_page :: int

record Rejected =
  r_reason :: RejectReason
  r_best_similarity :: real
  r_best_iou :: real

type_synonym verdict = "Rejected + Verified"

section \<open>Geometry\<close>

definition compute_iou :: "BBox \<Rightarrow> BBox \<Rightarrow> real" where
  "compute_iou a b =
     (let ix0 = max (bx0 a) (bx0 b); iy0 = max (by0 a) (by0 b);
          ix1 = min (bx1 a) (bx1 b); iy1 = min (by1 a) (by1 b);
          inter_w = ix1 - ix0; inter_h = iy1 - iy0
      in if inter_w \<le> 0 \<or> inter_h \<le> 0 then 0
         else let inter_area = inter_w * inter_h;
                  union_area = bbox_area a + bbox_area b - inter_area
              in if union_area \<le> 0 then 0 else inter_area / union_area)"

definition bbox_within_page :: "BBox \<Rightarrow> PageBounds option \<Rightarrow> bool" where
  "bbox_within_page b page = (case page of
     None \<Rightarrow> True
   | Some p \<Rightarrow>
       if bx0 b < 0 \<or> by0 b < 0 then False
       else \<not> (bx1 b > page_width p \<or> by1 b > page_height p))"

fun bbox_over_whitespace :: "BBox \<Rightarrow> real \<Rightarrow> StoredRegion list \<Rightarrow> bool" where
  "bbox_over_whitespace claimed th [] = True"
| "bbox_over_whitespace claimed th (r # rs) =
     (if compute_iou claimed (region_bbox r) \<ge> th then False else bbox_over_whitespace claimed th rs)"

section \<open>Text\<close>

definition sa_normalize_text :: "str \<Rightarrow> str" where
  "sa_normalize_text s =
     (let t = strip (lower s);
          t = filter (\<lambda>c. is_word c \<or> is_space c \<or> c = CHR ''-'' \<or> c = CHR ''.'') t;
          t = join '' '' (split_ws t)
      in filter (\<lambda>c. \<not> (c = CHR 0x24 \<or> c = CHR 0xA3 \<or> c = CHR 0xA5)) t)"

definition sa_scan_window :: "str \<Rightarrow> str \<Rightarrow> (str \<times> nat \<times> nat) list \<Rightarrow> nat \<Rightarrow> nat \<Rightarrow> real \<times> (nat \<times> nat) \<Rightarrow> real \<times> (nat \<times> nat)" where
  "sa_scan_window val_norm txt spans len i st =
     (let (a, b) = window_span spans i len;
          ratio = sa_levenshtein_ratio val_norm (sa_normalize_text (text_slice txt a b))
      in if ratio > fst st then (ratio, (a, b)) else st)"

definition sa_best_fuzzy_match :: "str \<Rightarrow> str \<Rightarrow> real \<times> (nat \<times> nat)" where
  "sa_best_fuzzy_match val txt =
     (let val_norm = sa_normalize_text val in
      if val_norm = [] then (0, (0, 0))
      else let n = length (split_ws val_norm); spans = word_spans 0 txt in
        if spans = [] then (0, (0, 0))
        else fold (\<lambda>len. fold (sa_scan_window val_norm txt spans len) [0 ..< length spans + 1 - len])
               [max 1 (n - 1) ..< min (length spans + 1) (n + 3)] (0, (0, 0)))"

definition tokens :: "str \<Rightarrow> str set" where
  "tokens s = set (split_ws (sa_normalize_text s))"

definition jaccard_similarity :: "str \<Rightarrow> str \<Rightarrow> real" where
  "jaccard_similarity s1 s2 =
     (if tokens s1 = {} \<and> tokens s2 = {} then 1
      else if tokens s1 = {} \<or> tokens s2 = {} then 0
      else real (card (tokens s1 \<inter> tokens s2)) / real (card (tokens s1 \<union> tokens s2)))"

definition semantic_re_verify :: "str \<Rightarrow> str \<Rightarrow> bool" where
  "semantic_re_verify quote rtext =
     (let claim_words = tokens quote; region_words = tokens rtext;
          claim_content = Set.filter (\<lambda>w. length w > 2) claim_words
      in if claim_content = {} then claim_words \<noteq> {} \<and> claim_words \<inter> region_words \<noteq> {}
         else claim_content \<inter> region_words \<noteq> {})"

section \<open>The cascade\<close>

record StandaloneConfig =
  sa_fuzzy_threshold :: real
  sa_semantic_threshold :: real
  visual_iou_threshold :: real

definition sa_default :: StandaloneConfig where
  "sa_default = \<lparr>sa_fuzzy_threshold = 92 / 100, sa_semantic_threshold = 86 / 100, visual_iou_threshold = 1 / 2\<rparr>"

definition accept :: "VerifyMethod \<Rightarrow> StoredRegion \<Rightarrow> real \<Rightarrow> real \<Rightarrow> Verified" where
  "accept m r sim iou = \<lparr>v_method = m, matched_text = region_text r, matched_bbox = region_bbox r,
     matched_region_id = region_id r, v_similarity = sim, v_iou = iou, v_page = region_page r\<rparr>"

text \<open>The loops return the accepted region, if any, and the running best similarity and overlap.\<close>

type_synonym progress = "Verified option \<times> real \<times> real"

fun sa_exact_loop :: "StandaloneConfig \<Rightarrow> str \<Rightarrow> BBox \<Rightarrow> StoredRegion list \<Rightarrow> real \<Rightarrow> real \<Rightarrow> progress" where
  "sa_exact_loop cfg norm_quote claimed [] best_sim best_iou = (None, best_sim, best_iou)"
| "sa_exact_loop cfg norm_quote claimed (r # rs) best_sim best_iou =
     (if str_in norm_quote (sa_normalize_text (region_text r)) then
        let iou = compute_iou claimed (region_bbox r) in
        if iou \<ge> visual_iou_threshold cfg then (Some (accept VM_EXACT r 1 iou), 1, max best_iou iou)
        else sa_exact_loop cfg norm_quote claimed rs 1 (max best_iou iou)
      else sa_exact_loop cfg norm_quote claimed rs best_sim best_iou)"

fun best_region :: "(StoredRegion \<Rightarrow> real) \<Rightarrow> StoredRegion list \<Rightarrow> real \<Rightarrow> StoredRegion option \<Rightarrow> real \<times> StoredRegion option" where
  "best_region f [] b w = (b, w)"
| "best_region f (r # rs) b w = (if f r > b then best_region f rs (f r) (Some r) else best_region f rs b w)"

definition sa_fuzzy_stage :: "StandaloneConfig \<Rightarrow> str \<Rightarrow> BBox \<Rightarrow> StoredRegion list \<Rightarrow> real \<Rightarrow> real \<Rightarrow> progress" where
  "sa_fuzzy_stage cfg quote claimed regions best_sim best_iou =
     (case best_region (\<lambda>r. fst (sa_best_fuzzy_match quote (region_text r))) regions 0 None of
        (ratio, Some r) \<Rightarrow>
          if ratio \<ge> sa_fuzzy_threshold cfg then
            let iou = compute_iou claimed (region_bbox r) in
            (if iou \<ge> visual_iou_threshold cfg then Some (accept VM_FUZZY r ratio iou) else None,
             max best_sim ratio, max best_iou iou)
          else (None, best_sim, best_iou)
      | (_, None) \<Rightarrow> (None, best_sim, best_iou))"

definition sa_semantic_stage :: "StandaloneConfig \<Rightarrow> str \<Rightarrow> BBox \<Rightarrow> StoredRegion list \<Rightarrow> real \<Rightarrow> real \<Rightarrow> progress" where
  "sa_semantic_stage cfg quote claimed regions best_sim best_iou =
     (case best_region (\<lambda>r. jaccard_similarity quote (region_text r)) regions 0 None of
        (score, Some r) \<Rightarrow>
          if score \<ge> sa_semantic_threshold cfg then
            if semantic_re_verify quote (region_text r) then
              let iou = compute_iou claimed (region_bbox r) in
              (if iou \<ge> visual_iou_threshold cfg then Some (accept VM_SEMANTIC r score iou) else None,
               max best_sim score, max best_iou iou)
            else (None, max best_sim score, best_iou)
          else (None, best_sim, best_iou)
      | (_, None) \<Rightarrow> (None, best_sim, best_iou))"

fun sa_visual_loop :: "StandaloneConfig \<Rightarrow> str \<Rightarrow> str \<Rightarrow> BBox \<Rightarrow> StoredRegion list \<Rightarrow> real \<Rightarrow> Verified option \<times> real" where
  "sa_visual_loop cfg norm_quote quote claimed [] best_iou = (None, best_iou)"
| "sa_visual_loop cfg norm_quote quote claimed (r # rs) best_iou =
     (let iou = compute_iou claimed (region_bbox r); best_iou' = max best_iou iou in
      if iou \<ge> visual_iou_threshold cfg then
        if str_in norm_quote (sa_normalize_text (region_text r)) then (Some (accept VM_VISUAL r 1 iou), best_iou')
        else let fuzzy_ratio = fst (sa_best_fuzzy_match quote (region_text r)) in
          if fuzzy_ratio \<ge> sa_fuzzy_threshold cfg then (Some (accept VM_VISUAL r fuzzy_ratio iou), best_iou')
          else sa_visual_loop cfg norm_quote quote claimed rs best_iou'
      else sa_visual_loop cfg norm_quote quote claimed rs best_iou')"

definition reject :: "RejectReason \<Rightarrow> real \<Rightarrow> real \<Rightarrow> verdict" where
  "reject why sim iou = Inl \<lparr>r_reason = why, r_best_similarity = sim, r_best_iou = iou\<rparr>"

definition block_reason :: "StandaloneConfig \<Rightarrow> BBox \<Rightarrow> StoredRegion list \<Rightarrow> real \<Rightarrow> real \<Rightarrow> RejectReason" where
  "block_reason cfg claimed regions best_sim best_iou =
     (if best_sim \<ge> sa_fuzzy_threshold cfg \<or> best_sim \<ge> sa_semantic_threshold cfg then RR_BBOX_MISMATCH
      else if best_iou \<ge> visual_iou_threshold cfg then RR_NO_MATCH
      else if bbox_over_whitespace claimed (1 / 10) regions then RR_WHITESPACE
      else RR_NO_MATCH)"

definition sa_cascade :: "StandaloneConfig \<Rightarrow> str \<Rightarrow> str \<Rightarrow> BBox \<Rightarrow> StoredRegion list \<Rightarrow> verdict" where
  "sa_cascade cfg norm_quote quote claimed regions =
     (case sa_exact_loop cfg norm_quote claimed regions 0 0 of
        (Some v, _, _) \<Rightarrow> Inr v
      | (None, sim1, iou1) \<Rightarrow>
     (case sa_fuzzy_stage cfg quote claimed regions sim1 iou1 of
        (Some v, _, _) \<Rightarrow> Inr v
      | (None, sim2, iou2) \<Rightarrow>
     (case sa_semantic_stage cfg quote claimed regions sim2 iou2 of
        (Some v, _, _) \<Rightarrow> Inr v
      | (None, sim3, iou3) \<Rightarrow>
     (case sa_visual_loop cfg norm_quote quote claimed regions iou3 of
        (Some v, _) \<Rightarrow> Inr v
      | (None, iou4) \<Rightarrow> reject (block_reason cfg claimed regions sim3 iou4) sim3 iou4))))"

definition sa_verify :: "StandaloneConfig \<Rightarrow> str \<Rightarrow> BBox \<Rightarrow> StoredRegion list \<Rightarrow> PageBounds option \<Rightarrow> verdict" where
  "sa_verify cfg quote claimed regions page =
     (if regions = [] then reject RR_NO_MATCH 0 0
      else if page \<noteq> None \<and> \<not> bbox_within_page claimed page then reject RR_OFF_PAGE 0 0
      else let norm_quote = sa_normalize_text quote in
        if norm_quote = [] then reject RR_EMPTY_QUOTE 0 0
        else sa_cascade cfg norm_quote quote claimed regions)"

text \<open>The module-level convenience function: the default thresholds.\<close>

definition sa_verify_default :: "str \<Rightarrow> BBox \<Rightarrow> StoredRegion list \<Rightarrow> PageBounds option \<Rightarrow> verdict" where
  "sa_verify_default = sa_verify sa_default"

section \<open>Overlap of boxes\<close>

lemma max0_mult: "max 0 (w::real) * max 0 h = (if w \<le> 0 \<or> h \<le> 0 then 0 else w * h)"
  by (auto simp: max_def)

lemma compute_iou_eq: "compute_iou a b = bbox_iou a b"
  by (auto simp: compute_iou_def bbox_iou_def Let_def bbox_area_def max0_mult)

lemma bbox_iou_sym: "bbox_iou a b = bbox_iou b a"
  by (simp add: bbox_iou_def Let_def max.commute min.commute add.commute)

lemma inter_area_le:
  fixes w h w' h' :: real
  assumes "w' \<le> w" "h' \<le> h" "0 \<le> w" "0 \<le> h"
  shows "max 0 w' * max 0 h' \<le> w * h"
  using assms by (intro mult_mono) auto

definition inter :: "BBox \<Rightarrow> BBox \<Rightarrow> real" where
  "inter a b = max 0 (min (bx1 a) (bx1 b) - max (bx0 a) (bx0 b)) * max 0 (min (by1 a) (by1 b) - max (by0 a) (by0 b))"

lemma inter_bounds:
  assumes "bbox_ok a" "bbox_ok b"
  shows "0 \<le> inter a b" "inter a b \<le> bbox_area a" "inter a b \<le> bbox_area b"
  using assms unfolding inter_def bbox_area_def bbox_ok_def
  by (simp_all add: inter_area_le)

lemma bbox_iou_inter:
  "bbox_iou a b = (if bbox_area a + bbox_area b - inter a b \<le> 0 then 0
     else inter a b / (bbox_area a + bbox_area b - inter a b))"
  by (simp add: bbox_iou_def Let_def inter_def bbox_area_def)

lemma bbox_iou_range:
  assumes "bbox_ok a" "bbox_ok b"
  shows "0 \<le> bbox_iou a b \<and> bbox_iou a b \<le> 1"
  using inter_bounds [OF assms] by (simp add: bbox_iou_inter divide_le_eq_1)

lemma product_tight:
  fixes w h w' h' :: real
  assumes "max 0 w' * max 0 h' = w * h" "w' \<le> w" "h' \<le> h" "0 < w" "0 < h"
  shows "w' = w \<and> h' = h"
proof -
  have "0 < max 0 w' * max 0 h'" using assms by simp
  then have pos: "0 < w'" "0 < h'" by (auto simp: zero_less_mult_iff less_max_iff_disj)
  then have e: "w' * h' = w * h" using assms(1) by (simp add: max_def split: if_splits)
  have "w' = w"
  proof (rule ccontr)
    assume "w' \<noteq> w"
    then have "w' * h' < w * h" using assms(2,3) pos by (intro mult_less_le_imp_less) auto
    then show False using e by simp
  qed
  with e assms(4) show ?thesis by simp
qed

lemma inter_full:
  assumes "bbox_ok a" "bbox_ok b" "inter a b = bbox_area a" "0 < bbox_area a"
  shows "bx0 b \<le> bx0 a \<and> bx1 a \<le> bx1 b \<and> by0 b \<le> by0 a \<and> by1 a \<le> by1 b"
proof -
  have pos: "0 < bx1 a - bx0 a" "0 < by1 a - by0 a"
    using assms(1,4) by (auto simp: bbox_ok_def bbox_area_def zero_less_mult_iff)
  have "min (bx1 a) (bx1 b) - max (bx0 a) (bx0 b) = bx1 a - bx0 a \<and>
        min (by1 a) (by1 b) - max (by0 a) (by0 b) = by1 a - by0 a"
    by (rule product_tight) (use assms(3) pos in \<open>auto simp: inter_def bbox_area_def\<close>)
  then show ?thesis by linarith
qed

lemma inter_self: "bbox_ok a \<Longrightarrow> inter a a = bbox_area a"
  by (simp add: inter_def bbox_area_def bbox_ok_def)

lemma bbox_iou_1:
  assumes "bbox_ok a" "bbox_ok b"
  shows "bbox_iou a b = 1 \<longleftrightarrow> a = b \<and> 0 < bbox_area a"
proof
  assume one: "bbox_iou a b = 1"
  note bnd = inter_bounds [OF assms]
  from one have "inter a b = bbox_area a + bbox_area b - inter a b" "0 < bbox_area a + bbox_area b - inter a b"
    by (auto simp: bbox_iou_inter split: if_splits)
  with bnd have e: "inter a b = bbox_area a" "inter a b = bbox_area b" "0 < bbox_area a" "0 < bbox_area b" by linarith+
  have "inter b a = inter a b" by (simp add: inter_def min.commute max.commute)
  with inter_full [OF assms e(1,3)] inter_full [OF assms(2,1)] e show "a = b \<and> 0 < bbox_area a"
    by (auto intro!: BBox.equality)
next
  assume "a = b \<and> 0 < bbox_area a"
  then show "bbox_iou a b = 1"
    using inter_self [OF assms(1)] by (auto simp: bbox_iou_inter)
qed

section \<open>Soundness of the stages\<close>

lemma sa_normalize_text_eq: "sa_normalize_text = normalize_text"
  by (simp add: fun_eq_iff sa_normalize_text_def normalize_text_def kept_char_def [abs_def] is_currency_def)

lemma best_region_cases:
  "best_region f rs b w = (b', w') \<Longrightarrow> (b', w') = (b, w) \<or> (\<exists>r \<in> set rs. w' = Some r \<and> b' = f r \<and> b < b')"
  by (induction f rs b w rule: best_region.induct) (force split: if_splits)+

lemma best_region_max: "best_region f rs b w = (b', w') \<Longrightarrow> b \<le> b' \<and> (\<forall>r \<in> set rs. f r \<le> b')"
  by (induction f rs b w rule: best_region.induct) (force split: if_splits)+

text \<open>The text evidence an acceptance stands for.\<close>

definition sa_evidence :: "StandaloneConfig \<Rightarrow> str \<Rightarrow> StoredRegion \<Rightarrow> Verified \<Rightarrow> bool" where
  "sa_evidence cfg quote r v = (case v_method v of
     VM_EXACT \<Rightarrow> str_in (sa_normalize_text quote) (sa_normalize_text (region_text r)) \<and> v_similarity v = 1
   | VM_FUZZY \<Rightarrow> v_similarity v = fst (sa_best_fuzzy_match quote (region_text r)) \<and> sa_fuzzy_threshold cfg \<le> v_similarity v
   | VM_SEMANTIC \<Rightarrow> v_similarity v = jaccard_similarity quote (region_text r) \<and> sa_semantic_threshold cfg \<le> v_similarity v \<and>
       semantic_re_verify quote (region_text r)
   | VM_VISUAL \<Rightarrow> v_similarity v = fst (sa_best_fuzzy_match quote (region_text r)) \<and> sa_fuzzy_threshold cfg \<le> v_similarity v
   | VM_BLOCK \<Rightarrow> False)"

definition sa_justified :: "StandaloneConfig \<Rightarrow> str \<Rightarrow> BBox \<Rightarrow> StoredRegion list \<Rightarrow> Verified \<Rightarrow> bool" where
  "sa_justified cfg quote claimed regions v \<longleftrightarrow>
     (\<exists>r \<in> set regions. v = accept (v_method v) r (v_similarity v) (compute_iou claimed (region_bbox r)) \<and>
        visual_iou_threshold cfg \<le> v_iou v \<and> sa_evidence cfg quote r v)"

lemma accept_sel [simp]:
  "v_method (accept m r s i) = m" "v_similarity (accept m r s i) = s" "v_iou (accept m r s i) = i"
  by (simp_all add: accept_def)

lemma sa_justifiedI:
  "r \<in> set regions \<Longrightarrow> v = accept m r s (compute_iou claimed (region_bbox r)) \<Longrightarrow>
   visual_iou_threshold cfg \<le> compute_iou claimed (region_bbox r) \<Longrightarrow> sa_evidence cfg quote r v \<Longrightarrow>
   sa_justified cfg quote claimed regions v"
  by (auto simp: sa_justified_def)

lemma sa_justified_iou:
  "sa_justified cfg quote claimed regions v \<Longrightarrow>
     \<exists>r \<in> set regions. visual_iou_threshold cfg \<le> compute_iou claimed (region_bbox r)"
  unfolding sa_justified_def by (metis accept_sel(3))

lemma sa_exact_loop_sound:
  "sa_exact_loop cfg nq claimed rs s i = (Some v, s', i') \<Longrightarrow>
     \<exists>r \<in> set rs. str_in nq (sa_normalize_text (region_text r)) \<and>
       visual_iou_threshold cfg \<le> compute_iou claimed (region_bbox r) \<and>
       v = accept VM_EXACT r 1 (compute_iou claimed (region_bbox r))"
  by (induction cfg nq claimed rs s i rule: sa_exact_loop.induct) (auto simp: Let_def split: if_splits)

lemma sa_exact_loop_None:
  "sa_exact_loop cfg nq claimed rs s i = (None, s', i') \<Longrightarrow> r \<in> set rs \<Longrightarrow>
     str_in nq (sa_normalize_text (region_text r)) \<Longrightarrow> \<not> visual_iou_threshold cfg \<le> compute_iou claimed (region_bbox r)"
  by (induction cfg nq claimed rs s i rule: sa_exact_loop.induct) (auto simp: Let_def split: if_splits)

lemma sa_fuzzy_stage_sound:
  "sa_fuzzy_stage cfg quote claimed rs s i = (Some v, s', i') \<Longrightarrow> sa_justified cfg quote claimed rs v"
  by (auto simp: sa_fuzzy_stage_def Let_def sa_evidence_def dest!: best_region_cases intro!: sa_justifiedI
      split: prod.splits option.splits if_splits)

lemma sa_semantic_stage_sound:
  "sa_semantic_stage cfg quote claimed rs s i = (Some v, s', i') \<Longrightarrow> sa_justified cfg quote claimed rs v"
  by (auto simp: sa_semantic_stage_def Let_def sa_evidence_def dest!: best_region_cases intro!: sa_justifiedI
      split: prod.splits option.splits if_splits)

text \<open>The visual loop runs only when the exact loop failed, so no region with a sufficient overlap
  contains the quote and its first acceptance is dead code: it accepts on the fuzzy ratio.\<close>

lemma sa_visual_loop_sound:
  assumes "\<forall>r \<in> set rs. visual_iou_threshold cfg \<le> compute_iou claimed (region_bbox r) \<longrightarrow>
      \<not> str_in nq (sa_normalize_text (region_text r))"
    and "sa_visual_loop cfg nq quote claimed rs i = (Some v, i')"
  shows "\<exists>r \<in> set rs. sa_fuzzy_threshold cfg \<le> fst (sa_best_fuzzy_match quote (region_text r)) \<and>
    visual_iou_threshold cfg \<le> compute_iou claimed (region_bbox r) \<and>
    v = accept VM_VISUAL r (fst (sa_best_fuzzy_match quote (region_text r))) (compute_iou claimed (region_bbox r))"
  using assms
  by (induction cfg nq quote claimed rs i rule: sa_visual_loop.induct) (auto simp: Let_def split: if_splits)

lemma sa_cascade_sound:
  assumes "sa_cascade cfg (sa_normalize_text quote) quote claimed rs = Inr v"
  shows "sa_justified cfg quote claimed rs v"
proof -
  let ?nq = "sa_normalize_text quote"
  obtain w1 s1 i1 where e: "sa_exact_loop cfg ?nq claimed rs 0 0 = (w1, s1, i1)" by (metis prod.exhaust)
  obtain w2 s2 i2 where f: "sa_fuzzy_stage cfg quote claimed rs s1 i1 = (w2, s2, i2)" by (metis prod.exhaust)
  obtain w3 s3 i3 where m: "sa_semantic_stage cfg quote claimed rs s2 i2 = (w3, s3, i3)" by (metis prod.exhaust)
  obtain w4 i4 where l: "sa_visual_loop cfg ?nq quote claimed rs i3 = (w4, i4)" by (metis prod.exhaust)
  consider "w1 = Some v" | "w1 = None" "w2 = Some v" | "w1 = None" "w2 = None" "w3 = Some v"
    | "w1 = None" "w4 = Some v"
    using assms by (auto simp: sa_cascade_def e f m l reject_def split: option.splits)
  then show ?thesis
  proof cases
    case 1
    from sa_exact_loop_sound [OF e [unfolded 1]] show ?thesis
      by (auto intro!: sa_justifiedI simp: sa_evidence_def)
  next
    case 2
    show ?thesis by (rule sa_fuzzy_stage_sound [OF f [unfolded 2]])
  next
    case 3
    show ?thesis by (rule sa_semantic_stage_sound [OF m [unfolded 3]])
  next
    case 4
    from sa_exact_loop_None [OF e [unfolded 4(1)]] sa_visual_loop_sound [OF _ l [unfolded 4(2)]]
    show ?thesis by (fastforce intro!: sa_justifiedI simp: sa_evidence_def)
  qed
qed

lemma sa_verify_Inr:
  "sa_verify cfg quote claimed rs page = Inr v \<longleftrightarrow>
     rs \<noteq> [] \<and> bbox_within_page claimed page \<and> sa_normalize_text quote \<noteq> [] \<and>
     sa_cascade cfg (sa_normalize_text quote) quote claimed rs = Inr v"
  by (cases page) (auto simp: sa_verify_def Let_def reject_def bbox_within_page_def)

lemma sa_exact_complete:
  assumes "r \<in> set rs" "str_in nq (sa_normalize_text (region_text r))"
    "visual_iou_threshold cfg \<le> compute_iou claimed (region_bbox r)"
  shows "\<exists>v s i. sa_exact_loop cfg nq claimed rs s0 i0 = (Some v, s, i) \<and> v_method v = VM_EXACT \<and> v_similarity v = 1"
proof -
  obtain w s i where e: "sa_exact_loop cfg nq claimed rs s0 i0 = (w, s, i)" by (metis prod.exhaust)
  with sa_exact_loop_None [of cfg nq claimed rs s0 i0 s i r] assms obtain v where v: "w = Some v" by (cases w) auto
  from sa_exact_loop_sound [OF e [unfolded v]] e v show ?thesis by auto
qed

section \<open>Properties\<close>

definition sample_region :: StoredRegion where
  "sample_region = \<lparr>region_text = chunk_text sample_chunk, region_bbox = sample_box, region_page = 1, region_id = ''r1''\<rparr>"

definition shifted_box :: BBox where
  "shifted_box = \<lparr>bx0 = 10, by0 = 60, bx1 = 110, by1 = 80\<rparr>"

lemma sample_iou: "compute_iou sample_box sample_box = 1" "compute_iou shifted_box sample_box = 0"
  by (simp_all add: compute_iou_def sample_box_def shifted_box_def bbox_area_def)

lemma sample_quote_in: "str_in (sa_normalize_text ''total DUE'') (sa_normalize_text (region_text sample_region))"
  by code_simp

text \<open>The overlap measure is right: for boxes with ordered corners the intersection over union
  lies between 0 and 1, does not depend on the order of the boxes, is 1 exactly for equal boxes of
  positive area, and the kernel's function and the standalone verifier's compute the same value.\<close>

theorem iou_correct:
  assumes "bbox_ok a" and "bbox_ok b"
  shows "0 \<le> bbox_iou a b \<and> bbox_iou a b \<le> 1 \<and> bbox_iou a b = bbox_iou b a \<and>
    (bbox_iou a b = 1 \<longleftrightarrow> a = b \<and> 0 < bbox_area a) \<and> compute_iou a b = bbox_iou a b"
  using bbox_iou_range [OF assms] bbox_iou_1 [OF assms] bbox_iou_sym compute_iou_eq by blast

theorem iou_correct_witness: "bbox_iou sample_box shifted_box = 0 \<and> bbox_iou sample_box shifted_box \<noteq> 1"
proof -
  have "bbox_ok sample_box" "bbox_ok shifted_box" by (simp_all add: bbox_ok_def sample_box_def shifted_box_def)
  from iou_correct [OF this] sample_iou(2) compute_iou_eq [of shifted_box sample_box] show ?thesis
    by (simp add: bbox_iou_sym sample_box_def shifted_box_def)
qed

text \<open>C22: the model cannot self-certify. Whatever the standalone verifier accepts is backed by a
  stored region: the text, box, page and identifier it reports are that region's, the reported
  overlap is that of the claimed box with the region's and reaches the threshold, the claimed box
  is on the page, and the text evidence of the reported stage holds. A VISUAL acceptance always
  rests on the fuzzy ratio: the branch that accepts on containment cannot be reached.\<close>

theorem standalone_accepts_justified:
  assumes "sa_verify cfg quote claimed regions page = Inr v"
  shows "sa_justified cfg quote claimed regions v \<and> bbox_within_page claimed page \<and> sa_normalize_text quote \<noteq> []"
  using assms sa_cascade_sound by (auto simp: sa_verify_Inr)

text \<open>A claim whose box overlaps no stored region by the threshold is rejected, whatever its
  text, also when the text stands verbatim in the document: the hallucinated location check.\<close>

theorem hallucinated_box_rejected:
  assumes "\<forall>r \<in> set regions. compute_iou claimed (region_bbox r) < visual_iou_threshold cfg"
  shows "\<exists>rej. sa_verify cfg quote claimed regions page = Inl rej"
proof (cases "sa_verify cfg quote claimed regions page")
  case (Inr v)
  then have "sa_justified cfg quote claimed regions v" using sa_cascade_sound by (auto simp: sa_verify_Inr)
  with assms show ?thesis by (auto dest!: sa_justified_iou)
qed simp

theorem hallucinated_box_rejected_witness:
  "\<exists>rej. sa_verify sa_default ''total DUE'' shifted_box [sample_region] None = Inl rej"
  by (rule hallucinated_box_rejected) (simp add: sample_iou sample_region_def sa_default_def)

text \<open>A true claim is accepted: when some stored region contains the normalised quote, which
  is not empty, and the claimed box lies on the page and overlaps that region by the threshold, the
  verdict is an EXACT acceptance with similarity 1.\<close>

theorem standalone_exact_complete:
  assumes "r \<in> set regions" and "sa_normalize_text quote \<noteq> []"
    and "str_in (sa_normalize_text quote) (sa_normalize_text (region_text r))"
    and "visual_iou_threshold cfg \<le> compute_iou claimed (region_bbox r)"
    and "bbox_within_page claimed page"
  shows "\<exists>v. sa_verify cfg quote claimed regions page = Inr v \<and> v_method v = VM_EXACT \<and> v_similarity v = 1"
proof -
  obtain v s i where "sa_exact_loop cfg (sa_normalize_text quote) claimed regions 0 0 = (Some v, s, i)"
    "v_method v = VM_EXACT" "v_similarity v = 1"
    using sa_exact_complete [OF assms(1,3,4)] by blast
  then show ?thesis using assms(1,2,5) by (auto simp: sa_verify_Inr sa_cascade_def)
qed

theorem standalone_exact_complete_witness:
  "\<exists>v. sa_verify sa_default ''total DUE'' sample_box [sample_region] None = Inr v \<and> v_method v = VM_EXACT \<and> v_similarity v = 1"
proof (rule standalone_exact_complete [where r = sample_region, OF _ _ sample_quote_in])
  show "sa_normalize_text ''total DUE'' \<noteq> []" by code_simp
qed (simp_all add: sample_iou sample_region_def sa_default_def bbox_within_page_def)

theorem standalone_accepts_justified_witness:
  "sa_justified sa_default ''total DUE'' sample_box [sample_region] (accept VM_EXACT sample_region 1 1)"
proof -
  have e: "sa_exact_loop sa_default (sa_normalize_text ''total DUE'') sample_box [sample_region] 0 0
      = (Some (accept VM_EXACT sample_region 1 1), 1, 1)"
    using sample_quote_in by (simp add: sample_iou sample_region_def sa_default_def)
  have n: "sa_normalize_text ''total DUE'' \<noteq> []" by code_simp
  have "sa_verify sa_default ''total DUE'' sample_box [sample_region] None = Inr (accept VM_EXACT sample_region 1 1)"
    unfolding sa_verify_Inr sa_cascade_def e using n by (simp add: bbox_within_page_def)
  from standalone_accepts_justified [OF this] show ?thesis ..
qed

end
