(* ===== verification/HashChain.thy ===== *)
theory HashChain
  imports PyStr
begin

text \<open>
  The chain of authenticated entries that the audit log and the flight recorder share: every entry
  carries a tag over its content, and its content includes the tag of the entry before. The locale
  \<open>mac_chain\<close> states what the two components promise of their entries and derives tamper evidence
  once. A collision is never assumed away: where two different histories both verify, the theorem
  names the two contents, one from each history, that have the same tag.
\<close>

text \<open>\<^verbatim>\<open>hmac.compare_digest\<close> on two strings: equality, after refusing text that is not ASCII.\<close>

definition is_ascii :: "str \<Rightarrow> bool" where
  "is_ascii s \<longleftrightarrow> list_all (\<lambda>c. (of_char c :: nat) < 128) s"

definition compare_digest :: "str \<Rightarrow> str \<Rightarrow> bool result" where
  "compare_digest a b =
     (if is_ascii a \<and> is_ascii b then Ok (a = b)
      else Raise (TypeError ''comparing strings with non-ASCII characters is not supported''))"

lemma hex_char_ascii: "d < 16 \<Longrightarrow> (of_char (hex_char d) :: nat) < 128"
  by (auto simp: hex_char_def)

lemma is_ascii_hex [simp]: "is_ascii (hex bs)"
proof -
  have "is_ascii (hex_byte b)" for b
    using unsigned_less [of b, where ?'a = nat]
    by (simp add: is_ascii_def hex_byte_def Let_def hex_char_ascii less_mult_imp_div_less)
  then show ?thesis by (induction bs) (simp_all add: hex_def is_ascii_def)
qed

lemma compare_digest_ascii [simp]: "is_ascii a \<Longrightarrow> is_ascii b \<Longrightarrow> compare_digest a b = Ok (a = b)"
  by (simp add: compare_digest_def)

lemma hex_Nil_iff [simp]: "hex bs = [] \<longleftrightarrow> bs = []"
proof -
  have "hex [] = []" by (simp add: hex_def)
  then show ?thesis using hex_inject [of bs "[]"] by simp
qed

locale mac_chain =
  fixes mac :: "bytes \<Rightarrow> str"
    and content :: "'e \<Rightarrow> bytes"
    and sig :: "'e \<Rightarrow> str"
    and prev :: "'e \<Rightarrow> str"
    and genesis :: str
    and wf :: "'e \<Rightarrow> bool"
    and same :: "'e \<Rightarrow> 'e \<Rightarrow> bool"
  assumes content_prev: "wf x \<Longrightarrow> wf y \<Longrightarrow> content x = content y \<Longrightarrow> prev x = prev y"
    and content_same: "wf x \<Longrightarrow> wf y \<Longrightarrow> content x = content y \<Longrightarrow> sig x = sig y \<Longrightarrow> same x y"
begin

fun chain_ok :: "str \<Rightarrow> 'e list \<Rightarrow> bool" where
  "chain_ok p [] = True"
| "chain_ok p (e # es) = (sig e = mac (content e) \<and> prev e = p \<and> chain_ok (sig e) es)"

definition last_sig :: "str \<Rightarrow> 'e list \<Rightarrow> str" where
  "last_sig p es = (if es = [] then p else sig (last es))"

definition clash :: "'e list \<Rightarrow> 'e list \<Rightarrow> bool" where
  "clash xs ys \<longleftrightarrow> (\<exists>x \<in> set xs. \<exists>y \<in> set ys. content x \<noteq> content y \<and> mac (content x) = mac (content y))"

lemma chain_ok_snoc:
  "chain_ok p (es @ [e]) \<longleftrightarrow> chain_ok p es \<and> sig e = mac (content e) \<and> prev e = last_sig p es"
  by (induction es arbitrary: p) (auto simp: last_sig_def)

lemma last_sig_snoc [simp]: "last_sig p (es @ [e]) = sig e"
  by (simp add: last_sig_def)

lemma chain_ok_prefix: "chain_ok p (es @ fs) \<Longrightarrow> chain_ok p es"
  by (induction es arbitrary: p) auto

text \<open>Tamper evidence: two verified histories that end in the same tag are the same history,
  unless two of their contents collide. The tag of an entry never equals the genesis value.\<close>

lemma chain_unique:
  assumes "\<And>c. mac c \<noteq> genesis"
  shows "chain_ok genesis xs \<Longrightarrow> chain_ok genesis ys \<Longrightarrow> list_all wf xs \<Longrightarrow> list_all wf ys \<Longrightarrow>
    last_sig genesis xs = last_sig genesis ys \<Longrightarrow> list_all2 same xs ys \<or> clash xs ys"
proof (induction xs arbitrary: ys rule: rev_induct)
  case Nil
  show ?case
  proof (cases ys rule: rev_cases)
    case (snoc ys' y)
    then have "mac (content y) = genesis" using Nil by (simp add: chain_ok_snoc) (simp add: last_sig_def)
    then show ?thesis using assms by blast
  qed simp
next
  case (snoc x xs)
  show ?case
  proof (cases ys rule: rev_cases)
    case Nil
    then have "mac (content x) = genesis" using snoc.prems by (simp add: chain_ok_snoc) (simp add: last_sig_def)
    then show ?thesis using assms by blast
  next
    case ys: (snoc ys' y)
    from snoc.prems ys have e: "mac (content x) = mac (content y)" "sig x = sig y" "wf x" "wf y"
      by (auto simp: chain_ok_snoc)
    show ?thesis
    proof (cases "content x = content y")
      case True
      from content_prev [OF e(3,4) True] snoc.prems ys
      have "last_sig genesis xs = last_sig genesis ys'" by (auto simp: chain_ok_snoc)
      then have "list_all2 same xs ys' \<or> clash xs ys'"
        using snoc.prems ys by (intro snoc.IH) (auto simp: chain_ok_snoc)
      moreover have "same x y" using content_same [OF e(3,4) True e(2)] .
      ultimately show ?thesis using ys by (auto simp: clash_def list_all2_appendI)
    next
      case False
      then show ?thesis using e ys by (auto simp: clash_def)
    qed
  qed
qed

end

end
