(* ===== verification/AuditLog.thy ===== *)
theory AuditLog
  imports HashChain DataModel
begin

text \<open>
  \<^verbatim>\<open>kernel/core/audit_log.py\<close> and the JSON export of
  \<^verbatim>\<open>kernel/core/audit_export.py\<close>: the signed log of answers and refusals. Parameters:
  \<open>hm\<close> is HMAC-SHA256 (key, message), \<open>fr\<close> the text Python prints for a float; the identifier and
  the time stamp of a new entry are arguments. An entry read back from JSON must have fields of the
  declared types; the code stores whatever it finds.
\<close>

section \<open>Entries and the log\<close>

record AuditEntry =
  ae_entry_id :: str
  ae_timestamp :: str
  ae_question :: str
  ae_document_hash :: str
  ae_outcome :: str
  ae_grounded :: bool
  ae_source_region :: "(str, json) dict"
  ae_cascade_stage :: str
  ae_model_id :: str
  ae_signature :: str
  ae_prev_signature :: str

definition entry_payload :: "AuditEntry \<Rightarrow> json" where
  "entry_payload e = JObj
     [(''entry_id'', JStr (ae_entry_id e)), (''timestamp'', JStr (ae_timestamp e)),
      (''question'', JStr (ae_question e)), (''document_hash'', JStr (ae_document_hash e)),
      (''outcome'', JStr (ae_outcome e)), (''grounded'', JBool (ae_grounded e)),
      (''source_region'', JObj (ae_source_region e)), (''cascade_stage'', JStr (ae_cascade_stage e)),
      (''model_id'', JStr (ae_model_id e)), (''prev_signature'', JStr (ae_prev_signature e))]"

definition content_bytes :: "AuditEntry \<Rightarrow> bytes" where
  "content_bytes e = utf8 (dumps compact (sort_json (entry_payload e)))"

record SignedAuditLog =
  session_key :: bytes
  al_entries :: "AuditEntry list"
  last_signature :: str

definition new_audit_log :: "bytes \<Rightarrow> SignedAuditLog result" where
  "new_audit_log key =
     (if key = [] then Raise (ValueError ''session_key must not be empty'')
      else Ok \<lparr>session_key = key, al_entries = [], last_signature = []\<rparr>)"

definition audit_sign :: "(bytes \<Rightarrow> bytes \<Rightarrow> bytes) \<Rightarrow> bytes \<Rightarrow> bytes \<Rightarrow> str" where
  "audit_sign hm key content = hex (hm key content)"

definition anchor_to_region :: "(real \<Rightarrow> str) \<Rightarrow> Anchor \<Rightarrow> (str, json) dict" where
  "anchor_to_region fr a =
     [(''chunk_id'', JStr (anchor_chunk_id a)),
      (''char_span'', JList [JInt (fst (char_span a)), JInt (snd (char_span a))]),
      (''page'', JInt (anchor_page a))]
     @ (case anchor_bbox a of
          None \<Rightarrow> []
        | Some b \<Rightarrow> [(''bbox'', JObj [(''x0'', JFloat (fr (bx0 b))), (''y0'', JFloat (fr (by0 b))),
                                    (''x1'', JFloat (fr (bx1 b))), (''y1'', JFloat (fr (by1 b)))])])"

definition answer_region :: "(real \<Rightarrow> str) \<Rightarrow> Anchor list \<Rightarrow> (str, json) dict" where
  "answer_region fr cits = (case cits of
     [] \<Rightarrow> []
   | a # rest \<Rightarrow> anchor_to_region fr a @
       (if rest = [] then []
        else [(''additional_citations'', JList (map (\<lambda>x. JObj (anchor_to_region fr x)) rest))]))"

definition append_signed :: "(bytes \<Rightarrow> bytes \<Rightarrow> bytes) \<Rightarrow> AuditEntry \<Rightarrow> SignedAuditLog \<Rightarrow> AuditEntry \<times> SignedAuditLog" where
  "append_signed hm e lg =
     (let sg = audit_sign hm (session_key lg) (content_bytes e);
          e' = e\<lparr>ae_signature := sg\<rparr>
      in (e', lg\<lparr>al_entries := al_entries lg @ [e'], last_signature := sg\<rparr>))"

definition log_answer ::
  "(real \<Rightarrow> str) \<Rightarrow> (bytes \<Rightarrow> bytes \<Rightarrow> bytes) \<Rightarrow> str \<Rightarrow> str \<Rightarrow> Answer \<Rightarrow> str \<Rightarrow> str \<Rightarrow> str \<Rightarrow> SignedAuditLog
     \<Rightarrow> AuditEntry \<times> SignedAuditLog" where
  "log_answer fr hm uuid now ans doc_hash model stage lg =
     (let stage' = (if stage = [] then (if grounded ans then ''EXACT'' else ''BLOCK'') else stage)
      in append_signed hm
           \<lparr>ae_entry_id = uuid, ae_timestamp = now, ae_question = query ans, ae_document_hash = doc_hash,
            ae_outcome = ''answer'', ae_grounded = grounded ans,
            ae_source_region = answer_region fr (citations ans), ae_cascade_stage = stage',
            ae_model_id = model, ae_signature = [], ae_prev_signature = last_signature lg\<rparr> lg)"

definition log_refusal ::
  "(bytes \<Rightarrow> bytes \<Rightarrow> bytes) \<Rightarrow> str \<Rightarrow> str \<Rightarrow> str \<Rightarrow> str \<Rightarrow> str \<Rightarrow> str \<Rightarrow> SignedAuditLog
     \<Rightarrow> AuditEntry \<times> SignedAuditLog" where
  "log_refusal hm uuid now qn doc_hash stage model lg =
     append_signed hm
       \<lparr>ae_entry_id = uuid, ae_timestamp = now, ae_question = qn, ae_document_hash = doc_hash,
        ae_outcome = ''refusal'', ae_grounded = False, ae_source_region = [], ae_cascade_stage = stage,
        ae_model_id = model, ae_signature = [], ae_prev_signature = last_signature lg\<rparr> lg"

definition verify_entry :: "(bytes \<Rightarrow> bytes \<Rightarrow> bytes) \<Rightarrow> bytes \<Rightarrow> AuditEntry \<Rightarrow> bool result" where
  "verify_entry hm key e = compare_digest (ae_signature e) (audit_sign hm key (content_bytes e))"

fun verify_entries :: "(bytes \<Rightarrow> bytes \<Rightarrow> bytes) \<Rightarrow> bytes \<Rightarrow> str \<Rightarrow> AuditEntry list \<Rightarrow> bool result" where
  "verify_entries hm key expected_prev [] = Ok True"
| "verify_entries hm key expected_prev (e # es) =
     (case verify_entry hm key e of
        Inl err \<Rightarrow> Raise err
      | Inr ok \<Rightarrow>
          if \<not> ok then Ok False
          else if ae_prev_signature e \<noteq> expected_prev then Ok False
          else verify_entries hm key (ae_signature e) es)"

definition verify_chain :: "(bytes \<Rightarrow> bytes \<Rightarrow> bytes) \<Rightarrow> SignedAuditLog \<Rightarrow> bool result" where
  "verify_chain hm lg = verify_entries hm (session_key lg) [] (al_entries lg)"

definition verify_chain_with_key :: "(bytes \<Rightarrow> bytes \<Rightarrow> bytes) \<Rightarrow> bytes \<Rightarrow> SignedAuditLog \<Rightarrow> bool result" where
  "verify_chain_with_key hm key lg = verify_entries hm key [] (al_entries lg)"

section \<open>Serialisation\<close>

definition entry_json :: "AuditEntry \<Rightarrow> json" where
  "entry_json e = JObj
     [(''entry_id'', JStr (ae_entry_id e)), (''timestamp'', JStr (ae_timestamp e)),
      (''question'', JStr (ae_question e)), (''document_hash'', JStr (ae_document_hash e)),
      (''outcome'', JStr (ae_outcome e)), (''grounded'', JBool (ae_grounded e)),
      (''source_region'', JObj (ae_source_region e)), (''cascade_stage'', JStr (ae_cascade_stage e)),
      (''model_id'', JStr (ae_model_id e)), (''signature'', JStr (ae_signature e)),
      (''prev_signature'', JStr (ae_prev_signature e))]"

definition audit_to_json :: "SignedAuditLog \<Rightarrow> str" where
  "audit_to_json lg = dumps indent2 (JObj [(''entries'', JList (map entry_json (al_entries lg)))])"

definition entry_of_json :: "json \<Rightarrow> AuditEntry result" where
  "entry_of_json v = (case v of
     JObj d \<Rightarrow>
       bind_ok (get_str d ''entry_id'') (\<lambda>eid. bind_ok (get_str d ''timestamp'') (\<lambda>ts.
       bind_ok (get_str d ''question'') (\<lambda>qn. bind_ok (get_str d ''document_hash'') (\<lambda>dh.
       bind_ok (get_str d ''outcome'') (\<lambda>oc. bind_ok (get_bool d ''grounded'') (\<lambda>gr.
       bind_ok (get_obj d ''source_region'') (\<lambda>sr. bind_ok (get_str d ''cascade_stage'') (\<lambda>cs.
       bind_ok (get_str d ''model_id'') (\<lambda>mi. bind_ok (get_str d ''signature'') (\<lambda>sg.
       bind_ok (get_str d ''prev_signature'') (\<lambda>ps.
         Ok \<lparr>ae_entry_id = eid, ae_timestamp = ts, ae_question = qn, ae_document_hash = dh,
             ae_outcome = oc, ae_grounded = gr, ae_source_region = sr, ae_cascade_stage = cs,
             ae_model_id = mi, ae_signature = sg, ae_prev_signature = ps\<rparr>)))))))))))
   | _ \<Rightarrow> Raise (TypeError ''entry''))"

fun entries_of_json :: "json list \<Rightarrow> AuditEntry list result" where
  "entries_of_json [] = Ok []"
| "entries_of_json (v # vs) = bind_ok (entry_of_json v) (\<lambda>e. bind_ok (entries_of_json vs) (\<lambda>es. Ok (e # es)))"

definition audit_from_json :: "(bytes \<Rightarrow> bytes \<Rightarrow> bytes) \<Rightarrow> bytes \<Rightarrow> str \<Rightarrow> SignedAuditLog result" where
  "audit_from_json hm key data = (case loads data of
     None \<Rightarrow> Raise (ValueError ''JSONDecodeError'')
   | Some obj \<Rightarrow>
       bind_ok (new_audit_log key) (\<lambda>lg.
       case obj of
         JObj d \<Rightarrow>
           (case dict_get d ''entries'' of
              None \<Rightarrow> Raise (KeyError ''entries'')
            | Some (JList vs) \<Rightarrow>
                bind_ok (entries_of_json vs) (\<lambda>es.
                let lg' = lg\<lparr>al_entries := es, last_signature := (if es = [] then [] else ae_signature (last es))\<rparr>
                in bind_ok (verify_chain hm lg') (\<lambda>ok.
                   if \<not> ok then Raise (ValueError ''Loaded audit log chain is broken (tampered)'') else Ok lg'))
            | Some _ \<Rightarrow> Raise (TypeError ''entries''))
       | _ \<Rightarrow> Raise (TypeError ''list indices'')))"

definition count_if :: "('a \<Rightarrow> bool) \<Rightarrow> 'a list \<Rightarrow> int" where
  "count_if P xs = int (length (filter P xs))"

definition export_entry :: "AuditEntry \<Rightarrow> json" where
  "export_entry e = JObj
     [(''entry_id'', JStr (ae_entry_id e)), (''timestamp'', JStr (ae_timestamp e)),
      (''question'', JStr (ae_question e)), (''document_hash'', JStr (ae_document_hash e)),
      (''outcome'', JStr (ae_outcome e)), (''grounded'', JBool (ae_grounded e)),
      (''source_region'', if ae_source_region e \<noteq> [] then JObj (ae_source_region e) else JNull),
      (''cascade_stage'', JStr (ae_cascade_stage e)), (''model_id'', JStr (ae_model_id e)),
      (''signature'', JStr (ae_signature e)), (''prev_signature'', JStr (ae_prev_signature e))]"

definition export_doc :: "bool \<Rightarrow> str \<Rightarrow> AuditEntry list \<Rightarrow> json" where
  "export_doc chain_valid now es = JObj
     [(''export_metadata'', JObj
        [(''exported_at'', JStr now), (''entry_count'', JInt (int (length es))),
         (''chain_integrity'', JStr (if chain_valid then ''VALID'' else ''BROKEN'')),
         (''format_version'', JStr ''1.0''), (''system'', JStr ''Kairo Phantom'')]),
      (''summary'', JObj
        [(''total_answers'', JInt (count_if (\<lambda>e. ae_outcome e = ''answer'') es)),
         (''total_refusals'', JInt (count_if (\<lambda>e. ae_outcome e = ''refusal'') es)),
         (''grounded_answers'', JInt (count_if (\<lambda>e. ae_outcome e = ''answer'' \<and> ae_grounded e) es)),
         (''ungrounded_answers'', JInt (count_if (\<lambda>e. ae_outcome e = ''answer'' \<and> \<not> ae_grounded e) es))]),
      (''entries'', JList (map export_entry es))]"

definition export_json :: "(bytes \<Rightarrow> bytes \<Rightarrow> bytes) \<Rightarrow> str \<Rightarrow> SignedAuditLog \<Rightarrow> str result" where
  "export_json hm now lg =
     bind_ok (verify_chain hm lg) (\<lambda>chain_valid. Ok (dumps indent2 (export_doc chain_valid now (al_entries lg))))"

section \<open>The entries form a chain\<close>

definition entry_wf :: "AuditEntry \<Rightarrow> bool" where
  "entry_wf e \<longleftrightarrow> json_wf (JObj (ae_source_region e))"

text \<open>Equality of entries as Python compares them: dictionaries without regard to key order.\<close>

definition same_entry :: "AuditEntry \<Rightarrow> AuditEntry \<Rightarrow> bool" where
  "same_entry x y \<longleftrightarrow> x\<lparr>ae_source_region := []\<rparr> = y\<lparr>ae_source_region := []\<rparr> \<and>
     json_eq (JObj (ae_source_region x)) (JObj (ae_source_region y))"

lemma entry_payload_wf: "entry_wf e \<Longrightarrow> json_wf (entry_payload e)"
  by (simp add: entry_wf_def entry_payload_def)

lemma content_fields:
  assumes "entry_wf x" "entry_wf y" "content_bytes x = content_bytes y"
  shows "x\<lparr>ae_source_region := [], ae_signature := []\<rparr> = y\<lparr>ae_source_region := [], ae_signature := []\<rparr> \<and>
     json_eq (JObj (ae_source_region x)) (JObj (ae_source_region y))"
proof -
  have "sort_json (entry_payload x) = sort_json (entry_payload y)"
    using assms by (simp add: content_bytes_def dumps_sorted_inject entry_payload_wf json_eq_def)
  note get = sort_json_obj_get [OF this [unfolded entry_payload_def]]
  have "ae_entry_id x = ae_entry_id y" using get [of "''entry_id''"] by simp
  moreover have "ae_timestamp x = ae_timestamp y" using get [of "''timestamp''"] by simp
  moreover have "ae_question x = ae_question y" using get [of "''question''"] by simp
  moreover have "ae_document_hash x = ae_document_hash y" using get [of "''document_hash''"] by simp
  moreover have "ae_outcome x = ae_outcome y" using get [of "''outcome''"] by simp
  moreover have "ae_grounded x = ae_grounded y" using get [of "''grounded''"] by simp
  moreover have "ae_cascade_stage x = ae_cascade_stage y" using get [of "''cascade_stage''"] by simp
  moreover have "ae_model_id x = ae_model_id y" using get [of "''model_id''"] by simp
  moreover have "ae_prev_signature x = ae_prev_signature y" using get [of "''prev_signature''"] by simp
  moreover have "json_eq (JObj (ae_source_region x)) (JObj (ae_source_region y))"
    using get [of "''source_region''"] by (simp add: json_eq_def)
  ultimately show ?thesis by simp
qed

interpretation audit: mac_chain "audit_sign hm key" content_bytes ae_signature ae_prev_signature "[]" entry_wf same_entry
  for hm key
proof
  fix x y assume "entry_wf x" "entry_wf y" "content_bytes x = content_bytes y"
  note f = content_fields [OF this]
  show "ae_prev_signature x = ae_prev_signature y" using f by (metis AuditEntry.select_convs(11) AuditEntry.surjective AuditEntry.update_convs(7,10))
  show "same_entry x y" if "ae_signature x = ae_signature y"
    using f that by (cases x; cases y) (simp add: same_entry_def)
qed

lemma verify_entries_iff: "verify_entries hm key p es = Ok True \<longleftrightarrow> audit.chain_ok hm key p es"
proof (induction es arbitrary: p)
  case (Cons e es)
  have asc: "is_ascii (audit_sign hm key c)" for c by (simp add: audit_sign_def)
  show ?case
    using Cons asc by (auto simp: verify_entry_def compare_digest_def split: if_splits)
qed simp

section \<open>Reachable logs\<close>

inductive audit_reachable :: "(real \<Rightarrow> str) \<Rightarrow> (bytes \<Rightarrow> bytes \<Rightarrow> bytes) \<Rightarrow> bytes \<Rightarrow> SignedAuditLog \<Rightarrow> bool"
  for fr hm key where
  init: "new_audit_log key = Ok lg \<Longrightarrow> audit_reachable fr hm key lg"
| answer: "audit_reachable fr hm key lg \<Longrightarrow>
    audit_reachable fr hm key (snd (log_answer fr hm uuid now ans doc_hash model stage lg))"
| refusal: "audit_reachable fr hm key lg \<Longrightarrow>
    audit_reachable fr hm key (snd (log_refusal hm uuid now qn doc_hash stage model lg))"

definition audit_inv :: "(bytes \<Rightarrow> bytes \<Rightarrow> bytes) \<Rightarrow> bytes \<Rightarrow> SignedAuditLog \<Rightarrow> bool" where
  "audit_inv hm key lg \<longleftrightarrow> key \<noteq> [] \<and> session_key lg = key \<and> audit.chain_ok hm key [] (al_entries lg) \<and>
     last_signature lg = audit.last_sig [] (al_entries lg) \<and>
     list_all (\<lambda>e. ae_outcome e = ''answer'' \<or> ae_outcome e = ''refusal'') (al_entries lg)"

lemma content_bytes_sig [simp]: "content_bytes (e\<lparr>ae_signature := s\<rparr>) = content_bytes e"
  by (simp add: content_bytes_def entry_payload_def)

lemma audit_inv_append:
  assumes "audit_inv hm key lg" "ae_prev_signature e = last_signature lg"
    "ae_outcome e = ''answer'' \<or> ae_outcome e = ''refusal''"
  shows "audit_inv hm key (snd (append_signed hm e lg))"
  using assms by (auto simp: audit_inv_def append_signed_def Let_def audit.chain_ok_snoc)

lemma audit_reachable_inv: "audit_reachable fr hm key lg \<Longrightarrow> audit_inv hm key lg"
proof (induction rule: audit_reachable.induct)
  case (init lg)
  then show ?case
    by (auto simp: new_audit_log_def audit_inv_def audit.last_sig_def split: if_splits)
qed (auto simp: log_answer_def log_refusal_def Let_def intro!: audit_inv_append)

definition float_repr_ok :: "(real \<Rightarrow> str) \<Rightarrow> bool" where
  "float_repr_ok fr \<longleftrightarrow> (\<forall>x. json_wf (JFloat (fr x)))"

lemma anchor_region_wf: "float_repr_ok fr \<Longrightarrow> json_wf (JObj (anchor_to_region fr a))"
  by (auto simp: anchor_to_region_def float_repr_ok_def split: option.splits)

lemma anchor_region_keys: "''additional_citations'' \<notin> fst ` set (anchor_to_region fr a)"
  by (auto simp: anchor_to_region_def split: option.splits)

lemma answer_region_wf: "float_repr_ok fr \<Longrightarrow> json_wf (JObj (answer_region fr cits))"
proof (cases cits)
  case (Cons a rest)
  assume "float_repr_ok fr"
  note wf = anchor_region_wf [OF this]
  have "json_wf (JList (map (\<lambda>x. JObj (anchor_to_region fr x)) rest))"
    using wf by (induction rest) simp_all
  then show ?thesis using wf [of a] anchor_region_keys [of fr a] by (simp add: answer_region_def Cons)
qed (simp add: answer_region_def)

lemma audit_reachable_wf: "audit_reachable fr hm key lg \<Longrightarrow> float_repr_ok fr \<Longrightarrow> list_all entry_wf (al_entries lg)"
proof (induction rule: audit_reachable.induct)
  case (init lg)
  then show ?case by (auto simp: new_audit_log_def split: if_splits)
next
  case (answer lg uuid now ans doc_hash model stage)
  then show ?case using answer_region_wf [of fr "citations ans"]
    by (simp add: log_answer_def append_signed_def Let_def entry_wf_def)
next
  case (refusal lg uuid now qn doc_hash stage model)
  then show ?case by (simp add: log_refusal_def append_signed_def Let_def entry_wf_def)
qed

section \<open>Round trip\<close>

lemma entry_of_json_entry: "entry_of_json (entry_json e) = Ok e"
  by (simp add: entry_of_json_def entry_json_def)

lemma entries_of_json_map: "entries_of_json (map entry_json es) = Ok es"
  by (induction es) (simp_all add: entry_of_json_entry)

lemma audit_json_wf: "list_all entry_wf es \<Longrightarrow> json_wf (JObj [(''entries'', JList (map entry_json es))])"
  by (induction es) (simp_all add: entry_json_def entry_wf_def)

lemma export_doc_wf: "list_all entry_wf es \<Longrightarrow> json_wf (export_doc b now es)"
  by (induction es) (auto simp: export_doc_def export_entry_def entry_wf_def)

lemma count_answers_refusals:
  "list_all (\<lambda>e. ae_outcome e = ''answer'' \<or> ae_outcome e = ''refusal'') es \<Longrightarrow>
     count_if (\<lambda>e. ae_outcome e = ''answer'') es + count_if (\<lambda>e. ae_outcome e = ''refusal'') es = int (length es)"
  by (induction es) (auto simp: count_if_def)

section \<open>Properties\<close>

definition sample_answer :: Answer where
  "sample_answer = \<lparr>answer_id = ''a1'', query = ''total?'', answer_text = ''420 EUR'',
     citations = [\<lparr>anchor_chunk_id = ''c1'', char_span = (0, 9), anchor_page = 1, anchor_bbox = Some sample_box\<rparr>],
     grounded = True, refused = False, refusal_stage = [], refusal_reason = [], refusal_suggestion = []\<rparr>"

text \<open>A toy keyed digest and a toy printer of floats, to run the log on concrete inputs.\<close>

definition sum_mac :: "bytes \<Rightarrow> bytes \<Rightarrow> bytes" where
  "sum_mac key msg = [sum_list key + sum_list msg, of_nat (length msg)]"

definition zero_repr :: "real \<Rightarrow> str" where
  "zero_repr x = ''0.0''"

lemma zero_repr_ok: "float_repr_ok zero_repr"
proof -
  have "json_wf (JFloat ''0.0'')" by code_simp
  then show ?thesis by (simp add: float_repr_ok_def zero_repr_def)
qed

definition sample_audit :: SignedAuditLog where
  "sample_audit =
     snd (log_refusal sum_mac ''u2'' ''t2'' ''who?'' ''00'' ''BLOCK'' ''m''
       (snd (log_answer zero_repr sum_mac ''u1'' ''t1'' sample_answer ''00'' ''m'' []
         \<lparr>session_key = [7], al_entries = [], last_signature = []\<rparr>)))"

lemma sample_audit_reachable: "audit_reachable zero_repr sum_mac [7] sample_audit"
  unfolding sample_audit_def
  by (intro audit_reachable.refusal audit_reachable.answer audit_reachable.init) (simp add: new_audit_log_def)

text \<open>An untouched log always verifies: every log built from a non-empty session key by
  logging answers and refusals, whatever the keyed digest, passes its own chain verification, and
  its stored last signature is that of its last entry.\<close>

theorem audit_log_verifies:
  assumes "audit_reachable fr hm key lg"
  shows "verify_chain hm lg = Ok True \<and>
    last_signature lg = (if al_entries lg = [] then [] else ae_signature (last (al_entries lg)))"
  using audit_reachable_inv [OF assms]
  by (simp add: audit_inv_def verify_chain_def verify_entries_iff audit.last_sig_def)

theorem audit_log_verifies_witness:
  "verify_chain sum_mac sample_audit = Ok True \<and> length (al_entries sample_audit) = 2"
  using audit_log_verifies [OF sample_audit_reachable]
  by (simp add: sample_audit_def log_answer_def log_refusal_def append_signed_def Let_def)

text \<open>C23: tamper evidence. Take two logs under one key that both verify and end in the same
  signature, with entries whose regions are proper JSON objects and a digest that is never empty.
  Then they hold the same entries, in number, order and every field, dictionaries compared without
  regard to key order; or an entry of the one and an entry of the other have different signed
  contents with the same digest.\<close>

theorem audit_tamper_evident:
  assumes "verify_chain hm lg1 = Ok True" and "verify_chain hm lg2 = Ok True"
    and "session_key lg1 = key" and "session_key lg2 = key"
    and "list_all entry_wf (al_entries lg1)" and "list_all entry_wf (al_entries lg2)"
    and "\<And>c. hm key c \<noteq> []"
    and "al_entries lg1 \<noteq> []" and "al_entries lg2 \<noteq> []"
    and "ae_signature (last (al_entries lg1)) = ae_signature (last (al_entries lg2))"
  shows "list_all2 same_entry (al_entries lg1) (al_entries lg2) \<or>
    (\<exists>x \<in> set (al_entries lg1). \<exists>y \<in> set (al_entries lg2).
       content_bytes x \<noteq> content_bytes y \<and> hm key (content_bytes x) = hm key (content_bytes y))"
proof -
  have "list_all2 same_entry (al_entries lg1) (al_entries lg2) \<or> audit.clash hm key (al_entries lg1) (al_entries lg2)"
    using assms
    by (intro audit.chain_unique)
       (simp_all add: verify_chain_def verify_entries_iff audit.last_sig_def audit_sign_def)
  then show ?thesis by (simp add: audit.clash_def audit_sign_def)
qed

theorem audit_tamper_evident_witness:
  "list_all2 same_entry (al_entries sample_audit) (al_entries sample_audit) \<or>
    (\<exists>x \<in> set (al_entries sample_audit). \<exists>y \<in> set (al_entries sample_audit).
       content_bytes x \<noteq> content_bytes y \<and> sum_mac [7] (content_bytes x) = sum_mac [7] (content_bytes y))"
proof -
  have v: "verify_chain sum_mac sample_audit = Ok True" and k: "session_key sample_audit = [7]"
    using audit_reachable_inv [OF sample_audit_reachable]
    by (simp_all add: audit_inv_def verify_chain_def verify_entries_iff)
  have ne: "al_entries sample_audit \<noteq> []"
    by (simp add: sample_audit_def log_refusal_def append_signed_def Let_def)
  have wf: "list_all entry_wf (al_entries sample_audit)"
    by (rule audit_reachable_wf [OF sample_audit_reachable zero_repr_ok])
  show ?thesis
    by (rule audit_tamper_evident [OF v v k k wf wf _ ne ne refl]) (simp add: sum_mac_def)
qed

text \<open>C12: storing and loading: a log written with \<^verbatim>\<open>to_json\<close> and read with
  \<^verbatim>\<open>from_json\<close> under its key is the log itself, provided floats print as JSON numbers.\<close>

theorem audit_round_trip:
  assumes "audit_reachable fr hm key lg" and "float_repr_ok fr"
  shows "audit_from_json hm key (audit_to_json lg) = Ok lg"
proof -
  note inv = audit_reachable_inv [OF assms(1), unfolded audit_inv_def]
  have "loads (audit_to_json lg) = Some (JObj [(''entries'', JList (map entry_json (al_entries lg)))])"
    unfolding audit_to_json_def
    by (rule loads_dumps [OF style_ok_styles(5) audit_json_wf [OF audit_reachable_wf [OF assms]]])
  moreover have "lg = \<lparr>session_key = key, al_entries = al_entries lg,
      last_signature = (if al_entries lg = [] then [] else ae_signature (last (al_entries lg)))\<rparr>"
    using inv by (cases lg) (simp add: audit.last_sig_def)
  moreover have "verify_chain hm lg = Ok True" using inv by (simp add: verify_chain_def verify_entries_iff)
  ultimately show ?thesis using inv
    by (simp add: audit_from_json_def new_audit_log_def entries_of_json_map Let_def)
qed

theorem audit_round_trip_witness:
  "audit_from_json sum_mac [7] (audit_to_json sample_audit) = Ok sample_audit"
  by (rule audit_round_trip [OF sample_audit_reachable zero_repr_ok])

text \<open>The compliance export of a reachable log succeeds, is JSON that reads back to the
  document the code assembled with the integrity field VALID, and its summary adds up: answers and
  refusals are all the entries, grounded and ungrounded answers are all the answers.\<close>

theorem audit_export_faithful:
  assumes "audit_reachable fr hm key lg" and "float_repr_ok fr"
  shows "\<exists>s. export_json hm now lg = Ok s \<and> loads s = Some (export_doc True now (al_entries lg)) \<and>
    count_if (\<lambda>e. ae_outcome e = ''answer'') (al_entries lg) + count_if (\<lambda>e. ae_outcome e = ''refusal'') (al_entries lg)
      = int (length (al_entries lg)) \<and>
    count_if (\<lambda>e. ae_outcome e = ''answer'' \<and> ae_grounded e) (al_entries lg)
      + count_if (\<lambda>e. ae_outcome e = ''answer'' \<and> \<not> ae_grounded e) (al_entries lg)
      = count_if (\<lambda>e. ae_outcome e = ''answer'') (al_entries lg)"
proof -
  note inv = audit_reachable_inv [OF assms(1), unfolded audit_inv_def]
  have "verify_chain hm lg = Ok True" using inv by (simp add: verify_chain_def verify_entries_iff)
  moreover have "loads (dumps indent2 (export_doc True now (al_entries lg))) = Some (export_doc True now (al_entries lg))"
    by (rule loads_dumps [OF style_ok_styles(5) export_doc_wf [OF audit_reachable_wf [OF assms]]])
  moreover have "count_if (\<lambda>e. P e \<and> Q e) es + count_if (\<lambda>e. P e \<and> \<not> Q e) es = count_if P es"
    for P Q and es :: "AuditEntry list" by (induction es) (auto simp: count_if_def)
  ultimately show ?thesis using count_answers_refusals [of "al_entries lg"] inv by (simp add: export_json_def)
qed

theorem audit_export_faithful_witness:
  "\<exists>s. export_json sum_mac ''now'' sample_audit = Ok s \<and> loads s = Some (export_doc True ''now'' (al_entries sample_audit))"
  using audit_export_faithful [OF sample_audit_reachable zero_repr_ok, of "''now''"] by blast

text \<open>The verification does not bind the length of the log: any initial part of a log that verifies
  verifies as well.\<close>

lemma audit_prefix_verifies:
  "verify_chain hm lg = Ok True \<Longrightarrow> verify_chain hm (lg\<lparr>al_entries := take n (al_entries lg)\<rparr>) = Ok True"
  using audit.chain_ok_prefix [of hm "session_key lg" "[]" "take n (al_entries lg)" "drop n (al_entries lg)"]
  by (simp add: verify_chain_def verify_entries_iff)

end
