(* ===== verification/MemoryStore.thy ===== *)
theory MemoryStore
  imports Grounding "HOL-Library.Multiset"
begin

text \<open>
  \<^verbatim>\<open>kernel/sidecar/memory_store.py\<close>: the SQLite store. A table is the list of its rows in
  insertion order; \<^verbatim>\<open>INSERT OR REPLACE\<close> deletes the row with the same primary key and
  appends the new one. A row holds the columns the code writes, so what a table does not store is
  lost. Time stamps are their ISO text, which compares as the column does. Foreign keys are not
  enforced, as SQLite leaves them off by default and the code never turns them on. SQL leaves the
  order of rows with equal time stamps open; the model takes insertion order. The text of a
  float is the parameter \<open>fr\<close>; it is read back with \<open>py_float\<close>.
\<close>

section \<open>Tables\<close>

definition row_put :: "('r \<Rightarrow> 'k) \<Rightarrow> 'r \<Rightarrow> 'r list \<Rightarrow> 'r list" where
  "row_put key r t = filter (\<lambda>r'. key r' \<noteq> key r) t @ [r]"

definition row_get :: "('r \<Rightarrow> 'k) \<Rightarrow> 'r list \<Rightarrow> 'k \<Rightarrow> 'r option" where
  "row_get key t k = find (\<lambda>r. key r = k) t"

lemma find_append: "find P (xs @ ys) = (case find P xs of None \<Rightarrow> find P ys | Some x \<Rightarrow> Some x)"
  by (induction xs) auto

lemma find_filter_other: "k \<noteq> k' \<Longrightarrow> find (\<lambda>r. key r = k) (filter (\<lambda>r. key r \<noteq> k') t) = find (\<lambda>r. key r = k) t"
  by (induction t) auto

lemma find_filter_same: "find (\<lambda>r. key r = k) (filter (\<lambda>r. key r \<noteq> k) t) = None"
  by (induction t) auto

lemma row_get_put: "row_get key (row_put key r t) k = (if k = key r then Some r else row_get key t k)"
  by (auto simp: row_get_def row_put_def find_append find_filter_other find_filter_same split: option.splits)

lemma row_put_distinct: "distinct (map key t) \<Longrightarrow> distinct (map key (row_put key r t))"
  by (auto simp: row_put_def distinct_map_filter)

section \<open>State\<close>

record ChunkRow =
  cr_chunk_id :: str
  cr_doc_id :: str
  cr_page :: int
  cr_box :: "real \<times> real \<times> real \<times> real"
  cr_text :: str
  cr_source_type :: str
  cr_embedding :: str

record ExtractionRow =
  er_ext_id :: str
  er_pack_id :: str
  er_field_name :: str
  er_value :: str
  er_confidence :: real
  er_model_version :: str
  er_status :: str
  er_chunk_id :: str

record ActionRow =
  ar_action_id :: str
  ar_ext_id :: str
  ar_kind :: str
  ar_target_app :: str
  ar_payload :: str
  ar_confidence :: real
  ar_status :: str

record Memory =
  m_documents :: "Document list"
  m_pages :: "Page list"
  m_chunks :: "ChunkRow list"
  m_extractions :: "ExtractionRow list"
  m_corrections :: "Correction list"
  m_entities :: "Entity list"
  m_model_versions :: "ModelVersion list"
  m_users :: "User list"
  m_actions :: "ActionRow list"

definition empty_memory :: Memory where
  "empty_memory = \<lparr>m_documents = [], m_pages = [], m_chunks = [], m_extractions = [], m_corrections = [],
     m_entities = [], m_model_versions = [], m_users = [], m_actions = []\<rparr>"

section \<open>Operations\<close>

definition upsert_document :: "Document \<Rightarrow> Memory \<Rightarrow> Memory" where
  "upsert_document d m = m\<lparr>m_documents := row_put doc_id d (m_documents m)\<rparr>"

definition get_document :: "Memory \<Rightarrow> str \<Rightarrow> Document option" where
  "get_document m k = row_get doc_id (m_documents m) k"

definition page_key :: "Page \<Rightarrow> str \<times> int" where
  "page_key p = (page_doc_id p, page_index p)"

definition upsert_page :: "Page \<Rightarrow> Memory \<Rightarrow> Memory" where
  "upsert_page p m = m\<lparr>m_pages := row_put page_key p (m_pages m)\<rparr>"

definition get_pages :: "Memory \<Rightarrow> str \<Rightarrow> Page list" where
  "get_pages m did = sort_key page_index (filter (\<lambda>p. page_doc_id p = did) (m_pages m))"

definition embedding_text :: "(real \<Rightarrow> str) \<Rightarrow> real list \<Rightarrow> str" where
  "embedding_text fr v = dumps plain (JList (map (\<lambda>x. JFloat (fr x)) v))"

definition upsert_chunk :: "(real \<Rightarrow> str) \<Rightarrow> Chunk \<Rightarrow> Memory \<Rightarrow> Memory result" where
  "upsert_chunk fr c m = (case chunk_bbox c of
     None \<Rightarrow> Raise (ValueError (''Chunk '' @ chunk_id c @ '' has no bbox''))
   | Some b \<Rightarrow> Ok (m\<lparr>m_chunks := row_put cr_chunk_id
       \<lparr>cr_chunk_id = chunk_id c, cr_doc_id = chunk_doc_id c, cr_page = chunk_page c,
        cr_box = (bx0 b, by0 b, bx1 b, by1 b), cr_text = chunk_text c, cr_source_type = source_type c,
        cr_embedding = embedding_text fr (embedding c)\<rparr> (m_chunks m)\<rparr>))"

fun floats_of :: "json list \<Rightarrow> real list result" where
  "floats_of [] = Ok []"
| "floats_of (JFloat r # vs) = (case py_float r of
     None \<Rightarrow> Raise (ValueError r)
   | Some x \<Rightarrow> bind_ok (floats_of vs) (\<lambda>xs. Ok (x # xs)))"
| "floats_of (_ # vs) = Raise (TypeError ''embedding'')"

definition row_to_chunk :: "ChunkRow \<Rightarrow> Chunk result" where
  "row_to_chunk r = (case cr_box r of (x0, y0, x1, y1) \<Rightarrow>
     bind_ok (mk_bbox x0 y0 x1 y1) (\<lambda>b.
     case loads (cr_embedding r) of
       Some (JList vs) \<Rightarrow>
         bind_ok (floats_of vs) (\<lambda>emb.
         mk_chunk (cr_chunk_id r) (cr_doc_id r) (cr_page r) (Some b) (cr_text r) (cr_source_type r) emb)
     | _ \<Rightarrow> Raise (ValueError ''embedding'')))"

definition get_chunk :: "Memory \<Rightarrow> str \<Rightarrow> Chunk option result" where
  "get_chunk m k = (case row_get cr_chunk_id (m_chunks m) k of
     None \<Rightarrow> Ok None
   | Some r \<Rightarrow> bind_ok (row_to_chunk r) (\<lambda>c. Ok (Some c)))"

definition record_extraction :: "Extraction \<Rightarrow> Memory \<Rightarrow> Memory" where
  "record_extraction e m = m\<lparr>m_extractions := row_put er_ext_id
     \<lparr>er_ext_id = ext_id e, er_pack_id = pack_id e, er_field_name = field_name e, er_value = ext_value e,
      er_confidence = confidence e, er_model_version = model_version e,
      er_status = ExtractionStatus_value (ext_status e), er_chunk_id = ext_chunk_id e\<rparr> (m_extractions m)\<rparr>"

definition get_extraction :: "Memory \<Rightarrow> str \<Rightarrow> Extraction option result" where
  "get_extraction m k = (case row_get er_ext_id (m_extractions m) k of
     None \<Rightarrow> Ok None
   | Some r \<Rightarrow> bind_ok (ExtractionStatus_of (er_status r)) (\<lambda>st.
       Ok (Some \<lparr>ext_id = er_ext_id r, pack_id = er_pack_id r, field_name = er_field_name r,
         ext_value = er_value r, source_span = [], confidence = er_confidence r,
         model_version = er_model_version r, ext_status = st, ext_chunk_id = er_chunk_id r,
         ext_method = GM_BLOCK, anchors = []\<rparr>)))"

definition record_correction :: "Correction \<Rightarrow> Memory \<Rightarrow> Memory" where
  "record_correction c m = m\<lparr>m_corrections := row_put corr_id c (m_corrections m)\<rparr>"

text \<open>The join of corrections with extractions on the extraction identifier, restricted to a
  field: one row for each matching pair. The extraction identifier is a primary key.\<close>

definition corrections_of_field :: "Memory \<Rightarrow> str \<Rightarrow> Correction list" where
  "corrections_of_field m fld =
     concat (map (\<lambda>c. map (\<lambda>_. c) (filter (\<lambda>e. er_ext_id e = corr_ext_id c \<and> er_field_name e = fld) (m_extractions m)))
       (m_corrections m))"

definition newest_first :: "Correction list \<Rightarrow> Correction list" where
  "newest_first cs = rev (sort_key corr_at (rev cs))"

definition similarity_score :: "str \<Rightarrow> Correction \<Rightarrow> real" where
  "similarity_score val c =
     (let value_lower = lower val; orig = lower (original c) in
      if str_in value_lower orig then 8 / 10
      else if str_in orig value_lower then 6 / 10
      else let value_words = set (split_ws value_lower); orig_words = set (split_ws orig);
               overlap = value_words \<inter> orig_words
           in if overlap \<noteq> {} then real (card overlap) / real (max (card value_words) 1) * (4 / 10) else 0)"

definition search_similar_corrections :: "Memory \<Rightarrow> str \<Rightarrow> str \<Rightarrow> nat \<Rightarrow> Correction list" where
  "search_similar_corrections m fld val k =
     (let corrections = take k (newest_first (corrections_of_field m fld));
          scored = map (\<lambda>c. (similarity_score val c, c)) corrections
      in map snd (take k (sort_key (\<lambda>p. - fst p) scored)))"

definition upsert_entity :: "Entity \<Rightarrow> Memory \<Rightarrow> Memory" where
  "upsert_entity e m = m\<lparr>m_entities := row_put entity_id e (m_entities m)\<rparr>"

definition get_entity :: "Memory \<Rightarrow> str \<Rightarrow> Entity option" where
  "get_entity m k = row_get entity_id (m_entities m) k"

definition upsert_model_version :: "ModelVersion \<Rightarrow> Memory \<Rightarrow> Memory" where
  "upsert_model_version v m = m\<lparr>m_model_versions := row_put mv_model_id v (m_model_versions m)\<rparr>"

definition get_model_version :: "Memory \<Rightarrow> str \<Rightarrow> ModelVersion option" where
  "get_model_version m k = row_get mv_model_id (m_model_versions m) k"

definition upsert_user :: "User \<Rightarrow> Memory \<Rightarrow> Memory" where
  "upsert_user u m = m\<lparr>m_users := row_put user_id u (m_users m)\<rparr>"

definition get_user :: "Memory \<Rightarrow> str \<Rightarrow> User option" where
  "get_user m k = row_get user_id (m_users m) k"

definition ActionKind_of :: "str \<Rightarrow> ActionKind result" where
  "ActionKind_of v = (case find (\<lambda>s. ActionKind_value s = v) [AK_READ, AK_SUGGEST] of
     Some s \<Rightarrow> Ok s | None \<Rightarrow> Raise (ValueError v))"

definition ActionStatus_of :: "str \<Rightarrow> ActionStatus result" where
  "ActionStatus_of v = (case find (\<lambda>s. ActionStatus_value s = v)
       [AS_PENDING, AS_CONFIRMED, AS_APPLIED, AS_REJECTED, AS_REFUSED] of
     Some s \<Rightarrow> Ok s | None \<Rightarrow> Raise (ValueError v))"

definition upsert_action :: "Action \<Rightarrow> Memory \<Rightarrow> Memory" where
  "upsert_action a m = m\<lparr>m_actions := row_put ar_action_id
     \<lparr>ar_action_id = action_id a, ar_ext_id = action_ext_id a, ar_kind = ActionKind_value (action_kind a),
      ar_target_app = target_app a, ar_payload = dumps plain (JObj (payload a)),
      ar_confidence = action_confidence a, ar_status = ActionStatus_value (action_status a)\<rparr> (m_actions m)\<rparr>"

definition get_action :: "Memory \<Rightarrow> str \<Rightarrow> Action option result" where
  "get_action m k = (case row_get ar_action_id (m_actions m) k of
     None \<Rightarrow> Ok None
   | Some r \<Rightarrow>
       bind_ok (ActionKind_of (ar_kind r)) (\<lambda>kd.
       case loads (ar_payload r) of
         Some (JObj p) \<Rightarrow>
           bind_ok (ActionStatus_of (ar_status r)) (\<lambda>st.
           Ok (Some \<lparr>action_id = ar_action_id r, action_ext_id = ar_ext_id r, action_kind = kd,
             target_app = ar_target_app r, payload = p, action_confidence = ar_confidence r, action_status = st\<rparr>))
       | _ \<Rightarrow> Raise (ValueError ''payload'')))"

definition memory_stats :: "Memory \<Rightarrow> (str, nat) dict" where
  "memory_stats m = [(''documents'', length (m_documents m)), (''chunks'', length (m_chunks m)),
     (''extractions'', length (m_extractions m)), (''corrections'', length (m_corrections m)),
     (''entities'', length (m_entities m)), (''model_versions'', length (m_model_versions m)),
     (''users'', length (m_users m)), (''actions'', length (m_actions m))]"

section \<open>Upsert and look-up as an interface\<close>

text \<open>What every kind of record promises: looking up a key after an upsert gives the value just
  written, as stored, and no other key changes. The values are restricted to storable ones.\<close>

locale upsert_store =
  fixes key :: "'v \<Rightarrow> 'k"
    and ok :: "'v \<Rightarrow> bool"
    and stored :: "'v \<Rightarrow> 'v"
    and put :: "'v \<Rightarrow> 's \<Rightarrow> 's"
    and get :: "'s \<Rightarrow> 'k \<Rightarrow> 'v option result"
  assumes get_put_same: "ok v \<Longrightarrow> get (put v s) (key v) = Ok (Some (stored v))"
    and get_put_other: "k \<noteq> key v \<Longrightarrow> get (put v s) k = get s k"
begin

text \<open>Last write wins over any sequence of upserts.\<close>

lemma get_puts:
  assumes "list_all ok vs"
  shows "get (fold put vs s) k =
    (case filter (\<lambda>v. key v = k) vs of [] \<Rightarrow> get s k | ws \<Rightarrow> Ok (Some (stored (last ws))))"
  using assms
proof (induction vs rule: rev_induct)
  case (snoc v vs)
  then show ?case
    by (cases "key v = k") (auto simp: get_put_same get_put_other split: list.splits)
qed simp

lemma get_put_twice: "ok v \<Longrightarrow> key u = key v \<Longrightarrow> get (put v (put u s)) k = get (put v s) k"
  by (cases "k = key v") (simp_all add: get_put_same get_put_other)

end

definition no_raise :: "('s \<Rightarrow> 'k \<Rightarrow> 'v option) \<Rightarrow> 's \<Rightarrow> 'k \<Rightarrow> 'v option result" where
  "no_raise get s k = Ok (get s k)"

definition lossy_extraction :: "Extraction \<Rightarrow> Extraction" where
  "lossy_extraction e = e\<lparr>source_span := [], ext_method := GM_BLOCK, anchors := []\<rparr>"

interpretation docs: upsert_store doc_id "\<lambda>_. True" id upsert_document "no_raise get_document"
  by standard (simp_all add: no_raise_def get_document_def upsert_document_def row_get_put)

interpretation ents: upsert_store entity_id "\<lambda>_. True" id upsert_entity "no_raise get_entity"
  by standard (simp_all add: no_raise_def get_entity_def upsert_entity_def row_get_put)

interpretation mvs: upsert_store mv_model_id "\<lambda>_. True" id upsert_model_version "no_raise get_model_version"
  by standard (simp_all add: no_raise_def get_model_version_def upsert_model_version_def row_get_put)

interpretation usrs: upsert_store user_id "\<lambda>_. True" id upsert_user "no_raise get_user"
  by standard (simp_all add: no_raise_def get_user_def upsert_user_def row_get_put)

interpretation exts: upsert_store ext_id "\<lambda>_. True" lossy_extraction record_extraction get_extraction
  by standard (simp_all add: get_extraction_def record_extraction_def row_get_put lossy_extraction_def)

lemma ActionKind_of_value [simp]: "ActionKind_of (ActionKind_value k) = Ok k"
  by (cases k) (simp_all add: ActionKind_of_def)

lemma ActionStatus_of_value [simp]: "ActionStatus_of (ActionStatus_value s) = Ok s"
  by (cases s) (simp_all add: ActionStatus_of_def)

interpretation acts: upsert_store action_id "\<lambda>a. json_wf (JObj (payload a))" id upsert_action get_action
  by standard (simp_all add: get_action_def upsert_action_def row_get_put loads_dumps del: json_wf.simps)

section \<open>Chunks\<close>

definition float_exact :: "(real \<Rightarrow> str) \<Rightarrow> real \<Rightarrow> bool" where
  "float_exact fr x \<longleftrightarrow> json_wf (JFloat (fr x)) \<and> py_float (fr x) = Some x"

definition chunk_storable :: "(real \<Rightarrow> str) \<Rightarrow> Chunk \<Rightarrow> bool" where
  "chunk_storable fr c \<longleftrightarrow> 0 \<le> chunk_page c \<and> list_all (float_exact fr) (embedding c) \<and>
     (case chunk_bbox c of None \<Rightarrow> False | Some b \<Rightarrow> bbox_ok b)"

definition put_chunk :: "(real \<Rightarrow> str) \<Rightarrow> Chunk \<Rightarrow> Memory \<Rightarrow> Memory" where
  "put_chunk fr c m = (case upsert_chunk fr c m of Inr m' \<Rightarrow> m' | Inl _ \<Rightarrow> m)"

lemma floats_of_repr: "list_all (float_exact fr) v \<Longrightarrow> floats_of (map (\<lambda>x. JFloat (fr x)) v) = Ok v"
  by (induction v) (auto simp: float_exact_def)

lemma loads_embedding: "list_all (float_exact fr) v \<Longrightarrow>
    loads (embedding_text fr v) = Some (JList (map (\<lambda>x. JFloat (fr x)) v))"
  unfolding embedding_text_def
  by (rule loads_dumps) (auto simp: list_all_iff float_exact_def)

lemma get_chunk_put:
  assumes "chunk_storable fr c"
  shows "get_chunk (put_chunk fr c m) (chunk_id c) = Ok (Some c)"
proof -
  obtain b where b: "chunk_bbox c = Some b" "bbox_ok b" and p: "0 \<le> chunk_page c"
    and e: "list_all (float_exact fr) (embedding c)"
    using assms by (auto simp: chunk_storable_def split: option.splits)
  have "mk_bbox (bx0 b) (by0 b) (bx1 b) (by1 b) = Ok b"
    using b(2) by (auto simp: mk_bbox_def bbox_ok_def)
  then show ?thesis
    using b p loads_embedding [OF e] floats_of_repr [OF e]
    by (simp add: put_chunk_def upsert_chunk_def get_chunk_def row_get_put row_to_chunk_def mk_chunk_def)
qed

interpretation chks: upsert_store chunk_id "chunk_storable fr" id "put_chunk fr" get_chunk for fr
proof
  show "get_chunk (put_chunk fr v s) (chunk_id v) = Ok (Some (id v))" if "chunk_storable fr v" for v s
    using get_chunk_put [OF that] by simp
  show "get_chunk (put_chunk fr v s) k = get_chunk s k" if "k \<noteq> chunk_id v" for k v s
    using that by (auto simp: put_chunk_def upsert_chunk_def get_chunk_def row_get_put split: option.splits)
qed

section \<open>The search for similar corrections\<close>

lemma newest_first_sorted: "sorted_wrt (\<lambda>c d. corr_at c \<ge> corr_at d) (newest_first cs)"
proof -
  have "sorted (map corr_at (sort_key corr_at (rev cs)))" by simp
  then have "sorted_wrt (\<lambda>c d. corr_at c \<le> corr_at d) (sort_key corr_at (rev cs))" by (simp add: sorted_map)
  then show ?thesis by (simp add: newest_first_def sorted_wrt_rev)
qed

lemma set_newest_first [simp]: "set (newest_first cs) = set cs"
  by (simp add: newest_first_def)

lemma search_perm:
  "mset (search_similar_corrections m fld val k) = mset (take k (newest_first (corrections_of_field m fld)))"
  by (simp add: search_similar_corrections_def Let_def image_mset.compositionality comp_def)

lemma search_by_score:
  "sorted_wrt (\<lambda>c d. similarity_score val c \<ge> similarity_score val d) (search_similar_corrections m fld val k)"
proof -
  define cs where "cs = take k (newest_first (corrections_of_field m fld))"
  define sc where "sc = sort_key (\<lambda>p. - fst p) (map (\<lambda>c. (similarity_score val c, c)) cs)"
  have "sorted (map (\<lambda>p. - fst p) sc)" by (simp add: sc_def)
  then have "sorted_wrt (\<lambda>p q. fst p \<ge> fst q) sc" by (simp add: sorted_map)
  moreover have "\<forall>p \<in> set sc. fst p = similarity_score val (snd p)" by (auto simp: sc_def)
  ultimately have "sorted_wrt (\<lambda>p q. similarity_score val (snd p) \<ge> similarity_score val (snd q)) sc"
    by (induction sc) auto
  then have "sorted_wrt (\<lambda>c d. similarity_score val c \<ge> similarity_score val d) (map snd sc)"
    by (simp add: sorted_wrt_map)
  then show ?thesis
    by (simp add: search_similar_corrections_def Let_def sc_def cs_def sorted_wrt_take take_map [symmetric])
qed

lemma take_drop_newer:
  assumes "sorted_wrt (\<lambda>c d. corr_at c \<ge> corr_at d) cs" "c \<in> set cs" "c \<notin> set (take k cs)" "d \<in> set (take k cs)"
  shows "corr_at c \<le> corr_at d"
proof -
  have "c \<in> set (drop k cs)" using assms(2,3) by (metis append_take_drop_id in_set_conv_decomp Un_iff set_append)
  moreover have "sorted_wrt (\<lambda>c d. corr_at c \<ge> corr_at d) (take k cs @ drop k cs)" using assms(1) by simp
  ultimately show ?thesis using assms(4) unfolding sorted_wrt_append by blast
qed

section \<open>Properties\<close>

definition sample_correction :: Correction where
  "sample_correction = \<lparr>corr_id = ''k1'', corr_ext_id = ''e1'', original = ''420 EUR'', corrected = ''42 EUR'',
     reason = [], corr_by = ''u'', corr_at = ''2026-01-02''\<rparr>"

definition sample_memory :: Memory where
  "sample_memory = record_correction sample_correction (record_extraction sample_ext empty_memory)"

text \<open>Last write wins for documents and extractions, over any sequence of upserts: a look-up
  returns what the last upsert of that identifier stored, and the earlier content when there was
  none. For extractions what is stored is the value without its source span, its grounding method
  and its anchors.\<close>

theorem memory_last_write_wins:
  "get_document (fold upsert_document ds m) k =
     (case filter (\<lambda>d. doc_id d = k) ds of [] \<Rightarrow> get_document m k | ws \<Rightarrow> Some (last ws)) \<and>
   get_extraction (fold record_extraction es m) k =
     (case filter (\<lambda>e. ext_id e = k) es of [] \<Rightarrow> get_extraction m k | ws \<Rightarrow> Ok (Some (lossy_extraction (last ws))))"
  using docs.get_puts [of ds m k] exts.get_puts [of es m k]
  by (simp add: no_raise_def list.pred_True split: list.splits)

text \<open>A chunk survives the store: when it has a well-formed box, a page that is not negative and
  floats whose text reads back exactly, the look-up after the upsert returns that very chunk, and
  the look-up of any other identifier is unchanged. A chunk without a box is refused.\<close>

theorem chunk_store_round_trip:
  assumes "chunk_storable fr c"
  shows "\<exists>m'. upsert_chunk fr c m = Ok m' \<and> get_chunk m' (chunk_id c) = Ok (Some c) \<and>
    (k = chunk_id c \<or> get_chunk m' k = get_chunk m k)"
proof -
  obtain m' where m': "upsert_chunk fr c m = Ok m'"
    using assms by (auto simp: chunk_storable_def upsert_chunk_def split: option.splits)
  then have "put_chunk fr c m = m'" by (simp add: put_chunk_def)
  with m' chks.get_put_same [OF assms, of m] chks.get_put_other [of k c fr m] show ?thesis by auto
qed

theorem chunk_store_round_trip_witness:
  "\<exists>m'. upsert_chunk (\<lambda>_. ''0.0'') sample_chunk empty_memory = Ok m' \<and> get_chunk m' ''c1'' = Ok (Some sample_chunk)"
proof -
  have "chunk_storable (\<lambda>_. ''0.0'') sample_chunk" by (simp add: chunk_storable_def sample_defs bbox_ok_def)
  from chunk_store_round_trip [OF this, of empty_memory "''c1''"] show ?thesis by (auto simp: sample_chunk_def)
qed

text \<open>C25: the correction search returns at most \<open>k\<close> corrections, all of them of extractions stored
  under the field, the best score first; and recency comes before similarity: every correction of
  the field it leaves out is no newer than every one it returns.\<close>

theorem correction_search_correct:
  "length (search_similar_corrections m fld val k) \<le> k \<and>
   set (search_similar_corrections m fld val k) \<subseteq> set (corrections_of_field m fld) \<and>
   sorted_wrt (\<lambda>c d. similarity_score val c \<ge> similarity_score val d) (search_similar_corrections m fld val k) \<and>
   (\<forall>c \<in> set (corrections_of_field m fld) - set (search_similar_corrections m fld val k).
      \<forall>d \<in> set (search_similar_corrections m fld val k). corr_at c \<le> corr_at d)"
proof -
  let ?n = "newest_first (corrections_of_field m fld)"
  have s: "set (search_similar_corrections m fld val k) = set (take k ?n)"
    using search_perm [of m fld val k] by (metis set_mset_mset)
  have l: "length (search_similar_corrections m fld val k) \<le> k"
    using search_perm [of m fld val k] by (metis length_take min.cobounded2 size_mset)
  have "set (take k ?n) \<subseteq> set (corrections_of_field m fld)" using set_take_subset [of k ?n] by simp
  then show ?thesis
    unfolding s using l search_by_score take_drop_newer [OF newest_first_sorted, of _ "corrections_of_field m fld" k] by auto
qed

theorem correction_search_correct_witness:
  "search_similar_corrections sample_memory ''total'' ''420'' 5 = [sample_correction] \<and>
   length (search_similar_corrections sample_memory ''total'' ''420'' 5) \<le> 5"
proof -
  have "corrections_of_field sample_memory ''total'' = [sample_correction]"
    by (simp add: corrections_of_field_def sample_memory_def record_correction_def record_extraction_def
        empty_memory_def row_put_def sample_correction_def sample_ext_def)
  then have "search_similar_corrections sample_memory ''total'' ''420'' 5 = [sample_correction]"
    by (simp add: search_similar_corrections_def newest_first_def)
  with correction_search_correct [of sample_memory "''total''" "''420''" 5] show ?thesis by simp
qed

end
