(* ===== verification/QualityGate.thy ===== *)
theory QualityGate
  imports MemoryStore
begin

text \<open>
  \<^verbatim>\<open>kernel/sidecar/quality_gate.py\<close>: the gate that grades an extraction PASS, FLAG or
  BLOCK. The correction store is the argument \<open>lookup\<close>, the \<^verbatim>\<open>CorrectionLookup\<close> protocol
  the constructor receives. A reason is represented by its leading tag; the code appends a sentence
  with formatted numbers to each.
\<close>

record GateConfig =
  flag_threshold :: real
  block_threshold :: real

definition mk_gate :: "real \<Rightarrow> real \<Rightarrow> GateConfig result" where
  "mk_gate fl bl =
     (if bl \<ge> fl then Raise (ValueError ''block_threshold must be < flag_threshold'')
      else Ok \<lparr>flag_threshold = fl, block_threshold = bl\<rparr>)"

definition default_gate :: GateConfig where
  "default_gate = \<lparr>flag_threshold = 5 / 10, block_threshold = 2 / 10\<rparr>"

type_synonym lookup = "str \<Rightarrow> str \<Rightarrow> nat \<Rightarrow> Correction list"

definition ungrounded :: "Extraction \<Rightarrow> bool" where
  "ungrounded e \<longleftrightarrow> ext_chunk_id e = [] \<or> strip (ext_chunk_id e) = [] \<or> ext_method e = GM_BLOCK \<or> anchors e = []"

definition contradicting :: "Extraction \<Rightarrow> Correction list \<Rightarrow> Correction list" where
  "contradicting e cs = filter (\<lambda>c. corrected c \<noteq> ext_value e) cs"

definition calibrate_with_corrections :: "lookup \<Rightarrow> Extraction \<Rightarrow> real \<Rightarrow> str list \<Rightarrow> real \<times> str list" where
  "calibrate_with_corrections lookup e conf reasons =
     (let corrections = lookup (field_name e) (ext_value e) 5 in
      if corrections = [] then (conf, reasons)
      else let bad = contradicting e corrections;
               contradictions = length bad;
               reasons' = reasons @ map (\<lambda>c. ''CORRECTION_CONFLICT: '' @ corr_id c) bad
           in if contradictions > 0
              then (conf - real contradictions * (15 / 100), reasons' @ [''CONFIDENCE_LOWERED''])
              else (conf, reasons'))"

definition route_verdict :: "GateConfig \<Rightarrow> real \<Rightarrow> str list \<Rightarrow> GateVerdict \<times> str list" where
  "route_verdict cfg conf reasons =
     (if conf < block_threshold cfg then (GV_BLOCK, reasons @ [''VERDICT_BLOCK''])
      else if conf < flag_threshold cfg then (GV_FLAG, reasons @ [''VERDICT_FLAG''])
      else (GV_PASS, reasons))"

text \<open>\<^verbatim>\<open>round(x, 4)\<close>: to the nearest multiple of 1/10000, ties to even.\<close>

definition round_half_even :: "real \<Rightarrow> int" where
  "round_half_even x =
     (let f = \<lfloor>x\<rfloor>; d = x - real_of_int f in
      if d < 1 / 2 then f else if d > 1 / 2 then f + 1 else if even f then f else f + 1)"

definition round4 :: "real \<Rightarrow> real" where
  "round4 x = real_of_int (round_half_even (x * 10000)) / 10000"

definition gate_check :: "GateConfig \<Rightarrow> lookup \<Rightarrow> Extraction \<Rightarrow> GateResult" where
  "gate_check cfg lookup e =
     (let (conf, reasons) =
            (if ungrounded e then (min (confidence e) (block_threshold cfg - 1 / 100), [''UNGROUNDED''])
             else (confidence e, []));
          (conf, reasons) = calibrate_with_corrections lookup e conf reasons;
          conf = max 0 (min 1 conf);
          (v, reasons) = route_verdict cfg conf reasons
      in \<lparr>verdict = v, calibrated_confidence = round4 conf, gate_reasons = reasons\<rparr>)"

section \<open>The confidence the verdict is taken on\<close>

definition penalty :: "lookup \<Rightarrow> Extraction \<Rightarrow> real" where
  "penalty lookup e = real (length (contradicting e (lookup (field_name e) (ext_value e) 5))) * (15 / 100)"

definition effective :: "GateConfig \<Rightarrow> lookup \<Rightarrow> Extraction \<Rightarrow> real" where
  "effective cfg lookup e =
     max 0 (min 1 ((if ungrounded e then min (confidence e) (block_threshold cfg - 1 / 100) else confidence e)
       - penalty lookup e))"

lemma calibrate_fst: "fst (calibrate_with_corrections lookup e conf reasons) = conf - penalty lookup e"
  by (simp add: calibrate_with_corrections_def Let_def penalty_def contradicting_def)

lemma gate_check_effective:
  "verdict (gate_check cfg lookup e) = fst (route_verdict cfg (effective cfg lookup e) [])"
  "calibrated_confidence (gate_check cfg lookup e) = round4 (effective cfg lookup e)"
  using calibrate_fst [of lookup e]
  by (auto simp: gate_check_def Let_def effective_def route_verdict_def case_prod_beta)

lemma round_half_even_mono_range:
  assumes "0 \<le> x" "x \<le> real_of_int n"
  shows "0 \<le> round_half_even x \<and> round_half_even x \<le> n"
proof -
  have f: "0 \<le> \<lfloor>x\<rfloor>" "\<lfloor>x\<rfloor> \<le> n" using assms by (simp_all add: floor_le_iff)
  show ?thesis
  proof (cases "\<lfloor>x\<rfloor> = n")
    case True
    then have "x = real_of_int n" using assms(2) by (metis antisym of_int_floor_le)
    then show ?thesis using f by (simp add: round_half_even_def)
  next
    case False
    then show ?thesis using f by (auto simp: round_half_even_def Let_def)
  qed
qed

lemma round4_range: "0 \<le> x \<Longrightarrow> x \<le> 1 \<Longrightarrow> 0 \<le> round4 x \<and> round4 x \<le> 1"
  using round_half_even_mono_range [of "x * 10000" 10000] by (simp add: round4_def)

lemma effective_range: "0 \<le> effective cfg lookup e \<and> effective cfg lookup e \<le> 1"
  by (simp add: effective_def)

lemma effective_ungrounded:
  assumes "ungrounded e" "0 < block_threshold cfg"
  shows "effective cfg lookup e < block_threshold cfg"
proof -
  have "0 \<le> penalty lookup e" by (simp add: penalty_def)
  then show ?thesis using assms by (auto simp: effective_def min_def max_def)
qed

section \<open>The interface of a gate\<close>

text \<open>What the orchestrator relies on: an extraction that is not grounded never passes, and the
  reported confidence is a probability.\<close>

locale quality_gate =
  fixes check :: "Extraction \<Rightarrow> GateResult"
  assumes blocks_ungrounded: "ungrounded e \<Longrightarrow> verdict (check e) = GV_BLOCK"
    and confidence_range: "0 \<le> calibrated_confidence (check e) \<and> calibrated_confidence (check e) \<le> 1"
begin

lemma passed_grounded: "verdict (check e) \<noteq> GV_BLOCK \<Longrightarrow> \<not> ungrounded e"
  using blocks_ungrounded by blast

lemma passed_have_anchors: "verdict (check e) = GV_PASS \<Longrightarrow> anchors e \<noteq> [] \<and> ext_method e \<noteq> GM_BLOCK"
  using blocks_ungrounded [of e] by (auto simp: ungrounded_def)

end

text \<open>A gate whose block threshold is positive, as the default is, meets the contract whatever the
  correction store returns.\<close>

definition positive_gate :: "GateConfig \<Rightarrow> GateConfig" where
  "positive_gate cfg = (if 0 < block_threshold cfg then cfg else default_gate)"

interpretation local_gate: quality_gate "gate_check (positive_gate cfg) lookup" for cfg lookup
proof
  have pos: "0 < block_threshold (positive_gate cfg)" by (simp add: positive_gate_def default_gate_def)
  show "verdict (gate_check (positive_gate cfg) lookup e) = GV_BLOCK" if "ungrounded e" for e
    using effective_ungrounded [OF that pos] by (simp add: gate_check_effective route_verdict_def)
  show "0 \<le> calibrated_confidence (gate_check (positive_gate cfg) lookup e) \<and>
      calibrated_confidence (gate_check (positive_gate cfg) lookup e) \<le> 1" for e
    using round4_range effective_range by (simp add: gate_check_effective)
qed

section \<open>Properties\<close>

text \<open>Ungrounded values are blocked: with a positive block threshold an extraction without a
  chunk identifier, with the method BLOCK or without anchors gets the verdict BLOCK, whatever
  confidence the model claims and whatever the correction store returns.\<close>

theorem gate_blocks_ungrounded:
  assumes "ungrounded e" and "0 < block_threshold cfg"
  shows "verdict (gate_check cfg lookup e) = GV_BLOCK"
  using effective_ungrounded [OF assms] by (simp add: gate_check_effective route_verdict_def)

theorem gate_blocks_ungrounded_witness:
  "verdict (gate_check default_gate (search_similar_corrections sample_memory) (sample_ext\<lparr>confidence := 1\<rparr>)) = GV_BLOCK"
  by (rule gate_blocks_ungrounded) (simp_all add: ungrounded_def sample_ext_def default_gate_def)

text \<open>The verdict of a grounded extraction follows its confidence less 0.15 for each
  contradicting correction found, clamped to the unit interval: BLOCK below the block threshold,
  FLAG from there to the flag threshold, PASS from there on; the reported confidence is that
  number rounded and lies between 0 and 1.\<close>

theorem gate_verdict_by_confidence:
  assumes "\<not> ungrounded e" and "mk_gate fl bl = Ok cfg"
  shows "let c = max 0 (min 1 (confidence e - penalty lookup e)); r = gate_check cfg lookup e in
    (verdict r = GV_BLOCK \<longleftrightarrow> c < bl) \<and> (verdict r = GV_FLAG \<longleftrightarrow> bl \<le> c \<and> c < fl) \<and> (verdict r = GV_PASS \<longleftrightarrow> fl \<le> c) \<and>
    calibrated_confidence r = round4 c \<and> 0 \<le> calibrated_confidence r \<and> calibrated_confidence r \<le> 1"
proof -
  have cfg: "cfg = \<lparr>flag_threshold = fl, block_threshold = bl\<rparr>" "bl < fl"
    using assms(2) by (auto simp: mk_gate_def split: if_splits)
  define c where "c = max 0 (min 1 (confidence e - penalty lookup e))"
  have "0 \<le> c" "c \<le> 1" by (simp_all add: c_def)
  moreover have "effective cfg lookup e = c" using assms(1) by (simp add: effective_def c_def)
  ultimately show ?thesis unfolding c_def [symmetric] Let_def
    using cfg round4_range [of c] by (auto simp: gate_check_effective route_verdict_def)
qed

theorem gate_verdict_by_confidence_witness:
  "verdict (gate_check default_gate (\<lambda>_ _ _. [sample_correction])
      (sample_ext\<lparr>ext_method := GM_EXACT, anchors := [\<lparr>anchor_chunk_id = ''c1'', char_span = (0, 9), anchor_page = 1, anchor_bbox = None\<rparr>]\<rparr>))
    = GV_PASS"
proof -
  let ?e = "sample_ext\<lparr>ext_method := GM_EXACT, anchors := [\<lparr>anchor_chunk_id = ''c1'', char_span = (0, 9), anchor_page = 1, anchor_bbox = None\<rparr>]\<rparr>"
  have "strip ''c1'' \<noteq> []" by code_simp
  then have g: "\<not> ungrounded ?e" by (simp add: ungrounded_def sample_ext_def)
  have m: "mk_gate (5 / 10) (2 / 10) = Ok default_gate" by (simp add: mk_gate_def default_gate_def)
  have c: "max 0 (min 1 (confidence ?e - penalty (\<lambda>_ _ _. [sample_correction]) ?e)) = 3 / 4"
    by (simp add: penalty_def contradicting_def sample_ext_def sample_correction_def)
  show ?thesis using gate_verdict_by_confidence [OF g m, of "\<lambda>_ _ _. [sample_correction]"]
    unfolding Let_def c by simp
qed

text \<open>Without the positivity condition the penalty does not block: the confidence is clamped to 0,
  which is not below a block threshold of 0.\<close>

lemma gate_zero_threshold_passes_ungrounded:
  "verdict (gate_check \<lparr>flag_threshold = 1 / 2, block_threshold = 0\<rparr> (\<lambda>_ _ _. []) (sample_ext\<lparr>confidence := 1\<rparr>)) = GV_FLAG"
proof -
  have u: "ungrounded (sample_ext\<lparr>confidence := 1\<rparr>)" by (simp add: ungrounded_def sample_ext_def)
  show ?thesis
    by (simp add: gate_check_effective route_verdict_def effective_def u penalty_def contradicting_def)
qed

end
