(* ===== verification/ActionExecutor.thy ===== *)
theory ActionExecutor
  imports Provenance
begin

text \<open>
  \<^verbatim>\<open>kernel/sidecar/action_executor.py\<close>: the executor that only reads and suggests. The
  text Python prints for a payload or a value of it is the parameter \<open>pstr\<close>, the clock the parameter
  \<open>now\<close>.
\<close>

definition DEFAULT_ALLOWLIST :: "str list" where
  "DEFAULT_ALLOWLIST = [''notepad'', ''browser'', ''office'', ''acrobat'', ''filesystem'']"

definition suggest :: "(json \<Rightarrow> str) \<Rightarrow> str list \<Rightarrow> ProvenanceLog \<Rightarrow> Action \<Rightarrow> Suggestion" where
  "suggest pstr allow pl a =
     (let display =
            (if lower (target_app a) \<notin> set allow
             then ''[UNSUPPORTED APP: '' @ target_app a @ ''] Suggest '' @ ActionKind_value (action_kind a) @ '' payload''
             else ''Suggest '' @ ActionKind_value (action_kind a) @ '' on '' @ target_app a @ '': '' @ pstr (JObj (payload a)));
          chain = get_provenance pl (action_ext_id a)
      in \<lparr>sugg_action = a, sugg_provenance = chain, sugg_confidence = action_confidence a, display_text = display\<rparr>)"

definition apply_failed :: "str \<Rightarrow> ApplyResult" where
  "apply_failed msg = \<lparr>success = False, post_state = JNull, apply_error = Some msg\<rparr>"

definition apply_action :: "(json \<Rightarrow> str) \<Rightarrow> str list \<Rightarrow> ProvenanceLog \<Rightarrow> str \<Rightarrow> Action \<Rightarrow> bool \<Rightarrow> ApplyResult" where
  "apply_action pstr allow pl now a human_confirm =
     (if \<not> human_confirm then
        apply_failed ''CUA violation: Kairo is read+suggest only. Autonomous writes are strictly prohibited.''
      else let app_name = lower (target_app a) in
      if app_name \<notin> set allow then
        apply_failed (''CUA Refused: App '' @ [CHR 0x27] @ target_app a @ [CHR 0x27] @ '' is not in the allowed application set.'')
      else let chain = get_provenance pl (action_ext_id a) in
      if \<not> chain_is_complete chain then
        apply_failed ''Verification failed: incomplete provenance chain.''
      else let expected_value = (case chain_extraction chain of Some e \<Rightarrow> ext_value e | None \<Rightarrow> []);
               payload_value = (case dict_get (payload a) ''value'' of Some v \<Rightarrow> v | None \<Rightarrow> JStr [])
      in if expected_value \<noteq> [] \<and> json_truthy payload_value \<and> JStr expected_value \<noteq> payload_value then
           apply_failed (''Verification failed: extraction value '' @ [CHR 0x27] @ expected_value @ [CHR 0x27] @
             '' does not match action payload '' @ [CHR 0x27] @ pstr payload_value @ [CHR 0x27] @ ''.'')
         else \<lparr>success = True,
               post_state = JObj [(''status'', JStr ''verified''), (''app'', JStr app_name), (''verified_at'', JStr now)],
               apply_error = None\<rparr>)"

section \<open>Properties\<close>

text \<open>C28: an action is applied exactly when a human confirmed it, its application is on the
  allow-list up to case, the extraction it names resolves to a complete provenance chain, and the
  value it writes, where both it and the extracted value are present, is the extracted value. A
  failed application says why and leaves no post-state.\<close>

theorem apply_iff_authorised:
  "(success (apply_action pstr allow pl now a confirm) \<longleftrightarrow>
     confirm \<and> lower (target_app a) \<in> set allow \<and> chain_is_complete (get_provenance pl (action_ext_id a)) \<and>
     (\<forall>e v. chain_extraction (get_provenance pl (action_ext_id a)) = Some e \<longrightarrow>
        dict_get (payload a) ''value'' = Some v \<longrightarrow> ext_value e \<noteq> [] \<longrightarrow> json_truthy v \<longrightarrow> v = JStr (ext_value e))) \<and>
   (success (apply_action pstr allow pl now a confirm) \<or>
      apply_error (apply_action pstr allow pl now a confirm) \<noteq> None \<and> post_state (apply_action pstr allow pl now a confirm) = JNull)"
proof -
  let ?ch = "get_provenance pl (action_ext_id a)"
  show ?thesis
  proof (cases "confirm \<and> lower (target_app a) \<in> set allow \<and> chain_is_complete ?ch")
    case True
    then obtain e where "chain_extraction ?ch = Some e" by (auto simp: chain_is_complete_iff)
    then show ?thesis using True
      by (cases "dict_get (payload a) ''value''") (auto simp: apply_action_def Let_def apply_failed_def)
  qed (auto simp: apply_action_def Let_def apply_failed_def)
qed

definition sample_action :: Action where
  "sample_action = \<lparr>action_id = ''a1'', action_ext_id = ''e1'', action_kind = AK_SUGGEST, target_app = ''Notepad'',
     payload = [(''value'', JStr ''420 EUR'')], action_confidence = 9 / 10, action_status = AS_PENDING\<rparr>"

lemma sample_chain: "chain_is_complete (get_provenance sample_log ''e1'')"
  "chain_extraction (get_provenance sample_log ''e1'') = Some sample_ext"
  by (simp_all add: get_provenance_def chain_is_complete_def sample_log_eval)

theorem apply_iff_authorised_witness:
  "success (apply_action (\<lambda>_. []) DEFAULT_ALLOWLIST sample_log ''t'' sample_action True) \<and>
   \<not> success (apply_action (\<lambda>_. []) DEFAULT_ALLOWLIST sample_log ''t'' sample_action False) \<and>
   \<not> success (apply_action (\<lambda>_. []) DEFAULT_ALLOWLIST sample_log ''t'' (sample_action\<lparr>target_app := ''cmd''\<rparr>) True)"
proof -
  have "lower ''Notepad'' \<in> set DEFAULT_ALLOWLIST" "lower ''cmd'' \<notin> set DEFAULT_ALLOWLIST" by code_simp+
  then show ?thesis
    using sample_chain
      apply_iff_authorised [of "\<lambda>_. []" DEFAULT_ALLOWLIST sample_log "''t''" sample_action True]
      apply_iff_authorised [of "\<lambda>_. []" DEFAULT_ALLOWLIST sample_log "''t''" sample_action False]
      apply_iff_authorised [of "\<lambda>_. []" DEFAULT_ALLOWLIST sample_log "''t''" "sample_action\<lparr>target_app := ''cmd''\<rparr>" True]
    by (simp add: sample_action_def sample_ext_def)
qed

end
