(* ===== verification/Orchestrator.thy ===== *)
theory Orchestrator
  imports Provenance QualityGate
begin

text \<open>
  \<^verbatim>\<open>kernel/sidecar/orchestrator.py\<close>: the pipeline from ingestion to suggestion. The
  collaborators the constructor receives (ingestor, security filter, pack, quality gate) and the
  context compressor are fields of the record \<open>Deps\<close>, functions of their own; the provenance log
  and the memory store are the models of theories Provenance and MemoryStore, and the grounding
  verifier is that of theory Grounding with its default thresholds. An exception of a collaborator
  is an \<open>Inl\<close> with its text. Elapsed times and the text Python prints for floats and lists of
  strings are functions of the record as well.
\<close>

record Deps =
  dep_ingest :: "str \<Rightarrow> str + Chunk list \<times> Document \<times> Page list"
  dep_scan :: "str \<Rightarrow> ScanResult"
  dep_pack_name :: str
  dep_pack_fields :: "str list"
  dep_compress :: "Chunk list \<Rightarrow> (Chunk list \<times> real) option"
  dep_extract :: "Chunk list \<Rightarrow> str + Extraction list"
  dep_check :: "Memory \<Rightarrow> Extraction \<Rightarrow> GateResult"
  dep_elapsed :: "str \<Rightarrow> real"
  dep_fr :: "real \<Rightarrow> str"
  dep_list_repr :: "str list \<Rightarrow> str"

section \<open>Stages\<close>

definition mk_stage :: "str \<Rightarrow> json \<Rightarrow> json \<Rightarrow> real \<Rightarrow> str \<Rightarrow> TraceStage" where
  "mk_stage nm inp out ms st = \<lparr>stage_name = nm, input_data = inp, output_data = out, duration_ms = ms, stage_status = st\<rparr>"

definition json_len :: "'a list \<Rightarrow> json" where
  "json_len xs = JInt (int (length xs))"

definition capture_stage :: "Deps \<Rightarrow> str \<Rightarrow> Chunk list \<Rightarrow> Document \<Rightarrow> TraceStage" where
  "capture_stage dp path chunks d = mk_stage ''context_capture'' (JObj [(''path'', JStr path)])
     (JObj [(''chunk_count'', json_len chunks), (''page_count'', JInt (page_count d))])
     (dep_elapsed dp ''context_capture'') ''ok''"

definition security_stage :: "Deps \<Rightarrow> str \<Rightarrow> ScanResult \<Rightarrow> TraceStage" where
  "security_stage dp all_text r = mk_stage ''security_filter'' (JObj [(''text_length'', json_len all_text)])
     (JObj [(''blocked'', JBool (scan_blocked r)), (''reasons'', JList (map JStr (scan_reasons r)))])
     (dep_elapsed dp ''security_filter'') (if scan_blocked r then ''halted'' else ''ok'')"

definition intent_json :: "Deps \<Rightarrow> json" where
  "intent_json dp = JObj [(''type'', JStr ''extract''), (''pack'', JStr (dep_pack_name dp)),
     (''fields'', JList (map JStr (dep_pack_fields dp)))]"

definition intent_stage :: "Deps \<Rightarrow> Chunk list \<Rightarrow> TraceStage" where
  "intent_stage dp chunks = mk_stage ''intent_gate'' (JObj [(''chunk_count'', json_len chunks)]) (intent_json dp)
     (dep_elapsed dp ''intent_gate'') ''ok''"

definition router_stage :: "Deps \<Rightarrow> TraceStage" where
  "router_stage dp = mk_stage ''router'' (intent_json dp)
     (JObj [(''selected_pack'', JStr (dep_pack_name dp)), (''fields_to_extract'', JList (map JStr (dep_pack_fields dp)))])
     (dep_elapsed dp ''router'') ''ok''"

definition compression_stage :: "Deps \<Rightarrow> Chunk list \<Rightarrow> TraceStage \<times> Chunk list" where
  "compression_stage dp chunks =
     (let (extraction_chunks, out) =
            (case dep_compress dp chunks of
               Some (cs, pct) \<Rightarrow>
                 (cs, JObj [(''compressed_chunk_count'', json_len cs), (''reduction_pct'', JFloat (dep_fr dp pct))])
             | None \<Rightarrow> (chunks, JObj [(''status'', JStr ''skipped'')]))
      in (mk_stage ''context_compression'' (JObj [(''chunk_count'', json_len chunks)]) out
            (dep_elapsed dp ''context_compression'') ''ok'', extraction_chunks))"

definition basename :: "str \<Rightarrow> str" where
  "basename p = rev (takeWhile (\<lambda>c. c \<noteq> CHR ''/'') (rev p))"

definition inject_filename :: "str \<Rightarrow> Chunk list \<Rightarrow> Chunk list" where
  "inject_filename path chunks =
     (let fn = (if path \<noteq> [] then basename path else [])
      in if fn \<noteq> [] then map (\<lambda>c. c\<lparr>source_type := fn\<rparr>) chunks else chunks)"

section \<open>Registration, grounding, gate\<close>

type_synonym stores = "ProvenanceLog \<times> Memory"

fun register_chunks :: "Deps \<Rightarrow> Chunk list \<Rightarrow> stores \<Rightarrow> py_error option \<times> stores" where
  "register_chunks dp [] st = (None, st)"
| "register_chunks dp (c # cs) st =
     (case register_chunk c (fst st) of
        Inl e \<Rightarrow> (Some e, st)
      | Inr pl \<Rightarrow>
          (case upsert_chunk (dep_fr dp) c (snd st) of
             Inl e \<Rightarrow> (Some e, (pl, snd st))
           | Inr m \<Rightarrow> register_chunks dp cs (pl, m)))"

definition ground_extraction :: "(bytes \<Rightarrow> bytes) \<Rightarrow> Chunk list \<Rightarrow> Extraction \<Rightarrow> Extraction" where
  "ground_extraction H chunks e =
     (let (m, as) = verify H default_config (ext_value e) (source_span e) chunks;
          cid = (if as \<noteq> [] then anchor_chunk_id (hd as) else ext_chunk_id e)
      in e\<lparr>ext_method := m, anchors := as, ext_chunk_id := cid\<rparr>)"

definition register_extractions :: "Extraction list \<Rightarrow> stores \<Rightarrow> stores" where
  "register_extractions es st =
     fold (\<lambda>e st. (register_extraction e (fst st), record_extraction e (snd st))) es st"

record GateRun =
  gr_results :: "json list"
  gr_all :: "Extraction list"
  gr_passed :: "Extraction list"
  gr_halted :: bool
  gr_reason :: str

definition empty_run :: GateRun where
  "empty_run = \<lparr>gr_results = [], gr_all = [], gr_passed = [], gr_halted = False, gr_reason = []\<rparr>"

definition gate_row :: "Deps \<Rightarrow> Extraction \<Rightarrow> GateResult \<Rightarrow> json" where
  "gate_row dp e r = JObj [(''ext_id'', JStr (ext_id e)), (''field'', JStr (field_name e)),
     (''verdict'', JStr (GateVerdict_value (verdict r))), (''confidence'', JFloat (dep_fr dp (calibrated_confidence r)))]"

definition gate_step :: "Deps \<Rightarrow> Memory \<Rightarrow> Extraction \<Rightarrow> GateRun \<Rightarrow> GateRun" where
  "gate_step dp m e g =
     (let r = dep_check dp m e;
          g = g\<lparr>gr_results := gr_results g @ [gate_row dp e r]\<rparr>;
          review = e\<lparr>ext_status := ES_PENDING_REVIEW, confidence := calibrated_confidence r\<rparr>;
          passed = e\<lparr>confidence := calibrated_confidence r\<rparr>
      in case verdict r of
           GV_BLOCK \<Rightarrow> g\<lparr>gr_halted := True,
             gr_reason := ''Quality gate BLOCKED extraction '' @ ext_id e @ '' (field='' @ field_name e @ ''): ''
               @ dep_list_repr dp (gate_reasons r),
             gr_all := gr_all g @ [review]\<rparr>
         | GV_FLAG \<Rightarrow> g\<lparr>gr_all := gr_all g @ [review]\<rparr>
         | GV_PASS \<Rightarrow> g\<lparr>gr_passed := gr_passed g @ [passed], gr_all := gr_all g @ [passed]\<rparr>)"

definition gate_phase :: "Deps \<Rightarrow> Memory \<Rightarrow> Extraction list \<Rightarrow> GateRun" where
  "gate_phase dp m es = fold (gate_step dp m) es empty_run"

definition quality_stage :: "Deps \<Rightarrow> Extraction list \<Rightarrow> GateRun \<Rightarrow> TraceStage" where
  "quality_stage dp es g = mk_stage ''quality_gate'' (JObj [(''extraction_count'', json_len es)])
     (JObj [(''results'', JList (gr_results g)), (''passed'', json_len (gr_passed g)),
            (''flagged_or_blocked'', JInt (int (length es) - int (length (gr_passed g))))])
     (dep_elapsed dp ''quality_gate'') (if gr_halted g then ''halted'' else ''ok'')"

definition review_stage :: "GateRun \<Rightarrow> TraceStage" where
  "review_stage g = mk_stage ''human_review''
     (JObj [(''reason'', JStr (gr_reason g)),
            (''extractions_needing_review'',
             JList (map (\<lambda>e. JStr (ext_id e)) (filter (\<lambda>e. ext_status e = ES_PENDING_REVIEW) (gr_all g))))])
     (JObj [(''status'', JStr ''awaiting_human_review'')]) 0 ''halted''"

definition suggestion_json :: "Deps \<Rightarrow> Extraction \<Rightarrow> json" where
  "suggestion_json dp e = JObj [(''ext_id'', JStr (ext_id e)), (''field'', JStr (field_name e)),
     (''value'', JStr (ext_value e)), (''confidence'', JFloat (dep_fr dp (confidence e)))]"

definition suggest_stage :: "Deps \<Rightarrow> GateRun \<Rightarrow> TraceStage" where
  "suggest_stage dp g = mk_stage ''suggest'' (JObj [(''passed_count'', json_len (gr_passed g))])
     (JObj [(''suggestions'', JList (map (suggestion_json dp) (gr_passed g)))])
     (dep_elapsed dp ''suggest'') ''ok''"

definition halted_trace :: "TraceStage list \<Rightarrow> str \<Rightarrow> Trace" where
  "halted_trace ss why = \<lparr>stages = ss, halted = True, halt_reason = why, trace_extractions = []\<rparr>"

section \<open>The run\<close>

text \<open>From the router on: compression, extraction, grounding, registration, gate, suggestion.\<close>

definition run_extraction ::
  "(bytes \<Rightarrow> bytes) \<Rightarrow> Deps \<Rightarrow> str \<Rightarrow> Chunk list \<Rightarrow> TraceStage list \<Rightarrow> stores \<Rightarrow> Trace \<times> stores" where
  "run_extraction H dp path chunks0 ss st =
     (let (cstage, extraction_chunks) = compression_stage dp chunks0;
          chunks = inject_filename path chunks0;
          inp = JObj [(''chunk_count'', json_len chunks)];
          ss = ss @ [cstage]
      in case dep_extract dp extraction_chunks of
           Inl e \<Rightarrow> (halted_trace
             (ss @ [mk_stage ''extractor'' inp (JObj [(''error'', JStr e)]) (dep_elapsed dp ''extractor'') ''halted''])
             (''Extractor failed: '' @ e), st)
         | Inr exts0 \<Rightarrow>
             (let ss = ss @ [mk_stage ''extractor'' inp (JObj [(''extraction_count'', json_len exts0)])
                               (dep_elapsed dp ''extractor'') ''ok''];
                  exts = map (ground_extraction H chunks) exts0;
                  st = register_extractions exts st;
                  g = gate_phase dp (snd st) exts;
                  ss = ss @ [quality_stage dp exts g]
              in if gr_halted g
                 then (\<lparr>stages = ss @ [review_stage g], halted = True, halt_reason = gr_reason g,
                        trace_extractions = gr_all g\<rparr>, st)
                 else (\<lparr>stages = ss @ [suggest_stage dp g], halted = False, halt_reason = [],
                        trace_extractions = gr_all g\<rparr>, st)))"

definition run :: "(bytes \<Rightarrow> bytes) \<Rightarrow> Deps \<Rightarrow> Document \<Rightarrow> stores \<Rightarrow> Trace result \<times> stores" where
  "run H dp doc st =
     (case dep_ingest dp (source_path doc) of
        Inl e \<Rightarrow>
          (Ok (halted_trace [mk_stage ''context_capture'' (JObj [(''path'', JStr (source_path doc))])
                 (JObj [(''error'', JStr e)]) 0 ''halted''] (''Ingestor failed: '' @ e)), st)
      | Inr (chunks, d, pages) \<Rightarrow>
          (let s1 = capture_stage dp (source_path doc) chunks d;
               st = (register_document d (fst st), fold upsert_page pages (upsert_document d (snd st)))
           in case register_chunks dp chunks st of
                (Some e, st) \<Rightarrow> (Raise e, st)
              | (None, st) \<Rightarrow>
                  (let all_text = join [CHR 0x0A] (map chunk_text chunks);
                       r = dep_scan dp all_text;
                       ss = [s1, security_stage dp all_text r]
                   in if scan_blocked r
                      then (Ok (halted_trace ss (''Security filter blocked: '' @ dep_list_repr dp (scan_reasons r))), st)
                      else (case run_extraction H dp (source_path doc) chunks
                              (ss @ [intent_stage dp chunks, router_stage dp]) st of
                              (tr, st) \<Rightarrow> (Ok tr, st)))))"

section \<open>The gate phase\<close>

lemma gate_phase_snoc: "gate_phase dp m (es @ [e]) = gate_step dp m e (gate_phase dp m es)"
  by (simp add: gate_phase_def)

lemma gate_phase_Nil: "gate_phase dp m [] = empty_run"
  by (simp add: gate_phase_def)

lemma gate_phase_halted: "gr_halted (gate_phase dp m es) \<longleftrightarrow> (\<exists>e \<in> set es. verdict (dep_check dp m e) = GV_BLOCK)"
  by (induction es rule: rev_induct)
     (auto simp: gate_phase_snoc gate_phase_Nil empty_run_def gate_step_def Let_def split: GateVerdict.splits)

lemma gate_phase_passed:
  "gr_passed (gate_phase dp m es) =
     map (\<lambda>e. e\<lparr>confidence := calibrated_confidence (dep_check dp m e)\<rparr>)
       (filter (\<lambda>e. verdict (dep_check dp m e) = GV_PASS) es)"
  by (induction es rule: rev_induct)
     (auto simp: gate_phase_snoc gate_phase_Nil empty_run_def gate_step_def Let_def split: GateVerdict.splits)

lemma gate_phase_all: "set (gr_passed (gate_phase dp m es)) \<subseteq> set (gr_all (gate_phase dp m es))"
  by (induction es rule: rev_induct)
     (auto simp: gate_phase_snoc gate_phase_Nil empty_run_def gate_step_def Let_def split: GateVerdict.splits)

section \<open>Registration\<close>

lemma dict_get_registered:
  "register_chunks dp cs (pl, m) = (None, (pl', m')) \<Longrightarrow>
     dict_get (pl_chunks pl') k =
       (case filter (\<lambda>c. chunk_id c = k) cs of [] \<Rightarrow> dict_get (pl_chunks pl) k | ws \<Rightarrow> Some (last ws)) \<and>
     pl_documents pl' = pl_documents pl \<and> pl_extractions pl' = pl_extractions pl \<and> pl_actions pl' = pl_actions pl \<and>
     (prov_inv pl \<longrightarrow> prov_inv pl')"
proof (induction cs arbitrary: pl m)
  case (Cons c cs)
  from Cons.prems obtain pl1 m1 where r: "register_chunk c pl = Ok pl1"
    and rest: "register_chunks dp cs (pl1, m1) = (None, (pl', m'))"
    by (auto split: sum.splits)
  have p1: "pl1 = pl\<lparr>pl_chunks := dict_set (chunk_id c) c (pl_chunks pl)\<rparr>"
    using r by (auto simp: register_chunk_def split: if_splits)
  have "prov_inv pl \<Longrightarrow> prov_inv pl1" by (rule prov.inv_chunk [OF _ r])
  with Cons.IH [OF rest] p1 show ?case by (auto split: list.splits)
qed simp

lemma registered_chunk:
  assumes "register_chunks dp cs (pl, m) = (None, (pl', m'))" "c \<in> set cs"
  shows "\<exists>c' \<in> set cs. dict_get (pl_chunks pl') (chunk_id c) = Some c'"
proof (cases "filter (\<lambda>d. chunk_id d = chunk_id c) cs")
  case Nil
  with assms(2) show ?thesis by (auto simp: filter_empty_conv)
next
  case (Cons w ws)
  have "last (w # ws) \<in> set (filter (\<lambda>d. chunk_id d = chunk_id c) cs)" unfolding Cons by (rule last_in_set) simp
  then have "last (w # ws) \<in> set cs" by auto
  moreover have "dict_get (pl_chunks pl') (chunk_id c) = Some (last (w # ws))"
    using dict_get_registered [OF assms(1), of "chunk_id c"] unfolding Cons by simp
  ultimately show ?thesis by blast
qed

lemma register_extractions_state:
  "pl_chunks (fst (register_extractions es st)) = pl_chunks (fst st) \<and>
   pl_documents (fst (register_extractions es st)) = pl_documents (fst st) \<and>
   pl_actions (fst (register_extractions es st)) = pl_actions (fst st) \<and>
   (prov_inv (fst st) \<longrightarrow> prov_inv (fst (register_extractions es st)))"
  by (induction es arbitrary: st)
     (auto simp: register_extractions_def register_extraction_def prov.inv_ext [unfolded register_extraction_def])

lemma register_extractions_get:
  "distinct (map ext_id es) \<Longrightarrow> e \<in> set es \<Longrightarrow>
     dict_get (pl_extractions (fst (register_extractions es st))) (ext_id e) = Some e"
proof (induction es rule: rev_induct)
  case (snoc x es)
  then show ?case by (auto simp: register_extractions_def register_extraction_def image_iff)
qed simp

lemma ground_extraction_id [simp]: "ext_id (ground_extraction H cs e) = ext_id e"
  by (simp add: ground_extraction_def case_prod_beta)

lemma ground_extraction_grounded:
  assumes "\<not> ungrounded (ground_extraction H cs e)"
  shows "\<exists>a. \<exists>c \<in> set cs. anchors (ground_extraction H cs e) = [a] \<and> cites a c \<and>
    ext_chunk_id (ground_extraction H cs e) = chunk_id c"
proof -
  obtain m as where v: "verify H default_config (ext_value e) (source_span e) cs = (m, as)" by (metis prod.exhaust)
  have "m \<noteq> GM_BLOCK" using assms v by (auto simp: ground_extraction_def ungrounded_def)
  from verify_sound_gen [OF v this] v show ?thesis
    by (auto simp: ground_extraction_def cites_def)
qed

lemma inject_filename_facts:
  "c \<in> set (inject_filename path cs) \<Longrightarrow> \<exists>c' \<in> set cs. chunk_id c' = chunk_id c \<and> chunk_doc_id c' = chunk_doc_id c"
  by (auto simp: inject_filename_def Let_def split: if_splits)

section \<open>Decomposing a run\<close>

lemma run_cases:
  assumes "run H dp doc st = (Ok tr, st')" "dep_ingest dp (source_path doc) = Inr (chunks, d, pages)"
    "\<not> scan_blocked (dep_scan dp (join [CHR 0x0A] (map chunk_text chunks)))"
  obtains st1 ss where
    "register_chunks dp chunks (register_document d (fst st), fold upsert_page pages (upsert_document d (snd st))) = (None, st1)"
    "map stage_name ss = [''context_capture'', ''security_filter'', ''intent_gate'', ''router'']"
    "run_extraction H dp (source_path doc) chunks ss st1 = (tr, st')"
proof -
  obtain err st1 where r: "register_chunks dp chunks
      (register_document d (fst st), fold upsert_page pages (upsert_document d (snd st))) = (err, st1)"
    by (metis prod.exhaust)
  define txtall where "txtall = join [CHR 0x0A] (map chunk_text chunks)"
  define ss where "ss = [capture_stage dp (source_path doc) chunks d,
      security_stage dp txtall (dep_scan dp txtall), intent_stage dp chunks, router_stage dp]"
  have "err = None" using assms r by (auto simp: run_def Let_def split: option.splits)
  moreover have "map stage_name ss = [''context_capture'', ''security_filter'', ''intent_gate'', ''router'']"
    by (simp add: ss_def capture_stage_def security_stage_def intent_stage_def router_stage_def mk_stage_def)
  moreover have "run_extraction H dp (source_path doc) chunks ss st1 = (tr, st')"
    using assms r \<open>err = None\<close>
    by (cases "run_extraction H dp (source_path doc) chunks ss st1")
       (simp add: run_def Let_def ss_def txtall_def)
  ultimately show thesis using that r by metis
qed

lemma run_extraction_ok:
  assumes "dep_extract dp (snd (compression_stage dp chunks)) = Inr es0"
    "run_extraction H dp path chunks ss st = (tr, st')"
    "es = map (ground_extraction H (inject_filename path chunks)) es0"
  shows "st' = register_extractions es st \<and> halted tr = gr_halted (gate_phase dp (snd st') es) \<and>
    trace_extractions tr = gr_all (gate_phase dp (snd st') es) \<and>
    last (stages tr) = (if halted tr then review_stage (gate_phase dp (snd st') es) else suggest_stage dp (gate_phase dp (snd st') es))"
  using assms by (auto simp: run_extraction_def Let_def case_prod_beta split: if_splits)

lemma run_extraction_names:
  "map stage_name ss = ns \<Longrightarrow> run_extraction H dp path chunks ss st = (tr, st') \<Longrightarrow>
     map stage_name (stages tr) \<in>
       {ns @ [''context_compression'', ''extractor''],
        ns @ [''context_compression'', ''extractor'', ''quality_gate'', ''human_review''],
        ns @ [''context_compression'', ''extractor'', ''quality_gate'', ''suggest'']} \<and>
     (halted tr \<longleftrightarrow> stage_name (last (stages tr)) \<noteq> ''suggest'')"
  by (auto simp: run_extraction_def Let_def case_prod_beta compression_stage_def mk_stage_def quality_stage_def
      review_stage_def suggest_stage_def halted_trace_def split: sum.splits if_splits)

definition has_io :: "TraceStage \<Rightarrow> bool" where
  "has_io s \<longleftrightarrow> input_data s \<noteq> JNull \<and> output_data s \<noteq> JNull"

lemma has_io_stages [simp]:
  "has_io (mk_stage n (JObj i) (JObj o') t st)"
  "has_io (capture_stage dp p cs d)" "has_io (security_stage dp x r)" "has_io (intent_stage dp cs)" "has_io (router_stage dp)"
  "has_io (fst (compression_stage dp cs))" "has_io (quality_stage dp es g)" "has_io (review_stage g)" "has_io (suggest_stage dp g)"
  by (simp_all add: has_io_def mk_stage_def capture_stage_def security_stage_def intent_stage_def intent_json_def router_stage_def
      compression_stage_def case_prod_beta quality_stage_def review_stage_def suggest_stage_def split: option.split)

lemma stage_names [simp]:
  "stage_name (mk_stage n i o' t st) = n" "stage_name (capture_stage dp p cs d) = ''context_capture''"
  "stage_name (security_stage dp x r) = ''security_filter''"
  by (simp_all add: mk_stage_def capture_stage_def security_stage_def)

lemma trace_complete_iff: "trace_is_complete tr \<longleftrightarrow> stages tr \<noteq> [] \<and> list_all has_io (stages tr)"
  by (simp add: trace_is_complete_def has_io_def [abs_def])

lemma run_extraction_complete:
  "list_all has_io ss \<Longrightarrow> run_extraction H dp path chunks ss st = (tr, st') \<Longrightarrow> trace_is_complete tr"
  by (auto simp: trace_complete_iff run_extraction_def Let_def case_prod_beta halted_trace_def split: sum.splits if_splits)

section \<open>Properties\<close>

definition sample_deps :: "Extraction list \<Rightarrow> Deps" where
  "sample_deps es = \<lparr>dep_ingest = (\<lambda>_. Inr ([sample_chunk], sample_doc, [])),
     dep_scan = (\<lambda>_. \<lparr>scan_blocked = False, scan_reasons = []\<rparr>), dep_pack_name = ''InvoicePack'',
     dep_pack_fields = [''total''], dep_compress = (\<lambda>_. None), dep_extract = (\<lambda>_. Inr es),
     dep_check = (\<lambda>m. gate_check default_gate (search_similar_corrections m)),
     dep_elapsed = (\<lambda>_. 1), dep_fr = (\<lambda>_. ''0.0''), dep_list_repr = join '', ''\<rparr>"

definition zero_hash :: "bytes \<Rightarrow> bytes" where
  "zero_hash _ = replicate 32 0"

definition blank_ext :: Extraction where
  "blank_ext = sample_ext\<lparr>ext_value := '' '', source_span := []\<rparr>"

lemma sample_gate: "quality_gate (dep_check (sample_deps es) m)"
proof -
  have "positive_gate default_gate = default_gate" by (simp add: positive_gate_def default_gate_def)
  then show ?thesis
    using local_gate.quality_gate_axioms [of default_gate "search_similar_corrections m"] by (simp add: sample_deps_def)
qed

lemma sample_run_ok: "\<exists>tr pl' m'. run zero_hash (sample_deps es) sample_doc (empty_log, empty_memory) = (Ok tr, (pl', m'))"
  by (simp add: run_def sample_deps_def Let_def register_chunk_def upsert_chunk_def sample_chunk_def case_prod_beta)

lemma sample_not_halted:
  assumes "run zero_hash (sample_deps [sample_ext]) sample_doc (empty_log, empty_memory) = (Ok tr, (pl', m'))"
  shows "\<not> halted tr"
proof -
  let ?dp = "sample_deps [sample_ext]"
  have ing: "dep_ingest ?dp (source_path sample_doc) = Inr ([sample_chunk], sample_doc, [])"
    and sc: "\<not> scan_blocked (dep_scan ?dp (join [CHR 0x0A] (map chunk_text [sample_chunk])))"
    and ex: "dep_extract ?dp (snd (compression_stage ?dp [sample_chunk])) = Inr [sample_ext]"
    by (simp_all add: sample_deps_def)
  obtain st1 ss where reg: "register_chunks ?dp [sample_chunk]
        (register_document sample_doc empty_log, upsert_document sample_doc empty_memory) = (None, st1)"
    and r: "run_extraction zero_hash ?dp (source_path sample_doc) [sample_chunk] ss st1 = (tr, (pl', m'))"
    by (rule run_cases [OF assms ing sc]) auto
  have inj: "inject_filename (source_path sample_doc) [sample_chunk] = [sample_chunk\<lparr>source_type := ''invoice.pdf''\<rparr>]"
  proof -
    have "basename ''invoice.pdf'' = ''invoice.pdf''" by code_simp
    then show ?thesis by (simp add: inject_filename_def sample_doc_def)
  qed
  let ?x = "ground_extraction zero_hash (inject_filename (source_path sample_doc) [sample_chunk]) sample_ext"
  have "str_in (lower ''total DUE'') (lower ''Total due: 420 EUR'')" "strip ''total DUE'' \<noteq> []" by code_simp+
  then have "fst (verify zero_hash default_config (ext_value sample_ext) (source_span sample_ext)
      (inject_filename (source_path sample_doc) [sample_chunk])) = GM_EXACT"
    unfolding inj using exact_stage_complete [of "''total DUE''" "[sample_chunk\<lparr>source_type := ''invoice.pdf''\<rparr>]"]
    by (auto simp: verify_def Let_def ground_target_def sample_ext_def sample_chunk_def default_config_def stage_on_def split: option.splits)
  then have "ext_method ?x = GM_EXACT" "anchors ?x \<noteq> []"
    using kernel_grounding.block_iff [of zero_hash default_config "ext_value sample_ext" "source_span sample_ext"
        "inject_filename (source_path sample_doc) [sample_chunk]"]
    by (auto simp: ground_extraction_def case_prod_beta)
  moreover have "ext_chunk_id ?x = ''c1''"
    using ground_extraction_def [of zero_hash "inject_filename (source_path sample_doc) [sample_chunk]" sample_ext]
      kernel_grounding.anchors_cite [of _ zero_hash default_config "ext_value sample_ext" "source_span sample_ext"
        "inject_filename (source_path sample_doc) [sample_chunk]"]
    unfolding inj by (auto simp: case_prod_beta cites_def sample_chunk_def sample_ext_def)
  moreover have "strip ''c1'' \<noteq> []" by code_simp
  ultimately have g: "\<not> ungrounded ?x" by (simp add: ungrounded_def)
  have "m' = snd (register_extractions [?x] st1)" using run_extraction_ok [OF ex r refl] by (metis list.simps(8,9) snd_conv)
  then have "m_corrections m' = []"
    using reg by (auto simp: register_extractions_def record_extraction_def upsert_document_def empty_memory_def
        upsert_chunk_def register_chunk_def sample_chunk_def)
  then have "search_similar_corrections m' f v k = []" for f v k
    by (simp add: search_similar_corrections_def corrections_of_field_def newest_first_def)
  then have "penalty (search_similar_corrections m') ?x = 0" by (simp add: penalty_def contradicting_def)
  moreover have "confidence ?x = 9 / 10" by (simp add: ground_extraction_def case_prod_beta sample_ext_def)
  ultimately have "verdict (dep_check ?dp m' ?x) = GV_PASS"
    using g by (simp add: sample_deps_def gate_check_effective effective_def route_verdict_def default_gate_def)
  then show ?thesis using run_extraction_ok [OF ex r refl] by (simp add: gate_phase_halted)
qed

text \<open>The stages of every trace come in the documented order and the trace is marked halted
  exactly when it does not end in the suggestion stage: it stops after a failed ingestion, a
  blocking security scan or a failed extraction, goes to human review when the gate blocks, and
  otherwise ends in suggestions. Every stage has an input and an output.\<close>

theorem run_stage_order:
  assumes "run H dp doc st = (Ok tr, st')"
  shows "(let cap = [''context_capture'', ''security_filter''];
              ext = cap @ [''intent_gate'', ''router'', ''context_compression'', ''extractor'']
          in map stage_name (stages tr) \<in>
            {[''context_capture''], cap, ext, ext @ [''quality_gate'', ''human_review''], ext @ [''quality_gate'', ''suggest'']}) \<and>
    (halted tr \<longleftrightarrow> stage_name (last (stages tr)) \<noteq> ''suggest'') \<and> trace_is_complete tr"
proof (cases "dep_ingest dp (source_path doc)")
  case (Inl e)
  with assms show ?thesis
    by (auto simp: run_def halted_trace_def mk_stage_def trace_is_complete_def)
next
  case (Inr x)
  obtain chunks d pages where x: "x = (chunks, d, pages)" by (metis prod.exhaust)
  define txtall where "txtall = join [CHR 0x0A] (map chunk_text chunks)"
  define st0 where "st0 = (register_document d (fst st), fold upsert_page pages (upsert_document d (snd st)))"
  obtain err st1 where r: "register_chunks dp chunks st0 = (err, st1)" by (metis prod.exhaust)
  have err: "err = None" using assms Inr x r by (auto simp: run_def Let_def st0_def split: option.splits)
  let ?s2 = "[capture_stage dp (source_path doc) chunks d, security_stage dp txtall (dep_scan dp txtall)]"
  show ?thesis
  proof (cases "scan_blocked (dep_scan dp txtall)")
    case True
    then have "tr = halted_trace ?s2 (''Security filter blocked: '' @ dep_list_repr dp (scan_reasons (dep_scan dp txtall)))"
      using assms Inr x r err by (simp add: run_def Let_def st0_def txtall_def)
    then show ?thesis by (simp add: halted_trace_def trace_complete_iff Let_def)
  next
    case False
    let ?ss = "?s2 @ [intent_stage dp chunks, router_stage dp]"
    have e: "run_extraction H dp (source_path doc) chunks ?ss st1 = (tr, st')"
      using assms Inr x r err False
      by (cases "run_extraction H dp (source_path doc) chunks ?ss st1") (simp add: run_def Let_def st0_def txtall_def)
    have n: "map stage_name ?ss = [''context_capture'', ''security_filter'', ''intent_gate'', ''router'']"
      by (simp add: capture_stage_def security_stage_def intent_stage_def router_stage_def mk_stage_def)
    have "trace_is_complete tr" by (rule run_extraction_complete [OF _ e]) simp
    with run_extraction_names [OF n e] show ?thesis by (simp add: Let_def)
  qed
qed

theorem run_stage_order_witness:
  "\<exists>tr st'. run zero_hash (sample_deps [sample_ext]) sample_doc (empty_log, empty_memory) = (Ok tr, st') \<and>
     stage_name (last (stages tr)) = ''suggest'' \<and> trace_is_complete tr"
proof -
  obtain tr pl' m' where r: "run zero_hash (sample_deps [sample_ext]) sample_doc (empty_log, empty_memory) = (Ok tr, (pl', m'))"
    using sample_run_ok by blast
  from run_stage_order [OF r] sample_not_halted [OF r] r show ?thesis by blast
qed



text \<open>C2: only cited values are suggested. When a run on a well-formed log ends in suggestions and
  the collaborators keep their contracts (chunks belong to the ingested document, the pack gives
  distinct identifiers that no action uses, the gate blocks ungrounded extractions), then every
  suggestion is one of the trace's extractions, has exactly one anchor, which cites a chunk of the
  document, and its provenance chain in the resulting log is complete.\<close>

theorem run_suggests_only_cited:
  assumes "run H dp doc (pl, m) = (Ok tr, (pl', m'))" and "\<not> halted tr"
    and "dep_ingest dp (source_path doc) = Inr (chunks, d, pages)"
    and "\<not> scan_blocked (dep_scan dp (join [CHR 0x0A] (map chunk_text chunks)))"
    and "dep_extract dp (snd (compression_stage dp chunks)) = Inr es"
    and "prov_inv pl" and "\<And>c. c \<in> set chunks \<Longrightarrow> chunk_doc_id c = doc_id d"
    and "distinct (map ext_id es)" and "\<And>e. e \<in> set es \<Longrightarrow> dict_get (pl_actions pl) (ext_id e) = None"
    and "\<And>m. quality_gate (dep_check dp m)"
  shows "\<exists>passed. output_data (last (stages tr)) = JObj [(''suggestions'', JList (map (suggestion_json dp) passed))] \<and>
    set passed \<subseteq> set (trace_extractions tr) \<and>
    (\<forall>e \<in> set passed. (\<exists>a. \<exists>c \<in> set (inject_filename (source_path doc) chunks). anchors e = [a] \<and> cites a c) \<and>
       chain_is_complete (get_provenance pl' (ext_id e)))"
proof -
  define st0 where "st0 = (register_document d pl, fold upsert_page pages (upsert_document d m))"
  obtain st1 ss where reg: "register_chunks dp chunks st0 = (None, st1)"
    and r: "run_extraction H dp (source_path doc) chunks ss st1 = (tr, (pl', m'))"
    by (rule run_cases [OF assms(1,3,4)]) (auto simp: st0_def)
  obtain pl1 m1 where st1: "st1 = (pl1, m1)" by (metis prod.exhaust)
  let ?cs = "inject_filename (source_path doc) chunks"
  define gs where "gs = map (ground_extraction H ?cs) es"
  note ok = run_extraction_ok [OF assms(5) r gs_def]
  define g where "g = gate_phase dp m' gs"
  have inv1: "prov_inv pl1" and docs1: "dict_get (pl_documents pl1) (doc_id d) = Some d"
    and acts1: "pl_actions pl1 = pl_actions pl"
    using dict_get_registered [OF reg [unfolded st0_def st1], of "[]"] prov.inv_doc [OF assms(6), of d]
    by (auto simp: register_document_def)
  have chain: "chain_is_complete (get_provenance pl' (ext_id x))"
    if x: "x \<in> set gs" "\<not> ungrounded x" for x
  proof -
    obtain e where e: "e \<in> set es" "x = ground_extraction H ?cs e" using x(1) by (auto simp: gs_def)
    obtain c where c: "c \<in> set ?cs" "ext_chunk_id x = chunk_id c"
      using ground_extraction_grounded x(2) e(2) by blast
    then obtain c0 where c0: "c0 \<in> set chunks" "chunk_id c0 = chunk_id c" by (auto dest!: inject_filename_facts)
    from registered_chunk [OF reg [unfolded st0_def st1] c0(1)] obtain c' where
      c': "c' \<in> set chunks" "dict_get (pl_chunks pl1) (chunk_id c) = Some c'" using c0(2) by auto
    have pl': "pl' = fst (register_extractions gs (pl1, m1))" using ok st1 by (metis fst_conv)
    note st = register_extractions_state [of gs "(pl1, m1)", folded pl', simplified]
    have "distinct (map ext_id gs)" using assms(8) by (simp add: gs_def comp_def)
    then have "dict_get (pl_extractions pl') (ext_id x) = Some x"
      unfolding pl' using x(1) by (rule register_extractions_get)
    moreover have "dict_get (pl_actions pl') (ext_id x) = None" using st acts1 assms(9) [OF e(1)] e(2) by simp
    ultimately have "resolves_to pl' (ext_id x) = Some x" by (simp add: resolves_to_def)
    moreover have "dict_get (pl_documents pl') (chunk_doc_id c') = Some d"
      using st docs1 assms(7) [OF c'(1)] by simp
    ultimately show ?thesis using st inv1 c c'(2) by (subst complete_iff_resolves) auto
  qed
  have "output_data (last (stages tr)) = JObj [(''suggestions'', JList (map (suggestion_json dp) (gr_passed g)))]"
    using ok assms(2) by (simp add: g_def suggest_stage_def mk_stage_def)
  moreover have "set (gr_passed g) \<subseteq> set (trace_extractions tr)"
    using ok gate_phase_all [of dp m' gs] by (simp add: g_def)
  moreover have "(\<exists>a. \<exists>c \<in> set ?cs. anchors p = [a] \<and> cites a c) \<and> chain_is_complete (get_provenance pl' (ext_id p))"
    if p: "p \<in> set (gr_passed g)" for p
  proof -
    from p obtain x where x: "x \<in> set gs" "verdict (dep_check dp m' x) = GV_PASS"
      "p = x\<lparr>confidence := calibrated_confidence (dep_check dp m' x)\<rparr>"
      by (auto simp: g_def gate_phase_passed)
    have u: "\<not> ungrounded x" using quality_gate.passed_grounded [OF assms(10), of m' x] x(2) by simp
    then obtain a c where "c \<in> set ?cs" "anchors x = [a]" "cites a c"
      using ground_extraction_grounded x(1) unfolding gs_def by fastforce
    with chain [OF x(1) u] x(3) show ?thesis by auto
  qed
  ultimately show ?thesis by blast
qed

theorem run_suggests_only_cited_witness:
  "\<exists>tr pl' m' passed. run zero_hash (sample_deps [sample_ext]) sample_doc (empty_log, empty_memory) = (Ok tr, (pl', m')) \<and>
     output_data (last (stages tr)) = JObj [(''suggestions'', JList (map (suggestion_json (sample_deps [sample_ext])) passed))]"
proof -
  obtain tr pl' m' where r: "run zero_hash (sample_deps [sample_ext]) sample_doc (empty_log, empty_memory) = (Ok tr, (pl', m'))"
    using sample_run_ok by blast
  have "\<exists>passed. output_data (last (stages tr)) = JObj [(''suggestions'', JList (map (suggestion_json (sample_deps [sample_ext])) passed))] \<and>
      set passed \<subseteq> set (trace_extractions tr) \<and>
      (\<forall>e \<in> set passed. (\<exists>a. \<exists>c \<in> set (inject_filename (source_path sample_doc) [sample_chunk]). anchors e = [a] \<and> cites a c) \<and>
         chain_is_complete (get_provenance pl' (ext_id e)))"
  proof (rule run_suggests_only_cited [OF r sample_not_halted [OF r], where es = "[sample_ext]" and d = sample_doc and pages = "[]"])
    show "prov_inv empty_log" by (rule prov_inv_empty)
    show "quality_gate (dep_check (sample_deps [sample_ext]) m)" for m by (rule sample_gate)
  qed (simp_all add: sample_deps_def empty_log_def sample_chunk_def sample_doc_def)
  with r show ?thesis by blast
qed

end
