(* ===== verification/InferenceGateway.thy ===== *)
theory InferenceGateway
  imports DataModel
begin

text \<open>
  \<^verbatim>\<open>kernel/sidecar/inference_gateway.py\<close>: the tiered gateway. One call is a function of
  the gateway's settings, the environment (test mode, whether the log file can be written, the
  clock, the fresh identifier) and the HTTP backend \<open>post\<close>, which answers a request body with the
  body of the response or the text of a connection error. The result records the requests sent,
  so that ``no call leaves the machine'' is a statement about a list; the log is the list of lines
  of \<^verbatim>\<open>calls.jsonl\<close>. A response whose content is not a string is refused; the code
  would pass it on.
\<close>

record Gateway =
  gw_tier3_enabled :: bool
  gw_base_url :: str
  gw_tier1_model :: str
  gw_tier3_model :: str

record Env =
  env_test_mode :: str
  env_disk_ok :: bool
  env_now :: str
  env_uuid :: str

type_synonym request = "str \<times> bytes"
type_synonym backend = "str \<Rightarrow> bytes \<Rightarrow> str + bytes"

definition VALID_ROLES :: "str list" where
  "VALID_ROLES = [''router'', ''extractor'', ''reasoner'']"

fun InferenceTier_name :: "InferenceTier \<Rightarrow> str" where
  "InferenceTier_name TIER1_LOCAL = ''TIER1_LOCAL''"
| "InferenceTier_name TIER3_CLOUD = ''TIER3_CLOUD''"

definition mk_gateway :: "bool \<Rightarrow> str \<Rightarrow> str \<Rightarrow> str \<Rightarrow> Gateway" where
  "mk_gateway t3 url m1 m3 =
     \<lparr>gw_tier3_enabled = t3, gw_base_url = rev (dropWhile (\<lambda>c. c = CHR ''/'') (rev url)), gw_tier1_model = m1,
      gw_tier3_model = m3\<rparr>"

definition opt_str :: "str option \<Rightarrow> json" where
  "opt_str x = (case x of None \<Rightarrow> JNull | Some s \<Rightarrow> JStr s)"

definition call_entry :: "Env \<Rightarrow> str \<Rightarrow> str \<Rightarrow> InferenceTier \<Rightarrow> str \<Rightarrow> str option \<Rightarrow> str option \<Rightarrow> bool \<Rightarrow> json" where
  "call_entry env call_id role tier prompt response err test_mode =
     (let resp = (case response of None \<Rightarrow> [] | Some r \<Rightarrow> r) in
      JObj [(''call_id'', JStr call_id), (''timestamp'', JStr (env_now env)), (''role'', JStr role),
            (''tier'', JStr (InferenceTier_name tier)), (''prompt_length'', JInt (int (length prompt))),
            (''prompt_preview'', JStr (take 200 prompt)), (''response_length'', JInt (int (length resp))),
            (''response_preview'', if resp \<noteq> [] then JStr (take 200 resp) else JNull),
            (''error'', opt_str err), (''test_mode'', JBool test_mode)])"

definition log_call ::
  "Env \<Rightarrow> str \<Rightarrow> str \<Rightarrow> InferenceTier \<Rightarrow> str \<Rightarrow> str option \<Rightarrow> str option \<Rightarrow> bool \<Rightarrow> str list \<Rightarrow> str list" where
  "log_call env call_id role tier prompt response err test_mode lines =
     (if env_disk_ok env then lines @ [dumps plain (call_entry env call_id role tier prompt response err test_mode)] else lines)"

definition request_payload :: "str \<Rightarrow> str \<Rightarrow> str \<Rightarrow> json" where
  "request_payload model role prompt = JObj
     [(''model'', JStr model),
      (''messages'', JList
        [JObj [(''role'', JStr ''system''), (''content'', JStr (''You are a Kairo Phantom '' @ role @ ''.''))],
         JObj [(''role'', JStr ''user''), (''content'', JStr prompt)]]),
      (''temperature'', JFloat ''0.0'')]"

text \<open>\<^verbatim>\<open>data["choices"][0]["message"]["content"]\<close>.\<close>

definition response_content :: "json \<Rightarrow> str result" where
  "response_content data = (case data of
     JObj d \<Rightarrow>
       (case dict_get d ''choices'' of
          None \<Rightarrow> Raise (KeyError ''choices'')
        | Some (JList []) \<Rightarrow> Raise (IndexError ''list index out of range'')
        | Some (JList (JObj c # _)) \<Rightarrow>
            bind_ok (get_obj c ''message'') (\<lambda>msg. get_str msg ''content'')
        | Some _ \<Rightarrow> Raise (TypeError ''choices''))
   | _ \<Rightarrow> Raise (TypeError ''response''))"

definition litellm_complete ::
  "Gateway \<Rightarrow> Env \<Rightarrow> backend \<Rightarrow> str \<Rightarrow> str \<Rightarrow> str \<Rightarrow> InferenceTier \<Rightarrow> str list
     \<Rightarrow> InferenceResult result \<times> str list \<times> request list" where
  "litellm_complete gw env post call_id role prompt tier lines =
     (let model = (if tier = TIER1_LOCAL then gw_tier1_model gw else gw_tier3_model gw);
          url = gw_base_url gw @ ''/v1/chat/completions'';
          body = utf8 (dumps plain (request_payload model role prompt));
          reqs = [(url, body)]
      in case post url body of
           Inl exc \<Rightarrow>
             (Raise (InferenceGatewayError (''LiteLLM/Ollama unavailable at '' @ gw_base_url gw @ ''. call_id='' @ call_id)),
              log_call env call_id role tier prompt None (Some exc) False lines, reqs)
         | Inr resp \<Rightarrow>
             (case utf8_decode resp of
                None \<Rightarrow> (Raise (ValueError ''UnicodeDecodeError''), lines, reqs)
              | Some s \<Rightarrow>
                  (case loads s of
                     None \<Rightarrow> (Raise (ValueError ''JSONDecodeError''), lines, reqs)
                   | Some data \<Rightarrow>
                       (case response_content data of
                          Inl e \<Rightarrow> (Raise e, lines, reqs)
                        | Inr t \<Rightarrow>
                            (Ok \<lparr>result_text = t, result_call_id = call_id\<rparr>,
                             log_call env call_id role tier prompt (Some t) None False lines, reqs)))))"

definition test_mode_complete ::
  "Env \<Rightarrow> str \<Rightarrow> str \<Rightarrow> str \<Rightarrow> InferenceTier \<Rightarrow> str list \<Rightarrow> InferenceResult result \<times> str list \<times> request list" where
  "test_mode_complete env call_id role prompt tier lines =
     (let t = ''[TEST_MODE] role='' @ role @ '' tier='' @ InferenceTier_name tier @ '' prompt_len=''
               @ nat_str (length prompt) @ '' echo='' @ take 80 prompt
      in (Ok \<lparr>result_text = t, result_call_id = call_id\<rparr>,
          log_call env call_id role tier prompt (Some t) None True lines, []))"

definition complete ::
  "Gateway \<Rightarrow> Env \<Rightarrow> backend \<Rightarrow> str \<Rightarrow> str \<Rightarrow> InferenceTier \<Rightarrow> str list
     \<Rightarrow> InferenceResult result \<times> str list \<times> request list" where
  "complete gw env post role prompt tier lines =
     (if role \<notin> set VALID_ROLES then (Raise (ValueError (''Invalid role '' @ role)), lines, [])
      else if prompt = [] \<or> strip prompt = [] then (Raise (ValueError ''Prompt must be non-empty.''), lines, [])
      else let call_id = env_uuid env in
        if tier = TIER3_CLOUD \<and> \<not> gw_tier3_enabled gw then
          (Raise (AirGapViolationError (''Tier3 (cloud) is disabled. call_id='' @ call_id)),
           log_call env call_id role tier prompt None (Some ''AIR_GAP_BLOCKED'') False lines, [])
        else if lower (env_test_mode env) \<in> {''1'', ''true'', ''yes''} then
          test_mode_complete env call_id role prompt tier lines
        else litellm_complete gw env post call_id role prompt tier lines)"

section \<open>Properties\<close>

lemma call_entry_wf: "json_wf (call_entry env i r t p resp err b)"
  by (simp add: call_entry_def Let_def opt_str_def split: option.split)

lemma request_payload_wf: "json_wf (request_payload m r p)"
proof -
  have "json_wf (JFloat ''0.0'')" by code_simp
  then show ?thesis by (simp add: request_payload_def)
qed


definition sample_env :: Env where
  "sample_env = \<lparr>env_test_mode = [], env_disk_ok = True, env_now = ''t'', env_uuid = ''u1''\<rparr>"


text \<open>Every answer is on record: when a call returns a result and the log can be written, the
  log grows by exactly one line, and that line is JSON that reads back to the call's entry, with the
  identifier the result carries.\<close>

theorem completed_calls_logged:
  assumes "complete gw env post role prompt tier lines = (Ok r, lines', reqs)" and "env_disk_ok env"
  shows "\<exists>line t b. lines' = lines @ [line] \<and>
    loads line = Some (call_entry env (result_call_id r) role tier prompt (Some t) None b) \<and> result_text r = t"
  using assms loads_dumps [OF style_ok_styles(3) call_entry_wf]
  by (auto simp: complete_def Let_def test_mode_complete_def litellm_complete_def log_call_def
      split: if_splits sum.splits option.splits)

theorem completed_calls_logged_witness:
  "\<exists>line t b. fst (snd (complete (mk_gateway False [] ''m1'' ''m3'') (sample_env\<lparr>env_test_mode := ''yes''\<rparr>) (\<lambda>_ _. Inr []) ''router'' ''hi'' TIER1_LOCAL []))
     = [line] \<and> loads line = Some (call_entry (sample_env\<lparr>env_test_mode := ''yes''\<rparr>) ''u1'' ''router'' TIER1_LOCAL ''hi'' (Some t) None b)"
proof -
  have "strip ''hi'' \<noteq> []" "lower ''yes'' = ''yes''" by code_simp+
  then have "\<exists>r lines' reqs. complete (mk_gateway False [] ''m1'' ''m3'') (sample_env\<lparr>env_test_mode := ''yes''\<rparr>) (\<lambda>_ _. Inr []) ''router'' ''hi'' TIER1_LOCAL []
      = (Ok r, lines', reqs) \<and> result_call_id r = ''u1''"
    by (simp add: complete_def VALID_ROLES_def sample_env_def test_mode_complete_def Let_def)
  then obtain r lines' reqs where c: "complete (mk_gateway False [] ''m1'' ''m3'') (sample_env\<lparr>env_test_mode := ''yes''\<rparr>) (\<lambda>_ _. Inr []) ''router'' ''hi'' TIER1_LOCAL []
      = (Ok r, lines', reqs)" and u: "result_call_id r = ''u1''" by blast
  from completed_calls_logged [OF c] u c show ?thesis by (auto simp: sample_env_def)
qed

text \<open>A call whose response is malformed is not logged, although it reached the backend.\<close>

lemma malformed_response_unlogged:
  "complete (mk_gateway False [] ''m1'' ''m3'') sample_env (\<lambda>_ _. Inr (utf8 ''{}'')) ''router'' ''hi'' TIER1_LOCAL []
     = (Raise (KeyError ''choices''), [], [(''/v1/chat/completions'', utf8 (dumps plain (request_payload ''m1'' ''router'' ''hi'')))])"
proof -
  have "strip ''hi'' \<noteq> []" "loads ''{}'' = Some (JObj [])" by code_simp+
  moreover have "lower [] \<notin> {''1'', ''true'', ''yes''}" by code_simp
  ultimately show ?thesis
    by (simp add: complete_def VALID_ROLES_def sample_env_def litellm_complete_def Let_def mk_gateway_def response_content_def)
qed

end
