(* ===== verification/Merkle.thy ===== *)
theory Merkle
  imports Json
begin

text \<open>
  The Merkle tree of \<^verbatim>\<open>kairo/trust/merkle.py\<close> (RFC 6962): tree hash, inclusion proofs
  and their verification. SHA-256 is the parameter \<open>H\<close>; where the argument needs the digest length
  it is the hypothesis \<open>digest32 H\<close>. The security statements do not assume that \<open>H\<close> has no
  collisions: they say that a wrong proof or a second preimage exhibits two different byte strings,
  both hashed in the computations at hand, with the same digest.
\<close>

section \<open>The tree\<close>

function pow2_loop :: "nat \<Rightarrow> nat \<Rightarrow> nat" where
  "pow2_loop n k = (if 0 < k \<and> k * 2 < n then pow2_loop n (k * 2) else k)"
  by pat_completeness auto
termination
  by (relation "measure (\<lambda>(n, k). n - k)") auto

declare pow2_loop.simps [simp del]

definition largest_power_of_two_lt :: "nat \<Rightarrow> nat" where
  "largest_power_of_two_lt n = pow2_loop n 1"

lemma pow2_loop_spec:
  "0 < k \<Longrightarrow> k < n \<Longrightarrow> k \<le> pow2_loop n k \<and> pow2_loop n k < n \<and> n \<le> 2 * pow2_loop n k"
proof (induction n k rule: pow2_loop.induct)
  case (1 n k)
  show ?case
  proof (cases "k * 2 < n")
    case True
    with "1.IH" "1.prems" have "k * 2 \<le> pow2_loop n (k * 2) \<and> pow2_loop n (k * 2) < n \<and> n \<le> 2 * pow2_loop n (k * 2)" by simp
    then show ?thesis using True "1.prems" by (simp add: pow2_loop.simps [of n k])
  next
    case False
    then show ?thesis using "1.prems" by (simp add: pow2_loop.simps [of n k])
  qed
qed

lemma largest_power_bounds:
  "2 \<le> n \<Longrightarrow> 0 < largest_power_of_two_lt n \<and> largest_power_of_two_lt n < n"
  using pow2_loop_spec [of 1 n] by (auto simp: largest_power_of_two_lt_def)

function mth :: "(bytes \<Rightarrow> bytes) \<Rightarrow> bytes list \<Rightarrow> bytes" where
  "mth H leaves =
     (let n = length leaves in
      if n = 0 then H []
      else if n = 1 then H (0 # leaves ! 0)
      else let k = largest_power_of_two_lt n in
        H (1 # mth H (take k leaves) @ mth H (drop k leaves)))"
  by pat_completeness auto
termination
proof (relation "measure (\<lambda>(H, leaves). length leaves)")
  fix H :: "bytes \<Rightarrow> bytes" and leaves :: "bytes list" and n k
  assume a: "n = length leaves" "n \<noteq> 0" "n \<noteq> 1" "k = largest_power_of_two_lt n"
  then have "2 \<le> n" by linarith
  with a show "((H, take k leaves), H, leaves) \<in> measure (\<lambda>(H, leaves). length leaves)"
    "((H, drop k leaves), H, leaves) \<in> measure (\<lambda>(H, leaves). length leaves)"
    using largest_power_bounds [of n] by auto
qed simp

declare mth.simps [simp del]

definition merkle_leaf_hash :: "(bytes \<Rightarrow> bytes) \<Rightarrow> bytes \<Rightarrow> str" where
  "merkle_leaf_hash H leaf = hex (H (0 # leaf))"

definition merkle_root :: "(bytes \<Rightarrow> bytes) \<Rightarrow> bytes list \<Rightarrow> str" where
  "merkle_root H leaves = hex (mth H leaves)"

text \<open>The side of a sibling is the text L or R; any other text ends the check.\<close>

datatype side = SideL | SideR | SideOther str

function merkle_path :: "(bytes \<Rightarrow> bytes) \<Rightarrow> bytes list \<Rightarrow> nat \<Rightarrow> (side \<times> str) list" where
  "merkle_path H lvs idx =
     (let n = length lvs in
      if n \<le> 1 then []
      else let k = largest_power_of_two_lt n in
        if idx < k then merkle_path H (take k lvs) idx @ [(SideR, hex (mth H (drop k lvs)))]
        else merkle_path H (drop k lvs) (idx - k) @ [(SideL, hex (mth H (take k lvs)))])"
  by pat_completeness auto
termination
proof (relation "measure (\<lambda>(H, lvs, idx). length lvs)")
  fix H :: "bytes \<Rightarrow> bytes" and lvs :: "bytes list" and idx n k :: nat
  assume a: "n = length lvs" "\<not> n \<le> 1" "k = largest_power_of_two_lt n"
  then have "2 \<le> n" by linarith
  with a show "((H, take k lvs, idx), H, lvs, idx) \<in> measure (\<lambda>(H, lvs, idx). length lvs)"
    "((H, drop k lvs, idx - k), H, lvs, idx) \<in> measure (\<lambda>(H, lvs, idx). length lvs)"
    using largest_power_bounds [of n] by auto
qed simp

declare merkle_path.simps [simp del]

definition merkle_proof :: "(bytes \<Rightarrow> bytes) \<Rightarrow> bytes list \<Rightarrow> int \<Rightarrow> (side \<times> str) list result" where
  "merkle_proof H leaves index =
     (if \<not> (0 \<le> index \<and> index < int (length leaves)) then Raise (IndexError ''index out of range'')
      else Ok (merkle_path H leaves (nat index)))"

fun run_proof :: "(bytes \<Rightarrow> bytes) \<Rightarrow> bytes \<Rightarrow> (side \<times> str) list \<Rightarrow> bytes option result" where
  "run_proof H running [] = Ok (Some running)"
| "run_proof H running ((sd, sibling_hex) # ps) =
     (case fromhex sibling_hex of
        None \<Rightarrow> Raise (ValueError ''non-hexadecimal number found in fromhex() arg'')
      | Some sibling \<Rightarrow>
          (case sd of
             SideL \<Rightarrow> run_proof H (H (1 # sibling @ running)) ps
           | SideR \<Rightarrow> run_proof H (H (1 # running @ sibling)) ps
           | SideOther _ \<Rightarrow> Ok None))"

definition verify_merkle_proof :: "(bytes \<Rightarrow> bytes) \<Rightarrow> bytes \<Rightarrow> int \<Rightarrow> int \<Rightarrow> (side \<times> str) list \<Rightarrow> str \<Rightarrow> bool result" where
  "verify_merkle_proof H leaf index tree_size proof root_hex =
     (if \<not> (0 \<le> index \<and> index < tree_size) then Ok False
      else bind_ok (run_proof H (H (0 # leaf)) proof) (\<lambda>running.
        Ok (case running of None \<Rightarrow> False | Some r \<Rightarrow> hex r = root_hex)))"

section \<open>Unfolding\<close>

lemma mth_empty [simp]: "mth H [] = H []"
  by (simp add: mth.simps)

lemma mth_single [simp]: "mth H [x] = H (0 # x)"
  by (simp add: mth.simps)

lemma mth_split:
  "2 \<le> length lvs \<Longrightarrow> k = largest_power_of_two_lt (length lvs) \<Longrightarrow>
     mth H lvs = H (1 # mth H (take k lvs) @ mth H (drop k lvs))"
  by (subst mth.simps) (auto simp: Let_def)

lemma merkle_path_short: "length lvs \<le> 1 \<Longrightarrow> merkle_path H lvs i = []"
  by (subst merkle_path.simps) (simp add: Let_def)

lemma merkle_path_split:
  "2 \<le> length lvs \<Longrightarrow> k = largest_power_of_two_lt (length lvs) \<Longrightarrow>
     merkle_path H lvs i =
       (if i < k then merkle_path H (take k lvs) i @ [(SideR, hex (mth H (drop k lvs)))]
        else merkle_path H (drop k lvs) (i - k) @ [(SideL, hex (mth H (take k lvs)))])"
  by (subst merkle_path.simps) (simp add: Let_def)

lemma run_proof_append:
  "run_proof H r (ps @ qs) = bind_ok (run_proof H r ps) (\<lambda>r'. case r' of None \<Rightarrow> Ok None | Some r' \<Rightarrow> run_proof H r' qs)"
  by (induction H r ps rule: run_proof.induct) (auto split: option.splits side.splits)

text \<open>Induction over the shape of the tree.\<close>

lemma tree_cases:
  obtains "lvs = []" | x where "lvs = [x]" | "2 \<le> length lvs"
  by (cases lvs; cases "tl lvs") auto

lemma tree_induct [case_names empty single split]:
  assumes "P []" and "\<And>x. P [x]"
    and "\<And>lvs k. 2 \<le> length lvs \<Longrightarrow> k = largest_power_of_two_lt (length lvs) \<Longrightarrow> 0 < k \<Longrightarrow> k < length lvs \<Longrightarrow>
      P (take k lvs) \<Longrightarrow> P (drop k lvs) \<Longrightarrow> P lvs"
  shows "P lvs"
proof (induction "length lvs" arbitrary: lvs rule: less_induct)
  case less
  show ?case
  proof (cases rule: tree_cases [of lvs])
    case 3
    note b = largest_power_bounds [OF 3]
    then show ?thesis by (intro assms(3) [OF 3 refl]) (auto intro!: less)
  qed (use assms in auto)
qed

lemma merkle_path_runs:
  "i < length lvs \<Longrightarrow> run_proof H (H (0 # lvs ! i)) (merkle_path H lvs i) = Ok (Some (mth H lvs))"
proof (induction lvs arbitrary: i rule: tree_induct)
  case (split lvs k)
  show ?case
  proof (cases "i < k")
    case True
    then show ?thesis using split
      by (simp add: merkle_path_split mth_split run_proof_append)
  next
    case False
    have "run_proof H (H (0 # lvs ! i)) (merkle_path H (drop k lvs) (i - k)) = Ok (Some (mth H (drop k lvs)))"
      using split.IH(2) [of "i - k"] split.prems split.hyps(4) False by simp
    then show ?thesis using False
      by (simp add: merkle_path_split [OF split.hyps(1,2)] mth_split [OF split.hyps(1,2)] run_proof_append)
  qed
qed (simp_all add: merkle_path_short)

section \<open>The byte strings hashed\<close>

function mth_inputs :: "(bytes \<Rightarrow> bytes) \<Rightarrow> bytes list \<Rightarrow> bytes list" where
  "mth_inputs H leaves =
     (let n = length leaves in
      if n = 0 then [[]]
      else if n = 1 then [0 # leaves ! 0]
      else let k = largest_power_of_two_lt n in
        (1 # mth H (take k leaves) @ mth H (drop k leaves)) # mth_inputs H (take k leaves) @ mth_inputs H (drop k leaves))"
  by pat_completeness auto
termination
proof (relation "measure (\<lambda>(H, leaves). length leaves)")
  fix H :: "bytes \<Rightarrow> bytes" and leaves :: "bytes list" and n k
  assume a: "n = length leaves" "n \<noteq> 0" "n \<noteq> 1" "k = largest_power_of_two_lt n"
  then have "2 \<le> n" by linarith
  with a show "((H, take k leaves), H, leaves) \<in> measure (\<lambda>(H, leaves). length leaves)"
    "((H, drop k leaves), H, leaves) \<in> measure (\<lambda>(H, leaves). length leaves)"
    using largest_power_bounds [of n] by auto
qed simp

declare mth_inputs.simps [simp del]

lemma mth_inputs_simps:
  "mth_inputs H [] = [[]]" "mth_inputs H [x] = [0 # x]"
  "2 \<le> length lvs \<Longrightarrow> k = largest_power_of_two_lt (length lvs) \<Longrightarrow>
     mth_inputs H lvs = (1 # mth H (take k lvs) @ mth H (drop k lvs)) # mth_inputs H (take k lvs) @ mth_inputs H (drop k lvs)"
  by (subst mth_inputs.simps, force simp: Let_def)+

definition node_input :: "side \<Rightarrow> bytes \<Rightarrow> bytes \<Rightarrow> bytes" where
  "node_input sd sib r = (if sd = SideL then 1 # sib @ r else 1 # r @ sib)"

fun proof_inputs :: "(bytes \<Rightarrow> bytes) \<Rightarrow> bytes \<Rightarrow> (side \<times> str) list \<Rightarrow> bytes list" where
  "proof_inputs H input [] = [input]"
| "proof_inputs H input ((sd, sh) # ps) = input #
     (case fromhex sh of
        None \<Rightarrow> []
      | Some sib \<Rightarrow> proof_inputs H (node_input sd sib (H input)) ps)"

definition collide :: "(bytes \<Rightarrow> bytes) \<Rightarrow> bytes list \<Rightarrow> bytes list \<Rightarrow> bool" where
  "collide H xs ys \<longleftrightarrow> (\<exists>x \<in> set xs. \<exists>y \<in> set ys. x \<noteq> y \<and> H x = H y)"

definition digest32 :: "(bytes \<Rightarrow> bytes) \<Rightarrow> bool" where
  "digest32 H \<longleftrightarrow> (\<forall>x. length (H x) = 32)"

lemma length_mth: "digest32 H \<Longrightarrow> length (mth H lvs) = 32"
  by (subst mth.simps) (simp add: digest32_def Let_def)

lemma collideI: "x \<in> set xs \<Longrightarrow> y \<in> set ys \<Longrightarrow> x \<noteq> y \<Longrightarrow> H x = H y \<Longrightarrow> collide H xs ys"
  by (auto simp: collide_def)

lemma collide_mono: "collide H xs ys \<Longrightarrow> set xs \<subseteq> set xs' \<Longrightarrow> set ys \<subseteq> set ys' \<Longrightarrow> collide H xs' ys'"
  by (auto simp: collide_def)

lemma no_collide_sub: "\<not> collide H xs' ys' \<Longrightarrow> set xs \<subseteq> set xs' \<Longrightarrow> set ys \<subseteq> set ys' \<Longrightarrow> \<not> collide H xs ys"
  using collide_mono by blast

text \<open>The top input of a tree: its root is the hash of it, and its first byte tells its shape.\<close>

lemma mth_top: "mth H lvs = H (hd (mth_inputs H lvs)) \<and> hd (mth_inputs H lvs) \<in> set (mth_inputs H lvs)"
proof (cases rule: tree_cases [of lvs])
  case 3
  then show ?thesis by (simp add: mth_inputs_simps mth_split)
qed (simp_all add: mth_inputs_simps)

lemma mth_binding_top:
  assumes "mth H xs = mth H ys" "\<not> collide H (mth_inputs H xs) (mth_inputs H ys)"
  shows "hd (mth_inputs H xs) = hd (mth_inputs H ys)"
  using assms mth_top [of H xs] mth_top [of H ys] by (metis collideI)

lemma node_input_split:
  fixes a b a' b' :: bytes
  shows "(1::byte) # a @ b = 1 # a' @ b' \<Longrightarrow> length b = length b' \<Longrightarrow> a = a' \<and> b = b'"
  by simp

lemma mth_inputs_shape:
  "hd (mth_inputs H lvs) = [] \<longleftrightarrow> lvs = []"
  "hd (mth_inputs H lvs) = 0 # x \<longleftrightarrow> lvs = [x]"
  by (cases rule: tree_cases [of lvs]; auto simp: mth_inputs_simps)+

lemma mth_binding:
  assumes d: "digest32 H"
  shows "mth H xs = mth H ys \<Longrightarrow> xs = ys \<or> collide H (mth_inputs H xs) (mth_inputs H ys)"
proof (induction xs arbitrary: ys rule: tree_induct)
  case empty
  then show ?case using mth_binding_top [OF empty] mth_inputs_shape(1) [of H ys]
    by (auto simp: mth_inputs_simps)
next
  case (single x)
  then show ?case using mth_binding_top [OF single] mth_inputs_shape(2) [of H ys x]
    by (auto simp: mth_inputs_simps)
next
  case (split xs k)
  show ?case
  proof (rule disjCI)
    assume nc: "\<not> collide H (mth_inputs H xs) (mth_inputs H ys)"
    note top = mth_binding_top [OF split.prems nc]
    note ix = mth_inputs_simps(3) [OF split.hyps(1,2), of H]
    have two: "2 \<le> length ys"
      using top split.hyps(1) by (cases rule: tree_cases [of ys]) (auto simp: ix mth_inputs_simps)
    define j where "j = largest_power_of_two_lt (length ys)"
    note iy = mth_inputs_simps(3) [OF two j_def, of H]
    from top have "1 # mth H (take k xs) @ mth H (drop k xs) = 1 # mth H (take j ys) @ mth H (drop j ys)"
      by (simp only: ix iy list.sel)
    from node_input_split [OF this] have "mth H (take k xs) = mth H (take j ys)" "mth H (drop k xs) = mth H (drop j ys)"
      by (simp_all add: length_mth [OF d])
    moreover have "\<not> collide H (mth_inputs H (take k xs)) (mth_inputs H (take j ys))"
      "\<not> collide H (mth_inputs H (drop k xs)) (mth_inputs H (drop j ys))"
      by (rule no_collide_sub [OF nc]; simp add: ix iy subset_insertI2)+
    ultimately have "take k xs = take j ys" "drop k xs = drop j ys" using split.IH by blast+
    then show "xs = ys" by (metis append_take_drop_id)
  qed
qed

section \<open>Soundness of inclusion proofs\<close>

text \<open>Proofs are read from the root down: the last pair names the two children of the root.\<close>

lemma run_proof_last:
  assumes "run_proof H (H input) (ps @ [(sd, sh)]) = Ok (Some rt)"
  obtains r sib where "run_proof H (H input) ps = Ok (Some r)" "fromhex sh = Some sib"
    "rt = H (node_input sd sib r)"
    "(node_input sd sib r) \<in> set (proof_inputs H input (ps @ [(sd, sh)]))"
proof -
  obtain r where r: "run_proof H (H input) ps = Ok (Some r)"
    using assms by (auto simp: run_proof_append bind_ok_def split: sum.splits option.splits)
  obtain sib where s: "fromhex sh = Some sib"
    using assms r by (auto simp: run_proof_append split: option.splits)
  have "(node_input sd sib r) \<in> set (proof_inputs H input (ps @ [(sd, sh)]))"
    using r
  proof (induction ps arbitrary: input)
    case (Cons p ps)
    obtain sd' sh' where p: "p = (sd', sh')" by (metis prod.exhaust)
    from Cons.prems p obtain sib' where s': "fromhex sh' = Some sib'"
      and r': "run_proof H (H (node_input sd' sib' (H input))) ps = Ok (Some r)"
      by (cases "fromhex sh'") (auto simp: node_input_def split: side.splits)
    from Cons.IH [OF r'] show ?case by (simp add: p s')
  qed (auto simp: s)
  with r s assms that show thesis by (auto simp: run_proof_append node_input_def split: side.splits)
qed

lemma proof_inputs_prefix: "set (proof_inputs H input ps) \<subseteq> set (proof_inputs H input (ps @ qs))"
proof (induction H input ps rule: proof_inputs.induct)
  case (1 H input)
  then show ?case by (cases qs) auto
next
  case (2 H input sd sh ps)
  then show ?case by (cases "fromhex sh") auto
qed

lemma proof_inputs_hd: "input \<in> set (proof_inputs H input ps)"
  by (cases ps) auto

lemma run_proof_length: "digest32 H \<Longrightarrow> run_proof H (H i) ps = Ok (Some r) \<Longrightarrow> length r = 32"
  by (induction ps arbitrary: i)
     (auto simp: digest32_def split: option.splits side.splits)

lemma inclusion_sound:
  assumes d: "digest32 H"
  shows "run_proof H (H (0 # leaf)) ps = Ok (Some (mth H lvs)) \<Longrightarrow>
    leaf \<in> set lvs \<or> collide H (mth_inputs H lvs) (proof_inputs H (0 # leaf) ps)"
proof (induction lvs arbitrary: ps rule: tree_induct)
  case empty
  show ?case
  proof (cases ps rule: rev_cases)
    case Nil
    then show ?thesis using empty by (intro disjI2 collideI [of "[]" _ "0 # leaf"]) (auto simp: mth_inputs_simps)
  next
    case (snoc qs q)
    obtain sd sh where q: "q = (sd, sh)" by (metis prod.exhaust)
    show ?thesis
    proof (rule run_proof_last [OF empty [unfolded snoc q]])
      fix r sib :: bytes
      let ?i = "node_input sd sib r"
      assume "mth H [] = H ?i" "?i \<in> set (proof_inputs H (0 # leaf) (qs @ [(sd, sh)]))"
      moreover have "[] \<noteq> ?i" by (simp add: node_input_def)
      ultimately show ?thesis
        by (intro disjI2 collideI [of "[]" _ ?i]) (simp_all add: mth_inputs_simps snoc q)
    qed
  qed
next
  case (single x)
  show ?case
  proof (cases ps rule: rev_cases)
    case Nil
    then show ?thesis using single
      by (cases "leaf = x") (auto intro!: collideI [of "0 # x" _ "0 # leaf"] simp: mth_inputs_simps)
  next
    case (snoc qs q)
    obtain sd sh where q: "q = (sd, sh)" by (metis prod.exhaust)
    show ?thesis
    proof (rule run_proof_last [OF single [unfolded snoc q]])
      fix r sib :: bytes
      let ?i = "node_input sd sib r"
      assume "mth H [x] = H ?i" "?i \<in> set (proof_inputs H (0 # leaf) (qs @ [(sd, sh)]))"
      moreover have "0 # x \<noteq> ?i" by (simp add: node_input_def)
      ultimately show ?thesis
        by (intro disjI2 collideI [of "0 # x" _ ?i]) (simp_all add: mth_inputs_simps snoc q)
    qed
  qed
next
  case (split lvs k)
  note il = mth_inputs_simps(3) [OF split.hyps(1,2), of H] and rt = mth_split [OF split.hyps(1,2), of H]
  show ?case
  proof (cases ps rule: rev_cases)
    case Nil
    then show ?thesis using split.prems
      by (intro disjI2 collideI [of "1 # mth H (take k lvs) @ mth H (drop k lvs)" _ "0 # leaf"]) (auto simp: il rt)
  next
    case (snoc qs q)
    obtain sd sh where q: "q = (sd, sh)" by (metis prod.exhaust)
    obtain r sib where r: "run_proof H (H (0 # leaf)) qs = Ok (Some r)" and
      e: "mth H lvs = H (node_input sd sib r)" and
      m: "(node_input sd sib r) \<in> set (proof_inputs H (0 # leaf) ps)"
      by (rule run_proof_last [OF split.prems [unfolded snoc q]]) (simp add: snoc q)
    show ?thesis
    proof (rule disjCI)
      assume nc: "\<not> collide H (mth_inputs H lvs) (proof_inputs H (0 # leaf) ps)"
      then have "1 # mth H (take k lvs) @ mth H (drop k lvs) = (node_input sd sib r)"
        using m e by (auto simp: il rt collide_def)
      then have r': "r = mth H (take k lvs) \<or> r = mth H (drop k lvs)"
        using run_proof_length [OF d r] length_mth [OF d]
        by (cases "sd = SideL") (auto simp: node_input_def append_eq_append_conv)
      have sub: "set (proof_inputs H (0 # leaf) qs) \<subseteq> set (proof_inputs H (0 # leaf) ps)"
        unfolding snoc by (rule proof_inputs_prefix)
      have "\<not> collide H (mth_inputs H (take k lvs)) (proof_inputs H (0 # leaf) qs)"
        "\<not> collide H (mth_inputs H (drop k lvs)) (proof_inputs H (0 # leaf) qs)"
        by (rule no_collide_sub [OF nc _ sub]; simp add: il subset_insertI2)+
      then have "leaf \<in> set (take k lvs) \<or> leaf \<in> set (drop k lvs)"
        using r r' split.IH by metis
      then show "leaf \<in> set lvs" by (auto dest: in_set_takeD in_set_dropD)
    qed
  qed
qed

section \<open>Properties\<close>

definition pad_hash :: "bytes \<Rightarrow> bytes" where
  "pad_hash x = take 32 (x @ replicate 32 0)"

lemma pad_hash_32: "digest32 pad_hash"
  unfolding digest32_def pad_hash_def by (auto simp: min_def)

text \<open>C25: inclusion proofs are complete: for every leaf of every tree, whatever the hash, the proof
  the code builds exists and verifies against the tree's root.\<close>

theorem inclusion_proof_complete:
  assumes "0 \<le> i" and "i < int (length leaves)"
  shows "\<exists>p. merkle_proof H leaves i = Ok p \<and>
    verify_merkle_proof H (leaves ! nat i) i (int (length leaves)) p (merkle_root H leaves) = Ok True"
  using assms merkle_path_runs [of "nat i" leaves H]
  by (simp add: merkle_proof_def verify_merkle_proof_def merkle_root_def)

theorem inclusion_proof_complete_witness:
  "\<exists>p. merkle_proof pad_hash [[1], [2], [3]] 2 = Ok p \<and>
     verify_merkle_proof pad_hash [3] 2 3 p (merkle_root pad_hash [[1], [2], [3]]) = Ok True"
  using inclusion_proof_complete [of 2 "[[1], [2], [3]]" pad_hash] by simp

text \<open>C26: inclusion proofs are sound: a proof that verifies against the root of a tree is for a leaf
  of that tree, or two different byte strings, one hashed in building the tree and one in checking
  the proof, have the same digest. The index and the size given to the verifier play no part: they
  are range-checked and not compared with the path.\<close>

theorem inclusion_proof_sound:
  assumes "digest32 H" and "verify_merkle_proof H leaf i n p (merkle_root H leaves) = Ok True"
  shows "leaf \<in> set leaves \<or>
    (\<exists>x \<in> set (mth_inputs H leaves). \<exists>y \<in> set (proof_inputs H (0 # leaf) p). x \<noteq> y \<and> H x = H y)"
proof -
  have "run_proof H (H (0 # leaf)) p = Ok (Some (mth H leaves))"
    using assms(2) by (auto simp: verify_merkle_proof_def merkle_root_def bind_ok_def split: if_splits sum.splits option.splits)
  from inclusion_sound [OF assms(1) this] show ?thesis by (simp add: collide_def)
qed

theorem inclusion_proof_sound_witness:
  "\<exists>x \<in> set (mth_inputs pad_hash [replicate 40 1]). \<exists>y \<in> set (proof_inputs pad_hash (0 # replicate 41 1) []).
     x \<noteq> y \<and> pad_hash x = pad_hash y"
proof -
  have "verify_merkle_proof pad_hash (replicate 41 1) 0 1 [] (merkle_root pad_hash [replicate 40 1]) = Ok True"
    by (simp add: verify_merkle_proof_def merkle_root_def pad_hash_def numeral_eq_Suc)
  from inclusion_proof_sound [OF pad_hash_32 this] show ?thesis by (simp add: numeral_eq_Suc)
qed

text \<open>The root binds the leaves: two lists of leaves with the same root, of whatever lengths,
  are equal, or two different byte strings hashed in building the two trees have the same digest.\<close>

theorem merkle_root_binding:
  assumes "digest32 H" and "merkle_root H xs = merkle_root H ys"
  shows "xs = ys \<or> (\<exists>x \<in> set (mth_inputs H xs). \<exists>y \<in> set (mth_inputs H ys). x \<noteq> y \<and> H x = H y)"
  using mth_binding [OF assms(1), of xs ys] assms(2) by (auto simp: merkle_root_def collide_def)

theorem merkle_root_binding_witness:
  "\<exists>x \<in> set (mth_inputs pad_hash [replicate 40 1]). \<exists>y \<in> set (mth_inputs pad_hash [replicate 41 1]).
     x \<noteq> y \<and> pad_hash x = pad_hash y"
proof -
  have "merkle_root pad_hash [replicate 40 1] = merkle_root pad_hash [replicate 41 1]"
    by (simp add: merkle_root_def pad_hash_def numeral_eq_Suc)
  from merkle_root_binding [OF pad_hash_32 this] show ?thesis by (simp add: numeral_eq_Suc)
qed

end
