(* ===== verification/Receipts.thy ===== *)
theory Receipts
  imports Merkle Grounding
begin

text \<open>
  The signed checkpoints of \<^verbatim>\<open>kairo/trust/merkle.py\<close> and the standalone verifier
  \<^verbatim>\<open>tools/verify_receipts_external.py\<close>. A receipt or checkpoint is a JSON object, a
  JSON-lines file the list of its lines. Ed25519 comes from a third-party package and is a
  parameter: \<open>pub\<close> gives the public key of a seed, \<open>sgn\<close> signs, \<open>vfy\<close> verifies (and is false for a
  key of the wrong size). Violations are constructors in place of the code's messages.
\<close>

type_synonym jobj = "(str, json) dict"

section \<open>Canonical form\<close>

definition RECEIPT_FIELD_ORDER :: "str list" where
  "RECEIPT_FIELD_ORDER = [''seq'', ''timestamp'', ''agent_id'', ''action'', ''context'', ''outcome'',
     ''prev_hash'', ''self_hash'', ''signature'', ''opik_trace_id'', ''opik_trace_url'', ''domain'']"

definition CHECKPOINT_FIELD_ORDER :: "str list" where
  "CHECKPOINT_FIELD_ORDER = [''checkpoint_seq'', ''timestamp'', ''agent_id'', ''tree_size'', ''merkle_root'',
     ''prev_checkpoint_hash'', ''self_hash'', ''signature'']"

definition emptied :: "jobj \<Rightarrow> jobj" where
  "emptied r = dict_set ''signature'' (JStr []) (dict_set ''self_hash'' (JStr []) r)"

definition in_order :: "str list \<Rightarrow> jobj \<Rightarrow> jobj" where
  "in_order fo t = List.map_filter (\<lambda>k. map_option (Pair k) (dict_get t k)) fo"

definition canonical_checkpoint :: "jobj \<Rightarrow> str" where
  "canonical_checkpoint c = dumps compact_unicode (JObj (in_order CHECKPOINT_FIELD_ORDER (emptied c)))"

definition receipt_canonical :: "jobj \<Rightarrow> str" where
  "receipt_canonical r = dumps compact_unicode (JObj (in_order RECEIPT_FIELD_ORDER (emptied r)))"

definition ext_canonical :: "jobj \<Rightarrow> str list \<Rightarrow> str" where
  "ext_canonical r fo = dumps compact_unicode (JObj (in_order fo (emptied r)))"

definition sha256_hex :: "(bytes \<Rightarrow> bytes) \<Rightarrow> bytes \<Rightarrow> str" where
  "sha256_hex H data = hex (H data)"

definition receipt_leaves :: "(bytes \<Rightarrow> bytes) \<Rightarrow> jobj list \<Rightarrow> bytes list" where
  "receipt_leaves H rs = map (\<lambda>r. utf8 (hex (H (utf8 (receipt_canonical r))))) rs"

section \<open>Files of JSON lines\<close>

fun read_jsonl :: "str list \<Rightarrow> jobj list result" where
  "read_jsonl [] = Ok []"
| "read_jsonl (line # ls) =
     (let l = strip line in
      if l = [] then read_jsonl ls
      else (case loads l of
              Some (JObj d) \<Rightarrow> bind_ok (read_jsonl ls) (\<lambda>ds. Ok (d # ds))
            | Some _ \<Rightarrow> Raise (TypeError ''not an object'')
            | None \<Rightarrow> Raise (ValueError ''invalid JSON'')))"

section \<open>Checkpoints\<close>

record Ed25519 =
  pub :: "bytes \<Rightarrow> bytes"
  sgn :: "bytes \<Rightarrow> bytes \<Rightarrow> bytes"
  vfy :: "bytes \<Rightarrow> bytes \<Rightarrow> bytes \<Rightarrow> bool"

definition get_field :: "jobj \<Rightarrow> str \<Rightarrow> json result" where
  "get_field d k = (case dict_get d k of None \<Rightarrow> Raise (KeyError k) | Some v \<Rightarrow> Ok v)"

definition get_int :: "jobj \<Rightarrow> str \<Rightarrow> int result" where
  "get_int d k = bind_ok (get_field d k) (\<lambda>v. case v of JInt i \<Rightarrow> Ok i | _ \<Rightarrow> Raise (TypeError k))"

definition unsigned_checkpoint :: "int \<Rightarrow> int \<Rightarrow> str \<Rightarrow> nat \<Rightarrow> str \<Rightarrow> json \<Rightarrow> jobj" where
  "unsigned_checkpoint seq now agent sz rt prev =
     [(''checkpoint_seq'', JInt seq), (''timestamp'', JInt now), (''agent_id'', JStr agent),
      (''tree_size'', JInt (int sz)), (''merkle_root'', JStr rt), (''prev_checkpoint_hash'', prev),
      (''self_hash'', JStr []), (''signature'', JStr [])]"

definition sign_checkpoint :: "(bytes \<Rightarrow> bytes) \<Rightarrow> Ed25519 \<Rightarrow> bytes \<Rightarrow> jobj \<Rightarrow> jobj" where
  "sign_checkpoint H cr seed c =
     (let sh = hex (H (utf8 (canonical_checkpoint c)))
      in dict_set ''signature'' (JStr (hex (sgn cr seed (utf8 sh)))) (dict_set ''self_hash'' (JStr sh) c))"

definition create_checkpoint ::
  "(bytes \<Rightarrow> bytes) \<Rightarrow> Ed25519 \<Rightarrow> int \<Rightarrow> str list \<Rightarrow> str list \<Rightarrow> str \<Rightarrow> (jobj \<times> str list) result" where
  "create_checkpoint H cr now receipts_file ckpt_file key_hex =
     bind_ok (read_jsonl receipts_file) (\<lambda>receipts.
     bind_ok (read_jsonl ckpt_file) (\<lambda>existing.
     bind_ok (if existing = [] then Ok (JStr ''genesis'') else get_field (last existing) ''self_hash'') (\<lambda>prev.
     bind_ok (if existing = [] then Ok 0 else bind_ok (get_int (last existing) ''checkpoint_seq'') (\<lambda>i. Ok (i + 1))) (\<lambda>seq.
     case fromhex (take 64 key_hex) of
       None \<Rightarrow> Raise (ValueError ''fromhex'')
     | Some seed \<Rightarrow>
         if length seed \<noteq> 32 then Raise (ValueError ''An Ed25519 private key is 32 bytes long'')
         else let c = sign_checkpoint H cr seed (unsigned_checkpoint seq now (hex (pub cr seed)) (length receipts)
                        (merkle_root H (receipt_leaves H receipts)) prev)
              in Ok (c, ckpt_file @ [dumps plain_unicode (JObj c)])))))"

datatype ckpt_violation = SelfHashMismatch | InvalidSignature

definition verify_checkpoint :: "(bytes \<Rightarrow> bytes) \<Rightarrow> Ed25519 \<Rightarrow> jobj \<Rightarrow> ckpt_violation list result" where
  "verify_checkpoint H cr c =
     (let computed = hex (H (utf8 (canonical_checkpoint c))) in
      if dict_get c ''self_hash'' \<noteq> Some (JStr computed) then Ok [SelfHashMismatch]
      else case (get_str c ''agent_id'', get_str c ''signature'') of
        (Inr a, Inr s) \<Rightarrow>
          (case (fromhex a, fromhex s) of
             (Some p, Some sg) \<Rightarrow> Ok (if vfy cr p (utf8 computed) sg then [] else [InvalidSignature])
           | _ \<Rightarrow> Ok [InvalidSignature])
      | (Inl (KeyError _), _) \<Rightarrow> Ok [InvalidSignature]
      | (Inr a, Inl (KeyError _)) \<Rightarrow> Ok [InvalidSignature]
      | (Inl e, _) \<Rightarrow> Raise e
      | (_, Inl e) \<Rightarrow> Raise e)"

section \<open>The external verifier\<close>

function ext_mth :: "(bytes \<Rightarrow> bytes) \<Rightarrow> bytes list \<Rightarrow> bytes" where
  "ext_mth H leaves =
     (let n = length leaves in
      if n = 0 then H []
      else if n = 1 then H (0 # leaves ! 0)
      else let k = pow2_loop n 1 in H (1 # ext_mth H (take k leaves) @ ext_mth H (drop k leaves)))"
  by pat_completeness auto
termination
proof (relation "measure (\<lambda>(H, leaves). length leaves)")
  fix H :: "bytes \<Rightarrow> bytes" and leaves :: "bytes list" and n k
  assume a: "n = length leaves" "n \<noteq> 0" "n \<noteq> 1" "k = pow2_loop n 1"
  then have "2 \<le> n" by linarith
  with a show "((H, take k leaves), H, leaves) \<in> measure (\<lambda>(H, leaves). length leaves)"
    "((H, drop k leaves), H, leaves) \<in> measure (\<lambda>(H, leaves). length leaves)"
    using pow2_loop_spec [of 1 n] by auto
qed simp

declare ext_mth.simps [simp del]

datatype violation =
    ChainBreak nat | SeqGap nat | HashMismatch nat | BadSignature nat | Unverified nat
  | TreeTruncated nat | RootMismatch nat

text \<open>\<^verbatim>\<open>verify(pub_hex, data, sig_hex)\<close> on the values \<^verbatim>\<open>get\<close> returns.\<close>

definition ext_verify_sig :: "Ed25519 \<Rightarrow> json \<Rightarrow> bytes \<Rightarrow> json \<Rightarrow> bool result" where
  "ext_verify_sig cr pub_hex data sig_hex =
     (case (pub_hex, sig_hex) of
        (JStr p, JStr s) \<Rightarrow>
          Ok (case (fromhex p, fromhex s) of (Some pk, Some sg) \<Rightarrow> vfy cr pk data sg | _ \<Rightarrow> False)
      | _ \<Rightarrow> Raise (TypeError ''fromhex() argument must be str''))"

definition get_default :: "jobj \<Rightarrow> str \<Rightarrow> json \<Rightarrow> json" where
  "get_default d k v = (case dict_get d k of None \<Rightarrow> v | Some w \<Rightarrow> w)"

definition num_val :: "json \<Rightarrow> real option" where
  "num_val v = (case v of JInt i \<Rightarrow> Some (real_of_int i) | JBool b \<Rightarrow> Some (if b then 1 else 0)
     | JFloat r \<Rightarrow> py_float r | _ \<Rightarrow> None)"

definition num_is :: "json option \<Rightarrow> real \<Rightarrow> bool" where
  "num_is v x = (case v of None \<Rightarrow> False | Some j \<Rightarrow> num_val j = Some x)"

definition next_seq :: "jobj \<Rightarrow> str \<Rightarrow> real result" where
  "next_seq r k = (case dict_get r k of
     None \<Rightarrow> Ok 1
   | Some v \<Rightarrow> if json_truthy v then (case num_val v of Some x \<Rightarrow> Ok (x + 1) | None \<Rightarrow> Raise (TypeError k)) else Ok 1)"

text \<open>\<^verbatim>\<open>str(self_hash).encode("ascii")\<close>; \<open>ps\<close> is Python's \<^verbatim>\<open>str\<close> on a value that is no string.\<close>

definition ascii_of :: "(json \<Rightarrow> str) \<Rightarrow> json \<Rightarrow> bytes result" where
  "ascii_of ps v =
     (let s = (case v of JStr t \<Rightarrow> t | _ \<Rightarrow> ps v)
      in if list_all (\<lambda>c. (of_char c :: nat) < 128) s then Ok (utf8 s) else Raise (ValueError ''ascii''))"

definition sig_check ::
  "(json \<Rightarrow> str) \<Rightarrow> Ed25519 \<Rightarrow> bool \<Rightarrow> bool \<Rightarrow> nat \<Rightarrow> jobj \<Rightarrow> violation list result" where
  "sig_check ps cr avail req i r =
     (if avail then
        bind_ok (ascii_of ps (get_default r ''self_hash'' (JStr []))) (\<lambda>data.
        bind_ok (ext_verify_sig cr (get_default r ''agent_id'' (JStr [])) data (get_default r ''signature'' (JStr []))) (\<lambda>ok.
        Ok (if ok then [] else [BadSignature i])))
      else Ok (if req then [Unverified i] else []))"

text \<open>The message of a chain break slices the expected hash, which fails on a value that is neither
  text nor list.\<close>

definition sliceable :: "json \<Rightarrow> bool" where
  "sliceable v = (case v of JStr _ \<Rightarrow> True | JList _ \<Rightarrow> True | _ \<Rightarrow> False)"

fun ext_receipts ::
  "(bytes \<Rightarrow> bytes) \<Rightarrow> (json \<Rightarrow> str) \<Rightarrow> Ed25519 \<Rightarrow> bool \<Rightarrow> bool \<Rightarrow> nat \<Rightarrow> json \<Rightarrow> real \<Rightarrow> jobj list \<Rightarrow> violation list result" where
  "ext_receipts H ps cr avail req i prev expected [] = Ok []"
| "ext_receipts H ps cr avail req i prev expected (r # rs) =
     (let broken = (get_default r ''prev_hash'' JNull \<noteq> prev) in
      if broken \<and> \<not> sliceable prev then Raise (TypeError ''not subscriptable'')
      else
        bind_ok (sig_check ps cr avail req i r) (\<lambda>sv.
        bind_ok (next_seq r ''seq'') (\<lambda>nx.
        bind_ok (ext_receipts H ps cr avail req (Suc i) (get_default r ''self_hash'' (JStr [])) nx rs) (\<lambda>vs.
        Ok ((if broken then [ChainBreak i] else [])
          @ (if num_is (dict_get r ''seq'') expected then [] else [SeqGap i])
          @ (if dict_get r ''self_hash'' = Some (JStr (sha256_hex H (utf8 (ext_canonical r RECEIPT_FIELD_ORDER)))) then [] else [HashMismatch i])
          @ sv @ vs)))))"

definition ext_verify_receipts ::
  "(bytes \<Rightarrow> bytes) \<Rightarrow> (json \<Rightarrow> str) \<Rightarrow> Ed25519 \<Rightarrow> bool \<Rightarrow> bool \<Rightarrow> jobj list \<Rightarrow> violation list result" where
  "ext_verify_receipts H ps cr avail req rs = ext_receipts H ps cr avail req 0 (JStr ''genesis'') 0 rs"

definition ext_leaves :: "(bytes \<Rightarrow> bytes) \<Rightarrow> jobj list \<Rightarrow> bytes list" where
  "ext_leaves H rs = map (\<lambda>r. utf8 (sha256_hex H (utf8 (ext_canonical r RECEIPT_FIELD_ORDER)))) rs"

definition slice_to :: "'a list \<Rightarrow> int \<Rightarrow> 'a list" where
  "slice_to xs n = (if 0 \<le> n then take (nat n) xs else take (nat (int (length xs) + n)) xs)"

definition root_check :: "(bytes \<Rightarrow> bytes) \<Rightarrow> bytes list \<Rightarrow> nat \<Rightarrow> jobj \<Rightarrow> violation list result" where
  "root_check H leaves i c =
     (let check_at = (\<lambda>n. if n > int (length leaves) then [TreeTruncated i]
                    else if dict_get c ''merkle_root'' = Some (JStr (hex (ext_mth H (slice_to leaves n)))) then []
                    else [RootMismatch i])
      in case get_default c ''tree_size'' (JInt 0) of
           JInt n \<Rightarrow> Ok (check_at n)
         | JBool b \<Rightarrow> Ok (check_at (if b then 1 else 0))
         | JFloat r \<Rightarrow> (case py_float r of
             Some x \<Rightarrow> if x > real (length leaves) then Ok [TreeTruncated i] else Raise (TypeError ''slice indices'')
           | None \<Rightarrow> Raise (TypeError ''tree_size''))
         | _ \<Rightarrow> Raise (TypeError ''tree_size''))"

fun ext_checkpoints ::
  "(bytes \<Rightarrow> bytes) \<Rightarrow> (json \<Rightarrow> str) \<Rightarrow> Ed25519 \<Rightarrow> bool \<Rightarrow> bool \<Rightarrow> bytes list \<Rightarrow> nat \<Rightarrow> json \<Rightarrow> real \<Rightarrow> jobj list \<Rightarrow> violation list result" where
  "ext_checkpoints H ps cr avail req leaves i prev expected [] = Ok []"
| "ext_checkpoints H ps cr avail req leaves i prev expected (c # cs) =
     bind_ok (sig_check ps cr avail req i c) (\<lambda>sv.
     bind_ok (root_check H leaves i c) (\<lambda>rv.
     bind_ok (next_seq c ''checkpoint_seq'') (\<lambda>nx.
     bind_ok (ext_checkpoints H ps cr avail req leaves (Suc i) (get_default c ''self_hash'' (JStr [])) nx cs) (\<lambda>vs.
     Ok ((if get_default c ''prev_checkpoint_hash'' JNull = prev then [] else [ChainBreak i])
       @ (if num_is (dict_get c ''checkpoint_seq'') expected then [] else [SeqGap i])
       @ (if dict_get c ''self_hash'' = Some (JStr (sha256_hex H (utf8 (ext_canonical c CHECKPOINT_FIELD_ORDER)))) then [] else [HashMismatch i])
       @ sv @ rv @ vs)))))"

definition ext_verify_checkpoints ::
  "(bytes \<Rightarrow> bytes) \<Rightarrow> (json \<Rightarrow> str) \<Rightarrow> Ed25519 \<Rightarrow> bool \<Rightarrow> bool \<Rightarrow> jobj list \<Rightarrow> jobj list \<Rightarrow> violation list result" where
  "ext_verify_checkpoints H ps cr avail req cks rs =
     ext_checkpoints H ps cr avail req (ext_leaves H rs) 0 (JStr ''genesis'') 0 cks"

section \<open>The two implementations agree\<close>

lemma ext_mth_eq: "ext_mth H lvs = mth H lvs"
proof (induction lvs rule: tree_induct)
  case (split lvs k)
  have "ext_mth H lvs = H (1 # ext_mth H (take k lvs) @ ext_mth H (drop k lvs))"
    using split.hyps(1) by (subst ext_mth.simps) (auto simp: Let_def split.hyps(2) largest_power_of_two_lt_def)
  then show ?case using split.IH by (simp add: mth_split [OF split.hyps(1,2)])
qed (simp_all add: ext_mth.simps)

lemma ext_leaves_eq: "ext_leaves H rs = receipt_leaves H rs"
  by (simp add: ext_leaves_def receipt_leaves_def sha256_hex_def ext_canonical_def receipt_canonical_def)

lemma ext_canonical_checkpoint: "ext_canonical c CHECKPOINT_FIELD_ORDER = canonical_checkpoint c"
  by (simp add: ext_canonical_def canonical_checkpoint_def)

section \<open>What a canonical form fixes\<close>

lemma dict_get_in_order: "distinct fo \<Longrightarrow> dict_get (in_order fo t) k = (if k \<in> set fo then dict_get t k else None)"
proof (induction fo)
  case (Cons a fo)
  then show ?case by (cases "dict_get t a") (auto simp: in_order_def map_filter_simps)
qed (simp add: in_order_def map_filter_simps)

lemma in_order_keys: "distinct fo \<Longrightarrow> distinct (dict_keys (in_order fo t)) \<and> set (dict_keys (in_order fo t)) \<subseteq> set fo"
proof (induction fo)
  case (Cons a fo)
  then show ?case by (cases "dict_get t a") (auto simp: in_order_def map_filter_simps)
qed (simp add: in_order_def map_filter_simps)

definition obj_wf :: "jobj \<Rightarrow> bool" where
  "obj_wf d \<longleftrightarrow> json_wf (JObj d)"

lemma emptied_wf: "obj_wf d \<Longrightarrow> obj_wf (emptied d)"
  using set_dict_set_subset [of "''self_hash''" "JStr []" d]
    set_dict_set_subset [of "''signature''" "JStr []" "dict_set ''self_hash'' (JStr []) d"]
  by (fastforce simp: obj_wf_def emptied_def list_all_iff)

lemma in_order_wf:
  assumes "distinct fo" "obj_wf t"
  shows "json_wf (JObj (in_order fo t))"
proof -
  have "json_wf v" if "(k, v) \<in> set (in_order fo t)" for k v
  proof -
    have "dict_get (in_order fo t) k = Some v"
      using that in_order_keys [OF assms(1), of t] by (intro dict_get_in) auto
    then have "dict_get t k = Some v" using dict_get_in_order [OF assms(1)] by (auto split: if_splits)
    then show ?thesis using assms(2) dict_get_Some_in [of t k v] by (auto simp: obj_wf_def list_all_iff)
  qed
  then show ?thesis using in_order_keys [OF assms(1), of t] by (auto simp: list_all_iff)
qed

lemma distinct_field_orders: "distinct RECEIPT_FIELD_ORDER" "distinct CHECKPOINT_FIELD_ORDER"
  by (simp_all add: RECEIPT_FIELD_ORDER_def CHECKPOINT_FIELD_ORDER_def)

lemma receipt_canonical_fields:
  assumes "obj_wf r" "obj_wf r'" "receipt_canonical r = receipt_canonical r'"
    "k \<in> set RECEIPT_FIELD_ORDER" "k \<noteq> ''self_hash''" "k \<noteq> ''signature''"
  shows "dict_get r k = dict_get r' k"
proof -
  note d = distinct_field_orders(1)
  have "in_order RECEIPT_FIELD_ORDER (emptied r) = in_order RECEIPT_FIELD_ORDER (emptied r')"
    using assms(3) in_order_wf [OF d emptied_wf [OF assms(1)]] in_order_wf [OF d emptied_wf [OF assms(2)]]
    by (simp add: receipt_canonical_def dumps_inject del: json_wf.simps)
  then have "dict_get (emptied r) k = dict_get (emptied r') k"
    using dict_get_in_order [OF d] assms(4) by metis
  then show ?thesis using assms(5,6) by (simp add: emptied_def)
qed

section \<open>Checkpoints that verify\<close>

definition ckpt_ok ::
  "(bytes \<Rightarrow> bytes) \<Rightarrow> (json \<Rightarrow> str) \<Rightarrow> Ed25519 \<Rightarrow> bool \<Rightarrow> bool \<Rightarrow> bytes list \<Rightarrow> nat \<Rightarrow> json \<Rightarrow> real \<Rightarrow> jobj \<Rightarrow> bool" where
  "ckpt_ok H ps cr avail req leaves i prev e c \<longleftrightarrow>
     sig_check ps cr avail req i c = Ok [] \<and> root_check H leaves i c = Ok [] \<and>
     get_default c ''prev_checkpoint_hash'' JNull = prev \<and> num_is (dict_get c ''checkpoint_seq'') e \<and>
     dict_get c ''self_hash'' = Some (JStr (hex (H (utf8 (canonical_checkpoint c)))))"

lemma ext_checkpoints_Cons:
  "ext_checkpoints H ps cr avail req leaves i prev e (c # cs) = Ok [] \<longleftrightarrow>
     ckpt_ok H ps cr avail req leaves i prev e c \<and>
     (\<exists>nx. next_seq c ''checkpoint_seq'' = Ok nx \<and>
        ext_checkpoints H ps cr avail req leaves (Suc i) (get_default c ''self_hash'' (JStr [])) nx cs = Ok [])"
  by (auto simp: ckpt_ok_def bind_ok_Inr sha256_hex_def ext_canonical_checkpoint)

text \<open>Checkpoints as \<^verbatim>\<open>create_checkpoint\<close> writes them: an integer sequence number and a size
  that is not negative.\<close>

definition numbered :: "jobj \<Rightarrow> bool" where
  "numbered c \<longleftrightarrow> (\<exists>s n. dict_get c ''checkpoint_seq'' = Some (JInt s) \<and> dict_get c ''tree_size'' = Some (JInt n) \<and> 0 \<le> n)"

definition seq_of :: "jobj \<Rightarrow> int" where
  "seq_of c = (case dict_get c ''checkpoint_seq'' of Some (JInt s) \<Rightarrow> s | _ \<Rightarrow> 0)"

lemma next_seq_numbered: "numbered c \<Longrightarrow> next_seq c ''checkpoint_seq'' = Ok (real_of_int (seq_of c) + 1)"
  by (auto simp: numbered_def next_seq_def seq_of_def num_val_def)

lemma ext_checkpoints_snoc:
  assumes "list_all numbered cs"
  shows "ext_checkpoints H ps cr avail req leaves i prev e (cs @ [c]) = Ok [] \<longleftrightarrow>
     ext_checkpoints H ps cr avail req leaves i prev e cs = Ok [] \<and>
     ckpt_ok H ps cr avail req leaves (i + length cs)
       (if cs = [] then prev else get_default (last cs) ''self_hash'' (JStr []))
       (if cs = [] then e else real_of_int (seq_of (last cs)) + 1) c \<and>
     is_ok (next_seq c ''checkpoint_seq'')"
  using assms
proof (induction cs arbitrary: i prev e)
  case Nil
  show ?case
    by (cases "next_seq c ''checkpoint_seq''") (simp_all add: ext_checkpoints_Cons del: ext_checkpoints.simps(2))
next
  case (Cons x cs)
  then show ?case
    by (auto simp: ext_checkpoints_Cons next_seq_numbered simp del: ext_checkpoints.simps(2))
qed

lemma root_check_numbered:
  "dict_get c ''tree_size'' = Some (JInt n) \<Longrightarrow> 0 \<le> n \<Longrightarrow>
     root_check H leaves i c = Ok [] \<longleftrightarrow>
       n \<le> int (length leaves) \<and> dict_get c ''merkle_root'' = Some (JStr (hex (mth H (take (nat n) leaves))))"
  by (auto simp: root_check_def get_default_def slice_to_def ext_mth_eq)

lemma root_check_grow: "numbered c \<Longrightarrow> root_check H leaves i c = Ok [] \<Longrightarrow> root_check H (leaves @ extra) i c = Ok []"
  by (auto simp: numbered_def root_check_numbered)

lemma ext_checkpoints_grow:
  "list_all numbered cs \<Longrightarrow> ext_checkpoints H ps cr avail req leaves i prev e cs = Ok [] \<Longrightarrow>
     ext_checkpoints H ps cr avail req (leaves @ extra) i prev e cs = Ok []"
  by (induction cs arbitrary: i prev e)
     (auto simp: ext_checkpoints_Cons ckpt_ok_def root_check_grow simp del: ext_checkpoints.simps(2))

lemma ext_checkpoints_mem:
  "ext_checkpoints H ps cr avail req leaves i prev e cs = Ok [] \<Longrightarrow> c \<in> set cs \<Longrightarrow> \<exists>j p x. ckpt_ok H ps cr avail req leaves j p x c"
  by (induction cs arbitrary: i prev e) (auto simp: ext_checkpoints_Cons simp del: ext_checkpoints.simps(2))

section \<open>Checkpoints that are created\<close>

definition ed25519_correct :: "Ed25519 \<Rightarrow> bool" where
  "ed25519_correct cr \<longleftrightarrow> (\<forall>seed msg. length seed = 32 \<longrightarrow> vfy cr (pub cr seed) msg (sgn cr seed msg))"

lemma signed_checkpoint_fields:
  fixes H cr seed seq now agent sz rt prev
  defines "c \<equiv> sign_checkpoint H cr seed (unsigned_checkpoint seq now agent sz rt prev)"
  shows "dict_get c ''self_hash'' = Some (JStr (hex (H (utf8 (canonical_checkpoint c)))))"
    "dict_get c ''signature'' = Some (JStr (hex (sgn cr seed (utf8 (hex (H (utf8 (canonical_checkpoint c))))))))"
    "dict_get c ''agent_id'' = Some (JStr agent)" "dict_get c ''checkpoint_seq'' = Some (JInt seq)"
    "dict_get c ''tree_size'' = Some (JInt (int sz))" "dict_get c ''merkle_root'' = Some (JStr rt)"
    "dict_get c ''prev_checkpoint_hash'' = Some prev"
    "json_wf prev \<Longrightarrow> obj_wf c"
proof -
  have "canonical_checkpoint c = canonical_checkpoint (unsigned_checkpoint seq now agent sz rt prev)"
    by (simp add: c_def sign_checkpoint_def Let_def unsigned_checkpoint_def canonical_checkpoint_def emptied_def)
  then show "dict_get c ''self_hash'' = Some (JStr (hex (H (utf8 (canonical_checkpoint c)))))"
    "dict_get c ''signature'' = Some (JStr (hex (sgn cr seed (utf8 (hex (H (utf8 (canonical_checkpoint c))))))))"
    by (simp_all add: c_def sign_checkpoint_def Let_def)
qed (simp_all add: c_def sign_checkpoint_def Let_def unsigned_checkpoint_def obj_wf_def)

lemma create_checkpoint_Ok:
  assumes "create_checkpoint H cr now rf cf key = Ok (c, cf')" "read_jsonl rf = Ok rs" "read_jsonl cf = Ok cks"
    "list_all numbered cks" "list_all (\<lambda>k. \<exists>s. dict_get k ''self_hash'' = Some (JStr s)) cks"
  obtains seed where "length seed = 32" "cf' = cf @ [dumps plain_unicode (JObj c)]"
    "c = sign_checkpoint H cr seed (unsigned_checkpoint (if cks = [] then 0 else seq_of (last cks) + 1) now
       (hex (pub cr seed)) (length rs) (merkle_root H (receipt_leaves H rs))
       (if cks = [] then JStr ''genesis'' else get_default (last cks) ''self_hash'' (JStr [])))"
proof -
  have l: "numbered (last cks) \<and> (\<exists>s. dict_get (last cks) ''self_hash'' = Some (JStr s))" if "cks \<noteq> []"
    using assms(4,5) that by (auto simp: list_all_iff)
  show thesis
    using assms(1-3) l that
    by (cases "fromhex (take 64 key)")
       (auto simp: create_checkpoint_def get_field_def get_int_def get_default_def seq_of_def numbered_def Let_def split: if_splits)
qed

lemma is_ascii_utf8_hex: "list_all (\<lambda>c. (of_char c :: nat) < 128) (hex bs)"
proof -
  have "(of_char (hex_char d) :: nat) < 128" if "d < 16" for d using that by (auto simp: hex_char_def)
  moreover have "unat b div 16 < 16" for b :: byte
    using unsigned_less [of b, where ?'a = nat] by (simp add: less_mult_imp_div_less)
  ultimately show ?thesis by (induction bs) (simp_all add: hex_def hex_byte_def)
qed

lemma strip_json_object: "obj_wf d \<Longrightarrow> strip (dumps plain_unicode (JObj d)) = dumps plain_unicode (JObj d)"
proof -
  have "\<exists>m. dumps plain_unicode (JObj d) = CHR ''{'' # m @ [CHR ''}'']"
    by (cases d) (auto simp: dumps_def plain_unicode_def newline_def)
  then obtain m where m: "dumps plain_unicode (JObj d) = CHR ''{'' # m @ [CHR ''}'']" ..
  have "\<not> is_space CHR ''{''" "\<not> is_space CHR ''}''" by code_simp+
  then show ?thesis unfolding m strip_def lstrip_def rstrip_def by simp
qed

lemma read_jsonl_append: "read_jsonl (ls @ ks) = bind_ok (read_jsonl ls) (\<lambda>ds. bind_ok (read_jsonl ks) (\<lambda>es. Ok (ds @ es)))"
proof (induction ls)
  case Nil
  show ?case by (cases "read_jsonl ks") simp_all
next
  case (Cons l ls)
  show ?case
    by (cases "read_jsonl ls"; cases "read_jsonl ks") (auto simp: Cons Let_def split: option.split json.split)
qed

lemma read_jsonl_written: "obj_wf d \<Longrightarrow> read_jsonl [dumps plain_unicode (JObj d)] = Ok [d]"
proof -
  assume d: "obj_wf d"
  have "loads (dumps plain_unicode (JObj d)) = Some (JObj d)"
    by (rule loads_dumps) (use d in \<open>simp_all add: obj_wf_def\<close>)
  moreover have "dumps plain_unicode (JObj d) \<noteq> []" by (cases d) (simp_all add: dumps_def)
  ultimately show ?thesis by (simp add: strip_json_object [OF d])
qed

lemma sig_check_created:
  assumes "ed25519_correct cr" "length seed = 32"
  shows "sig_check ps cr avail False i (sign_checkpoint H cr seed (unsigned_checkpoint seq now (hex (pub cr seed)) sz rt prev)) = Ok []"
  using assms
  by (simp add: sig_check_def get_default_def signed_checkpoint_fields ascii_of_def is_ascii_utf8_hex ext_verify_sig_def
      ed25519_correct_def)

lemma num_is_int: "num_is (Some (JInt s)) x \<longleftrightarrow> x = real_of_int s"
  by (auto simp: num_is_def num_val_def)

section \<open>Properties\<close>

text \<open>A signature scheme for concrete runs: the signature is the message itself under the key.\<close>

definition echo_scheme :: Ed25519 where
  "echo_scheme = \<lparr>pub = (\<lambda>s. s), sgn = (\<lambda>s m. s @ m), vfy = (\<lambda>p m g. g = p @ m)\<rparr>"

text \<open>Checkpoints keep verifying. Take a checkpoint file whose checkpoints are numbered and pass
  the external verifier against the receipts so far; let receipts be appended and a checkpoint be
  created over all of them, with a signature scheme that accepts its own signatures. Then the new
  checkpoint passes the module's own check, the file reads back to the old checkpoints followed by
  the new one, and the external verifier accepts all of them against the longer list of receipts.\<close>

theorem checkpoint_extends:
  assumes "create_checkpoint H cr now rf cf key = Ok (c, cf')"
    and "read_jsonl rf = Ok (rs @ new)" and "read_jsonl cf = Ok cks" and "list_all numbered cks"
    and "ext_verify_checkpoints H ps cr avail False cks rs = Ok []" and "ed25519_correct cr"
  shows "verify_checkpoint H cr c = Ok [] \<and> read_jsonl cf' = Ok (cks @ [c]) \<and> list_all numbered (cks @ [c]) \<and>
    ext_verify_checkpoints H ps cr avail False (cks @ [c]) (rs @ new) = Ok []"
proof -
  note v = assms(5) [unfolded ext_verify_checkpoints_def]
  have sh: "list_all (\<lambda>k. \<exists>s. dict_get k ''self_hash'' = Some (JStr s)) cks"
    using ext_checkpoints_mem [OF v] by (force simp: list_all_iff ckpt_ok_def)
  obtain seed where seed: "length seed = 32" and cf': "cf' = cf @ [dumps plain_unicode (JObj c)]"
    and c: "c = sign_checkpoint H cr seed (unsigned_checkpoint (if cks = [] then 0 else seq_of (last cks) + 1) now
       (hex (pub cr seed)) (length (rs @ new)) (merkle_root H (receipt_leaves H (rs @ new)))
       (if cks = [] then JStr ''genesis'' else get_default (last cks) ''self_hash'' (JStr [])))"
    by (rule create_checkpoint_Ok [OF assms(1-4) sh])
  let ?prev = "if cks = [] then JStr ''genesis'' else get_default (last cks) ''self_hash'' (JStr [])"
  have "\<exists>s. dict_get (last cks) ''self_hash'' = Some (JStr s)" if "cks \<noteq> []" using sh that by (auto simp: list_all_iff)
  then have "json_wf ?prev" by (auto simp: get_default_def)
  then have wf: "obj_wf c" unfolding c by (rule signed_checkpoint_fields(8))
  note f = signed_checkpoint_fields [where H = H and cr = cr and seed = seed and now = now and agent = "hex (pub cr seed)"
      and seq = "if cks = [] then 0 else seq_of (last cks) + 1" and sz = "length (rs @ new)"
      and rt = "merkle_root H (receipt_leaves H (rs @ new))" and prev = ?prev, folded c]
  have "verify_checkpoint H cr c = Ok []"
    using f assms(6) seed by (simp add: verify_checkpoint_def ed25519_correct_def)
  moreover have "read_jsonl cf' = Ok (cks @ [c])" by (simp add: cf' read_jsonl_append assms(3) read_jsonl_written [OF wf] del: read_jsonl.simps(2))
  moreover have num: "numbered c" using f by (simp add: numbered_def)
  moreover have "ext_checkpoints H ps cr avail False (receipt_leaves H (rs @ new)) 0 (JStr ''genesis'') 0 (cks @ [c]) = Ok []"
  proof -
    have "root_check H (receipt_leaves H (rs @ new)) i c = Ok []" for i
      using f root_check_numbered [of c "int (length (rs @ new))" H "receipt_leaves H (rs @ new)" i]
      by (simp add: merkle_root_def receipt_leaves_def)
    moreover have "sig_check ps cr avail False i c = Ok []" for i
      unfolding c by (rule sig_check_created [OF assms(6) seed])
    ultimately have "ckpt_ok H ps cr avail False (receipt_leaves H (rs @ new)) (0 + length cks) ?prev
        (if cks = [] then 0 else real_of_int (seq_of (last cks)) + 1) c"
      using f by (simp add: ckpt_ok_def num_is_int get_default_def)
    moreover have "ext_checkpoints H ps cr avail False (receipt_leaves H (rs @ new)) 0 (JStr ''genesis'') 0 cks = Ok []"
      using ext_checkpoints_grow [OF assms(4) v, of "receipt_leaves H new"] by (simp add: ext_leaves_eq receipt_leaves_def)
    ultimately show ?thesis using next_seq_numbered [OF num] by (simp add: ext_checkpoints_snoc [OF assms(4)])
  qed
  ultimately show ?thesis using assms(4) by (simp add: ext_verify_checkpoints_def ext_leaves_eq)
qed

theorem checkpoint_extends_witness:
  "\<exists>c cf'. create_checkpoint pad_hash echo_scheme 7 [] [] (hex (replicate 32 1)) = Ok (c, cf') \<and>
     verify_checkpoint pad_hash echo_scheme c = Ok [] \<and>
     ext_verify_checkpoints pad_hash (\<lambda>_. []) echo_scheme True False [c] [] = Ok []"
proof -
  have "\<exists>c cf'. create_checkpoint pad_hash echo_scheme 7 [] [] (hex (replicate 32 1)) = Ok (c, cf')"
    by (simp add: create_checkpoint_def Let_def)
  then obtain c cf' where cc: "create_checkpoint pad_hash echo_scheme 7 [] [] (hex (replicate 32 1)) = Ok (c, cf')" by blast
  have "ed25519_correct echo_scheme" by (simp add: ed25519_correct_def echo_scheme_def)
  from checkpoint_extends [OF cc, of "[]" "[]" "[]" "\<lambda>_. []" True, OF _ _ _ _ this] cc show ?thesis
    by (simp add: ext_verify_checkpoints_def)
qed

text \<open>C27: edited receipts are detected. If the external verifier accepts the same checkpoints
  against two lists of receipts, then the receipts covered by a checkpoint of size \<open>n\<close> are in both lists
  and agree, one by one, on every canonical field other than the stored hash and signature; or two
  different byte strings that are hashed in checking the two lists, tree nodes or canonical texts of
  receipts at one position, have the same digest.\<close>

theorem external_detects_tampering:
  assumes "digest32 H" and "list_all obj_wf rs" and "list_all obj_wf rs'"
    and "ext_verify_checkpoints H ps cr avail req cks rs = Ok []"
    and "ext_verify_checkpoints H ps cr avail req cks rs' = Ok []"
    and "c \<in> set cks" and "dict_get c ''tree_size'' = Some (JInt (int n))"
  shows "(n \<le> length rs \<and> n \<le> length rs' \<and>
      (\<forall>i < n. \<forall>k \<in> set RECEIPT_FIELD_ORDER - {''self_hash'', ''signature''}. dict_get (rs ! i) k = dict_get (rs' ! i) k)) \<or>
    (\<exists>x \<in> set (mth_inputs H (take n (receipt_leaves H rs))). \<exists>y \<in> set (mth_inputs H (take n (receipt_leaves H rs'))). x \<noteq> y \<and> H x = H y) \<or>
    (\<exists>i < n. receipt_canonical (rs ! i) \<noteq> receipt_canonical (rs' ! i) \<and>
       H (utf8 (receipt_canonical (rs ! i))) = H (utf8 (receipt_canonical (rs' ! i))))"
proof -
  have rc: "n \<le> length qs \<and> dict_get c ''merkle_root'' = Some (JStr (hex (mth H (take n (receipt_leaves H qs)))))"
    if "ext_verify_checkpoints H ps cr avail req cks qs = Ok []" for qs
    using ext_checkpoints_mem [OF that [unfolded ext_verify_checkpoints_def] assms(6)] root_check_numbered [OF assms(7)]
    by (auto simp: ckpt_ok_def ext_leaves_eq receipt_leaves_def)
  from rc [OF assms(4)] rc [OF assms(5)]
  have n: "n \<le> length rs" "n \<le> length rs'"
    and e: "mth H (take n (receipt_leaves H rs)) = mth H (take n (receipt_leaves H rs'))" by auto
  from mth_binding [OF assms(1) e] show ?thesis
  proof
    assume leaves: "take n (receipt_leaves H rs) = take n (receipt_leaves H rs')"
    have h: "H (utf8 (receipt_canonical (rs ! i))) = H (utf8 (receipt_canonical (rs' ! i)))" if "i < n" for i
    proof -
      have "take n (receipt_leaves H rs) ! i = take n (receipt_leaves H rs') ! i" using leaves by simp
      then show ?thesis using that n by (simp add: receipt_leaves_def)
    qed
    show ?thesis
    proof (cases "\<exists>i < n. receipt_canonical (rs ! i) \<noteq> receipt_canonical (rs' ! i)")
      case True
      then show ?thesis using h by blast
    next
      case False
      then have "dict_get (rs ! i) k = dict_get (rs' ! i) k"
        if "i < n" "k \<in> set RECEIPT_FIELD_ORDER - {''self_hash'', ''signature''}" for i k
        using that n assms(2,3) receipt_canonical_fields [of "rs ! i" "rs' ! i" k] by (auto simp: list_all_length)
      then show ?thesis using n by blast
    qed
  qed (simp add: collide_def)
qed

text \<open>A field outside the canonical order is not covered by the hash of a receipt.\<close>

lemma in_order_cong: "(\<And>k. k \<in> set fo \<Longrightarrow> dict_get t k = dict_get t' k) \<Longrightarrow> in_order fo t = in_order fo t'"
proof (induction fo)
  case (Cons a fo)
  then show ?case by (cases "dict_get t' a") (auto simp: in_order_def map_filter_simps)
qed (simp add: in_order_def map_filter_simps)

lemma extra_field_not_hashed:
  assumes "k \<notin> set RECEIPT_FIELD_ORDER"
  shows "receipt_canonical (dict_set k v r) = receipt_canonical r"
proof -
  have "in_order RECEIPT_FIELD_ORDER (emptied (dict_set k v r)) = in_order RECEIPT_FIELD_ORDER (emptied r)"
    by (rule in_order_cong) (use assms in \<open>auto simp: emptied_def\<close>)
  then show ?thesis by (simp add: receipt_canonical_def)
qed

theorem external_detects_tampering_witness:
  "\<exists>c r r'. r \<noteq> r' \<and> ext_verify_checkpoints pad_hash (\<lambda>_. []) echo_scheme False False [c] [r] = Ok [] \<and>
     ext_verify_checkpoints pad_hash (\<lambda>_. []) echo_scheme False False [c] [r'] = Ok [] \<and>
     (dict_get r ''action'' = dict_get r' ''action'' \<or>
      (\<exists>x \<in> set (mth_inputs pad_hash (receipt_leaves pad_hash [r])).
         \<exists>y \<in> set (mth_inputs pad_hash (receipt_leaves pad_hash [r'])). x \<noteq> y \<and> pad_hash x = pad_hash y) \<or>
      receipt_canonical r \<noteq> receipt_canonical r')"
proof -
  let ?r = "[(''action'', JStr ''save'')] :: jobj" and ?r' = "[(''action'', JStr ''save''), (''note'', JStr ''x'')] :: jobj"
  define L where "L = receipt_leaves pad_hash [?r]"
  define c where "c = sign_checkpoint pad_hash echo_scheme (replicate 32 1)
    (unsigned_checkpoint 0 7 [] 1 (merkle_root pad_hash L) (JStr ''genesis''))"
  note f = signed_checkpoint_fields [where H = pad_hash and cr = echo_scheme and seed = "replicate 32 1" and now = 7
      and agent = "[]" and seq = 0 and sz = 1 and rt = "merkle_root pad_hash L" and prev = "JStr ''genesis''", folded c_def]
  have l: "receipt_leaves pad_hash [?r'] = L"
    using extra_field_not_hashed [of "''note''" "JStr ''x''" ?r] by (simp add: L_def receipt_leaves_def RECEIPT_FIELD_ORDER_def)
  have "length L = 1" by (simp add: L_def receipt_leaves_def)
  then have "root_check pad_hash L 0 c = Ok []" using f(5,6) root_check_numbered [of c 1 pad_hash L 0]
    by (simp add: merkle_root_def)
  then have "ckpt_ok pad_hash (\<lambda>_. []) echo_scheme False False L 0 (JStr ''genesis'') 0 c"
    using f by (simp add: ckpt_ok_def sig_check_def num_is_int get_default_def)
  then have v: "ext_verify_checkpoints pad_hash (\<lambda>_. []) echo_scheme False False [c] [q] = Ok []"
    if "receipt_leaves pad_hash [q] = L" for q
    using f(4) by (simp add: ext_verify_checkpoints_def ext_leaves_eq that ext_checkpoints_Cons next_seq_def
        del: ext_checkpoints.simps(2))
  have a: "''action'' \<in> set RECEIPT_FIELD_ORDER - {''self_hash'', ''signature''}" by (simp add: RECEIPT_FIELD_ORDER_def)
  from external_detects_tampering [OF pad_hash_32 _ _ v [OF L_def [symmetric]] v [OF l], of c 1] f(5) a
  have "dict_get ?r ''action'' = dict_get ?r' ''action'' \<or>
      (\<exists>x \<in> set (mth_inputs pad_hash (receipt_leaves pad_hash [?r])).
         \<exists>y \<in> set (mth_inputs pad_hash (receipt_leaves pad_hash [?r'])). x \<noteq> y \<and> pad_hash x = pad_hash y) \<or>
      receipt_canonical ?r \<noteq> receipt_canonical ?r'"
    by (auto simp: obj_wf_def receipt_leaves_def)
  then show ?thesis using v [OF L_def [symmetric]] v [OF l] by blast
qed

end
