(* ===== verification/FlightRecorder.thy ===== *)
theory FlightRecorder
  imports Receipts HashChain
begin

text \<open>
  \<^verbatim>\<open>kairo/trust/flight_recorder.py\<close>: a hash-chained trace of the stages of a run, saved as
  JSON lines. Entries are built from dictionaries without any check of types, so the fields of an
  entry are JSON values, \<^verbatim>\<open>None\<close> being \<open>JNull\<close>. A file is the list of its lines, and a
  missing file \<open>None\<close>. Violations are constructors in place of the code's messages; the places
  where building a message fails (slicing a value that is neither text nor a list) are kept.
  Dictionaries are compared without regard to order.
\<close>

section \<open>Entries\<close>

record FlightEntry =
  fe_seq :: json
  fe_timestamp :: json
  fe_stage :: json
  fe_input_hash :: json
  fe_output_hash :: json
  fe_receipt_hash :: json
  fe_prev_hash :: json
  fe_self_hash :: json
  fe_metadata :: json

definition flight_to_dict :: "FlightEntry \<Rightarrow> jobj" where
  "flight_to_dict e =
     [(''seq'', fe_seq e), (''timestamp'', fe_timestamp e), (''stage'', fe_stage e), (''input_hash'', fe_input_hash e),
      (''output_hash'', fe_output_hash e), (''receipt_hash'', fe_receipt_hash e), (''prev_hash'', fe_prev_hash e),
      (''self_hash'', fe_self_hash e), (''metadata'', fe_metadata e)]"

definition flight_from_dict :: "jobj \<Rightarrow> FlightEntry result" where
  "flight_from_dict d =
     bind_ok (get_field d ''seq'') (\<lambda>sq.
     bind_ok (get_field d ''timestamp'') (\<lambda>ts.
     bind_ok (get_field d ''stage'') (\<lambda>st.
     bind_ok (get_field d ''input_hash'') (\<lambda>ih.
     bind_ok (get_field d ''output_hash'') (\<lambda>oh.
     bind_ok (get_field d ''prev_hash'') (\<lambda>ph.
     bind_ok (get_field d ''self_hash'') (\<lambda>sh.
     Ok \<lparr>fe_seq = sq, fe_timestamp = ts, fe_stage = st, fe_input_hash = ih, fe_output_hash = oh,
         fe_receipt_hash = get_default d ''receipt_hash'' JNull, fe_prev_hash = ph, fe_self_hash = sh,
         fe_metadata = get_default d ''metadata'' (JObj [])\<rparr>)))))))"

definition canonical_hash :: "(bytes \<Rightarrow> bytes) \<Rightarrow> json \<Rightarrow> str" where
  "canonical_hash H data = (case data of
     JStr s \<Rightarrow> hex (H (utf8 s))
   | _ \<Rightarrow> hex (H (utf8 (dumps compact_unicode (sort_json data)))))"

definition flight_content :: "jobj \<Rightarrow> bytes" where
  "flight_content d = utf8 (dumps compact_unicode (sort_json (JObj (dict_set ''self_hash'' (JStr []) d))))"

definition entry_hash :: "(bytes \<Rightarrow> bytes) \<Rightarrow> jobj \<Rightarrow> str" where
  "entry_hash H d = hex (H (flight_content d))"

section \<open>The log\<close>

record FlightLog =
  fl_agent_id :: str
  fl_entries :: "FlightEntry list"
  fl_prev_hash :: json

definition new_flight_log :: "str \<Rightarrow> FlightLog" where
  "new_flight_log agent = \<lparr>fl_agent_id = agent, fl_entries = [], fl_prev_hash = JStr ''genesis''\<rparr>"

definition entry_dict :: "(bytes \<Rightarrow> bytes) \<Rightarrow> int \<Rightarrow> FlightLog \<Rightarrow> json \<Rightarrow> json \<Rightarrow> json \<Rightarrow> json \<Rightarrow> json \<Rightarrow> jobj" where
  "entry_dict H now fl stg inp out rcpt meta =
     [(''seq'', JInt (int (length (fl_entries fl)))), (''timestamp'', JInt now), (''stage'', stg),
      (''input_hash'', JStr (canonical_hash H inp)), (''output_hash'', JStr (canonical_hash H out)),
      (''receipt_hash'', rcpt), (''prev_hash'', fl_prev_hash fl), (''self_hash'', JStr []),
      (''metadata'', if json_truthy meta then meta else JObj [])]"

definition add_entry ::
  "(bytes \<Rightarrow> bytes) \<Rightarrow> int \<Rightarrow> json \<Rightarrow> json \<Rightarrow> json \<Rightarrow> json \<Rightarrow> json \<Rightarrow> FlightLog \<Rightarrow> (FlightEntry \<times> FlightLog) result" where
  "add_entry H now stg inp out rcpt meta fl =
     (let d = entry_dict H now fl stg inp out rcpt meta;
          d' = dict_set ''self_hash'' (JStr (entry_hash H d)) d
      in bind_ok (flight_from_dict d') (\<lambda>e.
         Ok (e, fl\<lparr>fl_entries := fl_entries fl @ [e], fl_prev_hash := fe_self_hash e\<rparr>)))"

definition root_hash :: "FlightLog \<Rightarrow> json" where
  "root_hash fl = (if fl_entries fl = [] then JStr ''genesis'' else fe_self_hash (last (fl_entries fl)))"

fun ascii_leaves :: "json list \<Rightarrow> bytes list result" where
  "ascii_leaves [] = Ok []"
| "ascii_leaves (JStr h # hs) =
     (if is_ascii h then bind_ok (ascii_leaves hs) (\<lambda>bs. Ok (utf8 h # bs)) else Raise (ValueError ''ascii''))"
| "ascii_leaves (_ # hs) = Raise (AttributeError ''encode'')"

definition merkle_root_of_receipts :: "(bytes \<Rightarrow> bytes) \<Rightarrow> FlightLog \<Rightarrow> str option result" where
  "merkle_root_of_receipts H fl =
     (let hs = filter (\<lambda>h. h \<noteq> JNull) (map fe_receipt_hash (fl_entries fl))
      in if hs = [] then Ok None else bind_ok (ascii_leaves hs) (\<lambda>ls. Ok (Some (merkle_root H ls))))"

definition flight_save :: "FlightLog \<Rightarrow> str list" where
  "flight_save fl = map (\<lambda>e. dumps plain_unicode (JObj (flight_to_dict e))) (fl_entries fl)"

fun load_entries :: "str list \<Rightarrow> FlightLog \<Rightarrow> FlightLog result" where
  "load_entries [] fl = Ok fl"
| "load_entries (line # ls) fl =
     (let l = strip line in
      if l = [] then load_entries ls fl
      else (case loads l of
              None \<Rightarrow> Raise (ValueError ''invalid JSON'')
            | Some (JObj d) \<Rightarrow> bind_ok (flight_from_dict d) (\<lambda>e.
                load_entries ls (fl\<lparr>fl_entries := fl_entries fl @ [e], fl_prev_hash := fe_self_hash e\<rparr>))
            | Some _ \<Rightarrow> Raise (TypeError ''indices'')))"

definition flight_load :: "str list option \<Rightarrow> FlightLog result" where
  "flight_load file = (case file of
     None \<Rightarrow> Raise (FileNotFoundError [])
   | Some ls \<Rightarrow> load_entries ls (new_flight_log []))"

fun record_stages :: "(bytes \<Rightarrow> bytes) \<Rightarrow> int \<Rightarrow> jobj list \<Rightarrow> FlightLog \<Rightarrow> FlightLog result" where
  "record_stages H now [] fl = Ok fl"
| "record_stages H now (s # ss) fl =
     bind_ok (get_field s ''stage'') (\<lambda>stg.
     bind_ok (get_field s ''input'') (\<lambda>inp.
     bind_ok (get_field s ''output'') (\<lambda>out.
     bind_ok (add_entry H now stg inp out (get_default s ''receipt_hash'' JNull) (get_default s ''metadata'' JNull) fl)
       (\<lambda>(e, fl'). record_stages H now ss fl'))))"

definition record_flight :: "(bytes \<Rightarrow> bytes) \<Rightarrow> int \<Rightarrow> jobj list \<Rightarrow> str \<Rightarrow> FlightLog result" where
  "record_flight H now sts agent = record_stages H now sts (new_flight_log agent)"

section \<open>Verification and replay\<close>

datatype flight_violation =
  NotFound | InvalidJson nat | SelfHash json | PrevHash json | MerkleRoot str "str option"

definition flight_entry_check :: "(bytes \<Rightarrow> bytes) \<Rightarrow> json \<Rightarrow> jobj \<Rightarrow> flight_violation list result" where
  "flight_entry_check H prev d =
     (let sq = get_default d ''seq'' JNull;
          bad_self = (get_default d ''self_hash'' JNull \<noteq> JStr (entry_hash H d));
          bad_prev = (\<not> json_eq (get_default d ''prev_hash'' JNull) prev)
      in if bad_self \<and> \<not> sliceable (get_default d ''self_hash'' (JStr [])) then Raise (TypeError ''not subscriptable'')
         else if bad_prev \<and> \<not> (sliceable prev \<and> sliceable (get_default d ''prev_hash'' (JStr []))) then
           Raise (TypeError ''not subscriptable'')
         else Ok ((if bad_self then [SelfHash sq] else []) @ (if bad_prev then [PrevHash sq] else [])))"

fun verify_lines :: "(bytes \<Rightarrow> bytes) \<Rightarrow> nat \<Rightarrow> json \<Rightarrow> str list \<Rightarrow> flight_violation list result" where
  "verify_lines H i prev [] = Ok []"
| "verify_lines H i prev (line # ls) =
     (let l = strip line in
      if l = [] then verify_lines H (Suc i) prev ls
      else (case loads l of
              None \<Rightarrow> bind_ok (verify_lines H (Suc i) prev ls) (\<lambda>vs. Ok (InvalidJson i # vs))
            | Some (JObj d) \<Rightarrow>
                bind_ok (flight_entry_check H prev d) (\<lambda>v.
                bind_ok (verify_lines H (Suc i) (get_default d ''self_hash'' (JStr [])) ls) (\<lambda>vs. Ok (v @ vs)))
            | Some _ \<Rightarrow> Raise (TypeError ''not a dictionary'')))"

definition verify_flight_log :: "(bytes \<Rightarrow> bytes) \<Rightarrow> str list option \<Rightarrow> flight_violation list result" where
  "verify_flight_log H file = (case file of
     None \<Rightarrow> Ok [NotFound]
   | Some ls \<Rightarrow> verify_lines H 1 (JStr ''genesis'') ls)"

record Replay =
  rp_valid :: bool
  rp_violations :: "flight_violation list"
  rp_entry_count :: nat
  rp_root_hash :: json
  rp_merkle_root :: "str option"
  rp_expected :: "str option"
  rp_matches :: "bool option"

definition replay_flight :: "(bytes \<Rightarrow> bytes) \<Rightarrow> str list option \<Rightarrow> str option \<Rightarrow> Replay result" where
  "replay_flight H file expected =
     bind_ok (verify_flight_log H file) (\<lambda>vs.
     bind_ok (flight_load file) (\<lambda>fl.
     bind_ok (merkle_root_of_receipts H fl) (\<lambda>rt.
     let r = \<lparr>rp_valid = (length vs = 0), rp_violations = vs, rp_entry_count = length (fl_entries fl),
              rp_root_hash = root_hash fl, rp_merkle_root = rt, rp_expected = None, rp_matches = None\<rparr>
     in case expected of
          None \<Rightarrow> Ok r
        | Some x \<Rightarrow>
            let r' = r\<lparr>rp_expected := Some x, rp_matches := Some (rt = Some x)\<rparr>
            in if rt = Some x then Ok r'
               else Ok (r'\<lparr>rp_violations := vs @ [MerkleRoot x rt], rp_valid := False\<rparr>))))"

section \<open>The chain of entries\<close>

definition str_of :: "jobj \<Rightarrow> str \<Rightarrow> str" where
  "str_of d k = (case dict_get d k of Some (JStr s) \<Rightarrow> s | _ \<Rightarrow> [])"

definition tagged :: "jobj \<Rightarrow> bool" where
  "tagged d \<longleftrightarrow> (\<exists>s p. dict_get d ''self_hash'' = Some (JStr s) \<and> dict_get d ''prev_hash'' = Some (JStr p))"

definition flight_wf :: "jobj \<Rightarrow> bool" where
  "flight_wf d \<longleftrightarrow> obj_wf d \<and> tagged d"

definition same_object :: "jobj \<Rightarrow> jobj \<Rightarrow> bool" where
  "same_object x y \<longleftrightarrow> (\<forall>k. map_option sort_json (dict_get x k) = map_option sort_json (dict_get y k))"

lemma flight_content_fields:
  assumes "obj_wf x" "obj_wf y" "flight_content x = flight_content y" "k \<noteq> ''self_hash''"
  shows "map_option sort_json (dict_get x k) = map_option sort_json (dict_get y k)"
proof -
  let ?e = "dict_set ''self_hash'' (JStr [])"
  have wf: "json_wf (JObj (?e d))" if "obj_wf d" for d
    using that set_dict_set_subset [of "''self_hash''" "JStr []" d] by (fastforce simp: obj_wf_def list_all_iff)
  have "sort_json (JObj (?e x)) = sort_json (JObj (?e y))"
    using assms(3) dumps_sorted_inject [OF _ wf [OF assms(1)] wf [OF assms(2)], of compact_unicode]
    by (simp add: flight_content_def json_eq_def del: sort_json.simps)
  from sort_json_obj_get [OF this, of k] assms show ?thesis by (simp add: obj_wf_def)
qed

interpretation flight: mac_chain "\<lambda>c. hex (H c)" flight_content "\<lambda>d. str_of d ''self_hash''" "\<lambda>d. str_of d ''prev_hash''"
  "''genesis''" flight_wf same_object
  for H
proof
  fix x y assume w: "flight_wf x" "flight_wf y" and c: "flight_content x = flight_content y"
  note f = flight_content_fields [OF _ _ c]
  show "str_of x ''prev_hash'' = str_of y ''prev_hash''"
    using f [of "''prev_hash''"] w by (auto simp: flight_wf_def tagged_def str_of_def)
  show "same_object x y" if "str_of x ''self_hash'' = str_of y ''self_hash''"
    unfolding same_object_def
  proof
    fix k show "map_option sort_json (dict_get x k) = map_option sort_json (dict_get y k)"
      using f [of k] w that by (cases "k = ''self_hash''") (auto simp: flight_wf_def tagged_def str_of_def)
  qed
qed

lemma genesis_not_hex: "hex bs \<noteq> ''genesis''"
proof
  assume a: "hex bs = ''genesis''"
  have "fromhex (hex bs) = Some bs" by simp
  moreover have "fromhex ''genesis'' = None" by code_simp
  ultimately show False using a by simp
qed

lemma json_eq_JStr: "json_eq v (JStr s) \<longleftrightarrow> v = JStr s"
  by (cases v) (simp_all add: json_eq_def)

lemma get_default_JStr: "get_default d k JNull = JStr s \<longleftrightarrow> dict_get d k = Some (JStr s)"
  by (simp add: get_default_def split: option.split)

lemma flight_entry_check_Nil:
  "flight_entry_check H (JStr p) d = Ok [] \<longleftrightarrow>
     tagged d \<and> str_of d ''self_hash'' = entry_hash H d \<and> str_of d ''prev_hash'' = p"
  by (auto simp: flight_entry_check_def Let_def json_eq_JStr get_default_JStr tagged_def str_of_def split: if_splits)

lemma verify_lines_Nil:
  "verify_lines H i (JStr p) ls = Ok [] \<longleftrightarrow>
     (\<exists>ds. read_jsonl ls = Ok ds \<and> list_all tagged ds \<and> flight.chain_ok H p ds)"
proof (induction ls arbitrary: i p)
  case (Cons l ls)
  show ?case
  proof (cases "strip l = []")
    case False
    have "verify_lines H (Suc i) (get_default d ''self_hash'' (JStr [])) ls =
        verify_lines H (Suc i) (JStr (str_of d ''self_hash'')) ls" if "tagged d" for d
      using that by (auto simp: get_default_def tagged_def str_of_def)
    then show ?thesis using False Cons
      by (auto simp: Let_def bind_ok_Inr flight_entry_check_Nil entry_hash_def split: option.split json.split)
  qed (use Cons in simp)
qed simp

section \<open>Recorded logs\<close>

definition flight_inv :: "(bytes \<Rightarrow> bytes) \<Rightarrow> FlightLog \<Rightarrow> bool" where
  "flight_inv H fl \<longleftrightarrow>
     list_all flight_wf (map flight_to_dict (fl_entries fl)) \<and>
     flight.chain_ok H ''genesis'' (map flight_to_dict (fl_entries fl)) \<and>
     fl_prev_hash fl = JStr (flight.last_sig ''genesis'' (map flight_to_dict (fl_entries fl))) \<and>
     map fe_seq (fl_entries fl) = map (\<lambda>i. JInt (int i)) [0..<length (fl_entries fl)]"

lemma get_field_simps [simp]: "get_field ((k, v) # d) k' = (if k = k' then Ok v else get_field d k')"
  by (simp add: get_field_def)

lemma flight_from_to_dict [simp]: "flight_from_dict (flight_to_dict e) = Ok e"
  by (simp add: flight_from_dict_def flight_to_dict_def get_default_def)

lemma add_entry_Ok:
  assumes "add_entry H now stg inp out rcpt meta fl = Ok (e, fl')"
  shows "fl' = fl\<lparr>fl_entries := fl_entries fl @ [e], fl_prev_hash := fe_self_hash e\<rparr>"
    "flight_to_dict e = dict_set ''self_hash'' (JStr (entry_hash H (entry_dict H now fl stg inp out rcpt meta)))
       (entry_dict H now fl stg inp out rcpt meta)"
  using assms
  by (auto simp: add_entry_def Let_def entry_dict_def flight_from_dict_def flight_to_dict_def get_default_def)

lemma flight_content_set [simp]: "flight_content (dict_set ''self_hash'' v d) = flight_content d"
proof -
  have "dict_set ''self_hash'' w (dict_set ''self_hash'' v d) = dict_set ''self_hash'' w d" for w
    by (induction d) auto
  then show ?thesis by (simp add: flight_content_def)
qed

lemma add_entry_inv:
  assumes "flight_inv H fl" "add_entry H now stg inp out rcpt meta fl = Ok (e, fl')"
    "json_wf stg" "json_wf rcpt" "json_wf meta"
  shows "flight_inv H fl'"
proof -
  note e = add_entry_Ok [OF assms(2)]
  let ?d = "entry_dict H now fl stg inp out rcpt meta"
  have p: "fl_prev_hash fl = JStr (flight.last_sig ''genesis'' (map flight_to_dict (fl_entries fl)))"
    using assms(1) by (simp add: flight_inv_def)
  have s: "str_of (flight_to_dict e) ''self_hash'' = hex (H (flight_content (flight_to_dict e)))"
    by (simp add: e(2) str_of_def entry_hash_def)
  have "flight_wf (flight_to_dict e)"
    using assms(3-5) p by (simp add: e(2) flight_wf_def obj_wf_def tagged_def entry_dict_def)
  moreover have "str_of (flight_to_dict e) ''prev_hash'' = flight.last_sig ''genesis'' (map flight_to_dict (fl_entries fl))"
    using p by (simp add: e(2) str_of_def entry_dict_def)
  moreover have "fe_self_hash e = JStr (str_of (flight_to_dict e) ''self_hash'')"
    using arg_cong [OF e(2), of "\<lambda>d. dict_get d ''self_hash''"] s by (simp add: flight_to_dict_def str_of_def)
  moreover have "fe_seq e = JInt (int (length (fl_entries fl)))"
    using arg_cong [OF e(2), of "\<lambda>d. dict_get d ''seq''"] by (simp add: flight_to_dict_def entry_dict_def)
  ultimately show ?thesis using assms(1) s by (simp add: e(1) flight_inv_def flight.chain_ok_snoc)
qed

lemma obj_wf_get: "obj_wf d \<Longrightarrow> dict_get d k = Some v \<Longrightarrow> json_wf v"
  using dict_get_Some_in [of d k v] by (auto simp: obj_wf_def list_all_iff)

lemma record_stages_inv:
  "record_stages H now ss fl = Ok fl' \<Longrightarrow> list_all obj_wf ss \<Longrightarrow> flight_inv H fl \<Longrightarrow>
     flight_inv H fl' \<and> length (fl_entries fl') = length (fl_entries fl) + length ss"
proof (induction ss arbitrary: fl)
  case (Cons s ss)
  then obtain stg inp out e fl1 where g: "dict_get s ''stage'' = Some stg"
    and a: "add_entry H now stg inp out (get_default s ''receipt_hash'' JNull) (get_default s ''metadata'' JNull) fl = Ok (e, fl1)"
    and r: "record_stages H now ss fl1 = Ok fl'"
    by (auto simp: bind_ok_Inr get_field_def split: option.splits)
  have "json_wf (get_default s k JNull)" for k
    using Cons.prems(2) obj_wf_get [of s k] by (auto simp: get_default_def split: option.split)
  then have "flight_inv H fl1"
    using add_entry_inv [OF Cons.prems(3) a] Cons.prems(2) obj_wf_get [of s _ stg, OF _ g] by simp
  then show ?case using Cons.IH [OF r] Cons.prems(2) add_entry_Ok(1) [OF a] by simp
qed simp

lemma new_flight_inv: "flight_inv H (new_flight_log agent)"
  by (simp add: flight_inv_def new_flight_log_def flight.last_sig_def)

section \<open>Reading a saved log\<close>

lemma read_jsonl_saved: "list_all obj_wf ds \<Longrightarrow> read_jsonl (map (\<lambda>d. dumps plain_unicode (JObj d)) ds) = Ok ds"
proof (induction ds)
  case (Cons d ds)
  then show ?case using read_jsonl_append [of "[dumps plain_unicode (JObj d)]"] read_jsonl_written [of d]
    by (simp del: read_jsonl.simps(2))
qed simp

lemma load_entries_read:
  "load_entries ls fl = Ok fl' \<Longrightarrow> read_jsonl ls = Ok ds \<Longrightarrow>
     (\<exists>es. list_all2 (\<lambda>d e. flight_from_dict d = Ok e) ds es \<and> fl_entries fl' = fl_entries fl @ es \<and>
        fl_prev_hash fl' = (if es = [] then fl_prev_hash fl else fe_self_hash (last es)) \<and> fl_agent_id fl' = fl_agent_id fl)"
proof (induction ls arbitrary: fl ds)
  case (Cons l ls)
  show ?case
  proof (cases "strip l = []")
    case False
    with Cons.prems obtain d e ds' where d: "loads (strip l) = Some (JObj d)" "flight_from_dict d = Ok e" "ds = d # ds'"
      "read_jsonl ls = Ok ds'"
      and l: "load_entries ls (fl\<lparr>fl_entries := fl_entries fl @ [e], fl_prev_hash := fe_self_hash e\<rparr>) = Ok fl'"
      by (auto simp: Let_def bind_ok_Inr split: option.splits json.splits)
    from Cons.IH [OF l d(4)] obtain es where "list_all2 (\<lambda>d e. flight_from_dict d = Ok e) ds' es"
      "fl_entries fl' = fl_entries fl @ e # es" "fl_prev_hash fl' = (if es = [] then fe_self_hash e else fe_self_hash (last es))"
      "fl_agent_id fl' = fl_agent_id fl" by auto
    then show ?thesis using d by (intro exI [of _ "e # es"]) simp
  qed (use Cons in simp)
qed simp

lemma load_entries_ok:
  "read_jsonl ls = Ok ds \<Longrightarrow> list_all (\<lambda>d. is_ok (flight_from_dict d)) ds \<Longrightarrow> \<exists>fl'. load_entries ls fl = Ok fl'"
proof (induction ls arbitrary: fl ds)
  case (Cons l ls)
  show ?case
  proof (cases "strip l = []")
    case False
    with Cons.prems(1) obtain d ds' where d: "loads (strip l) = Some (JObj d)" "ds = d # ds'" "read_jsonl ls = Ok ds'"
      by (auto simp: Let_def bind_ok_Inr split: option.splits json.splits)
    then show ?thesis using Cons.IH [OF d(3)] Cons.prems(2) False by (cases "flight_from_dict d") simp_all
  qed (use Cons in simp)
qed simp

lemma flight_load_save:
  assumes "flight_inv H fl"
  shows "flight_load (Some (flight_save fl)) = Ok (fl\<lparr>fl_agent_id := []\<rparr>)"
    "verify_flight_log H (Some (flight_save fl)) = Ok []"
proof -
  let ?ds = "map flight_to_dict (fl_entries fl)"
  have w: "list_all obj_wf ?ds" "list_all tagged ?ds" using assms by (auto simp: flight_inv_def flight_wf_def list_all_iff)
  have r: "read_jsonl (flight_save fl) = Ok ?ds" using read_jsonl_saved [OF w(1)] by (simp add: flight_save_def comp_def)
  obtain fl' where l: "load_entries (flight_save fl) (new_flight_log []) = Ok fl'"
    using load_entries_ok [OF r] by (auto simp: list_all_iff)
  from load_entries_read [OF l r] obtain es where es: "list_all2 (\<lambda>e e'. e = e') (fl_entries fl) es"
    "fl_entries fl' = es" "fl_prev_hash fl' = (if es = [] then JStr ''genesis'' else fe_self_hash (last es))" "fl_agent_id fl' = []"
    by (auto simp: list_all2_map1 new_flight_log_def)
  have "es = fl_entries fl" using es(1) by (simp add: list.rel_eq)
  moreover have "fe_self_hash e = JStr (str_of (flight_to_dict e) ''self_hash'')" if "tagged (flight_to_dict e)" for e
    using that by (auto simp: tagged_def str_of_def flight_to_dict_def)
  then have "fl_prev_hash fl = (if fl_entries fl = [] then JStr ''genesis'' else fe_self_hash (last (fl_entries fl)))"
    using assms w(2) by (simp add: flight_inv_def flight.last_sig_def last_map list_all_iff)
  ultimately show "flight_load (Some (flight_save fl)) = Ok (fl\<lparr>fl_agent_id := []\<rparr>)"
    using l es by (simp add: flight_load_def)
  show "verify_flight_log H (Some (flight_save fl)) = Ok []"
    using r w(2) assms by (simp add: verify_flight_log_def verify_lines_Nil flight_inv_def)
qed

lemma flight_from_dict_self: "flight_from_dict d = Ok e \<Longrightarrow> dict_get d ''self_hash'' = Some (fe_self_hash e)"
  by (auto simp: flight_from_dict_def bind_ok_Inr get_field_def split: option.splits)

lemma replay_chain:
  assumes a: "replay_flight H (Some ks) None = Ok q" "rp_valid q" "read_jsonl ks = Ok xs" "list_all obj_wf xs"
  shows "flight.chain_ok H ''genesis'' xs \<and> list_all flight_wf xs \<and> rp_root_hash q = JStr (flight.last_sig ''genesis'' xs)"
proof -
  obtain vs fl where v: "verify_flight_log H (Some ks) = Ok vs" "flight_load (Some ks) = Ok fl" "vs = []" "rp_root_hash q = root_hash fl"
    using a(1,2) by (auto simp: replay_flight_def bind_ok_Inr Let_def)
  then have c: "list_all tagged xs" "flight.chain_ok H ''genesis'' xs"
    using a(3) by (auto simp: verify_flight_log_def verify_lines_Nil)
  obtain es where es: "list_all2 (\<lambda>d e. flight_from_dict d = Ok e) xs es" "fl_entries fl = es"
    using v(2) a(3) load_entries_read [of ks "new_flight_log []" fl xs]
    by (auto simp: flight_load_def new_flight_log_def)
  have "fe_self_hash (last es) = JStr (str_of (last xs) ''self_hash'')" if "xs \<noteq> []"
  proof -
    have "es \<noteq> []" using es(1) that by auto
    then have "flight_from_dict (last xs) = Ok (last es)"
      using es(1) that by (simp add: list_all2_conv_all_nth last_conv_nth)
    moreover have "tagged (last xs)" using c(1) that by (simp add: list_all_iff)
    ultimately show ?thesis using flight_from_dict_self by (fastforce simp: tagged_def str_of_def)
  qed
  moreover have "es = [] \<longleftrightarrow> xs = []" using es(1) by auto
  ultimately have "rp_root_hash q = JStr (flight.last_sig ''genesis'' xs)"
    using v(4) es(2) by (auto simp: root_hash_def flight.last_sig_def)
  with c a(4) show ?thesis by (auto simp: flight_wf_def list_all_iff)
qed

section \<open>Properties\<close>



text \<open>The flight log is tamper evident. Two files of well-formed objects whose replays are valid
  and report the same root hash hold the same entries, in number, order and every field; or two
  different canonical texts, one from each file, have the same digest.\<close>

theorem flight_tamper_evident:
  assumes "replay_flight H (Some ls) None = Ok r" and "rp_valid r" and "read_jsonl ls = Ok ds" and "list_all obj_wf ds"
    and "replay_flight H (Some ls') None = Ok r'" and "rp_valid r'" and "read_jsonl ls' = Ok ds'" and "list_all obj_wf ds'"
    and "rp_root_hash r = rp_root_hash r'"
  shows "list_all2 same_object ds ds' \<or>
    (\<exists>x \<in> set ds. \<exists>y \<in> set ds'. flight_content x \<noteq> flight_content y \<and> H (flight_content x) = H (flight_content y))"
proof -
  from flight.chain_unique [OF genesis_not_hex, of H ds ds'] replay_chain [OF assms(1-4)] replay_chain [OF assms(5-8)] assms(9)
  show ?thesis by (auto simp: flight.clash_def)
qed

theorem flight_tamper_evident_witness:
  "\<exists>d. replay_flight pad_hash (Some [dumps plain_unicode (JObj d)]) None =
       replay_flight pad_hash (Some [[], dumps plain_unicode (JObj d)]) None \<and> same_object d d \<and> d \<noteq> []"
proof -
  obtain fl where fl: "record_flight pad_hash 7 [[(''stage'', JStr ''a''), (''input'', JInt 1), (''output'', JInt 2)]] [] = Ok fl"
    and m: "merkle_root_of_receipts pad_hash (fl\<lparr>fl_agent_id := []\<rparr>) = Ok None"
    by (simp add: record_flight_def add_entry_def Let_def entry_dict_def flight_from_dict_def get_default_def
        merkle_root_of_receipts_def new_flight_log_def)
  have i: "flight_inv pad_hash fl" "length (fl_entries fl) = 1"
    using record_stages_inv [OF fl [unfolded record_flight_def] _ new_flight_inv] by (simp_all add: obj_wf_def new_flight_log_def)
  then obtain e where e: "fl_entries fl = [e]" by (auto simp: length_Suc_conv)
  let ?d = "flight_to_dict e"
  let ?l = "dumps plain_unicode (JObj ?d)"
  have w: "obj_wf ?d" using i(1) e by (simp add: flight_inv_def flight_wf_def)
  have sv: "flight_save fl = [?l]" by (simp add: flight_save_def e)
  note ok = flight_load_save [OF i(1), unfolded sv]
  have "strip [] = []" by (simp add: strip_Nil_iff)
  then have "verify_lines pad_hash 1 p [[], ?l] = verify_lines pad_hash (Suc 1) p [?l]"
    "load_entries [[], ?l] f = load_entries [?l] f" for p f
    by (simp_all del: verify_lines.simps load_entries.simps add: verify_lines.simps(2) [of _ _ _ "[]"] load_entries.simps(2) [of "[]"])
  moreover have "read_jsonl [[], ?l] = Ok [?d]" using read_jsonl_append [of "[[]]" "[?l]"] \<open>strip [] = []\<close>
    by (simp add: read_jsonl_written [OF w] del: read_jsonl.simps(2)) (simp add: \<open>strip [] = []\<close>)
  ultimately obtain r r' where r: "replay_flight pad_hash (Some [?l]) None = Ok r" "rp_valid r"
    and r': "replay_flight pad_hash (Some [[], ?l]) None = Ok r'" "rp_valid r'" and eq: "r = r'"
    and rd: "read_jsonl [[], ?l] = Ok [?d]"
    using ok m verify_lines_Nil [of pad_hash "Suc 1" "''genesis''" "[?l]"] verify_lines_Nil [of pad_hash 1 "''genesis''" "[?l]"]
    by (auto simp: replay_flight_def verify_flight_log_def flight_load_def simp del: verify_lines.simps load_entries.simps read_jsonl.simps)
  have "list_all2 same_object [?d] [?d] \<or> False"
    using flight_tamper_evident [OF r read_jsonl_written [OF w] _ r' rd] w eq by simp
  with r r' eq show ?thesis by (intro exI [of _ ?d]) (simp add: flight_to_dict_def)
qed

end
