(* ===== verification/PolicyEngine.thy ===== *)
theory PolicyEngine
  imports Receipts
begin

text \<open>
  \<^verbatim>\<open>kairo/trust/policy_engine.py\<close>: the policy-as-code engine. A policy is a named function that may
  raise; an engine maps an action to its policies in order of registration. The reason of a result
  is a constructor that carries what the code puts into the message.
\<close>

datatype PolicyDecision = PD_ALLOW | PD_DENY | PD_REQUIRE_HUMAN

record PolicyContext =
  pc_action :: str
  pc_target :: str
  pc_agent_id :: str
  sealed_mode :: bool
  pc_metadata :: jobj

datatype PolicyReason =
    NoPolicyRegistered str
  | ProtectedPath str str
  | DeleteNeedsReview
  | SealedNoNetwork
  | NetworkNeedsReview
  | ClipboardNeedsReview
  | SafeCommand str
  | CommandNeedsReview str
  | LargeExport json
  | SmallExport json

record PolicyResult =
  decision :: PolicyDecision
  reason :: PolicyReason
  policy_name :: str
  pr_context :: PolicyContext

record Policy =
  pf_name :: str
  pf_run :: "PolicyContext \<Rightarrow> PolicyResult result"

type_synonym PolicyEngine = "(str, Policy list) dict"

text \<open>\<^verbatim>\<open>metadata: Dict = None\<close> becomes the empty dictionary.\<close>

definition mk_context :: "str \<Rightarrow> str \<Rightarrow> str \<Rightarrow> bool \<Rightarrow> jobj option \<Rightarrow> PolicyContext" where
  "mk_context act tgt agent is_sealed meta =
     \<lparr>pc_action = act, pc_target = tgt, pc_agent_id = agent, sealed_mode = is_sealed,
      pc_metadata = (case meta of None \<Rightarrow> [] | Some m \<Rightarrow> m)\<rparr>"

definition register :: "str \<Rightarrow> Policy \<Rightarrow> PolicyEngine \<Rightarrow> PolicyEngine" where
  "register act p eng =
     (let eng' = (if act \<notin> set (dict_keys eng) then dict_set act [] eng else eng)
      in dict_set act ((case dict_get eng' act of None \<Rightarrow> [] | Some ps \<Rightarrow> ps) @ [p]) eng')"

fun priority :: "PolicyDecision \<Rightarrow> nat" where
  "priority PD_DENY = 0"
| "priority PD_REQUIRE_HUMAN = 1"
| "priority PD_ALLOW = 2"

fun run_all :: "Policy list \<Rightarrow> PolicyContext \<Rightarrow> PolicyResult list result" where
  "run_all [] ctx = Ok []"
| "run_all (p # ps) ctx = bind_ok (pf_run p ctx) (\<lambda>r. bind_ok (run_all ps ctx) (\<lambda>rs. Ok (r # rs)))"

text \<open>\<^verbatim>\<open>min(results, key=...)\<close>: the first of the smallest.\<close>

fun min_by :: "('a \<Rightarrow> nat) \<Rightarrow> 'a \<Rightarrow> 'a list \<Rightarrow> 'a" where
  "min_by f m [] = m"
| "min_by f m (x # xs) = min_by f (if f x < f m then x else m) xs"

definition evaluate :: "PolicyEngine \<Rightarrow> PolicyContext \<Rightarrow> PolicyResult result" where
  "evaluate eng ctx =
     (case dict_get eng (pc_action ctx) of
        Some (p # ps) \<Rightarrow> bind_ok (run_all (p # ps) ctx) (\<lambda>rs. Ok (min_by (\<lambda>r. priority (decision r)) (hd rs) (tl rs)))
      | _ \<Rightarrow> Ok \<lparr>decision = PD_REQUIRE_HUMAN, reason = NoPolicyRegistered (pc_action ctx),
                 policy_name = ''default'', pr_context = ctx\<rparr>)"

definition list_policies :: "PolicyEngine \<Rightarrow> (str, str list) dict" where
  "list_policies eng = map (\<lambda>(act, ps). (act, map pf_name ps)) eng"

section \<open>Built-in policies\<close>

definition dangerous_patterns :: "str list" where
  "dangerous_patterns = [''/etc/'', ''/boot/'', ''/sys/'', ''/proc/'',
     ''C:'' @ [CHR 0x5C] @ ''Windows'' @ [CHR 0x5C] @ ''System32'']"

fun policy_file_delete_on :: "str list \<Rightarrow> PolicyContext \<Rightarrow> PolicyResult" where
  "policy_file_delete_on [] ctx =
     \<lparr>decision = PD_REQUIRE_HUMAN, reason = DeleteNeedsReview, policy_name = ''file_delete_human_review'', pr_context = ctx\<rparr>"
| "policy_file_delete_on (pat # pats) ctx =
     (if str_in (lower pat) (lower (pc_target ctx)) then
        \<lparr>decision = PD_DENY, reason = ProtectedPath (pc_target ctx) pat, policy_name = ''file_delete_protected_paths'', pr_context = ctx\<rparr>
      else policy_file_delete_on pats ctx)"

definition policy_file_delete :: "PolicyContext \<Rightarrow> PolicyResult result" where
  "policy_file_delete ctx = Ok (policy_file_delete_on dangerous_patterns ctx)"

definition policy_network_access :: "PolicyContext \<Rightarrow> PolicyResult result" where
  "policy_network_access ctx = Ok
     (if sealed_mode ctx then
        \<lparr>decision = PD_DENY, reason = SealedNoNetwork, policy_name = ''network_sealed_deny'', pr_context = ctx\<rparr>
      else
        \<lparr>decision = PD_REQUIRE_HUMAN, reason = NetworkNeedsReview, policy_name = ''network_human_review'', pr_context = ctx\<rparr>)"

definition policy_clipboard_write :: "PolicyContext \<Rightarrow> PolicyResult result" where
  "policy_clipboard_write ctx = Ok
     \<lparr>decision = PD_REQUIRE_HUMAN, reason = ClipboardNeedsReview, policy_name = ''clipboard_human_review'', pr_context = ctx\<rparr>"

definition safe_commands :: "str list" where
  "safe_commands = [''ls'', ''cat'', ''echo'', ''pwd'', ''whoami'', ''date'', ''head'', ''tail'', ''wc'']"

definition policy_code_execution :: "PolicyContext \<Rightarrow> PolicyResult result" where
  "policy_code_execution ctx =
     (let cmd = (case split_ws (pc_target ctx) of [] \<Rightarrow> [] | w # _ \<Rightarrow> w)
      in Ok (if cmd \<in> set safe_commands then
          \<lparr>decision = PD_ALLOW, reason = SafeCommand cmd, policy_name = ''code_execution_safe_list'', pr_context = ctx\<rparr>
        else
          \<lparr>decision = PD_REQUIRE_HUMAN, reason = CommandNeedsReview cmd, policy_name = ''code_execution_human_review'', pr_context = ctx\<rparr>))"

definition policy_data_export :: "PolicyContext \<Rightarrow> PolicyResult result" where
  "policy_data_export ctx =
     (let sz = get_default (pc_metadata ctx) ''size_bytes'' (JInt 0)
      in case num_val sz of
           None \<Rightarrow> Raise (TypeError ''size_bytes'')
         | Some x \<Rightarrow>
             Ok (if x > 10 * 1024 * 1024 then
                 \<lparr>decision = PD_REQUIRE_HUMAN, reason = LargeExport sz, policy_name = ''data_export_large'', pr_context = ctx\<rparr>
               else
                 \<lparr>decision = PD_ALLOW, reason = SmallExport sz, policy_name = ''data_export_small'', pr_context = ctx\<rparr>))"

text \<open>The engine of the module after import.\<close>

definition builtin_engine :: PolicyEngine where
  "builtin_engine = fold (\<lambda>(act, p). register act p)
     [(''file_delete'', \<lparr>pf_name = ''_policy_file_delete'', pf_run = policy_file_delete\<rparr>),
      (''network_access'', \<lparr>pf_name = ''_policy_network_access'', pf_run = policy_network_access\<rparr>),
      (''clipboard_write'', \<lparr>pf_name = ''_policy_clipboard_write'', pf_run = policy_clipboard_write\<rparr>),
      (''code_execution'', \<lparr>pf_name = ''_policy_code_execution'', pf_run = policy_code_execution\<rparr>),
      (''data_export'', \<lparr>pf_name = ''_policy_data_export'', pf_run = policy_data_export\<rparr>)] []"

definition evaluate_policy :: "PolicyContext \<Rightarrow> PolicyResult result" where
  "evaluate_policy ctx = evaluate builtin_engine ctx"

section \<open>Lemmas\<close>

lemma min_by_in: "min_by f m xs \<in> set (m # xs)"
  by (induction f m xs rule: min_by.induct) auto

lemma min_by_le: "x \<in> set (m # xs) \<Longrightarrow> f (min_by f m xs) \<le> f x"
proof (induction f m xs arbitrary: x rule: min_by.induct)
  case (2 f m y ys)
  have h: "f (min_by f (if f y < f m then y else m) ys) \<le> f (if f y < f m then y else m)"
    by (rule "2.IH") simp
  show ?case
  proof (cases "x \<in> set ys")
    case True
    then show ?thesis using "2.IH" by simp
  next
    case False
    then show ?thesis using h "2.prems" by (auto split: if_splits)
  qed
qed simp

lemma run_all_Ok:
  "run_all ps ctx = Ok rs \<Longrightarrow> length rs = length ps \<and> (\<forall>q \<in> set rs. \<exists>p \<in> set ps. pf_run p ctx = Ok q) \<and>
     (\<forall>p \<in> set ps. \<exists>q \<in> set rs. pf_run p ctx = Ok q)"
  by (induction ps arbitrary: rs) (fastforce simp: bind_ok_Inr)+

lemma dict_get_register:
  "dict_get (register act p eng) a =
     (if a = act then Some ((case dict_get eng act of None \<Rightarrow> [] | Some ps \<Rightarrow> ps) @ [p]) else dict_get eng a)"
proof (cases "act \<in> set (dict_keys eng)")
  case True
  then show ?thesis by (simp add: register_def)
next
  case False
  then show ?thesis by (simp add: register_def dict_get_None [THEN iffD2])
qed

definition policies_for :: "PolicyEngine \<Rightarrow> str \<Rightarrow> Policy list" where
  "policies_for eng act = (case dict_get eng act of None \<Rightarrow> [] | Some ps \<Rightarrow> ps)"

lemma policies_for_register: "policies_for (register act p eng) a = policies_for eng a @ (if a = act then [p] else [])"
  by (auto simp: policies_for_def dict_get_register split: option.splits)

lemma evaluate_cases:
  "evaluate eng ctx =
     (if policies_for eng (pc_action ctx) = [] then
        Ok \<lparr>decision = PD_REQUIRE_HUMAN, reason = NoPolicyRegistered (pc_action ctx), policy_name = ''default'', pr_context = ctx\<rparr>
      else bind_ok (run_all (policies_for eng (pc_action ctx)) ctx)
             (\<lambda>rs. Ok (min_by (\<lambda>r. priority (decision r)) (hd rs) (tl rs))))"
  by (simp add: evaluate_def policies_for_def split: option.split list.split)

lemma builtin_policies:
  "dict_get builtin_engine act = (case act of
     _ \<Rightarrow> if act = ''file_delete'' then Some [\<lparr>pf_name = ''_policy_file_delete'', pf_run = policy_file_delete\<rparr>]
       else if act = ''network_access'' then Some [\<lparr>pf_name = ''_policy_network_access'', pf_run = policy_network_access\<rparr>]
       else if act = ''clipboard_write'' then Some [\<lparr>pf_name = ''_policy_clipboard_write'', pf_run = policy_clipboard_write\<rparr>]
       else if act = ''code_execution'' then Some [\<lparr>pf_name = ''_policy_code_execution'', pf_run = policy_code_execution\<rparr>]
       else if act = ''data_export'' then Some [\<lparr>pf_name = ''_policy_data_export'', pf_run = policy_data_export\<rparr>]
       else None)"
  by (auto simp: builtin_engine_def register_def)

lemma policy_file_delete_decision:
  "decision (policy_file_delete_on pats ctx) =
     (if \<exists>p \<in> set pats. str_in (lower p) (lower (pc_target ctx)) then PD_DENY else PD_REQUIRE_HUMAN)"
  by (induction pats) auto

section \<open>Properties\<close>

text \<open>The most restrictive policy decides. Whatever policies an engine has, a result of an
  evaluation is what one of the policies registered for the action returned, or the default that
  asks for a human when there is none; it denies exactly when one of them denies, and allows only
  when there is a policy and all of them allow.\<close>

theorem most_restrictive_wins:
  assumes "evaluate eng ctx = Ok r"
  shows "(policies_for eng (pc_action ctx) = [] \<longrightarrow> decision r = PD_REQUIRE_HUMAN) \<and>
    (policies_for eng (pc_action ctx) \<noteq> [] \<longrightarrow> (\<exists>p \<in> set (policies_for eng (pc_action ctx)). pf_run p ctx = Ok r)) \<and>
    (decision r = PD_DENY \<longleftrightarrow>
       (\<exists>p \<in> set (policies_for eng (pc_action ctx)). \<exists>q. pf_run p ctx = Ok q \<and> decision q = PD_DENY)) \<and>
    (decision r = PD_ALLOW \<longleftrightarrow> policies_for eng (pc_action ctx) \<noteq> [] \<and>
       (\<forall>p \<in> set (policies_for eng (pc_action ctx)). \<exists>q. pf_run p ctx = Ok q \<and> decision q = PD_ALLOW))"
proof (cases "policies_for eng (pc_action ctx) = []")
  case False
  let ?ps = "policies_for eng (pc_action ctx)" and ?f = "\<lambda>r. priority (decision r)"
  obtain rs where rs: "run_all ?ps ctx = Ok rs" "r = min_by ?f (hd rs) (tl rs)"
    using assms False by (auto simp: evaluate_cases bind_ok_Inr)
  note all = run_all_Ok [OF rs(1)]
  then have ne: "rs \<noteq> []" using False by auto
  have r: "r \<in> set rs" using min_by_in [of ?f "hd rs" "tl rs"] ne rs(2) by simp
  have le: "?f r \<le> ?f q" if "q \<in> set rs" for q using min_by_le [of q "hd rs" "tl rs" ?f] ne rs(2) that by simp
  have d: "decision q = PD_DENY \<Longrightarrow> decision r = PD_DENY" if "q \<in> set rs" for q
    using le [OF that] by (cases "decision r") simp_all
  have a: "decision r = PD_ALLOW \<Longrightarrow> decision q = PD_ALLOW" if "q \<in> set rs" for q
    using le [OF that] by (cases "decision q") simp_all
  have "decision r = PD_DENY \<longleftrightarrow> (\<exists>p \<in> set ?ps. \<exists>q. pf_run p ctx = Ok q \<and> decision q = PD_DENY)"
    using all r d by (metis Inr_inject)
  moreover have "decision r = PD_ALLOW \<longleftrightarrow> (\<forall>p \<in> set ?ps. \<exists>q. pf_run p ctx = Ok q \<and> decision q = PD_ALLOW)"
    using all r a by (metis Inr_inject)
  ultimately show ?thesis using False all r by blast
qed (use assms in \<open>auto simp: evaluate_cases\<close>)

theorem most_restrictive_wins_witness:
  "\<exists>r. evaluate (register ''data_export'' \<lparr>pf_name = ''deny'', pf_run = policy_network_access\<rparr> builtin_engine)
       (mk_context ''data_export'' [] [] True None) = Ok r \<and> decision r = PD_DENY"
proof -
  let ?eng = "register ''data_export'' \<lparr>pf_name = ''deny'', pf_run = policy_network_access\<rparr> builtin_engine"
  let ?ctx = "mk_context ''data_export'' [] [] True None"
  have ps: "policies_for ?eng ''data_export'' =
      [\<lparr>pf_name = ''_policy_data_export'', pf_run = policy_data_export\<rparr>, \<lparr>pf_name = ''deny'', pf_run = policy_network_access\<rparr>]"
    by (simp add: policies_for_register) (simp add: policies_for_def builtin_policies)
  have act: "pc_action ?ctx = ''data_export''" by (simp add: mk_context_def)
  obtain r where r: "evaluate ?eng ?ctx = Ok r"
    by (simp add: evaluate_cases act ps policy_data_export_def policy_network_access_def mk_context_def get_default_def num_val_def)
  have "decision r = PD_DENY"
    using most_restrictive_wins [OF r, unfolded act ps] by (simp add: policy_network_access_def mk_context_def)
  with r show ?thesis by blast
qed

text \<open>C32: the built-in policies fail safe. The shipped engine allows an action without a human
  exactly in two cases: a command whose first word is on the safe list, and an export of at most
  10 MB; it denies exactly network access in sealed mode and the deletion of a protected path; and
  it fails only on an export whose size is not a number. Everything else, actions it does not know
  included, needs a human.\<close>

theorem builtin_policies_fail_safe:
  "(\<exists>r. evaluate_policy ctx = Ok r \<and>
      (decision r = PD_ALLOW \<longleftrightarrow>
         pc_action ctx = ''code_execution'' \<and> (\<exists>w ws. split_ws (pc_target ctx) = w # ws \<and> w \<in> set safe_commands) \<or>
         pc_action ctx = ''data_export'' \<and>
           (\<exists>x. num_val (get_default (pc_metadata ctx) ''size_bytes'' (JInt 0)) = Some x \<and> x \<le> 10485760)) \<and>
      (decision r = PD_DENY \<longleftrightarrow>
         pc_action ctx = ''network_access'' \<and> sealed_mode ctx \<or>
         pc_action ctx = ''file_delete'' \<and> (\<exists>p \<in> set dangerous_patterns. str_in (lower p) (lower (pc_target ctx))))) \<or>
   pc_action ctx = ''data_export'' \<and> num_val (get_default (pc_metadata ctx) ''size_bytes'' (JInt 0)) = None \<and>
     evaluate_policy ctx = Raise (TypeError ''size_bytes'')"
proof -
  have unknown: "[] \<notin> set safe_commands" by (simp add: safe_commands_def)
  consider "pc_action ctx = ''file_delete''" | "pc_action ctx = ''network_access''" | "pc_action ctx = ''clipboard_write''"
    | "pc_action ctx = ''code_execution''" | "pc_action ctx = ''data_export''" | "dict_get builtin_engine (pc_action ctx) = None"
    unfolding builtin_policies by fastforce
  then show ?thesis
  proof cases
    case 1
    then show ?thesis
      by (simp add: evaluate_policy_def evaluate_def builtin_policies policy_file_delete_def policy_file_delete_decision)
  next
    case 2
    then show ?thesis by (simp add: evaluate_policy_def evaluate_def builtin_policies policy_network_access_def)
  next
    case 3
    then show ?thesis by (simp add: evaluate_policy_def evaluate_def builtin_policies policy_clipboard_write_def)
  next
    case 4
    then show ?thesis using unknown
      by (cases "split_ws (pc_target ctx)") (simp_all add: evaluate_policy_def evaluate_def builtin_policies policy_code_execution_def)
  next
    case 5
    then show ?thesis
      by (cases "num_val (get_default (pc_metadata ctx) ''size_bytes'' (JInt 0))")
         (auto simp: evaluate_policy_def evaluate_def builtin_policies policy_data_export_def Let_def not_le)
  next
    case 6
    then have "pc_action ctx \<noteq> ''file_delete''" "pc_action ctx \<noteq> ''network_access''"
      "pc_action ctx \<noteq> ''code_execution''" "pc_action ctx \<noteq> ''data_export''" by (auto simp: builtin_policies)
    with 6 show ?thesis by (simp add: evaluate_policy_def evaluate_def)
  qed
qed

text \<open>The safe list looks at the first word of the command line only, so a command that chains an
  arbitrary second one is allowed.\<close>

lemma chained_command_allowed:
  "\<exists>r. evaluate_policy (mk_context ''code_execution'' ''echo x; rm -rf /'' [] True None) = Ok r \<and> decision r = PD_ALLOW"
proof -
  have "split_ws ''echo x; rm -rf /'' = [''echo'', ''x;'', ''rm'', ''-rf'', ''/'']" by code_simp
  then show ?thesis
    by (simp add: evaluate_policy_def evaluate_def mk_context_def builtin_policies policy_code_execution_def safe_commands_def)
qed

end
