(* ===== verification/TimestampAnchor.thy ===== *)
theory TimestampAnchor
  imports FlightRecorder
begin

text \<open>
  \<^verbatim>\<open>kairo/trust/timestamp_anchor.py\<close>: time-stamp anchors of checkpoints. An anchor is built from a
  dictionary without checks, so its fields are JSON values. The environment variables, the clock and
  the Ed25519 package (\<open>avail\<close> says whether it can be imported) are parameters.
\<close>

record TimestampAnchor =
  ta_timestamp :: json
  ta_source :: json
  ta_authority :: json
  ta_checkpoint_hash :: json
  ta_anchor_hash :: json
  ta_signature :: json
  ta_metadata :: json

definition anchor_to_dict :: "TimestampAnchor \<Rightarrow> jobj" where
  "anchor_to_dict a =
     [(''timestamp'', ta_timestamp a), (''source'', ta_source a), (''authority'', ta_authority a),
      (''checkpoint_hash'', ta_checkpoint_hash a), (''anchor_hash'', ta_anchor_hash a),
      (''signature'', ta_signature a), (''metadata'', ta_metadata a)]"

definition anchor_from_dict :: "jobj \<Rightarrow> TimestampAnchor result" where
  "anchor_from_dict d =
     bind_ok (get_field d ''timestamp'') (\<lambda>ts.
     bind_ok (get_field d ''source'') (\<lambda>src.
     Ok \<lparr>ta_timestamp = ts, ta_source = src, ta_authority = get_default d ''authority'' JNull,
         ta_checkpoint_hash = get_default d ''checkpoint_hash'' (JStr []),
         ta_anchor_hash = get_default d ''anchor_hash'' (JStr []), ta_signature = get_default d ''signature'' JNull,
         ta_metadata = get_default d ''metadata'' (JObj [])\<rparr>))"

definition anchor_content :: "jobj \<Rightarrow> bytes" where
  "anchor_content d = utf8 (dumps compact_unicode (sort_json
     (JObj (dict_set ''signature'' JNull (dict_set ''anchor_hash'' (JStr []) d)))))"

definition anchor_hash :: "(bytes \<Rightarrow> bytes) \<Rightarrow> jobj \<Rightarrow> str" where
  "anchor_hash H d = hex (H (anchor_content d))"

record AnchorEnv =
  env_sealed :: bool
  env_offline :: bool

definition anchor_source :: "AnchorEnv \<Rightarrow> str option \<Rightarrow> str" where
  "anchor_source env external_url =
     (if env_sealed env \<or> env_offline env then (if env_sealed env then ''local_sealed'' else ''local_offline'')
      else case external_url of
             Some (u # us) \<Rightarrow> ''local_offline''
           | _ \<Rightarrow> ''local_offline'')"

text \<open>Signing is optional: whatever goes wrong leaves the anchor unsigned.\<close>

definition sign_anchor :: "Ed25519 \<Rightarrow> bool \<Rightarrow> str option \<Rightarrow> str \<Rightarrow> json" where
  "sign_anchor cr avail key_hex ah =
     (case key_hex of
        Some (k # ks) \<Rightarrow>
          (case fromhex (take 64 (k # ks)) of
             Some seed \<Rightarrow> if avail \<and> length seed = 32 then JStr (hex (sgn cr seed (utf8 ah))) else JNull
           | None \<Rightarrow> JNull)
      | _ \<Rightarrow> JNull)"

definition create_timestamp_anchor ::
  "(bytes \<Rightarrow> bytes) \<Rightarrow> Ed25519 \<Rightarrow> bool \<Rightarrow> AnchorEnv \<Rightarrow> int \<Rightarrow> json \<Rightarrow> str option \<Rightarrow> str option \<Rightarrow> TimestampAnchor" where
  "create_timestamp_anchor H cr avail env now ckpt key_hex external_url =
     (let a = \<lparr>ta_timestamp = JInt now, ta_source = JStr (anchor_source env external_url), ta_authority = JNull,
               ta_checkpoint_hash = ckpt, ta_anchor_hash = JStr [], ta_signature = JNull, ta_metadata = JObj []\<rparr>;
          ah = anchor_hash H (anchor_to_dict a)
      in a\<lparr>ta_anchor_hash := JStr ah, ta_signature := sign_anchor cr avail key_hex ah\<rparr>)"

datatype anchor_violation = AnchorHashMismatch | NoCryptography | InvalidSource json | InFuture json int | Before2020 json

definition verify_timestamp_anchor ::
  "(bytes \<Rightarrow> bytes) \<Rightarrow> bool \<Rightarrow> int \<Rightarrow> TimestampAnchor \<Rightarrow> anchor_violation list result" where
  "verify_timestamp_anchor H avail now a =
     (case num_val (ta_timestamp a) of
        None \<Rightarrow> Raise (TypeError ''timestamp'')
      | Some t \<Rightarrow> Ok
          ((if JStr (anchor_hash H (anchor_to_dict a)) \<noteq> ta_anchor_hash a then [AnchorHashMismatch] else [])
         @ (if json_truthy (ta_signature a) \<and> \<not> avail then [NoCryptography] else [])
         @ (if ta_source a \<notin> {JStr ''external'', JStr ''local_offline'', JStr ''local_sealed''} then [InvalidSource (ta_source a)] else [])
         @ (if t > real_of_int now + 300 then [InFuture (ta_timestamp a) now] else [])
         @ (if t < 1577836800 then [Before2020 (ta_timestamp a)] else [])))"

definition anchor_checkpoint ::
  "(bytes \<Rightarrow> bytes) \<Rightarrow> Ed25519 \<Rightarrow> bool \<Rightarrow> AnchorEnv \<Rightarrow> int \<Rightarrow> jobj \<Rightarrow> str list \<Rightarrow> str option \<Rightarrow> str option \<Rightarrow> TimestampAnchor \<times> str list" where
  "anchor_checkpoint H cr avail env now ckpt file key_hex external_url =
     (let a = create_timestamp_anchor H cr avail env now (get_default ckpt ''self_hash'' (JStr [])) key_hex external_url
      in (a, file @ [dumps plain_unicode (JObj (anchor_to_dict a))]))"

section \<open>Lemmas\<close>

lemma anchor_from_to_dict [simp]: "anchor_from_dict (anchor_to_dict a) = Ok a"
  by (simp add: anchor_from_dict_def anchor_to_dict_def get_default_def)

lemma anchor_content_hash_sig [simp]:
  "anchor_content (anchor_to_dict (a\<lparr>ta_anchor_hash := h\<rparr>)) = anchor_content (anchor_to_dict a)"
  "anchor_content (anchor_to_dict (a\<lparr>ta_signature := s\<rparr>)) = anchor_content (anchor_to_dict a)"
  by (simp_all add: anchor_content_def anchor_to_dict_def)

lemma create_anchor_fields:
  fixes H cr avail env now ckpt key url
  defines "a \<equiv> create_timestamp_anchor H cr avail env now ckpt key url"
  shows "ta_timestamp a = JInt now" "ta_source a = JStr (anchor_source env url)" "ta_authority a = JNull"
    "ta_checkpoint_hash a = ckpt" "ta_anchor_hash a = JStr (anchor_hash H (anchor_to_dict a))"
    "ta_metadata a = JObj []"
  unfolding a_def
  by (simp_all add: create_timestamp_anchor_def Let_def) (simp add: anchor_hash_def anchor_content_def anchor_to_dict_def)

lemma anchor_content_inject:
  assumes "anchor_content (anchor_to_dict a) = anchor_content (anchor_to_dict b)"
    "obj_wf (anchor_to_dict a)" "obj_wf (anchor_to_dict b)" "k \<notin> {''anchor_hash'', ''signature''}"
  shows "map_option sort_json (dict_get (anchor_to_dict a) k) = map_option sort_json (dict_get (anchor_to_dict b) k)"
proof -
  let ?e = "\<lambda>d. dict_set ''signature'' JNull (dict_set ''anchor_hash'' (JStr []) d)"
  have wf: "json_wf (JObj (?e (anchor_to_dict x)))" if "obj_wf (anchor_to_dict x)" for x
    using that by (simp add: obj_wf_def anchor_to_dict_def)
  have "sort_json (JObj (?e (anchor_to_dict a))) = sort_json (JObj (?e (anchor_to_dict b)))"
    using assms(1) dumps_sorted_inject [OF _ wf [OF assms(2)] wf [OF assms(3)], of compact_unicode]
    by (simp add: anchor_content_def json_eq_def del: sort_json.simps)
  from sort_json_obj_get [OF this, of k] assms(2-4) show ?thesis by (simp add: obj_wf_def)
qed

lemma anchor_sources: "anchor_source env url \<in> {''local_offline'', ''local_sealed''}"
  by (simp add: anchor_source_def split: option.split list.split)

lemma anchor_signature_unchecked:
  "verify_timestamp_anchor H True now (a\<lparr>ta_signature := s\<rparr>) = verify_timestamp_anchor H True now a"
  by (simp add: verify_timestamp_anchor_def anchor_hash_def split: option.split)

section \<open>Properties\<close>

text \<open>Time-stamp anchors are honest and binding. An anchor of a checkpoint is appended to the
  file as a line that reads back to it, names the checkpoint's hash and the clock it was given, and
  never claims an external source; checked later by a clock that has not run back more than five
  minutes it has no violation. And an anchor without violations that carries the same anchor hash
  agrees with it in time, source, authority, checkpoint and metadata, or the two contents are
  different byte strings with the same digest.\<close>

theorem anchor_honest_and_binding:
  assumes "anchor_checkpoint H cr avail env now ckpt file key url = (a, file')" and "obj_wf ckpt"
    and "1577836800 \<le> now" and "now \<le> later + 300"
  shows "(\<exists>line. file' = file @ [line] \<and> loads line = Some (JObj (anchor_to_dict a)) \<and>
      anchor_from_dict (anchor_to_dict a) = Ok a) \<and>
    ta_checkpoint_hash a = get_default ckpt ''self_hash'' (JStr []) \<and> ta_timestamp a = JInt now \<and>
    ta_source a \<noteq> JStr ''external'' \<and> verify_timestamp_anchor H avail later a = Ok [] \<and>
    (verify_timestamp_anchor H avail later b = Ok [] \<and> obj_wf (anchor_to_dict b) \<and> ta_anchor_hash b = ta_anchor_hash a \<longrightarrow>
      (\<forall>k. k \<notin> {''anchor_hash'', ''signature''} \<longrightarrow>
         map_option sort_json (dict_get (anchor_to_dict b) k) = map_option sort_json (dict_get (anchor_to_dict a) k)) \<or>
      anchor_content (anchor_to_dict b) \<noteq> anchor_content (anchor_to_dict a) \<and>
      H (anchor_content (anchor_to_dict b)) = H (anchor_content (anchor_to_dict a)))"
proof -
  let ?ck = "get_default ckpt ''self_hash'' (JStr [])"
  have a: "a = create_timestamp_anchor H cr avail env now ?ck key url"
    and f: "file' = file @ [dumps plain_unicode (JObj (anchor_to_dict a))]"
    using assms(1) by (auto simp: anchor_checkpoint_def Let_def)
  note c = create_anchor_fields [where H = H and cr = cr and avail = avail and env = env and now = now and ckpt = ?ck and key = key and url = url, folded a]
  have sig: "\<exists>s. ta_signature a = JStr s \<and> avail \<or> ta_signature a = JNull"
    unfolding a by (auto simp: create_timestamp_anchor_def Let_def sign_anchor_def split: option.split list.split)
  have "json_wf ?ck" using obj_wf_get [OF assms(2)] by (auto simp: get_default_def split: option.split)
  moreover have "\<exists>h. ta_anchor_hash a = JStr h" using c(5) by blast
  ultimately have w: "obj_wf (anchor_to_dict a)" using c(1-4,6) sig by (auto simp: anchor_to_dict_def obj_wf_def)
  have l: "loads (dumps plain_unicode (JObj (anchor_to_dict a))) = Some (JObj (anchor_to_dict a))"
    by (rule loads_dumps) (use w in \<open>simp_all add: obj_wf_def\<close>)
  have v: "verify_timestamp_anchor H avail later a = Ok []"
    using c sig assms(3,4) anchor_sources [of env url] by (auto simp: verify_timestamp_anchor_def num_val_def)
  have "H (anchor_content (anchor_to_dict b)) = H (anchor_content (anchor_to_dict a))"
    if "verify_timestamp_anchor H avail later b = Ok []" "ta_anchor_hash b = ta_anchor_hash a"
    using that c(5) by (auto simp: verify_timestamp_anchor_def anchor_hash_def split: option.splits if_splits)
  with anchor_content_inject [of b a, OF _ _ w]
  have bind: "verify_timestamp_anchor H avail later b = Ok [] \<and> obj_wf (anchor_to_dict b) \<and> ta_anchor_hash b = ta_anchor_hash a \<longrightarrow>
      (\<forall>k. k \<notin> {''anchor_hash'', ''signature''} \<longrightarrow>
         map_option sort_json (dict_get (anchor_to_dict b) k) = map_option sort_json (dict_get (anchor_to_dict a) k)) \<or>
      anchor_content (anchor_to_dict b) \<noteq> anchor_content (anchor_to_dict a) \<and>
      H (anchor_content (anchor_to_dict b)) = H (anchor_content (anchor_to_dict a))" by blast
  have ext: "ta_source a \<noteq> JStr ''external''" using c(2) anchor_sources [of env url] by auto
  show ?thesis by (intro conjI exI [of _ "dumps plain_unicode (JObj (anchor_to_dict a))"] f l v ext bind c(1,4) anchor_from_to_dict)
qed

theorem anchor_honest_and_binding_witness:
  "\<exists>a file'. anchor_checkpoint pad_hash echo_scheme True \<lparr>env_sealed = True, env_offline = False\<rparr> 1700000000
       [(''self_hash'', JStr ''ab'')] [] (Some (hex (replicate 32 1))) None = (a, file') \<and>
     ta_checkpoint_hash a = JStr ''ab'' \<and> verify_timestamp_anchor pad_hash True 1700000001 a = Ok []"
proof -
  obtain a file' where a: "anchor_checkpoint pad_hash echo_scheme True \<lparr>env_sealed = True, env_offline = False\<rparr> 1700000000
       [(''self_hash'', JStr ''ab'')] [] (Some (hex (replicate 32 1))) None = (a, file')" by (rule prod.exhaust)
  show ?thesis using anchor_honest_and_binding [OF a, of 1700000001] a by (simp add: obj_wf_def get_default_def)
qed

end
