(* ===== verification/LegalAudit.thy ===== *)
theory LegalAudit
  imports FlightRecorder
begin

text \<open>
  The signed records of a redline run: the hash-chained, Ed25519-signed audit log of
  \<^verbatim>\<open>kairo/oracles/ed25519_audit_log.py\<close> and the zero-egress report of
  \<^verbatim>\<open>kairo/oracles/zero_egress_report.py\<close>. The dataclasses are filled from dictionaries without
  checks, so their fields are JSON values. Identifiers and time stamps of an entry, the hash and the
  signature scheme are parameters; a private key is its seed.
\<close>

section \<open>Audit entries\<close>

record LegalEntry =
  le_entry_id :: json
  le_timestamp :: json
  le_action :: json
  le_doc_hash :: json
  le_edit_summary :: json
  le_prev_hash :: json
  le_entry_hash :: json
  le_signature :: json

definition prelim_payload :: "LegalEntry \<Rightarrow> jobj" where
  "prelim_payload e =
     [(''entry_id'', le_entry_id e), (''timestamp'', le_timestamp e), (''action'', le_action e),
      (''doc_hash'', le_doc_hash e), (''edit_summary'', le_edit_summary e), (''prev_hash'', le_prev_hash e)]"

definition prelim_bytes :: "LegalEntry \<Rightarrow> bytes" where
  "prelim_bytes e = utf8 (dumps compact (sort_json (JObj (prelim_payload e))))"

definition legal_content_bytes :: "LegalEntry \<Rightarrow> bytes" where
  "legal_content_bytes e = utf8 (dumps compact (sort_json (JObj (prelim_payload e @ [(''entry_hash'', le_entry_hash e)]))))"

record LegalLog =
  ll_private_key :: bytes
  ll_entries :: "LegalEntry list"
  ll_last_hash :: json

definition new_legal_log :: "bytes \<Rightarrow> LegalLog" where
  "new_legal_log seed = \<lparr>ll_private_key = seed, ll_entries = [], ll_last_hash = JStr []\<rparr>"

definition make_entry ::
  "(bytes \<Rightarrow> bytes) \<Rightarrow> Ed25519 \<Rightarrow> str \<times> str \<Rightarrow> str \<Rightarrow> json \<Rightarrow> json \<Rightarrow> LegalLog \<Rightarrow> LegalEntry \<times> LegalLog" where
  "make_entry H cr stamp act dh summary lg =
     (let e = \<lparr>le_entry_id = JStr (fst stamp), le_timestamp = JStr (snd stamp), le_action = JStr act, le_doc_hash = dh,
               le_edit_summary = summary, le_prev_hash = ll_last_hash lg, le_entry_hash = JStr [], le_signature = JStr []\<rparr>;
          e1 = e\<lparr>le_entry_hash := JStr (hex (H (prelim_bytes e)))\<rparr>;
          e2 = e1\<lparr>le_signature := JStr (hex (sgn cr (ll_private_key lg) (legal_content_bytes e1)))\<rparr>
      in (e2, lg\<lparr>ll_entries := ll_entries lg @ [e2], ll_last_hash := le_entry_hash e2\<rparr>))"

definition log_run_started ::
  "(bytes \<Rightarrow> bytes) \<Rightarrow> Ed25519 \<Rightarrow> str \<times> str \<Rightarrow> json \<Rightarrow> json \<Rightarrow> LegalLog \<Rightarrow> LegalEntry \<times> LegalLog" where
  "log_run_started H cr stamp dh pid lg = make_entry H cr stamp ''run_started'' dh (JObj [(''playbook_id'', pid)]) lg"

definition log_edit ::
  "(bytes \<Rightarrow> bytes) \<Rightarrow> Ed25519 \<Rightarrow> str \<times> str \<Rightarrow> json \<Rightarrow> json \<Rightarrow> json \<Rightarrow> json \<Rightarrow> json \<Rightarrow> json \<Rightarrow> json \<Rightarrow> LegalLog \<Rightarrow> LegalEntry \<times> LegalLog" where
  "log_edit H cr stamp dh cid lbl old new cit rat lg = make_entry H cr stamp ''edit_applied'' dh
     (JObj [(''clause_id'', cid), (''clause_label'', lbl), (''old_text'', old), (''new_text'', new),
            (''citation'', cit), (''rationale'', rat)]) lg"

definition log_flag ::
  "(bytes \<Rightarrow> bytes) \<Rightarrow> Ed25519 \<Rightarrow> str \<times> str \<Rightarrow> json \<Rightarrow> json \<Rightarrow> json \<Rightarrow> json \<Rightarrow> LegalLog \<Rightarrow> LegalEntry \<times> LegalLog" where
  "log_flag H cr stamp dh cid lbl rsn lg = make_entry H cr stamp ''clause_flagged'' dh
     (JObj [(''clause_id'', cid), (''clause_label'', lbl), (''reason'', rsn)]) lg"

definition log_run_completed ::
  "(bytes \<Rightarrow> bytes) \<Rightarrow> Ed25519 \<Rightarrow> str \<times> str \<Rightarrow> json \<Rightarrow> json \<Rightarrow> json \<Rightarrow> json \<Rightarrow> LegalLog \<Rightarrow> LegalEntry \<times> LegalLog" where
  "log_run_completed H cr stamp dh n_edits flags inject lg = make_entry H cr stamp ''run_completed'' dh
     (JObj [(''total_edits'', n_edits), (''total_flagged'', flags), (''injection_detected'', inject)]) lg"

definition legal_entry_dict :: "LegalEntry \<Rightarrow> jobj" where
  "legal_entry_dict e =
     [(''entry_id'', le_entry_id e), (''timestamp'', le_timestamp e), (''action'', le_action e), (''doc_hash'', le_doc_hash e),
      (''edit_summary'', le_edit_summary e), (''prev_hash'', le_prev_hash e), (''entry_hash'', le_entry_hash e),
      (''signature'', le_signature e)]"

definition legal_to_json :: "LegalEntry list \<Rightarrow> str" where
  "legal_to_json es = dumps indent2 (JObj [(''entries'', JList (map (\<lambda>e. JObj (legal_entry_dict e)) es))])"

definition legal_entry_of :: "json \<Rightarrow> LegalEntry result" where
  "legal_entry_of j = (case j of
     JObj d \<Rightarrow>
       bind_ok (get_field d ''entry_id'') (\<lambda>i.
       bind_ok (get_field d ''timestamp'') (\<lambda>t.
       bind_ok (get_field d ''action'') (\<lambda>a.
       bind_ok (get_field d ''doc_hash'') (\<lambda>dh.
       bind_ok (get_field d ''edit_summary'') (\<lambda>s.
       bind_ok (get_field d ''prev_hash'') (\<lambda>p.
       bind_ok (get_field d ''entry_hash'') (\<lambda>h.
       bind_ok (get_field d ''signature'') (\<lambda>sg.
       Ok \<lparr>le_entry_id = i, le_timestamp = t, le_action = a, le_doc_hash = dh, le_edit_summary = s,
           le_prev_hash = p, le_entry_hash = h, le_signature = sg\<rparr>))))))))
   | _ \<Rightarrow> Raise (TypeError ''indices''))"

fun legal_entries_of :: "json list \<Rightarrow> LegalEntry list result" where
  "legal_entries_of [] = Ok []"
| "legal_entries_of (j # js) = bind_ok (legal_entry_of j) (\<lambda>e. bind_ok (legal_entries_of js) (\<lambda>es. Ok (e # es)))"

definition entries_from_json :: "str \<Rightarrow> LegalEntry list result" where
  "entries_from_json s = (case loads s of
     None \<Rightarrow> Raise (ValueError ''invalid JSON'')
   | Some (JObj d) \<Rightarrow> bind_ok (get_field d ''entries'') (\<lambda>v. case v of
       JList js \<Rightarrow> legal_entries_of js
     | JObj [] \<Rightarrow> Ok []
     | JStr [] \<Rightarrow> Ok []
     | _ \<Rightarrow> Raise (TypeError ''entries''))
   | Some _ \<Rightarrow> Raise (TypeError ''indices''))"

section \<open>Verification\<close>

definition ed_verify :: "Ed25519 \<Rightarrow> bytes \<Rightarrow> json \<Rightarrow> bytes \<Rightarrow> bool result" where
  "ed_verify cr pk sig_hex data = (case sig_hex of
     JStr s \<Rightarrow> Ok (case fromhex s of None \<Rightarrow> False | Some sg \<Rightarrow> vfy cr pk data sg)
   | _ \<Rightarrow> Raise (TypeError ''fromhex() argument must be str''))"

definition legal_verify_entry :: "Ed25519 \<Rightarrow> bytes \<Rightarrow> LegalEntry \<Rightarrow> bool result" where
  "legal_verify_entry cr pk e = ed_verify cr pk (le_signature e) (legal_content_bytes e)"

fun legal_verify_from ::
  "(bytes \<Rightarrow> bytes) \<Rightarrow> Ed25519 \<Rightarrow> bytes \<Rightarrow> json \<Rightarrow> LegalEntry list \<Rightarrow> bool result" where
  "legal_verify_from H cr pk expected [] = Ok True"
| "legal_verify_from H cr pk expected (e # es) =
     bind_ok (legal_verify_entry cr pk e) (\<lambda>ok.
       if \<not> ok then Ok False
       else if \<not> json_eq (le_prev_hash e) expected then Ok False
       else if le_entry_hash e \<noteq> JStr (hex (H (prelim_bytes e))) then Ok False
       else legal_verify_from H cr pk (le_entry_hash e) es)"

definition legal_verify_chain :: "(bytes \<Rightarrow> bytes) \<Rightarrow> Ed25519 \<Rightarrow> bytes \<Rightarrow> LegalEntry list \<Rightarrow> bool result" where
  "legal_verify_chain H cr pk es = legal_verify_from H cr pk (JStr []) es"

section \<open>Zero-egress report\<close>

record ZeroEgressReport =
  zr_timestamp :: json
  zr_doc_hash :: json
  zr_playbook_id :: json
  zr_total_edits :: json
  zr_total_flagged :: json
  zr_injection_detected :: json
  zr_audit_log_hash :: json
  zr_offline_attestation :: json
  zr_report_hash :: json
  zr_signature :: json

definition report_prelim :: "ZeroEgressReport \<Rightarrow> jobj" where
  "report_prelim r =
     [(''timestamp'', zr_timestamp r), (''doc_hash'', zr_doc_hash r), (''playbook_id'', zr_playbook_id r),
      (''total_edits'', zr_total_edits r), (''total_flagged'', zr_total_flagged r),
      (''injection_detected'', zr_injection_detected r), (''audit_log_hash'', zr_audit_log_hash r),
      (''offline_attestation'', zr_offline_attestation r)]"

definition report_content_bytes :: "ZeroEgressReport \<Rightarrow> bytes" where
  "report_content_bytes r = utf8 (dumps compact (sort_json (JObj (report_prelim r @ [(''report_hash'', zr_report_hash r)]))))"

definition report_dict :: "ZeroEgressReport \<Rightarrow> jobj" where
  "report_dict r = report_prelim r @ [(''report_hash'', zr_report_hash r), (''signature'', zr_signature r)]"

definition report_to_json :: "ZeroEgressReport \<Rightarrow> str" where
  "report_to_json r = dumps indent2 (JObj (report_dict r))"

definition OFFLINE_ATTESTATION :: str where
  "OFFLINE_ATTESTATION =
     ''This redline run executed fully on-device with no LLM calls, no HTTP requests, '' @
     ''no DNS lookups, and no network connections of any kind. The pipeline code path '' @
     ''contains no network client code. This attestation is reproducible by inspecting '' @
     ''the source and re-running the pipeline offline.''"

definition generate_zero_egress_report ::
  "(bytes \<Rightarrow> bytes) \<Rightarrow> Ed25519 \<Rightarrow> str \<Rightarrow> json \<Rightarrow> json \<Rightarrow> json \<Rightarrow> json \<Rightarrow> json \<Rightarrow> str \<Rightarrow> bytes \<Rightarrow> ZeroEgressReport" where
  "generate_zero_egress_report H cr now dh pid n_edits flags inject audit_json seed =
     (let r = \<lparr>zr_timestamp = JStr now, zr_doc_hash = dh, zr_playbook_id = pid, zr_total_edits = n_edits,
               zr_total_flagged = flags, zr_injection_detected = inject, zr_audit_log_hash = JStr (hex (H (utf8 audit_json))),
               zr_offline_attestation = JStr OFFLINE_ATTESTATION, zr_report_hash = JStr [], zr_signature = JStr []\<rparr>;
          r1 = r\<lparr>zr_report_hash := JStr (hex (H (utf8 (dumps compact (sort_json (JObj (report_prelim r)))))))\<rparr>
      in r1\<lparr>zr_signature := JStr (hex (sgn cr seed (report_content_bytes r1)))\<rparr>)"

definition verify_zero_egress_report :: "Ed25519 \<Rightarrow> bytes \<Rightarrow> ZeroEgressReport \<Rightarrow> bool result" where
  "verify_zero_egress_report cr pk r = ed_verify cr pk (zr_signature r) (report_content_bytes r)"

definition report_from_json :: "str \<Rightarrow> ZeroEgressReport result" where
  "report_from_json s = (case loads s of
     None \<Rightarrow> Raise (ValueError ''invalid JSON'')
   | Some (JObj d) \<Rightarrow>
       bind_ok (get_field d ''timestamp'') (\<lambda>t.
       bind_ok (get_field d ''doc_hash'') (\<lambda>dh.
       bind_ok (get_field d ''playbook_id'') (\<lambda>p.
       bind_ok (get_field d ''total_edits'') (\<lambda>e.
       bind_ok (get_field d ''total_flagged'') (\<lambda>f.
       bind_ok (get_field d ''injection_detected'') (\<lambda>i.
       bind_ok (get_field d ''audit_log_hash'') (\<lambda>a.
       bind_ok (get_field d ''offline_attestation'') (\<lambda>off.
       bind_ok (get_field d ''report_hash'') (\<lambda>rh.
       bind_ok (get_field d ''signature'') (\<lambda>sg.
       Ok \<lparr>zr_timestamp = t, zr_doc_hash = dh, zr_playbook_id = p, zr_total_edits = e, zr_total_flagged = f,
           zr_injection_detected = i, zr_audit_log_hash = a, zr_offline_attestation = off,
           zr_report_hash = rh, zr_signature = sg\<rparr>))))))))))
   | Some _ \<Rightarrow> Raise (TypeError ''indices''))"

section \<open>The chain of entries\<close>

definition jstr :: "json \<Rightarrow> str" where
  "jstr v = (case v of JStr s \<Rightarrow> s | _ \<Rightarrow> [])"

definition legal_wf :: "LegalEntry \<Rightarrow> bool" where
  "legal_wf e \<longleftrightarrow> obj_wf (legal_entry_dict e) \<and> (\<exists>s. le_prev_hash e = JStr s) \<and> (\<exists>s. le_entry_hash e = JStr s)"

text \<open>Equality of every signed field; the signature itself is not compared.\<close>

definition same_legal :: "LegalEntry \<Rightarrow> LegalEntry \<Rightarrow> bool" where
  "same_legal x y \<longleftrightarrow> json_eq (le_entry_id x) (le_entry_id y) \<and> json_eq (le_timestamp x) (le_timestamp y) \<and>
     json_eq (le_action x) (le_action y) \<and> json_eq (le_doc_hash x) (le_doc_hash y) \<and>
     json_eq (le_edit_summary x) (le_edit_summary y) \<and> le_prev_hash x = le_prev_hash y \<and>
     le_entry_hash x = le_entry_hash y"

lemma prelim_wf: "legal_wf e \<Longrightarrow> json_wf (JObj (prelim_payload e))"
  by (auto simp: legal_wf_def obj_wf_def legal_entry_dict_def prelim_payload_def)

lemma prelim_fields:
  assumes "legal_wf x" "legal_wf y" "prelim_bytes x = prelim_bytes y"
  shows "map_option sort_json (dict_get (prelim_payload x) k) = map_option sort_json (dict_get (prelim_payload y) k)"
proof -
  have "sort_json (JObj (prelim_payload x)) = sort_json (JObj (prelim_payload y))"
    using assms(3) dumps_sorted_inject [OF _ prelim_wf [OF assms(1)] prelim_wf [OF assms(2)], of compact]
    by (simp add: prelim_bytes_def json_eq_def del: sort_json.simps)
  from sort_json_obj_get [OF this, of k] show ?thesis by (simp add: prelim_payload_def)
qed

interpretation legal: mac_chain "\<lambda>c. hex (H c)" prelim_bytes "\<lambda>e. jstr (le_entry_hash e)" "\<lambda>e. jstr (le_prev_hash e)"
  "[]" legal_wf same_legal
  for H
proof
  fix x y assume w: "legal_wf x" "legal_wf y" and c: "prelim_bytes x = prelim_bytes y"
  note f = prelim_fields [OF w c]
  have p: "le_prev_hash x = le_prev_hash y"
    using f [of "''prev_hash''"] w by (auto simp: prelim_payload_def legal_wf_def)
  then show "jstr (le_prev_hash x) = jstr (le_prev_hash y)" by simp
  show "same_legal x y" if "jstr (le_entry_hash x) = jstr (le_entry_hash y)"
    using p that w f [of "''entry_id''"] f [of "''timestamp''"] f [of "''action''"] f [of "''doc_hash''"] f [of "''edit_summary''"]
    by (auto simp: same_legal_def json_eq_def prelim_payload_def legal_wf_def jstr_def)
qed

definition legal_signed :: "Ed25519 \<Rightarrow> bytes \<Rightarrow> LegalEntry \<Rightarrow> bool" where
  "legal_signed cr pk e \<longleftrightarrow> legal_verify_entry cr pk e = Ok True"

lemma legal_verify_from_iff:
  "legal_verify_from H cr pk (JStr p) es = Ok True \<longleftrightarrow>
     list_all (legal_signed cr pk) es \<and> list_all (\<lambda>e. \<exists>s t. le_prev_hash e = JStr s \<and> le_entry_hash e = JStr t) es \<and>
     legal.chain_ok H p es"
proof (induction es arbitrary: p)
  case (Cons e es)
  show ?case
  proof (cases "le_entry_hash e = JStr (hex (H (prelim_bytes e)))")
    case True
    have p: "le_prev_hash e = JStr p \<longleftrightarrow> (\<exists>s. le_prev_hash e = JStr s) \<and> jstr (le_prev_hash e) = p" by (auto simp: jstr_def)
    have "legal_verify_from H cr pk (JStr p) (e # es) = Ok True \<longleftrightarrow>
        legal_signed cr pk e \<and> le_prev_hash e = JStr p \<and> legal_verify_from H cr pk (JStr (hex (H (prelim_bytes e)))) es = Ok True"
      by (auto simp: bind_ok_Inr legal_signed_def json_eq_JStr True)
    moreover have "jstr (le_entry_hash e) = hex (H (prelim_bytes e))" by (simp add: True jstr_def)
    ultimately show ?thesis using True unfolding Cons p by auto
  next
    case False
    then have "\<not> (\<exists>t. le_entry_hash e = JStr t \<and> jstr (le_entry_hash e) = hex (H (prelim_bytes e)))" by (auto simp: jstr_def)
    with False show ?thesis by (auto simp: bind_ok_Inr)
  qed
qed simp

section \<open>Logs that are written\<close>

inductive legal_reachable :: "(bytes \<Rightarrow> bytes) \<Rightarrow> Ed25519 \<Rightarrow> bytes \<Rightarrow> LegalLog \<Rightarrow> bool" for H cr seed where
  start: "legal_reachable H cr seed (new_legal_log seed)"
| entry: "legal_reachable H cr seed lg \<Longrightarrow> json_wf dh \<Longrightarrow> json_wf summary \<Longrightarrow>
     legal_reachable H cr seed (snd (make_entry H cr stamp act dh summary lg))"

definition legal_inv :: "(bytes \<Rightarrow> bytes) \<Rightarrow> Ed25519 \<Rightarrow> bytes \<Rightarrow> LegalLog \<Rightarrow> bool" where
  "legal_inv H cr seed lg \<longleftrightarrow> ll_private_key lg = seed \<and> list_all legal_wf (ll_entries lg) \<and>
     list_all (legal_signed cr (pub cr seed)) (ll_entries lg) \<and> legal.chain_ok H [] (ll_entries lg) \<and>
     ll_last_hash lg = JStr (legal.last_sig [] (ll_entries lg))"

lemma make_entry_inv:
  assumes "legal_inv H cr seed lg" "ed25519_correct cr" "length seed = 32" "json_wf dh" "json_wf summary"
  shows "legal_inv H cr seed (snd (make_entry H cr stamp act dh summary lg))"
proof -
  let ?p = "ll_last_hash lg"
  define e where "e = fst (make_entry H cr stamp act dh summary lg)"
  have lg: "snd (make_entry H cr stamp act dh summary lg) = lg\<lparr>ll_entries := ll_entries lg @ [e], ll_last_hash := le_entry_hash e\<rparr>"
    by (simp add: e_def make_entry_def Let_def)
  have p: "?p = JStr (legal.last_sig [] (ll_entries lg))" "ll_private_key lg = seed" using assms(1) by (simp_all add: legal_inv_def)
  have f: "le_prev_hash e = ?p" "le_entry_hash e = JStr (hex (H (prelim_bytes e)))"
    "le_signature e = JStr (hex (sgn cr seed (legal_content_bytes e)))"
    by (simp_all add: e_def make_entry_def Let_def prelim_bytes_def legal_content_bytes_def prelim_payload_def p)
  have "legal_wf e" using assms(4,5) p
    by (simp add: e_def make_entry_def Let_def legal_wf_def obj_wf_def legal_entry_dict_def)
  moreover have "legal_signed cr (pub cr seed) e"
    using assms(2,3) f(3) by (simp add: legal_signed_def legal_verify_entry_def ed_verify_def ed25519_correct_def)
  moreover have "jstr (le_entry_hash e) = hex (H (prelim_bytes e))" "jstr (le_prev_hash e) = legal.last_sig [] (ll_entries lg)"
    using f p by (simp_all add: jstr_def)
  ultimately show ?thesis using assms(1) f(2) by (simp add: lg legal_inv_def legal.chain_ok_snoc)
qed

lemma legal_reachable_inv:
  "legal_reachable H cr seed lg \<Longrightarrow> ed25519_correct cr \<Longrightarrow> length seed = 32 \<Longrightarrow> legal_inv H cr seed lg"
  by (induction rule: legal_reachable.induct) (simp_all add: make_entry_inv, simp add: legal_inv_def new_legal_log_def legal.last_sig_def)

lemma legal_inv_verifies: "legal_inv H cr seed lg \<Longrightarrow> legal_verify_chain H cr (pub cr seed) (ll_entries lg) = Ok True"
  by (auto simp: legal_inv_def legal_verify_chain_def legal_verify_from_iff legal_wf_def list_all_iff)

lemma legal_entry_of_dict [simp]: "legal_entry_of (JObj (legal_entry_dict e)) = Ok e"
  by (simp add: legal_entry_of_def legal_entry_dict_def)

lemma legal_entries_of_dicts [simp]: "legal_entries_of (map (\<lambda>e. JObj (legal_entry_dict e)) es) = Ok es"
  by (induction es) simp_all

lemma legal_json_round_trip: "list_all legal_wf es \<Longrightarrow> entries_from_json (legal_to_json es) = Ok es"
proof -
  assume a: "list_all legal_wf es"
  let ?j = "JObj [(''entries'', JList (map (\<lambda>e. JObj (legal_entry_dict e)) es))]"
  have "json_wf ?j" using a by (auto simp: list_all_iff legal_wf_def obj_wf_def simp del: json_wf.simps(7))
  then have "loads (dumps indent2 ?j) = Some ?j" by (intro loads_dumps) simp_all
  then show ?thesis by (simp add: entries_from_json_def legal_to_json_def)
qed

lemma report_verifies:
  "ed25519_correct cr \<Longrightarrow> length seed = 32 \<Longrightarrow>
     verify_zero_egress_report cr (pub cr seed) (generate_zero_egress_report H cr now dh pid ne fl inject aj seed) = Ok True"
  by (simp add: verify_zero_egress_report_def generate_zero_egress_report_def Let_def ed_verify_def ed25519_correct_def
      report_content_bytes_def report_prelim_def)

lemma report_round_trip: "obj_wf (report_dict r) \<Longrightarrow> report_from_json (report_to_json r) = Ok r"
proof -
  assume "obj_wf (report_dict r)"
  then have "loads (dumps indent2 (JObj (report_dict r))) = Some (JObj (report_dict r))"
    by (intro loads_dumps) (simp_all add: obj_wf_def)
  then show ?thesis by (simp add: report_from_json_def report_to_json_def report_dict_def report_prelim_def)
qed

lemma legal_verify_chain_iff:
  "legal_verify_chain H cr pk es = Ok True \<and> list_all (\<lambda>e. obj_wf (legal_entry_dict e)) es \<longleftrightarrow>
     list_all (legal_signed cr pk) es \<and> list_all legal_wf es \<and> legal.chain_ok H [] es"
  by (auto simp: legal_verify_chain_def legal_verify_from_iff legal_wf_def list_all_iff)

section \<open>Tamper evidence\<close>

text \<open>The legal audit log is tamper evident. Two well-formed logs that pass verification and end in
  the same entry hash agree entry by entry in every signed field, in number and order; or two
  different hashed texts, one from each log, have the same digest. The signatures need not come from
  the same key.\<close>

theorem legal_tamper_evident:
  assumes "legal_verify_chain H cr pk es = Ok True" and "list_all (\<lambda>e. obj_wf (legal_entry_dict e)) es" and "es \<noteq> []"
    and "legal_verify_chain H cr pk' es' = Ok True" and "list_all (\<lambda>e. obj_wf (legal_entry_dict e)) es'" and "es' \<noteq> []"
    and "le_entry_hash (last es) = le_entry_hash (last es')" and "\<forall>c. H c \<noteq> []"
  shows "list_all2 same_legal es es' \<or>
    (\<exists>x \<in> set es. \<exists>y \<in> set es'. prelim_bytes x \<noteq> prelim_bytes y \<and> H (prelim_bytes x) = H (prelim_bytes y))"
proof -
  note v = legal_verify_chain_iff [THEN iffD1, OF conjI]
  have "list_all2 same_legal es es' \<or> legal.clash H es es'"
    by (rule legal.chain_unique)
       (use assms(8) v [OF assms(1,2)] v [OF assms(4,5)] assms(3,6,7) in \<open>auto simp: legal.last_sig_def\<close>)
  then show ?thesis by (auto simp: legal.clash_def)
qed

theorem legal_tamper_evident_witness:
  "\<exists>es. length es = 1 \<and> legal_verify_chain pad_hash echo_scheme (replicate 32 1) es = Ok True \<and> list_all2 same_legal es es"
proof -
  define l where "l = snd (make_entry pad_hash echo_scheme (''a'', ''t'') ''x'' JNull JNull (new_legal_log (replicate 32 1)))"
  have "legal_reachable pad_hash echo_scheme (replicate 32 1) l"
    unfolding l_def by (intro legal_reachable.intros) simp_all
  moreover have ec: "ed25519_correct echo_scheme" "pub echo_scheme s = s" for s by (simp_all add: ed25519_correct_def echo_scheme_def)
  ultimately have i: "legal_inv pad_hash echo_scheme (replicate 32 1) l" by (simp add: legal_reachable_inv)
  have n: "length (ll_entries l) = 1" by (simp add: l_def make_entry_def Let_def new_legal_log_def)
  have w: "list_all (\<lambda>e. obj_wf (legal_entry_dict e)) (ll_entries l)" using i by (auto simp: legal_inv_def legal_wf_def list_all_iff)
  have h: "\<forall>c. pad_hash c \<noteq> []" using pad_hash_32 by (metis digest32_def list.size(3) zero_neq_numeral)
  note v = legal_inv_verifies [OF i, unfolded ec(2)]
  have "ll_entries l \<noteq> []" using n by auto
  from legal_tamper_evident [OF v w this v w this refl h] v n show ?thesis
    by (intro exI [of _ "ll_entries l"]) (auto simp: length_Suc_conv)
qed

end
