(* ===== verification/RedlinePipeline.thy ===== *)
theory RedlinePipeline
  imports LegalAudit
begin

text \<open>
  \<^verbatim>\<open>kairo/oracles/legal_redline_pipeline.py\<close>: the offline redline run. A contract is the list of its
  paragraph texts as python-docx gives them, a playbook the text of its file; a missing file is
  \<open>None\<close>. Playbook values are used without checks, so they stay JSON values; \<open>ps\<close> is Python's
  \<^verbatim>\<open>str\<close> on a value that is no text. Parameters: the tracked-changes writer (it edits OOXML
  through python-docx) by what it reports, the injection scan, the hash, the signature scheme, the
  identifier and time stamp of the i-th audit entry. On the modelled text NFC normalisation is the
  identity, since every code point up to U+00FF is its own composed form.
\<close>

section \<open>Normalised text\<close>

text \<open>\<^verbatim>\<open>re.sub(r"\s+", " ", text)\<close>.\<close>

function fold_ws :: "str \<Rightarrow> str" where
  "fold_ws [] = []"
| "fold_ws (c # cs) = (if is_space c then CHR '' '' # fold_ws (dropWhile is_space cs) else c # fold_ws cs)"
  by pat_completeness auto
termination
  by (relation "measure length") (auto simp: less_Suc_eq_le length_dropWhile_le)

definition text_of :: "(json \<Rightarrow> str) \<Rightarrow> json \<Rightarrow> str" where
  "text_of ps v = (case v of JStr s \<Rightarrow> s | JNull \<Rightarrow> [] | _ \<Rightarrow> ps v)"

definition norm_text :: "str \<Rightarrow> str" where
  "norm_text s = strip (fold_ws s)"

definition norm_json :: "(json \<Rightarrow> str) \<Rightarrow> json \<Rightarrow> str" where
  "norm_json ps v = norm_text (text_of ps v)"

section \<open>Data\<close>

record AppliedEdit =
  ap_clause_id :: json
  ap_clause_label :: json
  ap_old_text :: json
  ap_new_text :: json
  ap_citation :: json
  ap_rationale :: json

record FlaggedClause =
  fc_clause_id :: json
  fc_clause_label :: json
  fc_reason :: str

record RedlineResult =
  rr_ok :: bool
  rr_output_path :: str
  rr_applied_edits :: "AppliedEdit list"
  rr_flagged_clauses :: "FlaggedClause list"
  rr_injection_detected :: bool
  rr_injection_score :: real
  rr_injection_patterns :: "str list"
  rr_error :: str
  rr_audit_log_json :: str
  rr_egress_report_json :: str
  rr_doc_hash :: str

definition blank_result :: RedlineResult where
  "blank_result = \<lparr>rr_ok = False, rr_output_path = [], rr_applied_edits = [], rr_flagged_clauses = [],
     rr_injection_detected = False, rr_injection_score = 0, rr_injection_patterns = [], rr_error = [],
     rr_audit_log_json = [], rr_egress_report_json = [], rr_doc_hash = []\<rparr>"

definition applied_json :: "AppliedEdit \<Rightarrow> json" where
  "applied_json e = JObj [(''clause_id'', ap_clause_id e), (''clause_label'', ap_clause_label e), (''old_text'', ap_old_text e),
     (''new_text'', ap_new_text e), (''citation'', ap_citation e), (''rationale'', ap_rationale e)]"

definition flagged_json :: "FlaggedClause \<Rightarrow> json" where
  "flagged_json f = JObj [(''clause_id'', fc_clause_id f), (''clause_label'', fc_clause_label f), (''reason'', JStr (fc_reason f))]"

definition redline_to_dict :: "(real \<Rightarrow> str) \<Rightarrow> RedlineResult \<Rightarrow> json" where
  "redline_to_dict fr r = JObj
     [(''ok'', JBool (rr_ok r)), (''output_path'', JStr (rr_output_path r)),
      (''applied_edits'', JList (map applied_json (rr_applied_edits r))),
      (''flagged_clauses'', JList (map flagged_json (rr_flagged_clauses r))),
      (''injection_detected'', JBool (rr_injection_detected r)), (''injection_score'', JFloat (fr (rr_injection_score r))),
      (''injection_patterns'', JList (map JStr (rr_injection_patterns r))), (''error'', JStr (rr_error r)),
      (''doc_hash'', JStr (rr_doc_hash r)), (''audit_log_json'', JStr (rr_audit_log_json r)),
      (''egress_report_json'', JStr (rr_egress_report_json r))]"

section \<open>Steps\<close>

definition load_playbook :: "str \<Rightarrow> (jobj \<times> json list) result" where
  "load_playbook file = (case loads file of
     None \<Rightarrow> Raise (ValueError ''invalid JSON'')
   | Some (JObj pb) \<Rightarrow> (case dict_get pb ''clauses'' of
       Some (JList cs) \<Rightarrow> Ok (pb, cs)
     | _ \<Rightarrow> Raise (ValueError ''playbook must contain a clauses list''))
   | Some (JList vs) \<Rightarrow> if JStr ''clauses'' \<in> set vs then Raise (TypeError ''indices'')
       else Raise (ValueError ''playbook must contain a clauses list'')
   | Some (JStr s) \<Rightarrow> if str_in ''clauses'' s then Raise (TypeError ''indices'')
       else Raise (ValueError ''playbook must contain a clauses list'')
   | Some _ \<Rightarrow> Raise (TypeError ''not iterable''))"

definition find_clause_in_text :: "(json \<Rightarrow> str) \<Rightarrow> str \<Rightarrow> json \<Rightarrow> json option" where
  "find_clause_in_text ps contract match_text =
     (if \<not> json_truthy match_text then None
      else if str_in (norm_json ps match_text) (norm_text contract) then Some match_text
      else None)"

definition fmt :: "(json \<Rightarrow> str) \<Rightarrow> json \<Rightarrow> str" where
  "fmt ps v = (case v of JStr s \<Rightarrow> s | _ \<Rightarrow> ps v)"

definition first60 :: "(json \<Rightarrow> str) \<Rightarrow> json \<Rightarrow> str result" where
  "first60 ps v = (case v of
     JStr s \<Rightarrow> Ok (take 60 s)
   | JList vs \<Rightarrow> Ok (ps (JList (take 60 vs)))
   | _ \<Rightarrow> Raise (TypeError ''not subscriptable''))"

definition edit_of :: "(json \<Rightarrow> str) \<Rightarrow> AppliedEdit \<Rightarrow> jobj" where
  "edit_of ps a =
     [(''target_text'', ap_old_text a), (''new_text'', ap_new_text a),
      (''comment'', if json_truthy (ap_citation a)
         then JStr (fmt ps (ap_rationale a) @ '' ['' @ fmt ps (ap_citation a) @ '']'') else ap_rationale a)]"

definition clause_edit :: "jobj \<Rightarrow> AppliedEdit" where
  "clause_edit c =
     \<lparr>ap_clause_id = get_default c ''clause_id'' (JStr []),
      ap_clause_label = get_default c ''clause_label'' (get_default c ''clause_id'' (JStr [])),
      ap_old_text = get_default c ''match_text'' (JStr []), ap_new_text = get_default c ''replacement_text'' (JStr []),
      ap_citation = get_default c ''citation'' (JStr []), ap_rationale = get_default c ''rationale'' (JStr [])\<rparr>"

fun prepare :: "(json \<Rightarrow> str) \<Rightarrow> str \<Rightarrow> json list \<Rightarrow> (AppliedEdit list \<times> FlaggedClause list) result" where
  "prepare ps contract [] = Ok ([], [])"
| "prepare ps contract (JObj c # cs) =
     (let a = clause_edit c in
      case find_clause_in_text ps contract (ap_old_text a) of
        None \<Rightarrow>
          bind_ok (first60 ps (ap_old_text a)) (\<lambda>m.
          bind_ok (prepare ps contract cs) (\<lambda>(ap, fl).
          Ok (ap, \<lparr>fc_clause_id = ap_clause_id a, fc_clause_label = ap_clause_label a,
                   fc_reason = ''Target text not found in contract: '' @ [CHR 0x27] @ m @ ''...'' @ [CHR 0x27]\<rparr> # fl)))
      | Some _ \<Rightarrow> bind_ok (prepare ps contract cs) (\<lambda>(ap, fl). Ok (a # ap, fl)))"
| "prepare ps contract (_ # cs) = Raise (AttributeError ''get'')"

text \<open>What the writer reports: success, the error text, the number of edits applied, the path.\<close>

record WriteResult =
  wr_ok :: bool
  wr_error :: "str option"
  wr_applied_count :: int
  wr_output_path :: str

text \<open>The edits past the reported count are flagged, under the clause that has the same index in the
  playbook.\<close>

definition writer_flag :: "json \<Rightarrow> FlaggedClause" where
  "writer_flag c = (case c of JObj d \<Rightarrow>
     \<lparr>fc_clause_id = get_default d ''clause_id'' (JStr []), fc_clause_label = get_default d ''clause_label'' (JStr []),
      fc_reason = ''Writer could not locate target text in document paragraphs''\<rparr>
   | _ \<Rightarrow> \<lparr>fc_clause_id = JNull, fc_clause_label = JNull, fc_reason = []\<rparr>)"

definition writer_flags :: "json list \<Rightarrow> nat \<Rightarrow> int \<Rightarrow> FlaggedClause list" where
  "writer_flags clauses n applied_count =
     (if applied_count < int n then map (\<lambda>i. writer_flag (clauses ! i)) (filter (\<lambda>i. applied_count \<le> int i) [0..<n]) else [])"

definition emit_audit ::
  "(bytes \<Rightarrow> bytes) \<Rightarrow> Ed25519 \<Rightarrow> (nat \<Rightarrow> str \<times> str) \<Rightarrow> bytes \<Rightarrow> json \<Rightarrow> json \<Rightarrow> AppliedEdit list \<Rightarrow> FlaggedClause list \<Rightarrow> int \<Rightarrow> bool \<Rightarrow> LegalLog" where
  "emit_audit H cr stamps seed dh pid applied flagged n inject =
     (let l0 = snd (log_run_started H cr (stamps 0) dh pid (new_legal_log seed));
          l1 = fold (\<lambda>e l. snd (log_edit H cr (stamps (length (ll_entries l))) dh (ap_clause_id e) (ap_clause_label e)
                 (ap_old_text e) (ap_new_text e) (ap_citation e) (ap_rationale e) l)) applied l0;
          l2 = fold (\<lambda>f l. snd (log_flag H cr (stamps (length (ll_entries l))) dh (fc_clause_id f) (fc_clause_label f)
                 (JStr (fc_reason f)) l)) flagged l1
      in snd (log_run_completed H cr (stamps (length (ll_entries l2))) dh (JInt n) (JInt (int (length flagged))) (JBool inject) l2))"

record RedlineEnv =
  re_hash :: "bytes \<Rightarrow> bytes"
  re_crypto :: Ed25519
  re_str :: "json \<Rightarrow> str"
  re_scan :: "str \<Rightarrow> bool \<times> real \<times> str list"
  re_writer :: "jobj list \<Rightarrow> str \<Rightarrow> str \<Rightarrow> WriteResult"
  re_stamps :: "nat \<Rightarrow> str \<times> str"
  re_now :: str

definition redline_contract ::
  "RedlineEnv \<Rightarrow> str \<Rightarrow> str list option \<Rightarrow> str \<Rightarrow> str option \<Rightarrow> str \<Rightarrow> str \<Rightarrow> bytes option \<Rightarrow> RedlineResult result" where
  "redline_contract env contract_path contract playbook_path playbook output_path author private_key =
     (case (contract, playbook) of
        (None, _) \<Rightarrow> Ok (blank_result\<lparr>rr_error := ''Contract not found: '' @ contract_path\<rparr>)
      | (Some _, None) \<Rightarrow> Ok (blank_result\<lparr>rr_error := ''Playbook not found: '' @ playbook_path\<rparr>)
      | (Some paras, Some pbfile) \<Rightarrow>
          bind_ok (load_playbook pbfile) (\<lambda>(pb, clauses).
          let contract_text = join [CHR 0x0A] paras;
              doc_hash = hex (re_hash env (utf8 contract_text));
              (det, score, pats) = re_scan env contract_text;
              scanned = blank_result\<lparr>rr_injection_detected := det, rr_injection_score := score, rr_injection_patterns := pats\<rparr>
          in bind_ok (prepare (re_str env) contract_text clauses) (\<lambda>(applied, flagged).
             if applied = [] then
               Ok (scanned\<lparr>rr_flagged_clauses := flagged, rr_error := ''No playbook clauses matched the contract text''\<rparr>)
             else
               let w = re_writer env (map (edit_of (re_str env)) applied) output_path author in
               if \<not> wr_ok w then
                 Ok (scanned\<lparr>rr_error := ''Tracked-changes writer failed: '' @ (case wr_error w of None \<Rightarrow> ''unknown'' | Some e \<Rightarrow> e)\<rparr>)
               else
                 let n = wr_applied_count w;
                     flagged' = flagged @ writer_flags clauses (length applied) n;
                     done_edits = slice_to applied n;
                     res = scanned\<lparr>rr_ok := True, rr_output_path := wr_output_path w, rr_applied_edits := done_edits,
                             rr_flagged_clauses := flagged', rr_doc_hash := doc_hash\<rparr>
                 in case private_key of
                      None \<Rightarrow> Ok res
                    | Some seed \<Rightarrow>
                        let pid = get_default pb ''playbook_id'' (JStr ''unknown'');
                            lg = emit_audit (re_hash env) (re_crypto env) (re_stamps env) seed (JStr doc_hash) pid done_edits flagged' n det;
                            aj = legal_to_json (ll_entries lg);
                            rep = generate_zero_egress_report (re_hash env) (re_crypto env) (re_now env) (JStr doc_hash) pid
                                    (JInt n) (JInt (int (length flagged'))) (JBool det) aj seed
                        in Ok (res\<lparr>rr_audit_log_json := aj, rr_egress_report_json := report_to_json rep\<rparr>))))"

section \<open>Lemmas\<close>

definition located :: "(json \<Rightarrow> str) \<Rightarrow> str \<Rightarrow> jobj \<Rightarrow> bool" where
  "located ps contract c \<longleftrightarrow> find_clause_in_text ps contract (ap_old_text (clause_edit c)) \<noteq> None"

lemma prepare_Ok:
  "prepare ps contract cs = Ok (ap, fl) \<Longrightarrow>
     \<exists>ds. cs = map JObj ds \<and> ap = map clause_edit (filter (located ps contract) ds) \<and>
       map fc_clause_id fl = map (\<lambda>c. ap_clause_id (clause_edit c)) (filter (\<lambda>c. \<not> located ps contract c) ds) \<and>
       map fc_clause_label fl = map (\<lambda>c. ap_clause_label (clause_edit c)) (filter (\<lambda>c. \<not> located ps contract c) ds)"
proof (induction ps contract cs arbitrary: ap fl rule: prepare.induct)
  case (2 ps contract c cs)
  let ?f = "find_clause_in_text ps contract (ap_old_text (clause_edit c))"
  obtain ap1 fl1 where r: "prepare ps contract cs = Ok (ap1, fl1)"
    using 2(3) by (cases ?f) (auto simp: Let_def bind_ok_Inr)
  from 2(1,2) r obtain ds where "cs = map JObj ds" "ap1 = map clause_edit (filter (located ps contract) ds)"
    "map fc_clause_id fl1 = map (\<lambda>c. ap_clause_id (clause_edit c)) (filter (\<lambda>c. \<not> located ps contract c) ds)"
    "map fc_clause_label fl1 = map (\<lambda>c. ap_clause_label (clause_edit c)) (filter (\<lambda>c. \<not> located ps contract c) ds)"
    by (cases ?f) (force simp: Let_def)+
  moreover have "located ps contract c \<longleftrightarrow> ?f \<noteq> None" by (simp add: located_def)
  ultimately show ?case using 2(3) r
    by (intro exI [of _ "c # ds"]) (cases ?f; auto simp: Let_def bind_ok_Inr)
qed auto

lemma writer_flags_length:
  "0 \<le> n \<Longrightarrow> n \<le> int k \<Longrightarrow> length (writer_flags cs k n) = k - nat n"
proof -
  assume a: "0 \<le> n" "n \<le> int k"
  have "filter (\<lambda>i. n \<le> int i) [0..<k] = [nat n..<k]"
  proof -
    have "[0..<k] = [0..<nat n] @ [nat n..<k]" using a by (metis bot_nat_0.extremum le_add_diff_inverse nat_le_iff upt_add_eq_append)
    moreover have "filter (\<lambda>i. n \<le> int i) [0..<nat n] = []" by (auto simp: filter_empty_conv)
    moreover have "filter (\<lambda>i. n \<le> int i) [nat n..<k] = [nat n..<k]" by (auto simp: filter_id_conv)
    ultimately show ?thesis by simp
  qed
  then show ?thesis using a by (auto simp: writer_flags_def)
qed

lemma slice_to_take: "0 \<le> n \<Longrightarrow> slice_to xs n = take (nat n) xs"
  by (simp add: slice_to_def)

lemma redline_ok:
  assumes "redline_contract env cp contract pp playbook op author key = Ok r" "rr_ok r"
  obtains paras pbfile pb ds ap fl w where
    "contract = Some paras" "playbook = Some pbfile" "load_playbook pbfile = Ok (pb, map JObj ds)"
    "prepare (re_str env) (join [CHR 0x0A] paras) (map JObj ds) = Ok (ap, fl)"
    "ap = map clause_edit (filter (located (re_str env) (join [CHR 0x0A] paras)) ds)"
    "w = re_writer env (map (edit_of (re_str env)) ap) op author"
    "wr_ok w"
    "rr_applied_edits r = slice_to ap (wr_applied_count w)"
    "rr_flagged_clauses r = fl @ writer_flags (map JObj ds) (length ap) (wr_applied_count w)"
    "rr_doc_hash r = hex (re_hash env (utf8 (join [CHR 0x0A] paras)))"
    "rr_injection_detected r = fst (re_scan env (join [CHR 0x0A] paras))"
    "key = Some seed \<Longrightarrow> rr_audit_log_json r = legal_to_json (ll_entries (emit_audit (re_hash env) (re_crypto env) (re_stamps env) seed
        (JStr (rr_doc_hash r)) (get_default pb ''playbook_id'' (JStr ''unknown'')) (rr_applied_edits r) (rr_flagged_clauses r)
        (wr_applied_count w) (rr_injection_detected r))) \<and>
      rr_egress_report_json r = report_to_json (generate_zero_egress_report (re_hash env) (re_crypto env) (re_now env)
        (JStr (rr_doc_hash r)) (get_default pb ''playbook_id'' (JStr ''unknown'')) (JInt (wr_applied_count w))
        (JInt (int (length (rr_flagged_clauses r)))) (JBool (rr_injection_detected r)) (rr_audit_log_json r) seed)"
proof -
  obtain paras pbfile where c: "contract = Some paras" "playbook = Some pbfile"
    using assms by (cases contract; cases playbook) (auto simp: redline_contract_def blank_result_def)
  let ?t = "join [CHR 0x0A] paras"
  obtain pb cs where l: "load_playbook pbfile = Ok (pb, cs)"
    using assms c by (auto simp: redline_contract_def bind_ok_Inr)
  obtain det score pats where s: "re_scan env ?t = (det, score, pats)" by (rule prod_cases3)
  obtain ap fl where p: "prepare (re_str env) ?t cs = Ok (ap, fl)"
    using assms(1) c l s by (auto simp: redline_contract_def Let_def bind_ok_Inr)
  from prepare_Ok [OF p] obtain ds where ds: "cs = map JObj ds" "ap = map clause_edit (filter (located (re_str env) ?t) ds)" by blast
  have ne: "ap \<noteq> []" using assms c l s p by (auto simp: redline_contract_def Let_def blank_result_def)
  define w where "w = re_writer env (map (edit_of (re_str env)) ap) op author"
  have ok: "wr_ok w" using assms c l s p ne by (auto simp: redline_contract_def Let_def blank_result_def w_def split: if_splits)
  show thesis
    by (rule that [OF c l [unfolded ds(1)] p [unfolded ds(1)] ds(2) w_def ok])
       (use assms c l s p ne ok in \<open>auto simp: redline_contract_def Let_def blank_result_def w_def [symmetric] ds(1)
         split: option.splits\<close>)
qed

lemma redline_signed:
  assumes "redline_contract env cp contract pp (Some pbfile) op author (Some seed) = Ok r" "rr_ok r"
    "load_playbook pbfile = Ok (pb, map JObj ds)"
  obtains paras ap fl and w :: WriteResult where
    "prepare (re_str env) (join [CHR 0x0A] paras) (map JObj ds) = Ok (ap, fl)"
    "ap = map clause_edit (filter (located (re_str env) (join [CHR 0x0A] paras)) ds)"
    "rr_applied_edits r = slice_to ap (wr_applied_count w)"
      "rr_flagged_clauses r = fl @ writer_flags (map JObj ds) (length ap) (wr_applied_count w)"
    "rr_audit_log_json r = legal_to_json (ll_entries (emit_audit (re_hash env) (re_crypto env) (re_stamps env) seed
        (JStr (rr_doc_hash r)) (get_default pb ''playbook_id'' (JStr ''unknown'')) (rr_applied_edits r) (rr_flagged_clauses r)
        (wr_applied_count w) (rr_injection_detected r)))"
    "rr_egress_report_json r = report_to_json (generate_zero_egress_report (re_hash env) (re_crypto env) (re_now env)
        (JStr (rr_doc_hash r)) (get_default pb ''playbook_id'' (JStr ''unknown'')) (JInt (wr_applied_count w))
        (JInt (int (length (rr_flagged_clauses r)))) (JBool (rr_injection_detected r)) (rr_audit_log_json r) seed)"
proof (rule redline_ok [OF assms(1,2), where seed = seed])
  fix paras' pbfile' pb' ds' ap' fl' and w' :: WriteResult
  assume "Some pbfile = Some pbfile'" "load_playbook pbfile' = Ok (pb', map JObj ds')"
  then have "pb' = pb" "ds' = ds" using assms(3) by (auto simp: inj_map_eq_map inj_def)
  moreover assume "prepare (re_str env) (join [CHR 0x0A] paras') (map JObj ds') = Ok (ap', fl')"
    "ap' = map clause_edit (filter (located (re_str env) (join [CHR 0x0A] paras')) ds')"
    "rr_applied_edits r = slice_to ap' (wr_applied_count w')"
    "rr_flagged_clauses r = fl' @ writer_flags (map JObj ds') (length ap') (wr_applied_count w')"
  moreover assume "Some seed = Some seed \<Longrightarrow> rr_audit_log_json r = legal_to_json (ll_entries (emit_audit (re_hash env) (re_crypto env) (re_stamps env) seed
      (JStr (rr_doc_hash r)) (get_default pb' ''playbook_id'' (JStr ''unknown'')) (rr_applied_edits r) (rr_flagged_clauses r)
      (wr_applied_count w') (rr_injection_detected r))) \<and>
    rr_egress_report_json r = report_to_json (generate_zero_egress_report (re_hash env) (re_crypto env) (re_now env)
      (JStr (rr_doc_hash r)) (get_default pb' ''playbook_id'' (JStr ''unknown'')) (JInt (wr_applied_count w'))
      (JInt (int (length (rr_flagged_clauses r)))) (JBool (rr_injection_detected r)) (rr_audit_log_json r) seed)"
  ultimately show thesis using that [of paras' ap' fl' w'] by simp
qed

section \<open>The audit trail of a run\<close>

definition recorded :: "LegalLog \<Rightarrow> (json \<times> json) list" where
  "recorded lg = map (\<lambda>e. (le_action e, le_edit_summary e)) (ll_entries lg)"

lemma recorded_make [simp]: "recorded (snd (make_entry H cr st act dh summary lg)) = recorded lg @ [(JStr act, summary)]"
  by (simp add: recorded_def make_entry_def Let_def)

lemma recorded_fold:
  "(\<And>x l. recorded (f x l) = recorded l @ [g x]) \<Longrightarrow> recorded (fold f xs lg) = recorded lg @ map g xs"
  by (induction xs arbitrary: lg) simp_all

lemma emit_audit_recorded:
  "recorded (emit_audit H cr stamps seed dh pid applied flagged n inject) =
     (JStr ''run_started'', JObj [(''playbook_id'', pid)]) # map (\<lambda>a. (JStr ''edit_applied'', applied_json a)) applied @
     map (\<lambda>f. (JStr ''clause_flagged'', flagged_json f)) flagged @
     [(JStr ''run_completed'', JObj [(''total_edits'', JInt n), (''total_flagged'', JInt (int (length flagged))),
        (''injection_detected'', JBool inject)])]"
proof -
  let ?e = "\<lambda>a. (JStr ''edit_applied'', applied_json a)" and ?f = "\<lambda>f. (JStr ''clause_flagged'', flagged_json f)"
  have "recorded (fold (\<lambda>e l. snd (log_edit H cr (stamps (length (ll_entries l))) dh (ap_clause_id e) (ap_clause_label e)
      (ap_old_text e) (ap_new_text e) (ap_citation e) (ap_rationale e) l)) applied lg) = recorded lg @ map ?e applied" for lg
    by (rule recorded_fold) (simp add: log_edit_def applied_json_def)
  moreover have "recorded (fold (\<lambda>f l. snd (log_flag H cr (stamps (length (ll_entries l))) dh (fc_clause_id f) (fc_clause_label f)
      (JStr (fc_reason f)) l)) flagged lg) = recorded lg @ map ?f flagged" for lg
    by (rule recorded_fold) (simp add: log_flag_def flagged_json_def)
  ultimately show ?thesis
    by (simp add: emit_audit_def Let_def log_run_completed_def log_run_started_def) (simp add: recorded_def new_legal_log_def)
qed

lemma emit_audit_inv:
  assumes "ed25519_correct cr" "length seed = 32" "json_wf dh" "json_wf pid"
    "list_all (\<lambda>a. json_wf (applied_json a)) applied" "list_all (\<lambda>f. json_wf (flagged_json f)) flagged"
  shows "legal_inv H cr seed (emit_audit H cr stamps seed dh pid applied flagged n inject)"
proof -
  note mk = make_entry_inv [OF _ assms(1,2)]
  have 0: "legal_inv H cr seed (snd (log_run_started H cr (stamps 0) dh pid (new_legal_log seed)))"
    unfolding log_run_started_def
    by (rule mk) (use assms(3,4) in \<open>simp_all add: legal_inv_def new_legal_log_def legal.last_sig_def\<close>)
  have 1: "legal_inv H cr seed (fold (\<lambda>e l. snd (log_edit H cr (stamps (length (ll_entries l))) dh (ap_clause_id e) (ap_clause_label e)
      (ap_old_text e) (ap_new_text e) (ap_citation e) (ap_rationale e) l)) applied lg)" if "legal_inv H cr seed lg" for lg
    by (rule fold_inv) (use that assms(3,5) in \<open>auto simp: log_edit_def list_all_iff applied_json_def intro!: mk\<close>)
  have 2: "legal_inv H cr seed (fold (\<lambda>f l. snd (log_flag H cr (stamps (length (ll_entries l))) dh (fc_clause_id f) (fc_clause_label f)
      (JStr (fc_reason f)) l)) flagged lg)" if "legal_inv H cr seed lg" for lg
    by (rule fold_inv) (use that assms(3,6) in \<open>auto simp: log_flag_def list_all_iff flagged_json_def intro!: mk\<close>)
  show ?thesis unfolding emit_audit_def Let_def log_run_completed_def by (rule mk) (use 0 1 2 assms(3) in simp_all)
qed

lemma get_default_wf: "obj_wf d \<Longrightarrow> json_wf v \<Longrightarrow> json_wf (get_default d k v)"
  using obj_wf_get [of d k] by (auto simp: get_default_def split: option.split)

lemma applied_json_wf: "obj_wf c \<Longrightarrow> json_wf (applied_json (clause_edit c))"
  by (simp add: applied_json_def clause_edit_def get_default_wf)

lemma in_slice_to: "x \<in> set (slice_to xs n) \<Longrightarrow> x \<in> set xs"
  by (auto simp: slice_to_def split: if_splits dest: in_set_takeD)

lemma flagged_json_wf:
  assumes "list_all obj_wf ds" "prepare ps t (map JObj ds) = Ok (ap, fl)"
  shows "list_all (\<lambda>f. json_wf (flagged_json f)) (fl @ writer_flags (map JObj ds) (length ap) n)"
proof -
  from prepare_Ok [OF assms(2)] obtain es where es: "map JObj ds = map JObj es" "ap = map clause_edit (filter (located ps t) es)"
    and f: "map fc_clause_id fl = map (\<lambda>c. ap_clause_id (clause_edit c)) (filter (\<lambda>c. \<not> located ps t c) es)"
       "map fc_clause_label fl = map (\<lambda>c. ap_clause_label (clause_edit c)) (filter (\<lambda>c. \<not> located ps t c) es)" by blast
  have eq: "es = ds" using es(1) by (metis json.inject(6) map_injective injI)
  have w: "json_wf (ap_clause_id (clause_edit c))" "json_wf (ap_clause_label (clause_edit c))" if "c \<in> set ds" for c
    using that assms(1) by (auto simp: clause_edit_def get_default_wf list_all_iff)
  have "json_wf (fc_clause_id x) \<and> json_wf (fc_clause_label x)" if "x \<in> set fl" for x
  proof -
    have "fc_clause_id x \<in> set (map fc_clause_id fl)" "fc_clause_label x \<in> set (map fc_clause_label fl)" using that by simp_all
    then show ?thesis unfolding f eq using w by auto
  qed
  moreover have "json_wf (flagged_json (writer_flag (JObj d)))" if "d \<in> set ds" for d
    using that assms(1) by (simp add: writer_flag_def flagged_json_def get_default_wf list_all_iff)
  moreover have "length ap \<le> length ds" using es(2) eq by simp
  ultimately show ?thesis by (auto simp: list_all_iff writer_flags_def flagged_json_def)
qed

section \<open>Properties\<close>


text \<open>A playbook with two clauses, of which the contract contains the second, and a writer that applies
  a given number of edits.\<close>

definition sample_playbook :: jobj where
  "sample_playbook = [(''playbook_id'', JStr ''p1''), (''clauses'', JList
     [JObj [(''clause_id'', JStr ''c1''), (''match_text'', JStr ''absent''), (''replacement_text'', JStr ''x'')],
      JObj [(''clause_id'', JStr ''c2''), (''match_text'', JStr ''law of A''), (''replacement_text'', JStr ''law of B'')]])]"

definition redline_env :: "int \<Rightarrow> RedlineEnv" where
  "redline_env n = \<lparr>re_hash = pad_hash, re_crypto = echo_scheme, re_str = (\<lambda>_. []), re_scan = (\<lambda>_. (False, 0, [])),
     re_writer = (\<lambda>es op au. \<lparr>wr_ok = True, wr_error = None, wr_applied_count = min n (int (length es)), wr_output_path = op\<rparr>),
     re_stamps = (\<lambda>i. (nat_str i, ''t'')), re_now = ''t''\<rparr>"

definition sample_redline :: "int \<Rightarrow> bytes option \<Rightarrow> RedlineResult result" where
  "sample_redline n key = redline_contract (redline_env n) ''c'' (Some [''The  law of A'', ''applies'']) ''p''
     (Some (dumps plain (JObj sample_playbook))) ''o'' ''me'' key"

lemma sample_playbook_load:
  "load_playbook (dumps plain (JObj sample_playbook)) = Ok (sample_playbook,
     [JObj [(''clause_id'', JStr ''c1''), (''match_text'', JStr ''absent''), (''replacement_text'', JStr ''x'')],
      JObj [(''clause_id'', JStr ''c2''), (''match_text'', JStr ''law of A''), (''replacement_text'', JStr ''law of B'')]])"
proof -
  have "loads (dumps plain (JObj sample_playbook)) = Some (JObj sample_playbook)"
    by (rule loads_dumps) (simp_all add: sample_playbook_def)
  then show ?thesis by (simp add: load_playbook_def sample_playbook_def)
qed

lemma sample_prepare:
  "prepare (\<lambda>_. []) (join [CHR 0x0A] [''The  law of A'', ''applies''])
     [JObj [(''clause_id'', JStr ''c1''), (''match_text'', JStr ''absent''), (''replacement_text'', JStr ''x'')],
      JObj [(''clause_id'', JStr ''c2''), (''match_text'', JStr ''law of A''), (''replacement_text'', JStr ''law of B'')]] =
   Ok ([\<lparr>ap_clause_id = JStr ''c2'', ap_clause_label = JStr ''c2'', ap_old_text = JStr ''law of A'', ap_new_text = JStr ''law of B'',
         ap_citation = JStr [], ap_rationale = JStr []\<rparr>],
       [\<lparr>fc_clause_id = JStr ''c1'', fc_clause_label = JStr ''c1'',
         fc_reason = ''Target text not found in contract: '' @ [CHR 0x27] @ ''absent'' @ ''...'' @ [CHR 0x27]\<rparr>])"
  by code_simp


text \<open>The clause flagged for the writer is taken at the index of the edit in the list of edits, not at
  the index of its clause: here the second clause, which the writer did not apply, is not flagged,
  and the first one is flagged twice.\<close>

lemma writer_flag_wrong_clause:
  "\<exists>r. sample_redline 0 None = Ok r \<and> rr_ok r \<and> rr_applied_edits r = [] \<and>
     map fc_clause_id (rr_flagged_clauses r) = [JStr ''c1'', JStr ''c1'']"
  by (simp add: sample_redline_def redline_contract_def sample_playbook_load sample_prepare redline_env_def Let_def slice_to_def
      writer_flags_def writer_flag_def get_default_def del: prepare.simps)

lemma redline_audit_recorded:
  assumes "redline_contract env cp contract pp (Some pbfile) op author (Some seed) = Ok r" and "rr_ok r"
    and "load_playbook pbfile = Ok (pb, map JObj ds)" and "obj_wf pb" and "list_all obj_wf ds"
    and "ed25519_correct (re_crypto env)" and "length seed = 32"
  shows "\<exists>es rep n. entries_from_json (rr_audit_log_json r) = Ok es \<and>
    legal_verify_chain (re_hash env) (re_crypto env) (pub (re_crypto env) seed) es = Ok True \<and>
    map (\<lambda>e. (le_action e, le_edit_summary e)) es =
      (JStr ''run_started'', JObj [(''playbook_id'', get_default pb ''playbook_id'' (JStr ''unknown''))]) #
      map (\<lambda>a. (JStr ''edit_applied'', applied_json a)) (rr_applied_edits r) @
      map (\<lambda>f. (JStr ''clause_flagged'', flagged_json f)) (rr_flagged_clauses r) @
      [(JStr ''run_completed'', JObj [(''total_edits'', JInt n), (''total_flagged'', JInt (int (length (rr_flagged_clauses r)))),
        (''injection_detected'', JBool (rr_injection_detected r))])] \<and>
    report_from_json (rr_egress_report_json r) = Ok rep \<and>
    verify_zero_egress_report (re_crypto env) (pub (re_crypto env) seed) rep = Ok True \<and>
    zr_audit_log_hash rep = JStr (hex (re_hash env (utf8 (rr_audit_log_json r))))"
proof -
  let ?H = "re_hash env" and ?cr = "re_crypto env"
  from redline_signed [OF assms(1-3)] obtain paras ap fl and w :: WriteResult where
    p: "prepare (re_str env) (join [CHR 0x0A] paras) (map JObj ds) = Ok (ap, fl)"
    and ap: "ap = map clause_edit (filter (located (re_str env) (join [CHR 0x0A] paras)) ds)"
    and r: "rr_applied_edits r = slice_to ap (wr_applied_count w)"
      "rr_flagged_clauses r = fl @ writer_flags (map JObj ds) (length ap) (wr_applied_count w)"
    and aj: "rr_audit_log_json r = legal_to_json (ll_entries (emit_audit ?H ?cr (re_stamps env) seed
        (JStr (rr_doc_hash r)) (get_default pb ''playbook_id'' (JStr ''unknown'')) (rr_applied_edits r) (rr_flagged_clauses r)
        (wr_applied_count w) (rr_injection_detected r)))"
    and rj: "rr_egress_report_json r = report_to_json (generate_zero_egress_report ?H ?cr (re_now env)
        (JStr (rr_doc_hash r)) (get_default pb ''playbook_id'' (JStr ''unknown'')) (JInt (wr_applied_count w))
        (JInt (int (length (rr_flagged_clauses r)))) (JBool (rr_injection_detected r)) (rr_audit_log_json r) seed)" .
  define lg where "lg = emit_audit ?H ?cr (re_stamps env) seed
        (JStr (rr_doc_hash r)) (get_default pb ''playbook_id'' (JStr ''unknown'')) (rr_applied_edits r) (rr_flagged_clauses r)
        (wr_applied_count w) (rr_injection_detected r)"
  define rep where "rep = generate_zero_egress_report ?H ?cr (re_now env)
        (JStr (rr_doc_hash r)) (get_default pb ''playbook_id'' (JStr ''unknown'')) (JInt (wr_applied_count w))
        (JInt (int (length (rr_flagged_clauses r)))) (JBool (rr_injection_detected r)) (rr_audit_log_json r) seed"
  have pid: "json_wf (get_default pb ''playbook_id'' (JStr ''unknown''))" by (rule get_default_wf) (use assms(4) in simp_all)
  have "list_all (\<lambda>a. json_wf (applied_json a)) (rr_applied_edits r)"
    using r(1) ap assms(5) applied_json_wf in_slice_to by (fastforce simp: list_all_iff)
  then have inv: "legal_inv ?H ?cr seed lg"
    unfolding lg_def using flagged_json_wf [OF assms(5) p] r(2) pid by (intro emit_audit_inv assms(6,7)) simp_all
  have "obj_wf (report_dict rep)" using pid
    by (simp add: rep_def generate_zero_egress_report_def Let_def report_dict_def report_prelim_def obj_wf_def)
  note rep = report_round_trip [OF this]
  have z: "zr_audit_log_hash rep = JStr (hex (?H (utf8 (rr_audit_log_json r))))"
    by (simp add: rep_def generate_zero_egress_report_def Let_def)
  have v: "verify_zero_egress_report ?cr (pub ?cr seed) rep = Ok True"
    unfolding rep_def by (rule report_verifies [OF assms(6,7)])
  have e: "entries_from_json (rr_audit_log_json r) = Ok (ll_entries lg)"
    using inv aj by (simp add: legal_json_round_trip legal_inv_def lg_def)
  show ?thesis
    by (intro exI [of _ "ll_entries lg"] exI [of _ rep] exI [of _ "wr_applied_count w"] conjI e
          legal_inv_verifies [OF inv] z v)
       (use emit_audit_recorded [unfolded recorded_def] rep rj in \<open>simp_all add: lg_def rep_def\<close>)
qed

text \<open>Every signed run is fully and verifiably recorded. With a private key, a signature scheme
  that accepts its own signatures and a well-formed playbook, the audit log a successful run returns
  reads back to entries that verify under the public key and hold, in this order, the start of the
  run, one entry per applied edit, one per flagged clause, and the totals; the egress report reads
  back, verifies under the same key, and carries the digest of that very audit log.\<close>

theorem redline_audit_complete:
  assumes "redline_contract env cp contract pp (Some pbfile) op author (Some seed) = Ok r" and "rr_ok r"
    and "load_playbook pbfile = Ok (pb, map JObj ds)" and "obj_wf pb" and "list_all obj_wf ds"
    and "ed25519_correct (re_crypto env)" and "length seed = 32"
  shows "\<exists>es rep n. entries_from_json (rr_audit_log_json r) = Ok es \<and>
    legal_verify_chain (re_hash env) (re_crypto env) (pub (re_crypto env) seed) es = Ok True \<and>
    map (\<lambda>e. (le_action e, le_edit_summary e)) es =
      (JStr ''run_started'', JObj [(''playbook_id'', get_default pb ''playbook_id'' (JStr ''unknown''))]) #
      map (\<lambda>a. (JStr ''edit_applied'', applied_json a)) (rr_applied_edits r) @
      map (\<lambda>f. (JStr ''clause_flagged'', flagged_json f)) (rr_flagged_clauses r) @
      [(JStr ''run_completed'', JObj [(''total_edits'', JInt n), (''total_flagged'', JInt (int (length (rr_flagged_clauses r)))),
        (''injection_detected'', JBool (rr_injection_detected r))])] \<and>
    report_from_json (rr_egress_report_json r) = Ok rep \<and>
    verify_zero_egress_report (re_crypto env) (pub (re_crypto env) seed) rep = Ok True \<and>
    zr_audit_log_hash rep = JStr (hex (re_hash env (utf8 (rr_audit_log_json r))))"
  by (rule redline_audit_recorded [OF assms])

theorem redline_audit_complete_witness:
  "\<exists>r es. sample_redline 1 (Some (replicate 32 1)) = Ok r \<and> entries_from_json (rr_audit_log_json r) = Ok es \<and>
     legal_verify_chain pad_hash echo_scheme (replicate 32 1) es = Ok True \<and>
     map le_action es = [JStr ''run_started'', JStr ''edit_applied'', JStr ''clause_flagged'', JStr ''run_completed'']"
proof -
  obtain r where r: "sample_redline 1 (Some (replicate 32 1)) = Ok r" "rr_ok r" "length (rr_applied_edits r) = 1"
    "length (rr_flagged_clauses r) = 1"
    by (simp add: sample_redline_def redline_contract_def sample_playbook_load sample_prepare redline_env_def Let_def slice_to_def
        writer_flags_def del: prepare.simps)
  let ?ds = "[[(''clause_id'', JStr ''c1''), (''match_text'', JStr ''absent''), (''replacement_text'', JStr ''x'')],
      [(''clause_id'', JStr ''c2''), (''match_text'', JStr ''law of A''), (''replacement_text'', JStr ''law of B'')]]"
  have ec: "ed25519_correct (re_crypto (redline_env 1))" by (simp add: ed25519_correct_def redline_env_def echo_scheme_def)
  have l: "load_playbook (dumps plain (JObj sample_playbook)) = Ok (sample_playbook, map JObj ?ds)"
    by (simp add: sample_playbook_load)
  have wf: "obj_wf sample_playbook" "list_all obj_wf ?ds" by (simp_all add: obj_wf_def sample_playbook_def)
  have env: "re_hash (redline_env 1) = pad_hash" "re_crypto (redline_env 1) = echo_scheme" "pub echo_scheme s = s" for s
    by (simp_all add: redline_env_def echo_scheme_def)
  from redline_audit_complete [OF r(1) [unfolded sample_redline_def] r(2) l wf ec length_replicate]
  obtain es n where e: "entries_from_json (rr_audit_log_json r) = Ok es"
    "legal_verify_chain pad_hash echo_scheme (replicate 32 1) es = Ok True"
    "map (\<lambda>e. (le_action e, le_edit_summary e)) es =
      (JStr ''run_started'', JObj [(''playbook_id'', get_default sample_playbook ''playbook_id'' (JStr ''unknown''))]) #
      map (\<lambda>a. (JStr ''edit_applied'', applied_json a)) (rr_applied_edits r) @
      map (\<lambda>f. (JStr ''clause_flagged'', flagged_json f)) (rr_flagged_clauses r) @
      [(JStr ''run_completed'', JObj [(''total_edits'', JInt n), (''total_flagged'', JInt (int (length (rr_flagged_clauses r)))),
        (''injection_detected'', JBool (rr_injection_detected r))])]"
    unfolding env by (elim exE conjE) (rule that)
  obtain a f where "rr_applied_edits r = [a]" "rr_flagged_clauses r = [f]" using r(3,4) by (auto simp: length_Suc_conv)
  with arg_cong [OF e(3), of "map fst"] have "map le_action es =
      [JStr ''run_started'', JStr ''edit_applied'', JStr ''clause_flagged'', JStr ''run_completed'']" by (simp add: comp_def)
  with r(1) e(1,2) show ?thesis by (intro exI [of _ r] exI [of _ es]) simp
qed

end
