(* ===== verification/TrackedChanges.thy ===== *)
theory TrackedChanges
  imports RedlinePipeline "HOL-Library.Multiset"
begin

text \<open>
  \<^verbatim>\<open>kairo/oracles/docx_tracked_changes.py\<close>: the oracle that reads the revision marks of a produced
  document back. python-docx opens the file; what it returns, the element of the document's body, is
  the argument: a tree of elements with a tag in Clark notation, attributes, text and children (the
  tag of a comment is any text without a closing brace). The messages of the failed assertions are
  abridged. \<open>ps\<close> is Python's \<^verbatim>\<open>str\<close> on a value that is no text.
\<close>

section \<open>Elements\<close>

datatype xelem = XElem (x_tag: str) (x_attrs: "(str, str) dict") (x_text: "str option") (x_children: "xelem list")

definition W_NS :: str where
  "W_NS = ''http://schemas.openxmlformats.org/wordprocessingml/2006/main''"

definition qn :: "str \<Rightarrow> str" where
  "qn tag = ''{'' @ W_NS @ ''}'' @ tag"

definition local_name :: "str \<Rightarrow> str" where
  "local_name tag = (if CHR ''}'' \<in> set tag then tl (dropWhile (\<lambda>c. c \<noteq> CHR ''}'') tag) else tag)"

text \<open>\<^verbatim>\<open>elem.iter()\<close>: the element and its descendants in document order.\<close>

fun x_iter :: "xelem \<Rightarrow> xelem list" where
  "x_iter (XElem t as x cs) = XElem t as x cs # concat (map x_iter cs)"

definition text_or_empty :: "xelem \<Rightarrow> str" where
  "text_or_empty e = (case x_text e of None \<Rightarrow> [] | Some s \<Rightarrow> s)"

section \<open>Revisions\<close>

datatype RevKind = RevIns | RevDel

record Revision =
  rv_kind :: RevKind
  rv_text :: str
  rv_author :: "str option"
  rv_date :: "str option"

definition revision_of :: "xelem \<Rightarrow> Revision option" where
  "revision_of e =
     (let rev = (\<lambda>k tag. \<lparr>rv_kind = k, rv_text = concat (map text_or_empty (filter (\<lambda>t. x_tag t = qn tag) (x_iter e))),
                        rv_author = dict_get (x_attrs e) (qn ''author''), rv_date = dict_get (x_attrs e) (qn ''date'')\<rparr>);
          name = local_name (x_tag e)
      in if name = ''ins'' then Some (rev RevIns ''t'')
         else if name = ''del'' then Some (rev RevDel ''delText'')
         else None)"

definition extract_revisions :: "xelem \<Rightarrow> Revision list" where
  "extract_revisions body = List.map_filter revision_of (x_iter body)"

section \<open>Original and final text\<close>

fun walk :: "bool \<Rightarrow> bool \<Rightarrow> xelem list \<Rightarrow> str list \<times> str list" where
  "walk in_ins in_del [] = ([], [])"
| "walk in_ins in_del (XElem t as x cs # rest) =
     (let name = local_name t;
          s = (case x of None \<Rightarrow> [] | Some s \<Rightarrow> s);
          (o1, f1) =
            (if name = ''ins'' then walk True in_del cs
             else if name = ''del'' then walk in_ins True cs
             else if name = ''t'' then (if \<not> in_ins \<and> \<not> in_del then [s] else [], if \<not> in_del then [s] else [])
             else if name = ''delText'' then ([s], [])
             else walk in_ins in_del cs);
          (o2, f2) = walk in_ins in_del rest
      in (o1 @ o2, f1 @ f2))"

definition paragraphs :: "xelem \<Rightarrow> xelem list" where
  "paragraphs body = filter (\<lambda>e. x_tag e = qn ''p'') (x_iter body)"

definition reconstruct_original_and_final :: "xelem \<Rightarrow> str \<times> str" where
  "reconstruct_original_and_final body =
     (let streams = map (\<lambda>p. walk False False (x_children p)) (paragraphs body)
      in (norm_text (join [CHR 0x0A] (map (\<lambda>s. concat (fst s)) streams)),
          norm_text (join [CHR 0x0A] (map (\<lambda>s. concat (snd s)) streams))))"

section \<open>The oracle\<close>

definition present :: "str option \<Rightarrow> bool" where
  "present a = (case a of None \<Rightarrow> False | Some s \<Rightarrow> strip s \<noteq> [])"

definition norm_opt :: "str option \<Rightarrow> str" where
  "norm_opt a = norm_text (case a of None \<Rightarrow> [] | Some s \<Rightarrow> s)"

fun match_pool :: "(json \<Rightarrow> str) \<Rightarrow> bool \<Rightarrow> bool \<Rightarrow> json \<Rightarrow> json option \<Rightarrow> Revision list \<Rightarrow> Revision list result" where
  "match_pool ps req_author req_date want author [] = Raise (AssertionError ''expected tracked revision not found'')"
| "match_pool ps req_author req_date want author (r # rs) =
     (let continue = bind_ok (match_pool ps req_author req_date want author rs) (\<lambda>rs'. Ok (r # rs')) in
      if norm_text (rv_text r) \<noteq> norm_json ps want then continue
      else if req_author \<and> \<not> present (rv_author r) then Raise (AssertionError ''missing a w:author attribute'')
      else if (case author of None \<Rightarrow> False | Some a \<Rightarrow> norm_opt (rv_author r) \<noteq> norm_json ps a) then continue
      else if req_date \<and> \<not> present (rv_date r) then Raise (AssertionError ''missing a w:date attribute'')
      else Ok rs)"

definition change_author :: "jobj \<Rightarrow> json option" where
  "change_author ch = (case dict_get ch ''author'' of None \<Rightarrow> None | Some v \<Rightarrow> if v = JNull then None else Some v)"

fun match_changes ::
  "(json \<Rightarrow> str) \<Rightarrow> bool \<Rightarrow> bool \<Rightarrow> json list \<Rightarrow> Revision list \<Rightarrow> Revision list \<Rightarrow> (Revision list \<times> Revision list) result" where
  "match_changes ps ra rd [] del_pool ins_pool = Ok (del_pool, ins_pool)"
| "match_changes ps ra rd (JObj ch # chs) del_pool ins_pool =
     (let old = get_default ch ''old'' (JStr []); new = get_default ch ''new'' (JStr []); author = change_author ch in
      if \<not> json_truthy old \<and> \<not> json_truthy new then Raise (AssertionError ''change specifies neither old nor new'')
      else
        bind_ok (if json_truthy old then match_pool ps ra rd old author del_pool else Ok del_pool) (\<lambda>del_pool'.
        bind_ok (if json_truthy new then match_pool ps ra rd new author ins_pool else Ok ins_pool) (\<lambda>ins_pool'.
        match_changes ps ra rd chs del_pool' ins_pool')))"
| "match_changes ps ra rd (_ # chs) del_pool ins_pool = Raise (AttributeError ''get'')"

definition verify_docx_tracked_changes ::
  "(json \<Rightarrow> str) \<Rightarrow> xelem \<Rightarrow> json \<Rightarrow> bool \<Rightarrow> bool \<Rightarrow> bool \<Rightarrow> str option \<Rightarrow> str option \<Rightarrow> bool result" where
  "verify_docx_tracked_changes ps body expected req_author req_date forbid_extra original_text final_text =
     (case expected of
        JList chs \<Rightarrow>
          if chs = [] then Raise (AssertionError ''expected_changes must be a non-empty list of changes'')
          else
            let revs = extract_revisions body in
            bind_ok (match_changes ps req_author req_date chs (filter (\<lambda>r. rv_kind r = RevDel) revs) (filter (\<lambda>r. rv_kind r = RevIns) revs))
              (\<lambda>(del_pool, ins_pool).
              if forbid_extra \<and> (ins_pool \<noteq> [] \<or> del_pool \<noteq> []) then
                Raise (AssertionError ''unintended tracked revisions present'')
              else
                let (recovered_original, recovered_final) = reconstruct_original_and_final body in
                if original_text \<noteq> None \<and> Some recovered_original \<noteq> map_option norm_text original_text then
                  Raise (AssertionError ''rejecting changes did not recover the original text'')
                else if final_text \<noteq> None \<and> Some recovered_final \<noteq> map_option norm_text final_text then
                  Raise (AssertionError ''accepting changes did not produce the expected final text'')
                else Ok True)
      | _ \<Rightarrow> Raise (AssertionError ''expected_changes must be a non-empty list of changes''))"

section \<open>Matching\<close>

definition attributed :: "Revision \<Rightarrow> bool" where
  "attributed r \<longleftrightarrow> present (rv_author r) \<and> present (rv_date r)"

definition rev_key :: "Revision \<Rightarrow> str \<times> str" where
  "rev_key r = (norm_text (rv_text r), norm_opt (rv_author r))"

definition want_key :: "(json \<Rightarrow> str) \<Rightarrow> str \<Rightarrow> jobj \<Rightarrow> str \<times> str" where
  "want_key ps fld ch = (norm_json ps (get_default ch fld (JStr [])), norm_json ps (get_default ch ''author'' (JStr [])))"

definition wanted :: "str \<Rightarrow> jobj list \<Rightarrow> jobj list" where
  "wanted fld chs = filter (\<lambda>c. json_truthy (get_default c fld (JStr []))) chs"

lemma match_pool_Ok:
  "match_pool ps True True w (Some a) pool = Ok pool' \<Longrightarrow>
     \<exists>r. attributed r \<and> rev_key r = (norm_json ps w, norm_json ps a) \<and> mset pool = add_mset r (mset pool')"
proof (induction pool arbitrary: pool')
  case (Cons r rs)
  show ?case
  proof (cases "rev_key r = (norm_json ps w, norm_json ps a)")
    case True
    then show ?thesis using Cons.prems by (auto simp: rev_key_def attributed_def Let_def split: if_splits)
  next
    case False
    then obtain rs' where "match_pool ps True True w (Some a) rs = Ok rs'" "pool' = r # rs'"
      using Cons.prems by (auto simp: rev_key_def Let_def bind_ok_Inr split: if_splits)
    with Cons.IH [of rs'] show ?thesis by auto
  qed
qed simp

lemma match_pool_ex:
  "list_all attributed pool \<Longrightarrow> (norm_json ps w, norm_json ps a) \<in> rev_key ` set pool \<Longrightarrow>
     \<exists>pool'. match_pool ps True True w (Some a) pool = Ok pool'"
proof (induction pool)
  case (Cons r rs)
  show ?case
  proof (cases "rev_key r = (norm_json ps w, norm_json ps a)")
    case True
    then show ?thesis using Cons.prems(1) by (simp add: Let_def attributed_def rev_key_def)
  next
    case False
    then obtain rs' where "match_pool ps True True w (Some a) rs = Ok rs'" using Cons by auto
    then show ?thesis using False Cons.prems(1) by (auto simp: Let_def attributed_def rev_key_def)
  qed
qed simp

text \<open>One expected revision takes one revision with its key out of the pool, whichever it takes.\<close>

lemma match_pool_iff:
  "(\<exists>pool'. match_pool ps True True w (Some a) pool = Ok pool' \<and> list_all attributed pool' \<and> mset (map rev_key pool') = M) \<longleftrightarrow>
     list_all attributed pool \<and> mset (map rev_key pool) = add_mset (norm_json ps w, norm_json ps a) M"
  (is "?L \<longleftrightarrow> ?R")
proof
  assume ?L
  then obtain pool' where p: "match_pool ps True True w (Some a) pool = Ok pool'" "list_all attributed pool'" "mset (map rev_key pool') = M"
    by blast
  from match_pool_Ok [OF p(1)] obtain r where "attributed r" "rev_key r = (norm_json ps w, norm_json ps a)"
    "mset pool = add_mset r (mset pool')" by blast
  moreover from this have "set pool = insert r (set pool')" using set_mset_mset by (metis set_mset_add_mset_insert)
  ultimately show ?R using p by (simp add: list_all_iff)
next
  assume r: ?R
  then have "(norm_json ps w, norm_json ps a) \<in># mset (map rev_key pool)" by simp
  then have "(norm_json ps w, norm_json ps a) \<in> rev_key ` set pool" by simp
  with r obtain pool' where p: "match_pool ps True True w (Some a) pool = Ok pool'" using match_pool_ex by blast
  from match_pool_Ok [OF p] obtain x where x: "rev_key x = (norm_json ps w, norm_json ps a)" "mset pool = add_mset x (mset pool')" by blast
  have "mset (map rev_key pool') = M" using r x by simp
  moreover have "set pool = insert x (set pool')" using x(2) set_mset_mset by (metis set_mset_add_mset_insert)
  ultimately show ?L using p r by (auto simp: list_all_iff)
qed

lemma wanted_Cons:
  "mset (map f (wanted fld (c # chs))) =
     (if json_truthy (get_default c fld (JStr [])) then add_mset (f c) (mset (map f (wanted fld chs))) else mset (map f (wanted fld chs)))"
  by (simp add: wanted_def)

lemma match_changes_iff:
  assumes "\<forall>c \<in> set chs. \<exists>s. dict_get c ''author'' = Some (JStr s)"
  shows "match_changes ps True True (map JObj chs) dp ip = Ok ([], []) \<longleftrightarrow>
    (\<forall>c \<in> set chs. json_truthy (get_default c ''old'' (JStr [])) \<or> json_truthy (get_default c ''new'' (JStr []))) \<and>
    list_all attributed dp \<and> list_all attributed ip \<and>
    mset (map rev_key dp) = mset (map (want_key ps ''old'') (wanted ''old'' chs)) \<and>
    mset (map rev_key ip) = mset (map (want_key ps ''new'') (wanted ''new'' chs))"
  using assms
proof (induction chs arbitrary: dp ip)
  case Nil
  then show ?case by (auto simp: wanted_def)
next
  case (Cons c chs)
  then obtain s where s: "dict_get c ''author'' = Some (JStr s)" by auto
  then have a: "change_author c = Some (JStr s)" "get_default c ''author'' (JStr []) = JStr s"
    by (simp_all add: change_author_def get_default_def)
  have wk: "want_key ps fld c = (norm_json ps (get_default c fld (JStr [])), norm_json ps (JStr s))" for fld
    by (simp add: want_key_def a(2))
  let ?old = "get_default c ''old'' (JStr [])" and ?new = "get_default c ''new'' (JStr [])"
  let ?step = "\<lambda>v p p'. (if json_truthy v then match_pool ps True True v (Some (JStr s)) p else Ok p) = Ok p'"
  have step: "(\<exists>p'. ?step v p p' \<and> list_all attributed p' \<and> mset (map rev_key p') = M) \<longleftrightarrow>
      list_all attributed p \<and> mset (map rev_key p) = (if json_truthy v then add_mset (norm_json ps v, norm_json ps (JStr s)) M else M)" for v p M
    using match_pool_iff [of ps v "JStr s" p M] by auto
  have IH: "match_changes ps True True (map JObj chs) dp ip = Ok ([], []) \<longleftrightarrow>
    (\<forall>c \<in> set chs. json_truthy (get_default c ''old'' (JStr [])) \<or> json_truthy (get_default c ''new'' (JStr []))) \<and>
    (list_all attributed dp \<and> mset (map rev_key dp) = mset (map (want_key ps ''old'') (wanted ''old'' chs))) \<and>
    (list_all attributed ip \<and> mset (map rev_key ip) = mset (map (want_key ps ''new'') (wanted ''new'' chs)))" for dp ip
    using Cons.IH [of dp ip] Cons.prems by auto
  have "match_changes ps True True (map JObj (c # chs)) dp ip = Ok ([], []) \<longleftrightarrow> (json_truthy ?old \<or> json_truthy ?new) \<and>
      (\<exists>dp' ip'. ?step ?old dp dp' \<and> ?step ?new ip ip' \<and> match_changes ps True True (map JObj chs) dp' ip' = Ok ([], []))"
    by (simp add: Let_def a(1) bind_ok_Inr)
  also have "\<dots> \<longleftrightarrow> (json_truthy ?old \<or> json_truthy ?new) \<and>
      (\<forall>c \<in> set chs. json_truthy (get_default c ''old'' (JStr [])) \<or> json_truthy (get_default c ''new'' (JStr []))) \<and>
      (\<exists>dp'. ?step ?old dp dp' \<and> list_all attributed dp' \<and> mset (map rev_key dp') = mset (map (want_key ps ''old'') (wanted ''old'' chs))) \<and>
      (\<exists>ip'. ?step ?new ip ip' \<and> list_all attributed ip' \<and> mset (map rev_key ip') = mset (map (want_key ps ''new'') (wanted ''new'' chs)))"
    unfolding IH by blast
  finally show ?case unfolding step wanted_Cons wk by (simp only: list.set(2) ball_simps(7) conj_assoc) blast
qed

section \<open>Accepting and rejecting\<close>

text \<open>The specification of the reconstruction: accepting all changes removes deletions and keeps the
  content of insertions, rejecting them removes insertions and restores deleted text. The text of a
  document is that of its text elements in order.\<close>

fun plain_text :: "xelem list \<Rightarrow> str" where
  "plain_text [] = []"
| "plain_text (XElem t as x cs # rest) =
     (if local_name t = ''t'' then (case x of None \<Rightarrow> [] | Some s \<Rightarrow> s) else plain_text cs) @ plain_text rest"

fun accepted :: "xelem list \<Rightarrow> xelem list" where
  "accepted [] = []"
| "accepted (XElem t as x cs # rest) =
     (if local_name t = ''ins'' then accepted cs
      else if local_name t \<in> {''del'', ''delText''} then []
      else if local_name t = ''t'' then [XElem t as x cs]
      else [XElem t as x (accepted cs)]) @ accepted rest"

fun rejected :: "xelem list \<Rightarrow> xelem list" where
  "rejected [] = []"
| "rejected (XElem t as x cs # rest) =
     (if local_name t = ''ins'' then []
      else if local_name t = ''del'' then rejected cs
      else if local_name t = ''t'' then [XElem t as x cs]
      else if local_name t = ''delText'' then [XElem (qn ''t'') as x []]
      else [XElem t as x (rejected cs)]) @ rejected rest"

text \<open>Revision marks as the tracked-changes writer produces them: not nested in one another, deleted text
  exactly inside deletions.\<close>

fun marked :: "bool \<Rightarrow> bool \<Rightarrow> xelem list \<Rightarrow> bool" where
  "marked in_ins in_del [] = True"
| "marked in_ins in_del (XElem t as x cs # rest) =
     ((if local_name t = ''ins'' then \<not> in_ins \<and> \<not> in_del \<and> marked True False cs
       else if local_name t = ''del'' then \<not> in_ins \<and> \<not> in_del \<and> marked False True cs
       else if local_name t = ''t'' then \<not> in_del
       else if local_name t = ''delText'' then in_del
       else marked in_ins in_del cs) \<and> marked in_ins in_del rest)"

lemma plain_append [simp]: "plain_text (xs @ ys) = plain_text xs @ plain_text ys"
  by (induction xs rule: plain_text.induct) auto

lemma local_name_qn_t [simp]: "local_name (qn ''t'') = ''t''"
  by code_simp

lemma walk_refines:
  "marked in_ins in_del cs \<Longrightarrow> \<not> (in_ins \<and> in_del) \<Longrightarrow>
     concat (fst (walk in_ins in_del cs)) = (if in_ins then [] else plain_text (rejected cs)) \<and>
     concat (snd (walk in_ins in_del cs)) = (if in_del then [] else plain_text (accepted cs))"
proof (induction in_ins in_del cs rule: walk.induct)
  case (2 in_ins in_del t as x cs rest)
  consider "local_name t = ''ins''" | "local_name t = ''del''" | "local_name t = ''t''" | "local_name t = ''delText''"
    | (other) "local_name t \<notin> {''ins'', ''del'', ''t'', ''delText''}" by auto
  then show ?case
  proof cases
    case other
    then show ?thesis using 2 by (auto simp: Let_def split: prod.splits)
  qed (use 2 in \<open>auto simp: Let_def split: prod.splits if_splits\<close>)
qed simp

section \<open>The strict oracle\<close>

text \<open>The marks of a document are exactly those of a list of changes.\<close>

definition exact_marks :: "(json \<Rightarrow> str) \<Rightarrow> xelem \<Rightarrow> jobj list \<Rightarrow> bool" where
  "exact_marks ps body chs \<longleftrightarrow> list_all attributed (extract_revisions body) \<and>
     mset (map rev_key (filter (\<lambda>r. rv_kind r = RevDel) (extract_revisions body))) = mset (map (want_key ps ''old'') (wanted ''old'' chs)) \<and>
     mset (map rev_key (filter (\<lambda>r. rv_kind r = RevIns) (extract_revisions body))) = mset (map (want_key ps ''new'') (wanted ''new'' chs))"

lemma strict_verify:
  assumes "\<forall>c \<in> set chs. \<exists>s. dict_get c ''author'' = Some (JStr s)"
  shows "verify_docx_tracked_changes ps body (JList (map JObj chs)) True True True None None = Ok v \<longleftrightarrow>
    v \<and> chs \<noteq> [] \<and> (\<forall>c \<in> set chs. json_truthy (get_default c ''old'' (JStr [])) \<or> json_truthy (get_default c ''new'' (JStr []))) \<and>
    exact_marks ps body chs"
proof -
  let ?d = "filter (\<lambda>r. rv_kind r = RevDel) (extract_revisions body)" and ?i = "filter (\<lambda>r. rv_kind r = RevIns) (extract_revisions body)"
  have "verify_docx_tracked_changes ps body (JList (map JObj chs)) True True True None None = Ok v \<longleftrightarrow>
      v \<and> chs \<noteq> [] \<and> match_changes ps True True (map JObj chs) ?d ?i = Ok ([], [])"
    by (auto simp: verify_docx_tracked_changes_def Let_def bind_ok_Inr split: prod.splits if_splits simp del: match_changes.simps)
  moreover have "list_all attributed ?d \<and> list_all attributed ?i \<longleftrightarrow> list_all attributed (extract_revisions body)"
    using RevKind.exhaust by (auto simp: list_all_iff)
  ultimately show ?thesis unfolding match_changes_iff [OF assms] exact_marks_def by blast
qed

section \<open>Properties\<close>

text \<open>C36: the oracle accepts exactly the documents with the intended changes. For a list of expected
  changes with authors, in its strict setting, it accepts if and only if the list is not empty, every
  change deletes or inserts something, every revision mark of the document carries an author and a
  date, and the deletions and the insertions, compared by normalised text and author with their
  multiplicity, are exactly the expected ones. It does not matter in which order marks and changes
  come.\<close>

theorem tracked_changes_exact:
  assumes "\<forall>c \<in> set chs. \<exists>s. dict_get c ''author'' = Some (JStr s)"
  shows "verify_docx_tracked_changes ps body (JList (map JObj chs)) True True True None None = Ok True \<longleftrightarrow>
    chs \<noteq> [] \<and> (\<forall>c \<in> set chs. json_truthy (get_default c ''old'' (JStr [])) \<or> json_truthy (get_default c ''new'' (JStr []))) \<and>
    exact_marks ps body chs"
  using strict_verify [OF assms, of ps body True] by simp

text \<open>A document of one paragraph in which a word is replaced, as the writer marks it.\<close>

definition sample_run :: "str \<Rightarrow> str \<Rightarrow> xelem" where
  "sample_run tag s = XElem (qn ''r'') [] None [XElem (qn tag) [] (Some s) []]"

definition sample_body :: xelem where
  "sample_body = XElem (qn ''body'') [] None [XElem (qn ''p'') [] None
     [sample_run ''t'' ''law of '',
      XElem (qn ''del'') [(qn ''author'', ''me''), (qn ''date'', ''d'')] None [sample_run ''delText'' ''A''],
      XElem (qn ''ins'') [(qn ''author'', ''me''), (qn ''date'', ''d'')] None [sample_run ''t'' ''B'']]]"

definition sample_changes :: "jobj list" where
  "sample_changes = [[(''old'', JStr ''A''), (''new'', JStr ''B''), (''author'', JStr ''me'')]]"

lemma sample_revisions:
  "extract_revisions sample_body =
     [\<lparr>rv_kind = RevDel, rv_text = ''A'', rv_author = Some ''me'', rv_date = Some ''d''\<rparr>,
      \<lparr>rv_kind = RevIns, rv_text = ''B'', rv_author = Some ''me'', rv_date = Some ''d''\<rparr>]"
  by code_simp

theorem tracked_changes_exact_witness:
  "verify_docx_tracked_changes (\<lambda>_. []) sample_body (JList (map JObj sample_changes)) True True True None None = Ok True"
proof -
  have a: "\<forall>c \<in> set sample_changes. \<exists>s. dict_get c ''author'' = Some (JStr s)" by (simp add: sample_changes_def)
  have p: "present (Some ''me'')" "present (Some ''d'')" by code_simp+
  show ?thesis unfolding tracked_changes_exact [OF a]
    by (simp add: exact_marks_def sample_revisions sample_changes_def attributed_def p wanted_def get_default_def want_key_def
        rev_key_def norm_opt_def norm_json_def text_of_def)
qed

text \<open>C37: the reconstructed texts are those of the two resolutions. When the revision marks of every
  paragraph are well formed, the original text is the normalised text of the paragraphs with all
  changes rejected and the final text that with all changes accepted.\<close>

theorem reconstruction_refines:
  assumes "\<forall>p \<in> set (paragraphs body). marked False False (x_children p)"
  shows "reconstruct_original_and_final body =
    (norm_text (join [CHR 0x0A] (map (\<lambda>p. plain_text (rejected (x_children p))) (paragraphs body))),
     norm_text (join [CHR 0x0A] (map (\<lambda>p. plain_text (accepted (x_children p))) (paragraphs body))))"
proof -
  have "map (\<lambda>p. concat (fst (walk False False (x_children p)))) (paragraphs body) = map (\<lambda>p. plain_text (rejected (x_children p))) (paragraphs body)"
    "map (\<lambda>p. concat (snd (walk False False (x_children p)))) (paragraphs body) = map (\<lambda>p. plain_text (accepted (x_children p))) (paragraphs body)"
    using assms walk_refines by (auto intro!: map_cong)
  then show ?thesis by (simp only: reconstruct_original_and_final_def Let_def map_map comp_def)
qed

theorem reconstruction_refines_witness:
  "reconstruct_original_and_final sample_body = (''law of A'', ''law of B'')"
proof -
  have "\<forall>p \<in> set (paragraphs sample_body). marked False False (x_children p)" by code_simp
  from reconstruction_refines [OF this] show ?thesis by (rule trans) code_simp
qed

text \<open>Text that was inserted and then deleted belongs to neither resolution, but the reconstruction
  counts it to the original text.\<close>

lemma nested_deletion_in_original:
  "let cs = [XElem (qn ''ins'') [] None [XElem (qn ''del'') [] None [sample_run ''delText'' ''x'']]]
   in walk False False cs = ([''x''], []) \<and> plain_text (rejected cs) = []"
  by code_simp

end
