(* ===== verification/Base64.thy ===== *)
theory Base64
  imports HashChain
begin

text \<open>
  The part of Python's \<^verbatim>\<open>base64\<close> module that the legal transaction and its envelope use: encoding, and
  decoding as \<^verbatim>\<open>binascii.a2b_base64\<close> does it, which skips characters outside the alphabet and stops at
  a complete padding. The loop keeps the position in the group of four, the number of padding
  characters seen and the bits left over.
\<close>

definition b64_alphabet :: str where
  "b64_alphabet = ''ABCDEFGHIJKLMNOPQRSTUVWXYZabcdefghijklmnopqrstuvwxyz0123456789+/''"

definition b64_char :: "nat \<Rightarrow> char" where
  "b64_char n = b64_alphabet ! n"

fun index_of :: "'a \<Rightarrow> 'a list \<Rightarrow> nat option" where
  "index_of x [] = None"
| "index_of x (y # ys) = (if x = y then Some 0 else map_option Suc (index_of x ys))"

definition b64_val :: "char \<Rightarrow> nat option" where
  "b64_val c = index_of c b64_alphabet"

fun b64encode :: "bytes \<Rightarrow> str" where
  "b64encode [] = []"
| "b64encode [a] = [b64_char (unat a div 4), b64_char (unat a mod 4 * 16), CHR ''='', CHR ''='']"
| "b64encode [a, b] =
     [b64_char (unat a div 4), b64_char (unat a mod 4 * 16 + unat b div 16), b64_char (unat b mod 16 * 4), CHR ''='']"
| "b64encode (a # b # c # bs) =
     b64_char (unat a div 4) # b64_char (unat a mod 4 * 16 + unat b div 16) # b64_char (unat b mod 16 * 4 + unat c div 64) #
     b64_char (unat c mod 64) # b64encode bs"

fun a2b :: "nat \<Rightarrow> nat \<Rightarrow> nat \<Rightarrow> str \<Rightarrow> bytes option" where
  "a2b quad pads left [] = (if quad = 0 then Some [] else None)"
| "a2b quad pads left (ch # s) =
     (if ch = CHR ''='' then
        (if quad \<ge> 2 then (if quad + Suc pads \<ge> 4 then Some [] else a2b quad (Suc pads) left s)
         else a2b quad pads left s)
      else case b64_val ch of
             None \<Rightarrow> a2b quad pads left s
           | Some v \<Rightarrow>
               if quad = 0 then a2b 1 0 v s
               else if quad = 1 then map_option (Cons (word_of_nat (left * 4 + v div 16))) (a2b 2 0 (v mod 16) s)
               else if quad = 2 then map_option (Cons (word_of_nat (left * 16 + v div 4))) (a2b 3 0 (v mod 4) s)
               else map_option (Cons (word_of_nat (left * 64 + v))) (a2b 0 0 0 s))"

definition b64decode :: "str \<Rightarrow> bytes option" where
  "b64decode s = (if is_ascii s then a2b 0 0 0 s else None)"

text \<open>With \<^verbatim>\<open>validate=True\<close> only characters of the alphabet followed by at most two padding characters
  are decoded.\<close>

definition b64_digits :: "str \<Rightarrow> bool" where
  "b64_digits s = (dropWhile (\<lambda>c. b64_val c \<noteq> None) s \<in> {[], ''='', ''==''})"

definition b64decode_validate :: "str \<Rightarrow> bytes option" where
  "b64decode_validate s = (if b64_digits s then b64decode s else None)"

section \<open>Round trip\<close>

lemma index_of_nth: "distinct xs \<Longrightarrow> n < length xs \<Longrightarrow> index_of (xs ! n) xs = Some n"
  by (induction xs arbitrary: n) (auto simp: nth_Cons split: nat.split)

lemma b64_alphabet_facts:
  "distinct b64_alphabet" "length b64_alphabet = 64" "CHR ''='' \<notin> set b64_alphabet" "is_ascii b64_alphabet"
  by code_simp+

lemma b64_char_facts [simp]:
  assumes "n < 64"
  shows "b64_val (b64_char n) = Some n" "b64_char n \<noteq> CHR ''=''" "(of_char (b64_char n) :: nat) < 128"
proof -
  have "b64_char n \<in> set b64_alphabet" using assms b64_alphabet_facts(2) by (simp add: b64_char_def)
  then show "b64_char n \<noteq> CHR ''=''" "(of_char (b64_char n) :: nat) < 128"
    using b64_alphabet_facts(3,4) by (auto simp: is_ascii_def list_all_iff)
  show "b64_val (b64_char n) = Some n"
    using assms b64_alphabet_facts(1,2) by (simp add: b64_val_def b64_char_def index_of_nth)
qed

lemma byte_less [simp]: "unat (a :: byte) < 256"
  using unsigned_less [of a, where ?'a = nat] by simp

lemma word_of_nat_unat: "word_of_nat (unat (a :: byte)) = a"
  by simp

lemma byte_parts:
  fixes a b c :: byte
  shows "unat a div 4 < 64" "unat a mod 4 * 16 + unat b div 16 < 64" "unat b mod 16 * 4 + unat c div 64 < 64" "unat c mod 64 < 64"
    "unat a mod 4 * 16 < 64" "unat b mod 16 * 4 < 64"
  using byte_less [of a] byte_less [of b] byte_less [of c] by linarith+

lemma byte_joins:
  fixes a b c :: nat
  assumes "a < 256" "b < 256" "c < 256"
  shows "a div 4 * 4 + (a mod 4 * 16 + b div 16) div 16 = a"
    "a div 4 * 4 + a mod 4 * 16 div 16 = a"
    "(a mod 4 * 16 + b div 16) mod 16 * 16 + (b mod 16 * 4 + c div 64) div 4 = b"
    "(a mod 4 * 16 + b div 16) mod 16 * 16 + b mod 16 * 4 div 4 = b"
    "(b mod 16 * 4 + c div 64) mod 4 * 64 + c mod 64 = c"
proof -
  have "b div 16 < 16" "c div 64 < 4" using assms by auto
  then have "(a mod 4 * 16 + b div 16) div 16 = a mod 4" "(a mod 4 * 16 + b div 16) mod 16 = b div 16"
    "(b mod 16 * 4 + c div 64) div 4 = b mod 16" "(b mod 16 * 4 + c div 64) mod 4 = c div 64"
    by simp_all
  then show "a div 4 * 4 + (a mod 4 * 16 + b div 16) div 16 = a"
    "(a mod 4 * 16 + b div 16) mod 16 * 16 + (b mod 16 * 4 + c div 64) div 4 = b"
    "(a mod 4 * 16 + b div 16) mod 16 * 16 + b mod 16 * 4 div 4 = b"
    "(b mod 16 * 4 + c div 64) mod 4 * 64 + c mod 64 = c"
    by (simp_all add: div_mult_mod_eq)
  show "a div 4 * 4 + a mod 4 * 16 div 16 = a" by (simp add: div_mult_mod_eq)
qed

lemma a2b_groups:
  assumes "w < 64" "x < 64" "y < 64" "z < 64"
  shows "a2b 0 0 0 (b64_char w # b64_char x # b64_char y # b64_char z # s) =
      map_option (\<lambda>r. word_of_nat (w * 4 + x div 16) # word_of_nat (x mod 16 * 16 + y div 4) # word_of_nat (y mod 4 * 64 + z) # r) (a2b 0 0 0 s)"
    "a2b 0 0 0 [b64_char w, b64_char x, b64_char y, CHR ''=''] = Some [word_of_nat (w * 4 + x div 16), word_of_nat (x mod 16 * 16 + y div 4)]"
    "a2b 0 0 0 [b64_char w, b64_char x, CHR ''='', CHR ''=''] = Some [word_of_nat (w * 4 + x div 16)]"
  using assms by (simp_all add: option.map_comp comp_def)

lemma a2b_encode: "a2b 0 0 0 (b64encode bs) = Some bs"
proof (induction bs rule: b64encode.induct)
  case (2 a)
  have "unat a div 4 * 4 + unat a mod 4 * 16 div 16 = unat a" using byte_joins(2) [of "unat a" 0 0] by simp
  then show ?case unfolding b64encode.simps a2b_groups(3) [OF byte_parts(1,5,1,1)] by (simp only: word_of_nat_unat)
next
  case (3 a b)
  show ?case unfolding b64encode.simps a2b_groups(2) [OF byte_parts(1,2,6,6)] byte_joins(1,4) [OF byte_less byte_less byte_less]
    by (simp only: word_of_nat_unat)
next
  case (4 a b c bs)
  show ?case unfolding b64encode.simps a2b_groups(1) [OF byte_parts(1-4)] byte_joins(1,3,5) [OF byte_less byte_less byte_less] 4
    by (simp only: word_of_nat_unat option.map)
qed simp

lemma b64encode_ascii: "is_ascii (b64encode bs)"
  by (induction bs rule: b64encode.induct) (simp_all add: is_ascii_def byte_parts)

lemma b64_round_trip [simp]: "b64decode (b64encode bs) = Some bs"
  by (simp add: b64decode_def a2b_encode b64encode_ascii)

lemma b64_val_pad [simp]: "b64_val CHR ''='' = None"
  by code_simp

lemma b64_digits_encode: "b64_digits (b64encode bs)"
proof -
  have "dropWhile (\<lambda>c. b64_val c \<noteq> None) (b64encode bs) \<in> {[], ''='', ''==''}"
    by (induction bs rule: b64encode.induct) (simp_all add: byte_parts)
  then show ?thesis unfolding b64_digits_def .
qed

lemma b64_validate_round_trip [simp]: "b64decode_validate (b64encode bs) = Some bs"
  by (simp add: b64decode_validate_def b64_digits_encode)

lemma b64encode_inject [simp]: "b64encode bs = b64encode cs \<longleftrightarrow> bs = cs"
  using b64_round_trip by (metis option.inject)

end
