(* ===== verification/LegalTransaction.thy ===== *)
theory LegalTransaction
  imports ReferenceMonitor TrackedChanges Base64
begin

text \<open>
  \<^verbatim>\<open>kairo/legal_v3/transaction.py\<close>: the governed redline of a contract, from a signed proposal over a
  signed approval to the execution, its evidence bundle and the verification of the bundle. Proposals,
  approvals, events and manifests are dictionaries of JSON values, keys dictionaries of texts. The
  file system is a map from resolved paths to nodes; resolving a path is a parameter, as are the
  clock, fresh identifiers, the hash, the signature scheme, the paragraphs python-docx reads, the
  file the writer of the redline leaves and the element tree python-docx opens it as. The bundle
  directory is a store of its own. Reading a part of a manifest that has the wrong type is a
  \<^verbatim>\<open>TypeError\<close>.
\<close>

section \<open>Canonical form\<close>

definition PROFILE :: str where "PROFILE = ''kairo-legal-v3''"
definition ACTION :: str where "ACTION = ''mutual_nda.redline''"
definition MAX_BYTES :: nat where "MAX_BYTES = 25 * 1024 * 1024"

definition EVENTS :: "str list" where
  "EVENTS = [''INPUT_OBSERVED'', ''TRUST_CLASSIFIED'', ''POLICY_DECISION'', ''ACTION_INTENT'', ''APPROVAL_BOUND'',
     ''ACTION_ATTEMPT'', ''ARTIFACT_READBACK'', ''RUN_CLOSED'']"

definition ALLOWED_CLAUSES :: "str list" where
  "ALLOWED_CLAUSES = [''governing_law'', ''liability_cap'', ''termination_notice'', ''confidentiality_survival'', ''indemnification_cap'']"

text \<open>The walk visits the members of a dictionary in the order of their keys, so it is a walk of the
  sorted value.\<close>

fun safe_walk :: "json \<Rightarrow> json result"
  and safe_items :: "json list \<Rightarrow> json list result"
  and safe_members :: "(str \<times> json) list \<Rightarrow> (str \<times> json) list result" where
  "safe_walk (JFloat r) = Raise (LegalV3Error ''floats forbidden in signed objects'')"
| "safe_walk (JInt i) = (if \<bar>i\<bar> > 9007199254740991 then Raise (LegalV3Error ''unsafe integer'') else Ok (JInt i))"
| "safe_walk (JObj d) = bind_ok (safe_members d) (\<lambda>d'. Ok (JObj d'))"
| "safe_walk (JList vs) = bind_ok (safe_items vs) (\<lambda>vs'. Ok (JList vs'))"
| "safe_walk (JStr s) = Ok (JStr s)"
| "safe_walk (JBool b) = Ok (JBool b)"
| "safe_walk JNull = Ok JNull"
| "safe_items [] = Ok []"
| "safe_items (v # vs) = bind_ok (safe_walk v) (\<lambda>v'. bind_ok (safe_items vs) (\<lambda>vs'. Ok (v' # vs')))"
| "safe_members [] = Ok []"
| "safe_members ((k, v) # d) = bind_ok (safe_walk v) (\<lambda>v'. bind_ok (safe_members d) (\<lambda>d'. Ok ((k, v') # d')))"

definition canonical :: "json \<Rightarrow> bytes result" where
  "canonical v = bind_ok (safe_walk (sort_json v)) (\<lambda>w. Ok (utf8 (dumps compact_unicode w)))"

section \<open>Keys and signatures\<close>

type_synonym keyd = "(str, str) dict"

definition need :: "(str, 'a) dict \<Rightarrow> str \<Rightarrow> 'a result" where
  "need d k = (case dict_get d k of None \<Rightarrow> Raise (KeyError k) | Some v \<Rightarrow> Ok v)"

text \<open>The seed of the fresh private key is an argument.\<close>

definition generate_keypair :: "(bytes \<Rightarrow> bytes) \<Rightarrow> Ed25519 \<Rightarrow> bytes \<Rightarrow> str \<Rightarrow> keyd result" where
  "generate_keypair H cr seed role =
     (if role \<notin> {''producer'', ''approver'', ''observer''} then Raise (LegalV3Error ''invalid role'')
      else Ok [(''role'', role), (''key_id'', take 16 (hex (H (pub cr seed)))),
               (''private'', b64encode seed), (''public'', b64encode (pub cr seed))])"

definition tx_sign :: "Ed25519 \<Rightarrow> jobj \<Rightarrow> keyd \<Rightarrow> str result" where
  "tx_sign cr obj key = bind_ok (need key ''private'') (\<lambda>p.
     case b64decode p of
       None \<Rightarrow> Raise (ValueError ''invalid base64'')
     | Some sk \<Rightarrow>
         if length sk \<noteq> 32 then Raise (ValueError ''An Ed25519 private key is 32 bytes long'')
         else bind_ok (canonical (JObj obj)) (\<lambda>b. Ok (b64encode (sgn cr sk b))))"

definition verify_sig :: "Ed25519 \<Rightarrow> jobj \<Rightarrow> json \<Rightarrow> json \<Rightarrow> bool" where
  "verify_sig cr obj sig pub_b64 = (case (pub_b64, sig) of
     (JStr p, JStr s) \<Rightarrow> (case (b64decode p, b64decode s, canonical (JObj obj)) of
        (Some pk, Some sg, Inr b) \<Rightarrow> length pk = 32 \<and> vfy cr pk b sg
      | _ \<Rightarrow> False)
   | _ \<Rightarrow> False)"

section \<open>Files\<close>

datatype FNode = Regular bytes | Link | OtherNode

type_synonym fs = "str list \<Rightarrow> FNode option"

definition read_node :: "FNode option \<Rightarrow> bytes result" where
  "read_node n = (case n of
     None \<Rightarrow> Raise (FileNotFoundError [])
   | Some (Regular b) \<Rightarrow> if length b > MAX_BYTES then Raise (LegalV3Error ''file too large'') else Ok b
   | Some _ \<Rightarrow> Raise (LegalV3Error ''regular non-symlink file required''))"

definition read_regular :: "fs \<Rightarrow> str list \<Rightarrow> bytes result" where
  "read_regular fsys p = read_node (fsys p)"

definition load_json_bytes :: "bytes \<Rightarrow> jobj result" where
  "load_json_bytes data = (case utf8_decode data of
     None \<Rightarrow> Raise (LegalV3Error ''invalid UTF-8 JSON'')
   | Some s \<Rightarrow> (case loads s of
       None \<Rightarrow> Raise (LegalV3Error ''invalid UTF-8 JSON'')
     | Some (JObj d) \<Rightarrow> Ok d
     | Some _ \<Rightarrow> Raise (LegalV3Error ''JSON object required'')))"

fun clause_fields :: "jobj \<Rightarrow> str list \<Rightarrow> unit result" where
  "clause_fields c [] = Ok ()"
| "clause_fields c (f # fs) = (case dict_get c f of
     Some (JStr s) \<Rightarrow> if strip s = [] then Raise (LegalV3Error (''missing '' @ f)) else clause_fields c fs
   | _ \<Rightarrow> Raise (LegalV3Error (''missing '' @ f)))"

fun allowed_clauses :: "json list \<Rightarrow> unit result" where
  "allowed_clauses [] = Ok ()"
| "allowed_clauses (JObj c # cs) =
     (let cid = get_default c ''clause_id'' JNull in
      if \<not> hashable cid then Raise (TypeError ''unhashable type'')
      else if cid \<notin> set (map JStr ALLOWED_CLAUSES) then Raise (LegalV3Error ''outside mutual-NDA operation set'')
      else bind_ok (clause_fields c [''match_text'', ''replacement_text'', ''citation'', ''rationale'']) (\<lambda>_. allowed_clauses cs))"
| "allowed_clauses (_ # cs) = Raise (LegalV3Error ''invalid clause'')"

definition allowed_playbook :: "jobj \<Rightarrow> unit result" where
  "allowed_playbook pb = (case dict_get pb ''clauses'' of
     Some (JList cs) \<Rightarrow> if cs = [] then Raise (LegalV3Error ''clauses required'') else allowed_clauses cs
   | _ \<Rightarrow> Raise (LegalV3Error ''clauses required''))"

record TxEnv =
  tx_hash :: "bytes \<Rightarrow> bytes"
  tx_crypto :: Ed25519
  tx_root :: "str \<Rightarrow> str list"
  tx_join :: "str list \<Rightarrow> str \<Rightarrow> str list"
  tx_pstr :: "str list \<Rightarrow> str"
  tx_now :: int
  tx_uuid :: "nat \<Rightarrow> str"
  tx_paras :: "bytes \<Rightarrow> str list"
  tx_redline :: RedlineEnv
  tx_tmp :: str
  tx_written :: "RedlineResult \<Rightarrow> bytes"
  tx_body :: "bytes \<Rightarrow> xelem"

definition tx_sha :: "TxEnv \<Rightarrow> bytes \<Rightarrow> str" where
  "tx_sha env b = hex (tx_hash env b)"

definition resolve_under_root :: "TxEnv \<Rightarrow> str list \<Rightarrow> json \<Rightarrow> str list result" where
  "resolve_under_root env rootp rel = (case rel of
     JStr s \<Rightarrow> (let candidate = tx_join env rootp s in
       if prefix rootp candidate then Ok candidate else Raise (LegalV3Error ''path escape''))
   | _ \<Rightarrow> Raise (TypeError ''unsupported operand''))"

section \<open>Proposal and approval\<close>

definition without :: "str list \<Rightarrow> jobj \<Rightarrow> jobj" where
  "without ks d = filter (\<lambda>p. fst p \<notin> set ks) d"

definition proposal_unsigned :: "TxEnv \<Rightarrow> str \<Rightarrow> str \<Rightarrow> str \<Rightarrow> bytes \<Rightarrow> bytes \<Rightarrow> json \<Rightarrow> int \<Rightarrow> int \<Rightarrow> str \<Rightarrow> jobj" where
  "proposal_unsigned env src pb out source_bytes playbook_bytes clauses now ttl kid =
     [(''profile'', JStr PROFILE), (''proposal_id'', JStr (tx_uuid env 0)), (''action'', JStr ACTION), (''source'', JStr src),
      (''playbook'', JStr pb), (''output'', JStr out), (''source_sha256'', JStr (tx_sha env source_bytes)),
      (''playbook_sha256'', JStr (tx_sha env playbook_bytes)), (''clauses'', clauses), (''issued_at'', JInt now),
      (''expires_at'', JInt (now + ttl)), (''producer_key_id'', JStr kid)]"

definition propose :: "TxEnv \<Rightarrow> fs \<Rightarrow> str \<Rightarrow> str \<Rightarrow> str \<Rightarrow> str \<Rightarrow> keyd \<Rightarrow> int \<Rightarrow> jobj result" where
  "propose env fsys rt src pb out producer_key ttl =
     (if dict_get producer_key ''role'' \<noteq> Some ''producer'' then Raise (LegalV3Error ''producer key required'')
      else let rootp = tx_root env rt in
        bind_ok (resolve_under_root env rootp (JStr src)) (\<lambda>spath.
        bind_ok (resolve_under_root env rootp (JStr pb)) (\<lambda>ppath.
        bind_ok (read_regular fsys spath) (\<lambda>source_bytes.
        bind_ok (read_regular fsys ppath) (\<lambda>playbook_bytes.
        bind_ok (load_json_bytes playbook_bytes) (\<lambda>data.
        bind_ok (allowed_playbook data) (\<lambda>_.
        bind_ok (get_field data ''clauses'') (\<lambda>clauses.
        bind_ok (need producer_key ''key_id'') (\<lambda>kid.
        let unsigned = proposal_unsigned env src pb out source_bytes playbook_bytes clauses (tx_now env) ttl kid
        in bind_ok (canonical (JObj unsigned)) (\<lambda>c.
           let proposal = unsigned @ [(''intent_sha256'', JStr (tx_sha env c))]
           in bind_ok (tx_sign (tx_crypto env) (without [''signature''] proposal) producer_key) (\<lambda>sg.
              Ok (proposal @ [(''signature'', JStr sg)]))))))))))))"

text \<open>\<^verbatim>\<open>min(n, v)\<close> for a JSON value.\<close>

definition min_json :: "int \<Rightarrow> json \<Rightarrow> json result" where
  "min_json n v = (case num_val v of
     None \<Rightarrow> Raise (TypeError ''not supported between instances'')
   | Some x \<Rightarrow> Ok (if x < real_of_int n then v else JInt n))"

definition approval_unsigned :: "TxEnv \<Rightarrow> json \<Rightarrow> json \<Rightarrow> json \<Rightarrow> str \<Rightarrow> int \<Rightarrow> json \<Rightarrow> jobj" where
  "approval_unsigned env intent ss ph kid now ex =
     [(''profile'', JStr PROFILE), (''approval_id'', JStr (tx_uuid env 0)), (''decision'', JStr ''approve''),
      (''intent_sha256'', intent), (''source_sha256'', ss), (''playbook_sha256'', ph), (''principal'', JStr kid),
      (''issued_at'', JInt now), (''expires_at'', ex), (''nonce'', JStr (tx_uuid env 1))]"

definition approve :: "TxEnv \<Rightarrow> jobj \<Rightarrow> keyd \<Rightarrow> int \<Rightarrow> jobj result" where
  "approve env proposal approver_key ttl =
     (if dict_get approver_key ''role'' \<noteq> Some ''approver'' then Raise (LegalV3Error ''approver key required'')
      else let now = tx_now env in
        bind_ok (get_field proposal ''intent_sha256'') (\<lambda>intent.
        bind_ok (get_field proposal ''source_sha256'') (\<lambda>ss.
        bind_ok (get_field proposal ''playbook_sha256'') (\<lambda>ph.
        bind_ok (need approver_key ''key_id'') (\<lambda>kid.
        bind_ok (get_field proposal ''expires_at'') (\<lambda>ex.
        bind_ok (min_json (now + ttl) ex) (\<lambda>ex'.
        let unsigned = approval_unsigned env intent ss ph kid now ex'
        in bind_ok (tx_sign (tx_crypto env) unsigned approver_key) (\<lambda>sg. Ok (unsigned @ [(''signature'', JStr sg)])))))))))"

text \<open>A dictionary look-up with a JSON value as key.\<close>

definition key_lookup :: "keyd \<Rightarrow> json \<Rightarrow> json option result" where
  "key_lookup keys v =
     (if \<not> hashable v then Raise (TypeError ''unhashable type'')
      else Ok (case v of JStr k \<Rightarrow> map_option JStr (dict_get keys k) | _ \<Rightarrow> None))"

definition num_of :: "jobj \<Rightarrow> str \<Rightarrow> real result" where
  "num_of d k = bind_ok (get_field d k) (\<lambda>v. case num_val v of
     None \<Rightarrow> Raise (TypeError ''not supported between instances'')
   | Some x \<Rightarrow> Ok x)"

definition approval_current :: "int \<Rightarrow> jobj \<Rightarrow> jobj \<Rightarrow> bool result" where
  "approval_current now proposal approval =
     (if get_default approval ''decision'' JNull \<noteq> JStr ''approve'' then Ok False
      else bind_ok (num_of approval ''issued_at'') (\<lambda>issued.
        if issued > real_of_int now then Ok False
        else bind_ok (num_of approval ''expires_at'') (\<lambda>expires.
          if expires \<le> real_of_int now then Ok False
          else bind_ok (num_of proposal ''expires_at'') (\<lambda>pexpires. Ok (real_of_int now < pexpires)))))"

definition bound_fields :: "str list" where
  "bound_fields = [''intent_sha256'', ''source_sha256'', ''playbook_sha256'']"

definition same_field :: "jobj \<Rightarrow> jobj \<Rightarrow> str \<Rightarrow> bool" where
  "same_field approval proposal f = json_eq (get_default approval f JNull) (get_default proposal f JNull)"

definition signed_by :: "Ed25519 \<Rightarrow> jobj \<Rightarrow> json option \<Rightarrow> bool" where
  "signed_by cr obj key = (case key of
     None \<Rightarrow> False
   | Some pk \<Rightarrow> verify_sig cr (without [''signature''] obj) (get_default obj ''signature'' (JStr [])) pk)"

definition verify_approval :: "TxEnv \<Rightarrow> jobj \<Rightarrow> jobj \<Rightarrow> keyd \<Rightarrow> unit result" where
  "verify_approval env proposal approval keys =
     bind_ok (canonical (JObj (without [''signature'', ''intent_sha256''] proposal))) (\<lambda>c.
     if get_default proposal ''intent_sha256'' JNull \<noteq> JStr (tx_sha env c) then Raise (LegalV3Error ''proposal digest mismatch'')
     else bind_ok (key_lookup keys (get_default proposal ''producer_key_id'' JNull)) (\<lambda>producer.
     if \<not> signed_by (tx_crypto env) proposal producer then Raise (LegalV3Error ''invalid proposal signature'')
     else bind_ok (approval_current (tx_now env) proposal approval) (\<lambda>current.
     if \<not> current then Raise (LegalV3Error ''approval expired/denied'')
     else if \<not> list_all (same_field approval proposal) bound_fields then Raise (LegalV3Error ''approval substitution'')
     else bind_ok (key_lookup keys (get_default approval ''principal'' JNull)) (\<lambda>principal.
     if \<not> signed_by (tx_crypto env) approval principal then Raise (LegalV3Error ''invalid approval signature'')
     else Ok ()))))"

section \<open>Execution\<close>

definition event_unsigned :: "nat \<Rightarrow> str \<Rightarrow> json \<Rightarrow> jobj \<Rightarrow> str \<Rightarrow> jobj" where
  "event_unsigned sequence event_type previous pay kid =
     [(''sequence'', JInt (int sequence)), (''event_type'', JStr event_type), (''previous_event_sha256'', previous),
      (''payload'', JObj pay), (''observer_key_id'', JStr kid)]"

definition tx_event :: "TxEnv \<Rightarrow> nat \<Rightarrow> str \<Rightarrow> json \<Rightarrow> jobj \<Rightarrow> keyd \<Rightarrow> jobj result" where
  "tx_event env sequence event_type previous pay observer =
     bind_ok (need observer ''key_id'') (\<lambda>kid.
     let unsigned = event_unsigned sequence event_type previous pay kid
     in bind_ok (canonical (JObj unsigned)) (\<lambda>c.
        bind_ok (tx_sign (tx_crypto env) unsigned observer) (\<lambda>sg.
        Ok (unsigned @ [(''event_sha256'', JStr (tx_sha env c)), (''signature'', JStr sg)]))))"

fun tx_events :: "TxEnv \<Rightarrow> nat \<Rightarrow> str list \<Rightarrow> json \<Rightarrow> jobj \<Rightarrow> keyd \<Rightarrow> jobj list result" where
  "tx_events env idx [] previous base observer = Ok []"
| "tx_events env idx (t # ts) previous base observer =
     bind_ok (tx_event env idx t previous
                (base @ [(''status'', JStr (if t = ''RUN_CLOSED'' then ''success'' else ''recorded''))]) observer) (\<lambda>e.
     bind_ok (get_field e ''event_sha256'') (\<lambda>h.
     bind_ok (tx_events env (Suc idx) ts h base observer) (\<lambda>es. Ok (e # es))))"

definition expected_change :: "AppliedEdit \<Rightarrow> jobj" where
  "expected_change e = [(''old'', ap_old_text e), (''new'', ap_new_text e), (''author'', JStr ''Kairo Legal v3'')]"

definition path_parent :: "str list \<Rightarrow> str list" where
  "path_parent p = (if length p \<le> 1 then p else butlast p)"

record Bundle =
  bd_json :: str
  bd_files :: "(str, FNode) dict"

definition observer_independent :: "jobj \<Rightarrow> jobj \<Rightarrow> keyd \<Rightarrow> bool" where
  "observer_independent proposal approval observer_key =
     (let kid = (case dict_get observer_key ''key_id'' of None \<Rightarrow> JNull | Some k \<Rightarrow> JStr k) in
      dict_get observer_key ''role'' = Some ''observer'' \<and> kid \<noteq> get_default proposal ''producer_key_id'' JNull \<and>
      kid \<noteq> get_default approval ''principal'' JNull)"

text \<open>The redline of the source into the temporary file, and its check.\<close>

definition redline_checked :: "TxEnv \<Rightarrow> str list \<Rightarrow> bytes \<Rightarrow> str list \<Rightarrow> bytes \<Rightarrow> (RedlineResult \<times> bytes) result" where
  "redline_checked env spath source_bytes ppath playbook_bytes = (case utf8_decode playbook_bytes of
     None \<Rightarrow> Raise (ValueError ''invalid UTF-8'')
   | Some pbtext \<Rightarrow>
       bind_ok (redline_contract (tx_redline env) (tx_pstr env spath) (Some (tx_paras env source_bytes)) (tx_pstr env ppath)
                  (Some pbtext) (tx_tmp env) ''Kairo Legal v3'' None) (\<lambda>res.
       if \<not> rr_ok res then Raise (LegalV3Error (rr_error res))
       else let out = tx_written env res in
         bind_ok (verify_docx_tracked_changes (re_str (tx_redline env)) (tx_body env out)
                    (JList (map (\<lambda>e. JObj (expected_change e)) (rr_applied_edits res))) True True True None None) (\<lambda>_.
         Ok (res, out))))"

definition base_payload :: "TxEnv \<Rightarrow> bytes \<Rightarrow> bytes \<Rightarrow> json \<Rightarrow> json \<Rightarrow> bytes \<Rightarrow> RedlineResult \<Rightarrow> jobj" where
  "base_payload env source_bytes playbook_bytes intent aid output_bytes res =
     [(''source_sha256'', JStr (tx_sha env source_bytes)), (''playbook_sha256'', JStr (tx_sha env playbook_bytes)),
      (''intent_sha256'', intent), (''approval_id'', aid), (''output_sha256'', JStr (tx_sha env output_bytes)),
      (''applied_edits'', JList (map (\<lambda>e. JObj (expected_change e)) (rr_applied_edits res))),
      (''flagged'', JList (map flagged_json (rr_flagged_clauses res)))]"

definition tx_manifest :: "TxEnv \<Rightarrow> jobj \<Rightarrow> jobj \<Rightarrow> keyd \<Rightarrow> str \<Rightarrow> str \<Rightarrow> jobj list \<Rightarrow> jobj" where
  "tx_manifest env proposal approval keys kid observer_pub evs =
     [(''profile'', JStr PROFILE), (''run_id'', JStr (tx_uuid env 0)),
      (''files'', JObj [(''source'', JStr ''source.docx''), (''playbook'', JStr ''playbook.json''), (''output'', JStr ''output.docx'')]),
      (''proposal'', JObj proposal), (''approval'', JObj approval),
      (''public_keys'', JObj (map (\<lambda>(k, v). (k, JStr v)) (dict_set kid observer_pub keys))),
      (''observer_key_id'', JStr kid), (''events'', JList (map JObj evs)),
      (''verdicts'', JObj [(''integrity'', JStr ''unverified''), (''execution'', JStr ''observed''),
         (''sufficiency'', JStr ''complete_for_declared_boundary''), (''domain'', JStr ''requires_human_review'')])]"

definition execute :: "TxEnv \<Rightarrow> fs \<Rightarrow> str \<Rightarrow> jobj \<Rightarrow> jobj \<Rightarrow> keyd \<Rightarrow> keyd \<Rightarrow> (jobj \<times> fs \<times> Bundle) result" where
  "execute env fsys rt proposal approval keys observer_key =
     (if \<not> observer_independent proposal approval observer_key then Raise (LegalV3Error ''independent observer identity required'')
      else let rootp = tx_root env rt in
        bind_ok (bind_ok (get_field proposal ''source'') (resolve_under_root env rootp)) (\<lambda>spath.
        bind_ok (bind_ok (get_field proposal ''playbook'') (resolve_under_root env rootp)) (\<lambda>ppath.
        bind_ok (bind_ok (get_field proposal ''output'') (resolve_under_root env rootp)) (\<lambda>opath.
        if \<not> prefix rootp (path_parent opath) then Raise (LegalV3Error ''path escape'')
        else if fsys opath = Some Link then Raise (LegalV3Error ''symlink output'')
        else
        bind_ok (read_regular fsys spath) (\<lambda>source_bytes.
        bind_ok (read_regular fsys ppath) (\<lambda>playbook_bytes.
        bind_ok (get_field proposal ''source_sha256'') (\<lambda>ss.
        if JStr (tx_sha env source_bytes) \<noteq> ss then Raise (LegalV3Error ''source/playbook substitution'')
        else bind_ok (get_field proposal ''playbook_sha256'') (\<lambda>ph.
        if JStr (tx_sha env playbook_bytes) \<noteq> ph then Raise (LegalV3Error ''source/playbook substitution'')
        else
        bind_ok (verify_approval env proposal approval keys) (\<lambda>_.
        bind_ok (redline_checked env spath source_bytes ppath playbook_bytes) (\<lambda>(res, out).
        let fsys' = fsys(opath := Some (Regular out)) in
        bind_ok (read_regular fsys' opath) (\<lambda>output_bytes.
        bind_ok (get_field proposal ''intent_sha256'') (\<lambda>intent.
        bind_ok (get_field approval ''approval_id'') (\<lambda>aid.
        bind_ok (tx_events env 0 EVENTS JNull (base_payload env source_bytes playbook_bytes intent aid output_bytes res) observer_key) (\<lambda>evs.
        bind_ok (need observer_key ''key_id'') (\<lambda>kid.
        bind_ok (need observer_key ''public'') (\<lambda>opub.
        let manifest = tx_manifest env proposal approval keys kid opub evs;
            copy = (\<lambda>nm p. case fsys' p of None \<Rightarrow> [] | Some n \<Rightarrow> [(nm, n)])
        in Ok (manifest, fsys',
               \<lparr>bd_json = dumps indent2 (JObj manifest) @ [CHR 0x0A],
                bd_files = copy ''source.docx'' spath @ copy ''playbook.json'' ppath @ copy ''output.docx'' opath\<rparr>)))))))))))))))))"

section \<open>Verification of a bundle\<close>

definition as_obj :: "json \<Rightarrow> jobj result" where
  "as_obj v = (case v of JObj d \<Rightarrow> Ok d | _ \<Rightarrow> Raise (TypeError ''dictionary expected''))"

definition as_list :: "json \<Rightarrow> json list result" where
  "as_list v = (case v of JList vs \<Rightarrow> Ok vs | _ \<Rightarrow> Raise (TypeError ''list expected''))"

type_synonym bundle_check = "bool \<times> str"

definition last_sha :: "json list \<Rightarrow> str \<Rightarrow> json result" where
  "last_sha evs key =
     (if evs = [] then Raise (IndexError ''list index out of range'')
      else bind_ok (as_obj (last evs)) (\<lambda>e.
        bind_ok (bind_ok (get_field e ''payload'') as_obj) (\<lambda>p. get_field p (key @ ''_sha256''))))"

text \<open>\<open>bres\<close> resolves a name in the bundle: the file below the directory, or \<open>None\<close> when the path leaves it.\<close>

fun file_checks ::
  "(bytes \<Rightarrow> bytes) \<Rightarrow> (str \<Rightarrow> str option) \<Rightarrow> (str, FNode) dict \<Rightarrow> json list \<Rightarrow> jobj \<Rightarrow> bundle_check list result" where
  "file_checks H bres files evs [] = Ok []"
| "file_checks H bres files evs ((key, name) # rest) = (case name of
     JStr nm \<Rightarrow>
       (let inside = bres nm;
            node = (case inside of None \<Rightarrow> None | Some p \<Rightarrow> dict_get files p)
        in bind_ok (last_sha evs key) (\<lambda>expected.
           bind_ok (if inside = None then Ok False else bind_ok (read_node node) (\<lambda>b. Ok (JStr (hex (H b)) = expected))) (\<lambda>h.
           bind_ok (file_checks H bres files evs rest) (\<lambda>cs.
           Ok ((inside \<noteq> None \<and> (case node of Some (Regular _) \<Rightarrow> True | _ \<Rightarrow> False), key @ '' path confinement'') #
               (h, key @ '' hash'') # cs)))))
   | _ \<Rightarrow> Raise (TypeError ''unsupported operand''))"

fun event_checks :: "(bytes \<Rightarrow> bytes) \<Rightarrow> Ed25519 \<Rightarrow> jobj \<Rightarrow> nat \<Rightarrow> json \<Rightarrow> json list \<Rightarrow> bundle_check list result" where
  "event_checks H cr pks idx previous [] = Ok []"
| "event_checks H cr pks idx previous (ev # evs) =
     bind_ok (as_obj ev) (\<lambda>e.
     let unsigned = without [''event_sha256'', ''signature''] e in
     bind_ok (get_field e ''sequence'') (\<lambda>sq.
     bind_ok (if num_val sq = Some (real idx)
              then bind_ok (get_field e ''previous_event_sha256'') (\<lambda>pv. Ok (json_eq pv previous)) else Ok False) (\<lambda>linked.
     bind_ok (canonical (JObj unsigned)) (\<lambda>c.
     bind_ok (get_field e ''event_sha256'') (\<lambda>h.
     bind_ok (get_field e ''signature'') (\<lambda>sg.
     bind_ok (get_field e ''observer_key_id'') (\<lambda>kid.
     if \<not> hashable kid then Raise (TypeError ''unhashable type'')
     else bind_ok (case kid of JStr k \<Rightarrow> get_field pks k | _ \<Rightarrow> Raise (KeyError [])) (\<lambda>pk.
     bind_ok (event_checks H cr pks (Suc idx) h evs) (\<lambda>cs.
     Ok ((linked, ''sequence/parent'') # (JStr (hex (H c)) = h, ''event digest'') #
         (verify_sig cr unsigned sg pk, ''event signature'') # cs))))))))))"

fun event_types :: "json list \<Rightarrow> json list result" where
  "event_types [] = Ok []"
| "event_types (ev # evs) = bind_ok (as_obj ev) (\<lambda>e. bind_ok (get_field e ''event_type'') (\<lambda>t.
     bind_ok (event_types evs) (\<lambda>ts. Ok (t # ts))))"

definition bundle_key :: "jobj \<Rightarrow> json \<Rightarrow> json result" where
  "bundle_key pks v =
     (if \<not> hashable v then Raise (TypeError ''unhashable type'')
      else Ok (case v of JStr k \<Rightarrow> get_default pks k (JStr []) | _ \<Rightarrow> JStr []))"

definition public_keys :: "jobj \<Rightarrow> jobj result" where
  "public_keys manifest = bind_ok (get_field manifest ''public_keys'') as_obj"

record BundleVerdict =
  bv_ok :: bool
  bv_integrity :: str
  bv_execution :: str
  bv_sufficiency :: str
  bv_domain :: str
  bv_checks :: "bundle_check list"

definition bundle_verdict :: "bundle_check list \<Rightarrow> BundleVerdict" where
  "bundle_verdict checks = (let ok = list_all fst checks in
     \<lparr>bv_ok = ok, bv_integrity = (if ok then ''pass'' else ''fail''), bv_execution = (if ok then ''pass'' else ''unknown''),
      bv_sufficiency = (if ok then ''complete_for_declared_boundary'' else ''incomplete''),
      bv_domain = ''requires_human_review'', bv_checks = checks\<rparr>)"

definition proposal_checks :: "(bytes \<Rightarrow> bytes) \<Rightarrow> Ed25519 \<Rightarrow> jobj \<Rightarrow> jobj \<Rightarrow> bundle_check list result" where
  "proposal_checks H cr manifest proposal =
     bind_ok (canonical (JObj (without [''signature'', ''intent_sha256''] proposal))) (\<lambda>c.
     bind_ok (public_keys manifest) (\<lambda>pks.
     bind_ok (bundle_key pks (get_default proposal ''producer_key_id'' JNull)) (\<lambda>pk.
     Ok [(JStr (hex (H c)) = get_default proposal ''intent_sha256'' JNull, ''proposal digest''),
         (signed_by cr proposal (Some pk), ''proposal signature'')])))"

definition approval_checks :: "Ed25519 \<Rightarrow> jobj \<Rightarrow> jobj \<Rightarrow> jobj \<Rightarrow> bundle_check list result" where
  "approval_checks cr manifest proposal approval =
     bind_ok (public_keys manifest) (\<lambda>pks.
     bind_ok (bundle_key pks (get_default approval ''principal'' JNull)) (\<lambda>pk.
     bind_ok (get_field manifest ''observer_key_id'') (\<lambda>oid.
     bind_ok (get_field proposal ''producer_key_id'') (\<lambda>prod.
     bind_ok (get_field approval ''principal'') (\<lambda>prin.
     if \<not> list_all hashable [oid, prod, prin] then Raise (TypeError ''unhashable type'')
     else Ok [(list_all (same_field approval proposal) bound_fields, ''approval binding''),
              (signed_by cr approval (Some pk), ''approval signature''),
              (oid \<notin> {prod, prin}, ''observer independence'')])))))"

definition verify_manifest ::
  "(bytes \<Rightarrow> bytes) \<Rightarrow> Ed25519 \<Rightarrow> (str \<Rightarrow> str option) \<Rightarrow> (str, FNode) dict \<Rightarrow> jobj \<Rightarrow> BundleVerdict result" where
  "verify_manifest H cr bres files manifest =
     bind_ok (bind_ok (get_field manifest ''files'') as_obj) (\<lambda>names.
     bind_ok (bind_ok (get_field manifest ''events'') as_list) (\<lambda>evs.
     bind_ok (file_checks H bres files evs names) (\<lambda>cs1.
     bind_ok (bind_ok (get_field manifest ''proposal'') as_obj) (\<lambda>proposal.
     bind_ok (proposal_checks H cr manifest proposal) (\<lambda>cs2.
     bind_ok (bind_ok (get_field manifest ''approval'') as_obj) (\<lambda>approval.
     bind_ok (approval_checks cr manifest proposal approval) (\<lambda>cs3.
     bind_ok (public_keys manifest) (\<lambda>pks.
     bind_ok (event_checks H cr pks 0 JNull evs) (\<lambda>cs4.
     bind_ok (event_types evs) (\<lambda>ts.
     Ok (bundle_verdict (cs1 @ cs2 @ cs3 @ cs4 @ [(ts = map JStr EVENTS, ''mandatory state machine'')]))))))))))))"

definition verify_bundle :: "(bytes \<Rightarrow> bytes) \<Rightarrow> Ed25519 \<Rightarrow> (str \<Rightarrow> str option) \<Rightarrow> Bundle \<Rightarrow> BundleVerdict result" where
  "verify_bundle H cr bres b = (case loads (bd_json b) of
     None \<Rightarrow> Raise (ValueError ''invalid JSON'')
   | Some v \<Rightarrow> bind_ok (as_obj v) (verify_manifest H cr bres (bd_files b)))"

section \<open>Canonical form and signatures\<close>

lemma safe_walk_id:
  "safe_walk v = Ok v' \<Longrightarrow> v' = v"
  "safe_items vs = Ok vs' \<Longrightarrow> vs' = vs"
  "safe_members d = Ok d' \<Longrightarrow> d' = d"
  by (induction v and vs and d arbitrary: v' and vs' and d' rule: safe_walk_safe_items_safe_members.induct)
     (auto simp: bind_ok_Inr split: if_splits)

lemma canonical_Ok: "canonical v = Ok b \<Longrightarrow> b = utf8 (dumps compact_unicode (sort_json v))"
  by (auto simp: canonical_def bind_ok_Inr dest: safe_walk_id(1))

lemma canonical_inject: "canonical v = Ok b \<Longrightarrow> canonical w = Ok b \<Longrightarrow> json_wf v \<Longrightarrow> json_wf w \<Longrightarrow> json_eq v w"
  using dumps_sorted_inject [of compact_unicode v w] by (auto dest!: canonical_Ok)

text \<open>A key pair as \<^const>\<open>generate_keypair\<close> builds it.\<close>

definition key_pair :: "Ed25519 \<Rightarrow> keyd \<Rightarrow> bool" where
  "key_pair cr key \<longleftrightarrow> (\<exists>seed. length seed = 32 \<and> length (pub cr seed) = 32 \<and>
     dict_get key ''private'' = Some (b64encode seed) \<and> dict_get key ''public'' = Some (b64encode (pub cr seed)))"

lemma generate_keypair_pair:
  "generate_keypair H cr seed role = Ok key \<Longrightarrow> length seed = 32 \<Longrightarrow> length (pub cr seed) = 32 \<Longrightarrow>
     key_pair cr key \<and> dict_get key ''role'' = Some role"
  by (auto simp: generate_keypair_def key_pair_def split: if_splits)

lemma sign_verifies:
  assumes "tx_sign cr obj key = Ok sg" "key_pair cr key" "ed25519_correct cr" "dict_get key ''public'' = Some pk"
  shows "verify_sig cr obj (JStr sg) (JStr pk)"
  using assms by (auto simp: tx_sign_def need_def key_pair_def verify_sig_def bind_ok_Inr ed25519_correct_def split: if_splits)

lemma without_append [simp]: "without ks (d @ d') = without ks d @ without ks d'"
  by (simp add: without_def)

lemma without_simps [simp]: "without ks [] = []" "without ks ((k, v) # d) = (if k \<in> set ks then without ks d else (k, v) # without ks d)"
  by (simp_all add: without_def)

end
