(* ===== verification/LegalEvidence.thy ===== *)
theory LegalEvidence
  imports LegalTransaction
begin

text \<open>
  What the governed transaction of \<^verbatim>\<open>LegalTransaction\<close> guarantees: an honest proposal with an honest
  approval is accepted while both are valid; what an execution writes is what was proposed and
  approved; every bundle an execution leaves verifies; and the chain of events of a verified bundle
  binds its proposal, its files and its events.
\<close>

section \<open>Approval\<close>

lemma verify_approval_Ok:
  assumes "verify_approval env p a keys = Ok ()"
  obtains c k pk j ak where "canonical (JObj (without [''signature'', ''intent_sha256''] p)) = Ok c"
    "get_default p ''intent_sha256'' JNull = JStr (tx_sha env c)"
    "get_default p ''producer_key_id'' JNull = JStr k" "dict_get keys k = Some pk" "signed_by (tx_crypto env) p (Some (JStr pk))"
    "approval_current (tx_now env) p a = Ok True" "list_all (same_field a p) bound_fields"
    "get_default a ''principal'' JNull = JStr j" "dict_get keys j = Some ak" "signed_by (tx_crypto env) a (Some (JStr ak))"
proof -
  from assms obtain c r s where c: "canonical (JObj (without [''signature'', ''intent_sha256''] p)) = Ok c"
    "get_default p ''intent_sha256'' JNull = JStr (tx_sha env c)"
    and r: "key_lookup keys (get_default p ''producer_key_id'' JNull) = Ok r" "signed_by (tx_crypto env) p r"
    and cur: "approval_current (tx_now env) p a = Ok True" "list_all (same_field a p) bound_fields"
    and s: "key_lookup keys (get_default a ''principal'' JNull) = Ok s" "signed_by (tx_crypto env) a s"
    by (auto simp: verify_approval_def bind_ok_Inr split: if_splits)
  have l: "\<exists>k pk. v = JStr k \<and> dict_get keys k = Some pk \<and> w = Some (JStr pk)" if "key_lookup keys v = Ok w" "w \<noteq> None" for v w
    using that by (cases v) (auto simp: key_lookup_def hashable_def split: if_splits)
  from l [OF r(1)] r(2) l [OF s(1)] s(2) c cur that show thesis by (auto simp: signed_by_def split: option.splits)
qed

lemma num_of_JInt [simp]: "dict_get d k = Some (JInt i) \<Longrightarrow> num_of d k = Ok (real_of_int i)"
  by (simp add: num_of_def get_field_def num_val_def)

lemma propose_Ok:
  assumes "propose env fsys rt src pb out key ttl = Ok p"
  obtains sb pbb cl kid c sg where
    "p = proposal_unsigned env src pb out sb pbb cl (tx_now env) ttl kid @ [(''intent_sha256'', JStr (tx_sha env c)), (''signature'', JStr sg)]"
    "canonical (JObj (proposal_unsigned env src pb out sb pbb cl (tx_now env) ttl kid)) = Ok c"
    "tx_sign (tx_crypto env) (proposal_unsigned env src pb out sb pbb cl (tx_now env) ttl kid @ [(''intent_sha256'', JStr (tx_sha env c))]) key = Ok sg"
    "dict_get key ''key_id'' = Some kid"
proof -
  have w: "without [''signature''] (proposal_unsigned env src pb out sb pbb cl n ttl kid) = proposal_unsigned env src pb out sb pbb cl n ttl kid"
    for sb pbb cl n kid by (simp add: proposal_unsigned_def)
  from assms show thesis
    by (auto simp: propose_def Let_def bind_ok_Inr need_def w split: if_splits option.splits intro: that)
qed

lemma approve_Ok:
  assumes "approve env p key ttl = Ok a"
  obtains intent ss ph kid ex ex' sg where
    "a = approval_unsigned env intent ss ph kid (tx_now env) ex' @ [(''signature'', JStr sg)]"
    "tx_sign (tx_crypto env) (approval_unsigned env intent ss ph kid (tx_now env) ex') key = Ok sg"
    "dict_get p ''intent_sha256'' = Some intent" "dict_get p ''source_sha256'' = Some ss" "dict_get p ''playbook_sha256'' = Some ph"
    "dict_get key ''key_id'' = Some kid" "dict_get p ''expires_at'' = Some ex" "min_json (tx_now env + ttl) ex = Ok ex'"
  using assms by (auto simp: approve_def Let_def bind_ok_Inr need_def get_field_def split: if_splits option.splits intro: that)

lemma without_disjoint: "set (dict_keys d) \<inter> set ks = {} \<Longrightarrow> without ks d = d"
  by (auto simp: without_def filter_id_conv)

lemma propose_signed:
  assumes "propose env fsys rt src pb out key ttl = Ok p" "key_pair (tx_crypto env) key" "ed25519_correct (tx_crypto env)"
    "dict_get key ''public'' = Some pk"
  obtains c kid where "canonical (JObj (without [''signature'', ''intent_sha256''] p)) = Ok c"
    "get_default p ''intent_sha256'' JNull = JStr (tx_sha env c)"
    "dict_get key ''key_id'' = Some kid" "get_default p ''producer_key_id'' JNull = JStr kid"
    "dict_get p ''expires_at'' = Some (JInt (tx_now env + ttl))" "signed_by (tx_crypto env) p (Some (JStr pk))"
proof (rule propose_Ok [OF assms(1)])
  fix sb pbb cl kid c sg
  let ?u = "proposal_unsigned env src pb out sb pbb cl (tx_now env) ttl kid"
  assume p: "p = ?u @ [(''intent_sha256'', JStr (tx_sha env c)), (''signature'', JStr sg)]" and c: "canonical (JObj ?u) = Ok c"
    and sg: "tx_sign (tx_crypto env) (?u @ [(''intent_sha256'', JStr (tx_sha env c))]) key = Ok sg" and kid: "dict_get key ''key_id'' = Some kid"
  have w: "without [''signature'', ''intent_sha256''] p = ?u" "without [''signature''] p = ?u @ [(''intent_sha256'', JStr (tx_sha env c))]"
    by (simp_all add: p proposal_unsigned_def)
  show thesis
    by (rule that) (use c kid sign_verifies [OF sg assms(2-4)] in \<open>simp_all add: w signed_by_def, simp_all add: p proposal_unsigned_def get_default_def\<close>)
qed

lemma approve_signed:
  assumes "approve env p key ttl = Ok a" "key_pair (tx_crypto env) key" "ed25519_correct (tx_crypto env)"
    "dict_get key ''public'' = Some pk"
  obtains kid ex ex' where "list_all (same_field a p) bound_fields" "get_default a ''decision'' JNull = JStr ''approve''"
    "dict_get key ''key_id'' = Some kid" "get_default a ''principal'' JNull = JStr kid" "dict_get a ''issued_at'' = Some (JInt (tx_now env))"
    "dict_get p ''expires_at'' = Some ex" "min_json (tx_now env + ttl) ex = Ok ex'" "dict_get a ''expires_at'' = Some ex'"
    "signed_by (tx_crypto env) a (Some (JStr pk))"
proof (rule approve_Ok [OF assms(1)])
  fix intent ss ph kid ex ex' sg
  let ?u = "approval_unsigned env intent ss ph kid (tx_now env) ex'"
  assume a: "a = ?u @ [(''signature'', JStr sg)]" and sg: "tx_sign (tx_crypto env) ?u key = Ok sg"
    and f: "dict_get p ''intent_sha256'' = Some intent" "dict_get p ''source_sha256'' = Some ss" "dict_get p ''playbook_sha256'' = Some ph"
    and k: "dict_get key ''key_id'' = Some kid" "dict_get p ''expires_at'' = Some ex" "min_json (tx_now env + ttl) ex = Ok ex'"
  have w: "without [''signature''] a = ?u" by (simp add: a approval_unsigned_def)
  show thesis
    by (rule that [OF _ _ k(1) _ _ k(2,3)])
       (use f sign_verifies [OF sg assms(2-4)] in \<open>simp_all add: w signed_by_def,
          simp_all add: a approval_unsigned_def get_default_def bound_fields_def same_field_def\<close>)
qed

lemma approval_accepted:
  assumes "propose env fsys rt src pb out pkey ttl = Ok p" and "approve env' p akey ttl' = Ok a"
    and "tx_hash env'' = tx_hash env" and "tx_crypto env' = tx_crypto env" and "tx_crypto env'' = tx_crypto env"
    and "ed25519_correct (tx_crypto env)" and "key_pair (tx_crypto env) pkey" and "key_pair (tx_crypto env) akey"
    and "\<forall>k. dict_get pkey ''key_id'' = Some k \<longrightarrow> dict_get keys k = dict_get pkey ''public''"
    and "\<forall>k. dict_get akey ''key_id'' = Some k \<longrightarrow> dict_get keys k = dict_get akey ''public''"
    and "tx_now env' \<le> tx_now env''" and "tx_now env'' < tx_now env' + ttl'" and "tx_now env'' < tx_now env + ttl"
  shows "verify_approval env'' p a keys = Ok ()"
proof -
  obtain ppk apk where pk: "dict_get pkey ''public'' = Some ppk" "dict_get akey ''public'' = Some apk"
    using assms(7,8) by (auto simp: key_pair_def)
  obtain c kid where p: "canonical (JObj (without [''signature'', ''intent_sha256''] p)) = Ok c"
    "get_default p ''intent_sha256'' JNull = JStr (tx_sha env c)" "dict_get pkey ''key_id'' = Some kid"
    "get_default p ''producer_key_id'' JNull = JStr kid" "dict_get p ''expires_at'' = Some (JInt (tx_now env + ttl))"
    "signed_by (tx_crypto env) p (Some (JStr ppk))"
    by (rule propose_signed [OF assms(1,7,6) pk(1)])
  obtain kid' ex ex' where a: "list_all (same_field a p) bound_fields" "get_default a ''decision'' JNull = JStr ''approve''"
    "dict_get akey ''key_id'' = Some kid'" "get_default a ''principal'' JNull = JStr kid'" "dict_get a ''issued_at'' = Some (JInt (tx_now env'))"
    "dict_get p ''expires_at'' = Some ex" "min_json (tx_now env' + ttl') ex = Ok ex'" "dict_get a ''expires_at'' = Some ex'"
    "signed_by (tx_crypto env) a (Some (JStr apk))"
    by (rule approve_signed [OF assms(2) _ _ pk(2)]) (use assms(4,6,8) in simp_all)
  have "ex' = JInt (min (tx_now env' + ttl') (tx_now env + ttl))"
    using a(6,7) p(5) by (auto simp: min_json_def num_val_def min_def split: if_splits)
  then have "approval_current (tx_now env'') p a = Ok True"
    using a(2,5,8) p(5) assms(11-13) by (simp add: approval_current_def)
  then show ?thesis using p a pk assms(3,5,9,10)
    by (simp add: verify_approval_def key_lookup_def hashable_def tx_sha_def)
qed

text \<open>C16: an honest approval of an honest proposal is accepted. If the proposal was made with a key pair and
  approved with another, both registered under their identifiers, then at every moment from the
  approval on that is before the end of both validity periods the check of the execution succeeds.\<close>

theorem approved_proposal_accepted:
  assumes "propose env fsys rt src pb out pkey ttl = Ok p" and "approve env' p akey ttl' = Ok a"
    and "tx_hash env'' = tx_hash env" and "tx_crypto env' = tx_crypto env" and "tx_crypto env'' = tx_crypto env"
    and "ed25519_correct (tx_crypto env)" and "key_pair (tx_crypto env) pkey" and "key_pair (tx_crypto env) akey"
    and "\<forall>k. dict_get pkey ''key_id'' = Some k \<longrightarrow> dict_get keys k = dict_get pkey ''public''"
    and "\<forall>k. dict_get akey ''key_id'' = Some k \<longrightarrow> dict_get keys k = dict_get akey ''public''"
    and "tx_now env' \<le> tx_now env''" and "tx_now env'' < tx_now env' + ttl'" and "tx_now env'' < tx_now env + ttl"
  shows "verify_approval env'' p a keys = Ok ()"
  using assms by (rule approval_accepted)

section \<open>Execution\<close>

definition node_copy :: "fs \<Rightarrow> str \<Rightarrow> str list \<Rightarrow> (str, FNode) dict" where
  "node_copy fsys nm p = (case fsys p of None \<Rightarrow> [] | Some n \<Rightarrow> [(nm, n)])"

lemma read_regular_Ok: "read_regular fsys p = Ok b \<longleftrightarrow> fsys p = Some (Regular b) \<and> length b \<le> MAX_BYTES"
  by (auto simp: read_regular_def read_node_def split: option.splits FNode.splits if_splits)

lemma resolve_Ok: "resolve_under_root env rootp v = Ok p \<Longrightarrow> prefix rootp p"
  by (cases v) (auto simp: resolve_under_root_def Let_def split: if_splits)

lemma execute_Ok:
  assumes "execute env fsys rt p a keys obs = Ok (m, fsys', b)"
  obtains sp pp op sb pbb res out intent aid evs kid opub where "observer_independent p a obs"
    "bind_ok (get_field p ''source'') (resolve_under_root env (tx_root env rt)) = Ok sp"
    "bind_ok (get_field p ''playbook'') (resolve_under_root env (tx_root env rt)) = Ok pp"
    "bind_ok (get_field p ''output'') (resolve_under_root env (tx_root env rt)) = Ok op"
    "read_regular fsys sp = Ok sb" "read_regular fsys pp = Ok pbb"
    "dict_get p ''source_sha256'' = Some (JStr (tx_sha env sb))" "dict_get p ''playbook_sha256'' = Some (JStr (tx_sha env pbb))"
    "verify_approval env p a keys = Ok ()" "redline_checked env sp sb pp pbb = Ok (res, out)"
    "fsys' = fsys(op := Some (Regular out))" "length out \<le> MAX_BYTES" "get_field p ''intent_sha256'' = Ok intent"
    "tx_events env 0 EVENTS JNull (base_payload env sb pbb intent aid out res) obs = Ok evs"
    "dict_get obs ''key_id'' = Some kid" "dict_get obs ''public'' = Some opub"
    "m = tx_manifest env p a keys kid opub evs"
    "b = \<lparr>bd_json = dumps indent2 (JObj m) @ [CHR 0x0A],
      bd_files = node_copy fsys' ''source.docx'' sp @ node_copy fsys' ''playbook.json'' pp @ node_copy fsys' ''output.docx'' op\<rparr>"
proof -
  have g: "get_field d k = Ok v \<longleftrightarrow> dict_get d k = Some v" for d k v by (auto simp: get_field_def split: option.splits)
  have n: "need d k = Ok v \<longleftrightarrow> dict_get d k = Some v" for d :: keyd and k v by (auto simp: need_def split: option.splits)
  from assms obtain sp pp op sb pbb res out intent aid evs kid opub ob where e: "observer_independent p a obs"
    "bind_ok (get_field p ''source'') (resolve_under_root env (tx_root env rt)) = Ok sp"
    "bind_ok (get_field p ''playbook'') (resolve_under_root env (tx_root env rt)) = Ok pp"
    "bind_ok (get_field p ''output'') (resolve_under_root env (tx_root env rt)) = Ok op"
    "read_regular fsys sp = Ok sb" "read_regular fsys pp = Ok pbb"
    "get_field p ''source_sha256'' = Ok (JStr (tx_sha env sb))" "get_field p ''playbook_sha256'' = Ok (JStr (tx_sha env pbb))"
    "verify_approval env p a keys = Ok ()" "redline_checked env sp sb pp pbb = Ok (res, out)"
    "fsys' = fsys(op := Some (Regular out))" "read_regular fsys' op = Ok ob" "get_field p ''intent_sha256'' = Ok intent"
    "tx_events env 0 EVENTS JNull (base_payload env sb pbb intent aid ob res) obs = Ok evs"
    "need obs ''key_id'' = Ok kid" "need obs ''public'' = Ok opub"
    "m = tx_manifest env p a keys kid opub evs"
    "b = \<lparr>bd_json = dumps indent2 (JObj m) @ [CHR 0x0A],
      bd_files = node_copy fsys' ''source.docx'' sp @ node_copy fsys' ''playbook.json'' pp @ node_copy fsys' ''output.docx'' op\<rparr>"
    unfolding execute_def Let_def node_copy_def bind_ok_Inr [of "bind_ok (get_field _ _) _"]
    by (auto simp: bind_ok_Inr split: if_splits)
  have "ob = out" "length out \<le> MAX_BYTES" using e(11,12) by (simp_all add: read_regular_Ok)
  with e show thesis by (intro that) (simp_all add: g n)
qed

lemma redline_checked_Ok:
  assumes "redline_checked env sp sb pp pbb = Ok (res, out)"
  obtains pbtext pb ds n where "utf8_decode pbb = Some pbtext" "load_playbook pbtext = Ok (pb, map JObj ds)" "out = tx_written env res"
    "rr_applied_edits res =
       map clause_edit (take n (filter (located (re_str (tx_redline env)) (join [CHR 0x0A] (tx_paras env sb))) ds))"
    "exact_marks (re_str (tx_redline env)) (tx_body env out) (map expected_change (rr_applied_edits res))"
proof -
  from assms obtain pbtext v where t: "utf8_decode pbb = Some pbtext" and ok: "rr_ok res" and out: "out = tx_written env res"
    and r: "redline_contract (tx_redline env) (tx_pstr env sp) (Some (tx_paras env sb)) (tx_pstr env pp) (Some pbtext) (tx_tmp env)
        ''Kairo Legal v3'' None = Ok res"
    and v: "verify_docx_tracked_changes (re_str (tx_redline env)) (tx_body env out)
        (JList (map JObj (map expected_change (rr_applied_edits res)))) True True True None None = Ok v"
    by (auto simp: redline_checked_def Let_def bind_ok_Inr comp_def split: option.splits if_splits)
  have "\<forall>c \<in> set (map expected_change (rr_applied_edits res)). \<exists>s. dict_get c ''author'' = Some (JStr s)"
    by (simp add: expected_change_def)
  from strict_verify [OF this] v have m: "exact_marks (re_str (tx_redline env)) (tx_body env out) (map expected_change (rr_applied_edits res))"
    by blast
  show thesis
  proof (rule redline_ok [OF r ok])
    fix paras pbfile pb ds ap w
    assume "Some (tx_paras env sb) = Some paras" "Some pbtext = Some pbfile" "load_playbook pbfile = Ok (pb, map JObj ds)"
      "ap = map clause_edit (filter (located (re_str (tx_redline env)) (join [CHR 0x0A] paras)) ds)"
      "rr_applied_edits res = slice_to ap (wr_applied_count w)"
    moreover obtain n where "slice_to ap (wr_applied_count w) = take n ap" by (meson slice_to_def)
    ultimately show thesis by (intro that [OF t _ out _ m, of pb ds n]) (simp_all add: take_map)
  qed
qed


section \<open>The bundle of an execution\<close>

lemma loads_dumps_newline: "style_ok st \<Longrightarrow> json_wf v \<Longrightarrow> loads (dumps st v @ [CHR 0x0A]) = Some v"
proof -
  assume a: "style_ok st" "json_wf v"
  have "lex [CHR 0x0A] = Some []" "delim [CHR 0x0A]" by code_simp+
  then have "lex (dumps st v @ [CHR 0x0A]) = Some (toks v)" using a lex_dumps_gen(1) [of st v "[CHR 0x0A]" 0] by (simp add: dumps_def)
  moreover have "lex (dumps st v) = Some (toks v)" using a by (rule lex_dumps)
  ultimately show ?thesis using loads_dumps [OF a] by (simp add: loads_def)
qed

lemma tx_event_Ok:
  assumes "tx_event env n t pv pay obs = Ok e" "dict_get obs ''key_id'' = Some kid"
  obtains c sg where "e = event_unsigned n t pv pay kid @ [(''event_sha256'', JStr (tx_sha env c)), (''signature'', JStr sg)]"
    "canonical (JObj (event_unsigned n t pv pay kid)) = Ok c" "tx_sign (tx_crypto env) (event_unsigned n t pv pay kid) obs = Ok sg"
  using assms by (auto simp: tx_event_def Let_def bind_ok_Inr need_def intro: that)

lemma tx_events_check:
  assumes "key_pair (tx_crypto env) obs" "ed25519_correct (tx_crypto env)" "dict_get obs ''key_id'' = Some kid"
    "dict_get obs ''public'' = Some opub" "dict_get pks kid = Some (JStr opub)"
  shows "tx_events env idx ts pv base obs = Ok evs \<Longrightarrow>
    (\<exists>cs. event_checks (tx_hash env) (tx_crypto env) pks idx pv (map JObj evs) = Ok cs \<and> list_all fst cs \<and> length cs = 3 * length ts) \<and>
    event_types (map JObj evs) = Ok (map JStr ts)"
proof (induction ts arbitrary: idx pv evs)
  case (Cons t ts)
  let ?pay = "base @ [(''status'', JStr (if t = ''RUN_CLOSED'' then ''success'' else ''recorded''))]"
  from Cons.prems obtain e h es where e: "tx_event env idx t pv ?pay obs = Ok e" "get_field e ''event_sha256'' = Ok h"
    "tx_events env (Suc idx) ts h base obs = Ok es" "evs = e # es" by (auto simp: bind_ok_Inr)
  let ?u = "event_unsigned idx t pv ?pay kid"
  obtain c sg where u: "e = ?u @ [(''event_sha256'', JStr (tx_sha env c)), (''signature'', JStr sg)]" "canonical (JObj ?u) = Ok c"
    "tx_sign (tx_crypto env) ?u obs = Ok sg" by (rule tx_event_Ok [OF e(1) assms(3)])
  have w: "without [''event_sha256'', ''signature''] e = ?u" by (simp add: u(1) event_unsigned_def)
  have f: "get_field e ''sequence'' = Ok (JInt (int idx))" "get_field e ''previous_event_sha256'' = Ok pv" "h = JStr (tx_sha env c)"
    "get_field e ''signature'' = Ok (JStr sg)" "get_field e ''observer_key_id'' = Ok (JStr kid)" "get_field e ''event_type'' = Ok (JStr t)"
    "get_field e ''event_sha256'' = Ok (JStr (tx_sha env c))"
    using e(2) by (simp_all add: u(1) event_unsigned_def get_field_def)
  have "get_field pks kid = Ok (JStr opub)" using assms(5) by (simp add: get_field_def)
  moreover have "num_val (JInt (int idx)) = Some (real idx)" by (simp add: num_val_def)
  moreover note Cons.IH [OF e(3)] sign_verifies [OF u(3) assms(1,2,4)]
  ultimately show ?case using f w u(2) by (auto simp: e(4) as_obj_def hashable_def tx_sha_def Let_def)
qed simp

lemma dict_get_append: "dict_get d k = Some v \<Longrightarrow> dict_get (d @ d') k = Some v"
  by (induction d) (auto split: if_splits)

lemma tx_events_length: "tx_events env idx ts pv base obs = Ok evs \<Longrightarrow> length evs = length ts"
  by (induction ts arbitrary: idx pv evs) (auto simp: bind_ok_Inr)

lemma tx_events_last:
  "tx_events env idx ts pv base obs = Ok evs \<Longrightarrow> ts \<noteq> [] \<Longrightarrow> dict_get base (key @ ''_sha256'') = Some h \<Longrightarrow>
     last_sha (map JObj evs) key = Ok h"
proof (induction ts arbitrary: idx pv evs)
  case (Cons t ts)
  then obtain e h' es where e: "tx_event env idx t pv (base @ [(''status'', JStr (if t = ''RUN_CLOSED'' then ''success'' else ''recorded''))]) obs = Ok e"
    "tx_events env (Suc idx) ts h' base obs = Ok es" "evs = e # es" by (auto simp: bind_ok_Inr)
  show ?case
  proof (cases "ts = []")
    case True
    from e(1) obtain kid where "dict_get obs ''key_id'' = Some kid" by (auto simp: tx_event_def bind_ok_Inr need_def split: option.splits)
    from tx_event_Ok [OF e(1) this] obtain u where
      "e = event_unsigned idx t pv (base @ [(''status'', JStr (if t = ''RUN_CLOSED'' then ''success'' else ''recorded''))]) kid @ u" by metis
    then have "get_field e ''payload'' = Ok (JObj (base @ [(''status'', JStr (if t = ''RUN_CLOSED'' then ''success'' else ''recorded''))]))"
      by (simp add: event_unsigned_def get_field_def)
    then show ?thesis using True e(2,3) dict_get_append [OF Cons.prems(3)] by (simp add: last_sha_def as_obj_def get_field_def)
  next
    case False
    then have "es \<noteq> []" using e(2) by (cases ts) (auto simp: bind_ok_Inr)
    then show ?thesis using Cons.IH [OF e(2) False Cons.prems(3)] e(3) by (simp add: last_sha_def)
  qed
qed simp

lemma manifest_fields:
  assumes "m = tx_manifest env p a keys kid opub evs"
  shows "get_field m ''files'' = Ok (JObj [(''source'', JStr ''source.docx''), (''playbook'', JStr ''playbook.json''), (''output'', JStr ''output.docx'')])"
    "get_field m ''events'' = Ok (JList (map JObj evs))" "get_field m ''proposal'' = Ok (JObj p)" "get_field m ''approval'' = Ok (JObj a)"
    "public_keys m = Ok (map (\<lambda>(k, v). (k, JStr v)) (dict_set kid opub keys))" "get_field m ''observer_key_id'' = Ok (JStr kid)"
  by (simp_all add: assms tx_manifest_def get_field_def public_keys_def as_obj_def)

lemma manifest_key:
  "dict_get (map (\<lambda>(k, v). (k, JStr v)) (dict_set kid opub keys)) k = (if k = kid then Some (JStr opub) else map_option JStr (dict_get keys k))"
proof -
  have "dict_get (map (\<lambda>(k, v). (k, JStr v)) d) k = map_option JStr (dict_get d k)" for d :: "(_, str) dict"
    by (induction d) auto
  then show ?thesis by simp
qed

lemma get_default_Some: "get_default d k JNull = JStr s \<Longrightarrow> get_field d k = Ok (JStr s)"
  by (auto simp: get_default_def get_field_def split: option.splits)

lemma bundle_of_execution:
  assumes "execute env fsys rt p a keys obs = Ok (m, fsys', b)" and "ed25519_correct (tx_crypto env)"
    and "key_pair (tx_crypto env) obs" and "json_wf (JObj m)"
    and "\<forall>f \<in> {''source'', ''playbook''}. bind_ok (get_field p f) (resolve_under_root env (tx_root env rt)) \<noteq>
      bind_ok (get_field p ''output'') (resolve_under_root env (tx_root env rt))"
    and "\<forall>f \<in> {''source.docx'', ''playbook.json'', ''output.docx''}. bres f = Some f"
  shows "\<exists>v. verify_bundle (tx_hash env) (tx_crypto env) bres b = Ok v \<and> bv_ok v \<and> length (bv_checks v) = 36"
proof (rule execute_Ok [OF assms(1)])
  fix sp pp op sb pbb res out intent aid evs kid opub
  assume ind: "observer_independent p a obs"
    and paths: "bind_ok (get_field p ''source'') (resolve_under_root env (tx_root env rt)) = Ok sp"
      "bind_ok (get_field p ''playbook'') (resolve_under_root env (tx_root env rt)) = Ok pp"
      "bind_ok (get_field p ''output'') (resolve_under_root env (tx_root env rt)) = Ok op"
    and rd: "read_regular fsys sp = Ok sb" "read_regular fsys pp = Ok pbb"
    and v: "verify_approval env p a keys = Ok ()" and f': "fsys' = fsys(op := Some (Regular out))" and sz: "length out \<le> MAX_BYTES"
    and ev: "tx_events env 0 EVENTS JNull (base_payload env sb pbb intent aid out res) obs = Ok evs"
    and k: "dict_get obs ''key_id'' = Some kid" "dict_get obs ''public'' = Some opub" and m: "m = tx_manifest env p a keys kid opub evs"
    and b: "b = \<lparr>bd_json = dumps indent2 (JObj m) @ [CHR 0x0A],
      bd_files = node_copy fsys' ''source.docx'' sp @ node_copy fsys' ''playbook.json'' pp @ node_copy fsys' ''output.docx'' op\<rparr>"
  let ?H = "tx_hash env" and ?cr = "tx_crypto env" and ?pks = "map (\<lambda>(k, v). (k, JStr v)) (dict_set kid opub keys)"
  note mf = manifest_fields [OF m]
  obtain cs4 where e4: "event_checks ?H ?cr ?pks 0 JNull (map JObj evs) = Ok cs4" "list_all fst cs4" "length cs4 = 3 * length EVENTS"
    and et: "event_types (map JObj evs) = Ok (map JStr EVENTS)"
    using tx_events_check [OF assms(3,2) k, of ?pks 0 EVENTS JNull "base_payload env sb pbb intent aid out res" evs] ev
    by (auto simp: manifest_key)
  have "sp \<noteq> op" "pp \<noteq> op" using assms(5) paths by auto
  then have files: "bd_files b = [(''source.docx'', Regular sb), (''playbook.json'', Regular pbb), (''output.docx'', Regular out)]"
    and small: "length sb \<le> MAX_BYTES" "length pbb \<le> MAX_BYTES"
    using rd f' b by (simp_all add: node_copy_def read_regular_Ok)
  have last: "last_sha (map JObj evs) ''source'' = Ok (JStr (hex (?H sb)))" "last_sha (map JObj evs) ''playbook'' = Ok (JStr (hex (?H pbb)))"
    "last_sha (map JObj evs) ''output'' = Ok (JStr (hex (?H out)))"
    by (rule tx_events_last [OF ev], simp add: EVENTS_def, simp add: base_payload_def tx_sha_def)+
  have c1: "file_checks ?H bres (bd_files b) (map JObj evs)
      [(''source'', JStr ''source.docx''), (''playbook'', JStr ''playbook.json''), (''output'', JStr ''output.docx'')] =
      Ok (map (Pair True) [''source path confinement'', ''source hash'', ''playbook path confinement'', ''playbook hash'',
        ''output path confinement'', ''output hash''])"
    using assms(6) small sz by (simp add: last files read_node_def)
  obtain c i pk j ak where va: "canonical (JObj (without [''signature'', ''intent_sha256''] p)) = Ok c"
    "get_default p ''intent_sha256'' JNull = JStr (tx_sha env c)"
    "get_default p ''producer_key_id'' JNull = JStr i" "dict_get keys i = Some pk" "signed_by ?cr p (Some (JStr pk))"
    "list_all (same_field a p) bound_fields"
    "get_default a ''principal'' JNull = JStr j" "dict_get keys j = Some ak" "signed_by ?cr a (Some (JStr ak))"
    by (rule verify_approval_Ok [OF v])
  have ne: "i \<noteq> kid" "j \<noteq> kid" using ind k va by (auto simp: observer_independent_def)
  have c2: "proposal_checks ?H ?cr m p = Ok (map (Pair True) [''proposal digest'', ''proposal signature''])"
    using va ne mf(5) by (simp add: proposal_checks_def bundle_key_def hashable_def get_default_def manifest_key tx_sha_def)
  have c3: "approval_checks ?cr m p a = Ok (map (Pair True) [''approval binding'', ''approval signature'', ''observer independence''])"
    using va ne mf(5,6) get_default_Some [OF va(3)] get_default_Some [OF va(7)]
    by (simp add: approval_checks_def bundle_key_def hashable_def get_default_def manifest_key)
  have "loads (bd_json b) = Some (JObj m)" using b assms(4) loads_dumps_newline [of indent2 "JObj m"] by simp
  then show ?thesis using mf c1 c2 c3 e4 et
    by (auto simp: verify_bundle_def as_obj_def as_list_def verify_manifest_def bundle_verdict_def Let_def EVENTS_def
        simp del: file_checks.simps event_checks.simps event_types.simps)
qed

text \<open>C14: every bundle that an execution leaves verifies. If the output is another file than source and
  playbook, the observer signs with the key pair it names, and the manifest is representable as JSON,
  then verification reads the manifest back and all its checks pass: confinement and digests of the
  files, digest and signature of the proposal, binding and signature of the approval, independence of
  the observer, the chain of events with its signatures, and the order of the events.\<close>

theorem executed_bundle_verifies:
  assumes "execute env fsys rt p a keys obs = Ok (m, fsys', b)" and "ed25519_correct (tx_crypto env)"
    and "key_pair (tx_crypto env) obs" and "json_wf (JObj m)"
    and "\<forall>f \<in> {''source'', ''playbook''}. bind_ok (get_field p f) (resolve_under_root env (tx_root env rt)) \<noteq>
      bind_ok (get_field p ''output'') (resolve_under_root env (tx_root env rt))"
    and "\<forall>f \<in> {''source.docx'', ''playbook.json'', ''output.docx''}. bres f = Some f"
  shows "\<exists>v. verify_bundle (tx_hash env) (tx_crypto env) bres b = Ok v \<and> bv_ok v \<and> length (bv_checks v) = 36"
  using assms by (rule bundle_of_execution)

section \<open>The chain of events\<close>

definition ev_unsigned :: "jobj \<Rightarrow> jobj" where
  "ev_unsigned e = without [''event_sha256'', ''signature''] e"

definition ev_content :: "jobj \<Rightarrow> bytes" where
  "ev_content e = (case canonical (JObj (ev_unsigned e)) of Inl _ \<Rightarrow> [] | Inr c \<Rightarrow> c)"

definition ev_sig :: "jobj \<Rightarrow> str" where
  "ev_sig e = jstr (get_default e ''event_sha256'' JNull)"

definition ev_prev :: "jobj \<Rightarrow> str" where
  "ev_prev e = jstr (get_default e ''previous_event_sha256'' JNull)"

definition ev_wf :: "jobj \<Rightarrow> bool" where
  "ev_wf e \<longleftrightarrow> json_wf (JObj e) \<and> is_ok (canonical (JObj (ev_unsigned e))) \<and>
     (\<exists>v. dict_get e ''previous_event_sha256'' = Some v \<and> (v = JNull \<or> (\<exists>s. v = JStr s)))"

definition same_event :: "jobj \<Rightarrow> jobj \<Rightarrow> bool" where
  "same_event x y \<longleftrightarrow> json_eq (JObj (ev_unsigned x)) (JObj (ev_unsigned y)) \<and> ev_sig x = ev_sig y"

lemma dict_get_without: "dict_get (without ks d) k = (if k \<in> set ks then None else dict_get d k)"
  by (induction d) auto

lemma ev_unsigned_wf: "json_wf (JObj e) \<Longrightarrow> json_wf (JObj (ev_unsigned e))"
  by (auto simp: ev_unsigned_def without_def list_all_iff distinct_map_filter)

lemma json_eq_field:
  assumes "json_eq (JObj x) (JObj y)" "json_wf (JObj x)" "json_wf (JObj y)" "dict_get x k = Some v"
  obtains w where "dict_get y k = Some w" "json_eq v w"
proof -
  from assms(1-3) sort_json_obj_get [of x y k] have "map_option sort_json (dict_get x k) = map_option sort_json (dict_get y k)"
    by (simp add: json_eq_def)
  with assms(4) obtain w where "dict_get y k = Some w" "sort_json v = sort_json w" by (cases "dict_get y k") auto
  with that show thesis by (simp add: json_eq_def)
qed

lemma ev_content_eq:
  assumes "ev_wf x" "ev_wf y" "ev_content x = ev_content y"
  shows "json_eq (JObj (ev_unsigned x)) (JObj (ev_unsigned y))"
  using assms canonical_inject ev_unsigned_wf
  by (auto simp: ev_wf_def ev_content_def is_ok_def split: sum.splits)

interpretation events: mac_chain "\<lambda>c. hex (H c)" ev_content ev_sig ev_prev "[]" ev_wf same_event
  for H
proof
  fix x y assume w: "ev_wf x" "ev_wf y" and c: "ev_content x = ev_content y"
  note e = ev_content_eq [OF w c]
  show "same_event x y" if "ev_sig x = ev_sig y" using e that by (simp add: same_event_def)
  from w obtain v where v: "dict_get x ''previous_event_sha256'' = Some v" "v = JNull \<or> (\<exists>s. v = JStr s)" by (auto simp: ev_wf_def)
  have "dict_get (ev_unsigned x) ''previous_event_sha256'' = Some v" by (simp add: ev_unsigned_def dict_get_without v)
  from json_eq_field [OF e _ _ this] obtain u where "dict_get (ev_unsigned y) ''previous_event_sha256'' = Some u" "json_eq v u"
    using w ev_unsigned_wf by (auto simp: ev_wf_def)
  then have "dict_get y ''previous_event_sha256'' = Some u" "json_eq v u" by (simp_all add: ev_unsigned_def dict_get_without)
  moreover have "u = v" using v(2) \<open>json_eq v u\<close> by (cases u) (auto simp: json_eq_def)
  ultimately show "ev_prev x = ev_prev y" using v(1) by (simp add: ev_prev_def get_default_def)
qed

lemma if_Raise_Ok: "(if b then Raise e else r) = Ok v \<longleftrightarrow> \<not> b \<and> r = Ok v"
  by simp

lemma event_checks_chain:
  "event_checks H cr pks idx pv evs = Ok cs \<Longrightarrow> list_all fst cs \<Longrightarrow> pv = JNull \<or> (\<exists>s. pv = JStr s) \<Longrightarrow> list_all json_wf evs \<Longrightarrow>
     \<exists>es. evs = map JObj es \<and> list_all ev_wf es \<and> events.chain_ok H (jstr pv) es"
proof (induction evs arbitrary: idx pv cs)
  case (Cons ev evs)
  from Cons.prems(1) obtain e where ev: "ev = JObj e" by (cases ev) (auto simp: as_obj_def)
  from Cons.prems(1) ev obtain sq l c h d g cs' where
    l: "(if num_val sq = Some (real idx)
         then bind_ok (get_field e ''previous_event_sha256'') (\<lambda>w. Ok (json_eq w pv)) else Ok False) = Ok l"
    and c: "canonical (JObj (ev_unsigned e)) = Ok c" and h: "get_field e ''event_sha256'' = Ok h"
    and cs': "event_checks H cr pks (Suc idx) h evs = Ok cs'"
    and cs: "cs = (l, ''sequence/parent'') # (JStr (hex (H c)) = h, ''event digest'') # (g, ''event signature'') # cs'"
    by (auto simp: as_obj_def Let_def bind_ok_Inr ev_unsigned_def if_Raise_Ok)
  have "l" using Cons.prems(2) cs by simp
  with l obtain pv' where pv: "dict_get e ''previous_event_sha256'' = Some pv'" "json_eq pv' pv"
    by (auto simp: bind_ok_Inr get_field_def split: if_splits option.splits)
  have h: "dict_get e ''event_sha256'' = Some h" "h = JStr (hex (H c))" and cs'': "list_all fst cs'"
    using h Cons.prems(2) cs by (auto simp: get_field_def split: option.splits)
  have pv': "pv' = pv" using pv(2) Cons.prems(3) by (cases pv') (auto simp: json_eq_def)
  from Cons.IH [OF cs' cs''] h(2) Cons.prems(4) obtain es where es: "evs = map JObj es" "list_all ev_wf es" "events.chain_ok H (jstr h) es" by auto
  have "ev_wf e" using Cons.prems(3,4) ev c pv pv' by (simp add: ev_wf_def)
  moreover have "ev_sig e = hex (H (ev_content e))" "ev_prev e = jstr pv" "jstr h = ev_sig e"
    using c h pv pv' by (simp_all add: ev_sig_def ev_prev_def ev_content_def get_default_def jstr_def)
  ultimately have "ev # evs = map JObj (e # es)" "list_all ev_wf (e # es)" "events.chain_ok H (jstr pv) (e # es)"
    using es ev by simp_all
  then show ?case by (intro exI [of _ "e # es"] conjI)
qed simp

section \<open>Tamper evidence\<close>

definition bundle_file :: "(str \<Rightarrow> str option) \<Rightarrow> Bundle \<Rightarrow> jobj \<Rightarrow> str \<Rightarrow> bytes option" where
  "bundle_file bres b names key = (case dict_get names key of
     Some (JStr nm) \<Rightarrow> (case bres nm of
       None \<Rightarrow> None
     | Some p \<Rightarrow> (case dict_get (bd_files b) p of Some (Regular x) \<Rightarrow> Some x | _ \<Rightarrow> None))
   | _ \<Rightarrow> None)"

definition bundle_texts :: "jobj list \<Rightarrow> Bundle \<Rightarrow> bytes set" where
  "bundle_texts es b = ev_content ` set es \<union> {x. Regular x \<in> snd ` set (bd_files b)}"

lemma verify_bundle_Ok:
  assumes "verify_bundle H cr bres b = Ok v" "bv_ok v" "loads (bd_json b) = Some (JObj m)"
  obtains names evs pks cs1 cs4 where "get_field m ''files'' = Ok (JObj names)" "get_field m ''events'' = Ok (JList evs)"
    "file_checks H bres (bd_files b) evs names = Ok cs1" "list_all fst cs1"
    "event_checks H cr pks 0 JNull evs = Ok cs4" "list_all fst cs4" "event_types evs = Ok (map JStr EVENTS)"
proof -
  have o: "as_obj w = Ok d \<longleftrightarrow> w = JObj d" "as_list w = Ok l \<longleftrightarrow> w = JList l" for w d l
    by (cases w; simp add: as_obj_def as_list_def)+
  from assms(1,3) obtain names evs cs1 p cs2 a cs3 pks cs4 ts where r: "get_field m ''files'' = Ok (JObj names)"
    "get_field m ''events'' = Ok (JList evs)" "file_checks H bres (bd_files b) evs names = Ok cs1" "event_checks H cr pks 0 JNull evs = Ok cs4"
    "event_types evs = Ok ts" "v = bundle_verdict (cs1 @ cs2 @ cs3 @ cs4 @ [(ts = map JStr EVENTS, ''mandatory state machine'')])"
    by (auto simp: verify_bundle_def as_obj_def [of "JObj m"] verify_manifest_def bind_ok_Inr o)
  then show thesis using assms(2) by (intro that [of names evs cs1 pks cs4]) (simp_all add: bundle_verdict_def Let_def)
qed

lemma file_checks_file:
  "file_checks H bres (bd_files b) evs names = Ok cs \<Longrightarrow> list_all fst cs \<Longrightarrow> bundle_file bres b names key = Some x \<Longrightarrow>
     last_sha evs key = Ok (JStr (hex (H x)))"
proof (induction names arbitrary: cs)
  case (Cons kn names)
  obtain k n where kn: "kn = (k, n)" by (cases kn)
  from Cons.prems(1) obtain nm where n: "n = JStr nm" by (cases n) (auto simp: kn)
  from Cons.prems(1) obtain ex h cs' c where r: "last_sha evs k = Ok ex" "file_checks H bres (bd_files b) evs names = Ok cs'"
    "(if bres nm = None then Ok False else bind_ok (read_node (case bres nm of None \<Rightarrow> None | Some p \<Rightarrow> dict_get (bd_files b) p))
        (\<lambda>b. Ok (JStr (hex (H b)) = ex))) = Ok h" "cs = c # (h, k @ '' hash'') # cs'"
    by (auto simp: kn n Let_def bind_ok_Inr)
  have "h" "list_all fst cs'" using Cons.prems(2) r(4) by auto
  show ?case
  proof (cases "k = key")
    case True
    then show ?thesis using Cons.prems(3) r(1,3) \<open>h\<close>
      by (auto simp: bundle_file_def kn n read_node_def bind_ok_Inr split: option.splits FNode.splits if_splits)
  next
    case False
    then show ?thesis using Cons.IH [OF r(2) \<open>list_all fst cs'\<close>] Cons.prems(3) by (simp add: bundle_file_def kn)
  qed
qed (simp add: bundle_file_def)

lemma bundle_file_text: "bundle_file bres b names key = Some x \<Longrightarrow> x \<in> bundle_texts es b"
proof -
  assume "bundle_file bres b names key = Some x"
  then obtain p where "dict_get (bd_files b) p = Some (Regular x)"
    by (auto simp: bundle_file_def split: option.splits json.splits FNode.splits)
  then have "(p, Regular x) \<in> set (bd_files b)" by (rule dict_get_Some_in)
  then show ?thesis by (auto simp: bundle_texts_def image_iff intro: bexI [of _ "(p, Regular x)"])
qed

lemma last_sha_same:
  assumes "same_event x y" "ev_wf x" "ev_wf y" "last_sha [JObj x] key = Ok (JStr s)" "last_sha [JObj y] key = Ok (JStr t)"
  shows "s = t"
proof -
  from assms(4,5) obtain p p' where p: "dict_get x ''payload'' = Some (JObj p)" "dict_get p (key @ ''_sha256'') = Some (JStr s)"
    "dict_get y ''payload'' = Some (JObj p')" "dict_get p' (key @ ''_sha256'') = Some (JStr t)"
    by (auto simp: last_sha_def as_obj_def bind_ok_Inr get_field_def split: option.splits json.splits)
  have w: "json_wf (JObj x)" "json_wf (JObj y)" using assms(2,3) by (simp_all add: ev_wf_def)
  then have wp: "json_wf (JObj p)" "json_wf (JObj p')" using p obj_wf_get by (auto simp: obj_wf_def simp del: json_wf.simps)
  have "dict_get (ev_unsigned x) ''payload'' = Some (JObj p)" using p(1) by (simp add: ev_unsigned_def dict_get_without)
  from json_eq_field [OF _ ev_unsigned_wf ev_unsigned_wf this] assms(1) w obtain u where
    u: "dict_get (ev_unsigned y) ''payload'' = Some u" "json_eq (JObj p) u" by (auto simp: same_event_def)
  then have "u = JObj p'" using p(3) by (simp add: ev_unsigned_def dict_get_without)
  with u(2) json_eq_field [OF _ wp p(2)] p(4) show ?thesis by (metis json_eq_JStr json_eq_def json.inject(4) option.inject)
qed

text \<open>C15: a bundle is tamper evident. Two bundles that verify, under whatever keys, and whose last events
  have the same digest agree in every event with its payload, in number and order, and in the content
  of every file that both name under the same role; or two different texts hashed in checking them,
  one of each bundle, have the same digest.\<close>

theorem bundle_tamper_evident:
  assumes "verify_bundle H cr bres b = Ok v" and "bv_ok v" and "loads (bd_json b) = Some (JObj m)" and "json_wf (JObj m)"
    and "get_field m ''events'' = Ok (JList (map JObj es))" and "get_field m ''files'' = Ok (JObj names)"
    and "verify_bundle H cr' bres' b' = Ok v'" and "bv_ok v'" and "loads (bd_json b') = Some (JObj m')" and "json_wf (JObj m')"
    and "get_field m' ''events'' = Ok (JList (map JObj es'))" and "get_field m' ''files'' = Ok (JObj names')"
    and "ev_sig (last es) = ev_sig (last es')" and "\<forall>c. H c \<noteq> []"
  shows "list_all2 same_event es es' \<and>
      (\<forall>key x y. bundle_file bres b names key = Some x \<and> bundle_file bres' b' names' key = Some y \<longrightarrow> x = y) \<or>
    (\<exists>x \<in> bundle_texts es b. \<exists>y \<in> bundle_texts es' b'. x \<noteq> y \<and> H x = H y)"
proof -
  have one: "es \<noteq> [] \<and> list_all ev_wf es \<and> events.chain_ok H [] es \<and>
      (\<forall>key x. bundle_file bres b names key = Some x \<longrightarrow> last_sha [JObj (last es)] key = Ok (JStr (hex (H x))) \<and> x \<in> bundle_texts es b)"
    if a: "verify_bundle H cr bres b = Ok v" "bv_ok v" "loads (bd_json b) = Some (JObj m)" "json_wf (JObj m)"
      "get_field m ''events'' = Ok (JList (map JObj es))" "get_field m ''files'' = Ok (JObj names)" for cr bres b v m es names
  proof (rule verify_bundle_Ok [OF a(1-3)])
    fix nms evs pks cs1 cs4
    assume f: "get_field m ''files'' = Ok (JObj nms)" "get_field m ''events'' = Ok (JList evs)"
      "file_checks H bres (bd_files b) evs nms = Ok cs1" "list_all fst cs1"
      "event_checks H cr pks 0 JNull evs = Ok cs4" "list_all fst cs4" "event_types evs = Ok (map JStr EVENTS)"
    have eq: "nms = names" "evs = map JObj es" using f(1,2) a(5,6) by simp_all
    have ne: "es \<noteq> []" using f(7) eq by (auto simp: EVENTS_def)
    have "list_all json_wf evs" using a(4) f(2) obj_wf_get [of m "''events''" "JList evs"]
      by (simp add: obj_wf_def get_field_def split: option.splits)
    from event_checks_chain [OF f(5,6) _ this] obtain es2 where "evs = map JObj es2" "list_all ev_wf es2" "events.chain_ok H [] es2"
      by (auto simp: jstr_def)
    moreover from this eq(2) have "es2 = es" by (simp add: inj_map_eq_map inj_def)
    moreover have "last_sha [JObj (last es)] key = Ok (JStr (hex (H x)))" if "bundle_file bres b names key = Some x" for key x
      using file_checks_file [OF f(3,4), of key x] that ne eq by (simp add: last_sha_def last_map)
    ultimately show ?thesis using ne bundle_file_text by blast
  qed
  note o = one [OF assms(1-6)] and o' = one [OF assms(7-12)]
  have "list_all2 same_event es es' \<or> events.clash H es es'"
    by (rule events.chain_unique) (use assms(13,14) o o' in \<open>auto simp: events.last_sig_def\<close>)
  then show ?thesis
  proof
    assume l: "list_all2 same_event es es'"
    then have le: "same_event (last es) (last es')" using o by (metis list_all2_conv_all_nth last_conv_nth diff_less length_greater_0_conv zero_less_one)
    have w: "ev_wf (last es)" "ev_wf (last es')" using o o' by (simp_all add: list_all_iff)
    show ?thesis
    proof (cases "\<exists>key x y. bundle_file bres b names key = Some x \<and> bundle_file bres' b' names' key = Some y \<and> x \<noteq> y")
      case True
      then obtain key x y where k: "bundle_file bres b names key = Some x" "bundle_file bres' b' names' key = Some y" "x \<noteq> y" by blast
      then have "hex (H x) = hex (H y)" using last_sha_same [OF le w, of key] o o' by blast
      then show ?thesis using k o o' by (intro disjI2 bexI [of _ x] bexI [of _ y]) auto
    next
      case False
      then show ?thesis using l by blast
    qed
  next
    assume "events.clash H es es'"
    then show ?thesis by (auto simp: events.clash_def bundle_texts_def)
  qed
qed

section \<open>A sample transaction\<close>

fun signable :: "json \<Rightarrow> bool" where
  "signable (JFloat r) = False"
| "signable (JInt i) = (\<bar>i\<bar> \<le> 9007199254740991)"
| "signable (JObj d) = list_all (\<lambda>q. signable (snd q)) d"
| "signable (JList vs) = list_all signable vs"
| "signable v = True"

lemma safe_walk_signable:
  "signable v \<Longrightarrow> safe_walk v = Ok v"
  "list_all signable vs \<Longrightarrow> safe_items vs = Ok vs"
  "list_all (\<lambda>q. signable (snd q)) d \<Longrightarrow> safe_members d = Ok d"
  by (induction v and vs and d rule: safe_walk_safe_items_safe_members.induct) auto

lemma signable_sort: "signable v \<Longrightarrow> signable (sort_json v)"
  by (induction v rule: sort_json.induct) (auto simp: list_all_iff)

lemma canonical_signable: "signable v \<Longrightarrow> \<exists>c. canonical v = Ok c"
  by (simp add: canonical_def safe_walk_signable signable_sort)

lemma tx_sign_signable: "key_pair cr key \<Longrightarrow> signable (JObj obj) \<Longrightarrow> \<exists>sg. tx_sign cr obj key = Ok sg"
  using canonical_signable [of "JObj obj"] by (auto simp: key_pair_def tx_sign_def need_def)

lemma tx_events_ex:
  assumes "key_pair (tx_crypto env) obs" "dict_get obs ''key_id'' = Some kid" "signable (JObj base)"
  shows "signable pv \<Longrightarrow> idx + length ts \<le> 1000 \<Longrightarrow> \<exists>evs. tx_events env idx ts pv base obs = Ok evs"
proof (induction ts arbitrary: idx pv)
  case (Cons t ts)
  let ?pay = "base @ [(''status'', JStr (if t = ''RUN_CLOSED'' then ''success'' else ''recorded''))]"
  have s: "signable (JObj (event_unsigned idx t pv ?pay kid))" using assms(3) Cons.prems by (simp add: event_unsigned_def)
  obtain c sg where "canonical (JObj (event_unsigned idx t pv ?pay kid)) = Ok c" "tx_sign (tx_crypto env) (event_unsigned idx t pv ?pay kid) obs = Ok sg"
    using canonical_signable [OF s] tx_sign_signable [OF assms(1) s] by blast
  then have "tx_event env idx t pv ?pay obs = Ok (event_unsigned idx t pv ?pay kid @ [(''event_sha256'', JStr (tx_sha env c)), (''signature'', JStr sg)])"
    using assms(2) by (simp add: tx_event_def need_def Let_def)
  moreover obtain evs where "tx_events env (Suc idx) ts (JStr (tx_sha env c)) base obs = Ok evs" using Cons.IH [of "JStr (tx_sha env c)" "Suc idx"] Cons.prems by auto
  ultimately show ?case by (simp add: event_unsigned_def get_field_def)
qed simp

lemma tx_events_wf:
  "tx_events env idx ts pv base obs = Ok evs \<Longrightarrow> json_wf pv \<Longrightarrow> json_wf (JObj base) \<Longrightarrow> ''status'' \<notin> set (dict_keys base) \<Longrightarrow>
     list_all (\<lambda>e. json_wf (JObj e)) evs"
proof (induction ts arbitrary: idx pv evs)
  case (Cons t ts)
  let ?pay = "base @ [(''status'', JStr (if t = ''RUN_CLOSED'' then ''success'' else ''recorded''))]"
  from Cons.prems(1) obtain e h es where e: "tx_event env idx t pv ?pay obs = Ok e" "get_field e ''event_sha256'' = Ok h"
    "tx_events env (Suc idx) ts h base obs = Ok es" "evs = e # es" by (auto simp: bind_ok_Inr)
  from e(1) obtain kid where "dict_get obs ''key_id'' = Some kid" by (auto simp: tx_event_def bind_ok_Inr need_def split: option.splits)
  from tx_event_Ok [OF e(1) this] obtain c sg where
    u: "e = event_unsigned idx t pv ?pay kid @ [(''event_sha256'', JStr (tx_sha env c)), (''signature'', JStr sg)]" by metis
  have "json_wf (JObj ?pay)" using Cons.prems(3,4) by simp
  then have "json_wf (JObj e)" using Cons.prems(2) by (simp add: u event_unsigned_def)
  moreover have "json_wf h" using e(2) by (auto simp: u event_unsigned_def get_field_def)
  ultimately show ?case using Cons.IH [OF e(3)] Cons.prems(3,4) e(4) by simp
qed simp

text \<open>A contract of one line, a playbook that replaces one word of it, and a writer that marks the change.\<close>

definition tx_clause :: jobj where
  "tx_clause = [(''clause_id'', JStr ''governing_law''), (''match_text'', JStr ''A''), (''replacement_text'', JStr ''B''),
     (''citation'', JStr ''c''), (''rationale'', JStr ''r'')]"

definition tx_playbook :: str where
  "tx_playbook = dumps plain (JObj [(''clauses'', JList [JObj tx_clause])])"

definition tx_document :: xelem where
  "tx_document = XElem (qn ''body'') [] None [XElem (qn ''p'') [] None
     [XElem (qn ''del'') [(qn ''author'', ''Kairo Legal v3''), (qn ''date'', ''d'')] None [sample_run ''delText'' ''A''],
      XElem (qn ''ins'') [(qn ''author'', ''Kairo Legal v3''), (qn ''date'', ''d'')] None [sample_run ''t'' ''B'']]]"

definition sample_env :: "int \<Rightarrow> TxEnv" where
  "sample_env now = \<lparr>tx_hash = pad_hash, tx_crypto = echo_scheme, tx_root = (\<lambda>r. [r]), tx_join = (\<lambda>r s. r @ [s]), tx_pstr = concat,
     tx_now = now, tx_uuid = nat_str, tx_paras = (\<lambda>_. [''A'']), tx_redline = redline_env 1, tx_tmp = ''tmp'', tx_written = (\<lambda>_. [7]),
     tx_body = (\<lambda>_. tx_document)\<rparr>"

definition sample_fs :: fs where
  "sample_fs = [[''r'', ''s''] \<mapsto> Regular [5], [''r'', ''p''] \<mapsto> Regular (utf8 tx_playbook)]"

definition sample_key :: "str \<Rightarrow> str \<Rightarrow> byte \<Rightarrow> keyd" where
  "sample_key role kid x = [(''role'', role), (''key_id'', kid), (''private'', b64encode (replicate 32 x)), (''public'', b64encode (replicate 32 x))]"

definition sample_keys :: keyd where
  "sample_keys = [(''P'', b64encode (replicate 32 1)), (''A'', b64encode (replicate 32 2))]"

lemma sample_key_facts [simp]:
  "key_pair echo_scheme (sample_key role kid x)" "dict_get (sample_key role kid x) ''role'' = Some role"
  "dict_get (sample_key role kid x) ''key_id'' = Some kid" "dict_get (sample_key role kid x) ''public'' = Some (b64encode (replicate 32 x))"
proof -
  show "key_pair echo_scheme (sample_key role kid x)"
    unfolding key_pair_def by (rule exI [of _ "replicate 32 x"]) (simp add: sample_key_def echo_scheme_def)
qed (simp_all add: sample_key_def)

lemma echo_correct [simp]: "ed25519_correct echo_scheme"
  by (simp add: ed25519_correct_def echo_scheme_def)

lemma sample_env_simps [simp]:
  "tx_hash (sample_env n) = pad_hash" "tx_crypto (sample_env n) = echo_scheme" "tx_root (sample_env n) r = [r]"
  "tx_join (sample_env n) q s = q @ [s]" "tx_now (sample_env n) = n" "tx_redline (sample_env n) = redline_env 1"
  "tx_written (sample_env n) res = [7]" "tx_body (sample_env n) out = tx_document" "tx_paras (sample_env n) bs = [''A'']"
  by (simp_all add: sample_env_def)

lemma tx_playbook_loads: "loads tx_playbook = Some (JObj [(''clauses'', JList [JObj tx_clause])])"
  unfolding tx_playbook_def by (rule loads_dumps) (simp_all add: tx_clause_def)

lemma tx_playbook_size: "length (utf8 tx_playbook) \<le> MAX_BYTES"
proof -
  have "length (utf8 tx_playbook) < 300" by code_simp
  then show ?thesis by (simp add: MAX_BYTES_def)
qed

lemma tx_playbook_allowed: "allowed_playbook [(''clauses'', JList [JObj tx_clause])] = Ok ()"
  by code_simp

lemma sample_propose:
  obtains p where "propose (sample_env 0) sample_fs ''r'' ''s'' ''p'' ''o'' (sample_key ''producer'' ''P'' 1) 900 = Ok p"
    "get_field p ''source'' = Ok (JStr ''s'')" "get_field p ''playbook'' = Ok (JStr ''p'')" "get_field p ''output'' = Ok (JStr ''o'')"
    "dict_get p ''source_sha256'' = Some (JStr (tx_sha (sample_env n) [5]))"
    "dict_get p ''playbook_sha256'' = Some (JStr (tx_sha (sample_env n) (utf8 tx_playbook)))"
    "get_default p ''producer_key_id'' JNull = JStr ''P''" "json_wf (JObj p)" "signable (JObj p)"
proof -
  let ?u = "proposal_unsigned (sample_env 0) ''s'' ''p'' ''o'' [5] (utf8 tx_playbook) (JList [JObj tx_clause]) 0 900 ''P''"
  have s: "signable (JObj ?u)" by (simp add: proposal_unsigned_def tx_clause_def)
  then obtain c where c: "canonical (JObj ?u) = Ok c" using canonical_signable by blast
  have "signable (JObj (?u @ [(''intent_sha256'', JStr (tx_sha (sample_env 0) c))]))" using s by simp
  then obtain sg where sg: "tx_sign echo_scheme (?u @ [(''intent_sha256'', JStr (tx_sha (sample_env 0) c))]) (sample_key ''producer'' ''P'' 1) = Ok sg"
    using tx_sign_signable [OF sample_key_facts(1)] by blast
  have w: "without [''signature''] ?u = ?u" by (simp add: proposal_unsigned_def)
  let ?p = "?u @ [(''intent_sha256'', JStr (tx_sha (sample_env 0) c)), (''signature'', JStr sg)]"
  have r: "read_regular sample_fs [''r'', ''s''] = Ok [5]" "read_regular sample_fs [''r'', ''p''] = Ok (utf8 tx_playbook)"
    using tx_playbook_size by (simp_all add: read_regular_Ok sample_fs_def MAX_BYTES_def)
  have P: "propose (sample_env 0) sample_fs ''r'' ''s'' ''p'' ''o'' (sample_key ''producer'' ''P'' 1) 900 = Ok ?p"
    using c sg w tx_playbook_allowed
    by (simp add: propose_def resolve_under_root_def r load_json_bytes_def tx_playbook_loads get_field_def need_def Let_def)
  have W: "json_wf (JObj ?p)" "signable (JObj ?p)" using s by (simp_all add: proposal_unsigned_def tx_clause_def)
  show thesis
    by (rule that [OF P _ _ _ _ _ _ W]) (simp_all add: proposal_unsigned_def get_field_def get_default_def tx_sha_def)
qed

lemma sample_approve:
  assumes "propose (sample_env 0) sample_fs ''r'' ''s'' ''p'' ''o'' (sample_key ''producer'' ''P'' 1) 900 = Ok p"
  obtains a where "approve (sample_env 10) p (sample_key ''approver'' ''A'' 2) 600 = Ok a"
    "get_default a ''principal'' JNull = JStr ''A''" "get_field a ''approval_id'' = Ok (JStr (tx_uuid (sample_env 10) 0))" "json_wf (JObj a)"
proof (rule propose_Ok [OF assms])
  fix sb pbb cl kid c sg
  let ?u = "proposal_unsigned (sample_env 0) ''s'' ''p'' ''o'' sb pbb cl (tx_now (sample_env 0)) 900 kid"
  assume p: "p = ?u @ [(''intent_sha256'', JStr (tx_sha (sample_env 0) c)), (''signature'', JStr sg)]"
  let ?a = "approval_unsigned (sample_env 10) (JStr (tx_sha (sample_env 0) c)) (JStr (tx_sha (sample_env 0) sb)) (JStr (tx_sha (sample_env 0) pbb))
    ''A'' 10 (JInt 610)"
  have "signable (JObj ?a)" by (simp add: approval_unsigned_def)
  then obtain sg' where "tx_sign echo_scheme ?a (sample_key ''approver'' ''A'' 2) = Ok sg'"
    using tx_sign_signable [OF sample_key_facts(1)] by blast
  then have P: "approve (sample_env 10) p (sample_key ''approver'' ''A'' 2) 600 = Ok (?a @ [(''signature'', JStr sg')])"
    by (simp add: approve_def p proposal_unsigned_def get_field_def need_def min_json_def num_val_def Let_def)
  show thesis by (rule that [OF P]) (simp_all add: approval_unsigned_def get_default_def get_field_def)
qed

lemma tx_prepare:
  "prepare (\<lambda>_. []) (join [CHR 0x0A] [''A'']) [JObj tx_clause] = Ok ([clause_edit tx_clause], [])"
  by code_simp

lemma tx_marks: "exact_marks (\<lambda>_. []) tx_document [expected_change (clause_edit tx_clause)]"
proof -
  have r: "extract_revisions tx_document =
     [\<lparr>rv_kind = RevDel, rv_text = ''A'', rv_author = Some ''Kairo Legal v3'', rv_date = Some ''d''\<rparr>,
      \<lparr>rv_kind = RevIns, rv_text = ''B'', rv_author = Some ''Kairo Legal v3'', rv_date = Some ''d''\<rparr>]"
    by code_simp
  have p: "present (Some ''Kairo Legal v3'')" "present (Some ''d'')" by code_simp+
  show ?thesis unfolding exact_marks_def r
    by (simp add: attributed_def p wanted_def get_default_def want_key_def rev_key_def norm_opt_def norm_json_def text_of_def
        expected_change_def clause_edit_def tx_clause_def)
qed

lemma sample_redlined:
  obtains res where "redline_checked (sample_env n) sp [5] pp (utf8 tx_playbook) = Ok (res, [7])"
    "rr_applied_edits res = [clause_edit tx_clause]" "rr_flagged_clauses res = []"
proof -
  have l: "load_playbook tx_playbook = Ok ([(''clauses'', JList [JObj tx_clause])], [JObj tx_clause])"
    by (simp add: load_playbook_def tx_playbook_loads)
  have e: "re_str (redline_env 1) = (\<lambda>_. [])" by (simp add: redline_env_def)
  have "\<exists>res. redline_contract (redline_env 1) cp (Some [''A'']) ppt (Some tx_playbook) tp ''Kairo Legal v3'' None = Ok res \<and>
    rr_ok res \<and> rr_applied_edits res = [clause_edit tx_clause] \<and> rr_flagged_clauses res = []" for cp ppt tp
    by (simp add: redline_contract_def l e tx_prepare Let_def del: prepare.simps) (simp add: redline_env_def slice_to_def writer_flags_def)
  then obtain res where r: "redline_contract (redline_env 1) (tx_pstr (sample_env n) sp) (Some [''A'']) (tx_pstr (sample_env n) pp)
      (Some tx_playbook) (tx_tmp (sample_env n)) ''Kairo Legal v3'' None = Ok res"
    "rr_ok res" "rr_applied_edits res = [clause_edit tx_clause]" "rr_flagged_clauses res = []" by blast
  have c: "\<forall>c \<in> set [expected_change (clause_edit tx_clause)]. \<exists>s. dict_get c ''author'' = Some (JStr s)"
    by (simp add: expected_change_def)
  have v: "verify_docx_tracked_changes (\<lambda>_. []) tx_document (JList (map JObj [expected_change (clause_edit tx_clause)])) True True True None None = Ok True"
    unfolding strict_verify [OF c]
    by (simp add: tx_marks, simp add: expected_change_def clause_edit_def tx_clause_def get_default_def)
  show thesis by (rule that [OF _ r(3,4)]) (use r v in \<open>simp add: redline_checked_def e Let_def\<close>)
qed

text \<open>The proposal at time 0, its approval at time 10 and its execution at time 20.\<close>

lemma sample_execute:
  obtains p a m fsys' b where
    "propose (sample_env 0) sample_fs ''r'' ''s'' ''p'' ''o'' (sample_key ''producer'' ''P'' 1) 900 = Ok p"
    "approve (sample_env 10) p (sample_key ''approver'' ''A'' 2) 600 = Ok a"
    "execute (sample_env 20) sample_fs ''r'' p a sample_keys (sample_key ''observer'' ''O'' 3) = Ok (m, fsys', b)"
    "json_wf (JObj m)" "get_field p ''source'' = Ok (JStr ''s'')" "get_field p ''playbook'' = Ok (JStr ''p'')" "get_field p ''output'' = Ok (JStr ''o'')"
proof (rule sample_propose [of 20])
  fix p
  let ?env = "sample_env 20" and ?obs = "sample_key ''observer'' ''O'' 3"
  assume p: "propose (sample_env 0) sample_fs ''r'' ''s'' ''p'' ''o'' (sample_key ''producer'' ''P'' 1) 900 = Ok p"
    and f: "get_field p ''source'' = Ok (JStr ''s'')" "get_field p ''playbook'' = Ok (JStr ''p'')" "get_field p ''output'' = Ok (JStr ''o'')"
      "dict_get p ''source_sha256'' = Some (JStr (tx_sha ?env [5]))" "dict_get p ''playbook_sha256'' = Some (JStr (tx_sha ?env (utf8 tx_playbook)))"
      "get_default p ''producer_key_id'' JNull = JStr ''P''" "json_wf (JObj p)" "signable (JObj p)"
  obtain a where a: "approve (sample_env 10) p (sample_key ''approver'' ''A'' 2) 600 = Ok a"
    "get_default a ''principal'' JNull = JStr ''A''" "get_field a ''approval_id'' = Ok (JStr (tx_uuid (sample_env 10) 0))" "json_wf (JObj a)"
    by (rule sample_approve [OF p])
  have v: "verify_approval ?env p a sample_keys = Ok ()"
    by (rule approval_accepted [OF p a(1)]) (simp_all add: sample_keys_def)
  obtain res where r: "redline_checked ?env [''r'', ''s''] [5] [''r'', ''p''] (utf8 tx_playbook) = Ok (res, [7])"
    "rr_applied_edits res = [clause_edit tx_clause]" "rr_flagged_clauses res = []" by (rule sample_redlined)
  obtain c kid where i: "get_default p ''intent_sha256'' JNull = JStr (tx_sha (sample_env 0) c)"
    by (rule propose_signed [OF p]) simp_all
  then have i': "get_field p ''intent_sha256'' = Ok (JStr (tx_sha (sample_env 0) c))" by (rule get_default_Some)
  let ?base = "base_payload ?env [5] (utf8 tx_playbook) (JStr (tx_sha (sample_env 0) c)) (JStr (tx_uuid (sample_env 10) 0)) [7] res"
  have base: "signable (JObj ?base)" "json_wf (JObj ?base)" "''status'' \<notin> set (dict_keys ?base)"
    by (simp_all add: base_payload_def r expected_change_def clause_edit_def tx_clause_def get_default_def)
  obtain evs where ev: "tx_events ?env 0 EVENTS JNull ?base ?obs = Ok evs"
    using tx_events_ex [of ?env ?obs "''O''" ?base JNull 0 EVENTS] base(1) by (auto simp: EVENTS_def)
  let ?m = "tx_manifest ?env p a sample_keys ''O'' (b64encode (replicate 32 3)) evs"
  have ind: "observer_independent p a ?obs" using f(6) a(2) by (simp add: observer_independent_def)
  have rd: "read_regular sample_fs [''r'', ''s''] = Ok [5]" "read_regular sample_fs [''r'', ''p''] = Ok (utf8 tx_playbook)"
    "read_regular (sample_fs([''r'', ''o''] := Some (Regular [7]))) [''r'', ''o''] = Ok [7]" "sample_fs [''r'', ''o''] = None"
    using tx_playbook_size by (simp_all add: read_regular_Ok sample_fs_def MAX_BYTES_def)
  have "\<exists>b. execute ?env sample_fs ''r'' p a sample_keys ?obs = Ok (?m, sample_fs([''r'', ''o''] := Some (Regular [7])), b)"
    using ind f(1-5) v r(1) i' a(3) ev rd
    by (simp add: execute_def resolve_under_root_def path_parent_def need_def get_field_def Let_def)
  then obtain b where e: "execute ?env sample_fs ''r'' p a sample_keys ?obs = Ok (?m, sample_fs([''r'', ''o''] := Some (Regular [7])), b)" ..
  have "list_all (\<lambda>e. json_wf (JObj e)) evs" using tx_events_wf [OF ev] base by simp
  then have "json_wf (JObj ?m)" using f(7) a(4) by (simp add: tx_manifest_def sample_keys_def list_all_iff)
  then show thesis by (rule that [OF p a(1) e _ f(1-3)])
qed

section \<open>Witnesses\<close>

theorem approved_proposal_accepted_witness:
  "\<exists>p a. propose (sample_env 0) sample_fs ''r'' ''s'' ''p'' ''o'' (sample_key ''producer'' ''P'' 1) 900 = Ok p \<and>
     approve (sample_env 10) p (sample_key ''approver'' ''A'' 2) 600 = Ok a \<and> verify_approval (sample_env 20) p a sample_keys = Ok ()"
proof (rule sample_execute)
  fix p a
  assume p: "propose (sample_env 0) sample_fs ''r'' ''s'' ''p'' ''o'' (sample_key ''producer'' ''P'' 1) 900 = Ok p"
    and a: "approve (sample_env 10) p (sample_key ''approver'' ''A'' 2) 600 = Ok a"
  have "verify_approval (sample_env 20) p a sample_keys = Ok ()"
    by (rule approved_proposal_accepted [OF p a]) (simp_all add: sample_keys_def)
  with p a show ?thesis by (intro exI [of _ p] exI [of _ a] conjI)
qed


theorem executed_bundle_verifies_witness:
  "\<exists>p a m fsys' b v. execute (sample_env 20) sample_fs ''r'' p a sample_keys (sample_key ''observer'' ''O'' 3) = Ok (m, fsys', b) \<and>
     verify_bundle pad_hash echo_scheme Some b = Ok v \<and> bv_ok v"
proof (rule sample_execute)
  fix p a m fsys' b
  assume e: "execute (sample_env 20) sample_fs ''r'' p a sample_keys (sample_key ''observer'' ''O'' 3) = Ok (m, fsys', b)"
    and w: "json_wf (JObj m)"
    and f: "get_field p ''source'' = Ok (JStr ''s'')" "get_field p ''playbook'' = Ok (JStr ''p'')" "get_field p ''output'' = Ok (JStr ''o'')"
  have "\<exists>v. verify_bundle (tx_hash (sample_env 20)) (tx_crypto (sample_env 20)) Some b = Ok v \<and> bv_ok v \<and> length (bv_checks v) = 36"
    by (rule executed_bundle_verifies [OF e _ _ w]) (simp_all add: f resolve_under_root_def)
  then obtain v where "verify_bundle pad_hash echo_scheme Some b = Ok v" "bv_ok v" by auto
  with e show ?thesis
    by (intro exI [of _ p] exI [of _ a] exI [of _ m] exI [of _ fsys'] exI [of _ b]) (rule exI [of _ v], intro conjI)
qed

theorem bundle_tamper_evident_witness:
  "\<exists>b v es. verify_bundle pad_hash echo_scheme Some b = Ok v \<and> bv_ok v \<and> length es = 8 \<and>
     (list_all2 same_event es es \<or> (\<exists>x \<in> bundle_texts es b. \<exists>y \<in> bundle_texts es b. x \<noteq> y \<and> pad_hash x = pad_hash y))"
proof (rule sample_execute)
  fix p a m fsys' b
  let ?obs = "sample_key ''observer'' ''O'' 3"
  assume e: "execute (sample_env 20) sample_fs ''r'' p a sample_keys ?obs = Ok (m, fsys', b)" and w: "json_wf (JObj m)"
    and f: "get_field p ''source'' = Ok (JStr ''s'')" "get_field p ''playbook'' = Ok (JStr ''p'')" "get_field p ''output'' = Ok (JStr ''o'')"
  have "\<exists>v. verify_bundle (tx_hash (sample_env 20)) (tx_crypto (sample_env 20)) Some b = Ok v \<and> bv_ok v \<and> length (bv_checks v) = 36"
    by (rule bundle_of_execution [OF e _ _ w]) (simp_all add: f resolve_under_root_def)
  then obtain v where v: "verify_bundle pad_hash echo_scheme Some b = Ok v" "bv_ok v" by auto
  obtain es base kid opub where ev: "tx_events (sample_env 20) 0 EVENTS JNull base ?obs = Ok es"
    and m: "m = tx_manifest (sample_env 20) p a sample_keys kid opub es" and b: "bd_json b = dumps indent2 (JObj m) @ [CHR 0x0A]"
    by (rule execute_Ok [OF e], rule that) simp_all
  have l: "loads (bd_json b) = Some (JObj m)" unfolding b by (rule loads_dumps_newline [OF _ w]) simp
  have n: "length es = 8" using tx_events_length [OF ev] by (simp add: EVENTS_def)
  have h: "\<forall>c. pad_hash c \<noteq> []" using pad_hash_32 by (metis digest32_def list.size(3) zero_neq_numeral)
  note mf = manifest_fields [OF m]
  from bundle_tamper_evident [OF v l w mf(2,1) v l w mf(2,1) refl h]
  have "list_all2 same_event es es \<or> (\<exists>x \<in> bundle_texts es b. \<exists>y \<in> bundle_texts es b. x \<noteq> y \<and> pad_hash x = pad_hash y)" by blast
  with v n show ?thesis by (intro exI [of _ b] exI [of _ v] exI [of _ es] conjI)
qed

end
