(* ===== verification/DsseEnvelope.thy ===== *)
theory DsseEnvelope
  imports Base64 FlightRecorder
begin

text \<open>
  \<^verbatim>\<open>kairo/legal_v3/dsse_envelope.py\<close>: wrapping a bundle as an in-toto statement in a DSSE envelope,
  parsing it and authenticating it. Bundles, statements and envelopes are JSON values. A public key is
  the bytes it stands for, in one of the three forms the code accepts; keys of other types and a
  threshold that is no integer are excluded by the types. Reading and writing the files is I/O. The
  lemmas: the signed encoding is injective, an envelope that authenticates carries enough distinct
  trusted signatures over exactly the payload its statement was read from, and an envelope that was
  created and signed for a bundle authenticates to that bundle.
\<close>

section \<open>Encoding\<close>

definition PAYLOAD_TYPE :: str where "PAYLOAD_TYPE = ''application/vnd.kairo.legal-v3.bundle+json''"
definition STATEMENT_TYPE :: str where "STATEMENT_TYPE = ''https://in-toto.io/Statement/v1''"
definition PREDICATE_TYPE :: str where "PREDICATE_TYPE = ''https://kairo.phantom/legal-v3/v1''"

definition b64d :: "json \<Rightarrow> bytes result" where
  "b64d v = (case v of
     JStr s \<Rightarrow> (case b64decode_validate s of
       None \<Rightarrow> Raise (ValueError ''invalid base64 encoding'')
     | Some d \<Rightarrow> if b64encode d \<noteq> s then Raise (ValueError ''non-canonical base64 encoding'') else Ok d)
   | _ \<Rightarrow> Raise (ValueError ''base64 value must be a string''))"

definition pae :: "str \<Rightarrow> bytes \<Rightarrow> bytes" where
  "pae payload_type pay =
     (let type_bytes = utf8 payload_type in
      utf8 ''DSSEv1 '' @ utf8 (nat_str (length type_bytes)) @ utf8 '' '' @ type_bytes @ utf8 '' '' @
      utf8 (nat_str (length pay)) @ utf8 '' '' @ pay)"

section \<open>Statement and envelope\<close>

text \<open>\<^verbatim>\<open>d.get(k, {}).get(f, default)\<close>.\<close>

definition sub_get :: "jobj \<Rightarrow> str \<Rightarrow> str \<Rightarrow> json \<Rightarrow> json result" where
  "sub_get d k f dflt = (case dict_get d k of
     None \<Rightarrow> Ok dflt
   | Some (JObj e) \<Rightarrow> Ok (get_default e f dflt)
   | Some _ \<Rightarrow> Raise (AttributeError ''get''))"

fun readback_sha :: "json list \<Rightarrow> json result" where
  "readback_sha [] = Ok (JStr [])"
| "readback_sha (JObj ev # evs) =
     (if get_default ev ''event_type'' JNull = JStr ''ARTIFACT_READBACK'' then sub_get ev ''payload'' ''output_sha256'' (JStr [])
      else readback_sha evs)"
| "readback_sha (_ # evs) = Raise (AttributeError ''get'')"

text \<open>What a \<^verbatim>\<open>for\<close> loop over a value runs through: the members of a list, the characters of a text,
  the keys of a dictionary.\<close>

definition iter_json :: "json \<Rightarrow> json list result" where
  "iter_json v = (case v of
     JList vs \<Rightarrow> Ok vs
   | JStr s \<Rightarrow> Ok (map (\<lambda>c. JStr [c]) s)
   | JObj d \<Rightarrow> Ok (map (\<lambda>q. JStr (fst q)) d)
   | _ \<Rightarrow> Raise (TypeError ''not iterable''))"

definition subject_of :: "json \<Rightarrow> json \<Rightarrow> json" where
  "subject_of name sha = JObj [(''name'', name), (''digest'', JObj [(''sha256'', sha)])]"

definition create_statement :: "jobj \<Rightarrow> jobj result" where
  "create_statement bundle =
     bind_ok (sub_get bundle ''proposal'' ''output'' (JStr ''output.docx'')) (\<lambda>output_name.
     bind_ok (bind_ok (iter_json (get_default bundle ''events'' (JList []))) readback_sha) (\<lambda>output_sha.
     bind_ok (sub_get bundle ''proposal'' ''source'' (JStr ''source.docx'')) (\<lambda>source_name.
     bind_ok (sub_get bundle ''proposal'' ''source_sha256'' (JStr [])) (\<lambda>source_sha.
     Ok [(''_type'', JStr STATEMENT_TYPE),
         (''subject'', JList ((if json_truthy output_sha then [subject_of output_name output_sha] else []) @
                              (if json_truthy source_sha then [subject_of source_name source_sha] else []))),
         (''predicateType'', JStr PREDICATE_TYPE), (''predicate'', JObj bundle)]))))"

text \<open>A number is finite when it does not round past the largest float.\<close>

fun finite_floats :: "json \<Rightarrow> bool" where
  "finite_floats (JFloat r) = (case py_float r of None \<Rightarrow> False | Some x \<Rightarrow> \<bar>x\<bar> < 2 ^ 1024 - 2 ^ 970)"
| "finite_floats (JList vs) = list_all finite_floats vs"
| "finite_floats (JObj d) = list_all (\<lambda>q. finite_floats (snd q)) d"
| "finite_floats v = True"

definition statement_bytes :: "jobj \<Rightarrow> bytes" where
  "statement_bytes st = utf8 (dumps compact_unicode (sort_json (JObj st)))"

definition create_envelope :: "jobj \<Rightarrow> jobj list \<Rightarrow> jobj result" where
  "create_envelope bundle signatures = bind_ok (create_statement bundle) (\<lambda>st.
     if \<not> finite_floats (JObj st) then Raise (ValueError ''Out of range float values are not JSON compliant'')
     else Ok [(''payload'', JStr (b64encode (statement_bytes st))), (''payloadType'', JStr PAYLOAD_TYPE),
         (''signatures'', JList (map JObj signatures))])"

section \<open>Parsing\<close>

fun sig_entries :: "json list \<Rightarrow> unit result" where
  "sig_entries [] = Ok ()"
| "sig_entries (JObj e # es) = (case dict_get e ''keyid'' of
     Some (JStr k) \<Rightarrow>
       if k = [] then Raise (ValueError ''signature requires a nonempty keyid'')
       else bind_ok (b64d (get_default e ''sig'' JNull)) (\<lambda>s.
         if s = [] then Raise (ValueError ''signature must not be empty'') else sig_entries es)
   | _ \<Rightarrow> Raise (ValueError ''signature requires a nonempty keyid''))"
| "sig_entries (_ # es) = Raise (ValueError ''signature entry must be an object'')"

text \<open>Parsing that refuses duplicate members and numbers that are not finite. A duplicate member
  disappears in the dictionary, so the text has none exactly when the tokens of the value are those
  that were read.\<close>

definition loads_strict :: "str \<Rightarrow> json option" where
  "loads_strict s = (case loads s of
     None \<Rightarrow> None
   | Some v \<Rightarrow> if lex s = Some (toks v) \<and> finite_floats v then Some v else None)"

definition subject_ok :: "json \<Rightarrow> bool" where
  "subject_ok s = (case s of
     JObj d \<Rightarrow> (case (dict_get d ''name'', dict_get d ''digest'') of
       (Some (JStr _), Some (JObj dg)) \<Rightarrow> dg \<noteq> [] \<and> list_all (\<lambda>q. case snd q of JStr _ \<Rightarrow> True | _ \<Rightarrow> False) dg
     | _ \<Rightarrow> False)
   | _ \<Rightarrow> False)"

definition statement_of :: "bytes \<Rightarrow> jobj result" where
  "statement_of pay = (case (case utf8_decode pay of None \<Rightarrow> None | Some s \<Rightarrow> loads_strict s) of
     None \<Rightarrow> Raise (ValueError ''invalid UTF-8 statement JSON'')
   | Some (JObj st) \<Rightarrow>
       if get_default st ''_type'' JNull \<noteq> JStr STATEMENT_TYPE then Raise (ValueError ''unexpected statement type'')
       else if get_default st ''predicateType'' JNull \<noteq> JStr PREDICATE_TYPE then Raise (ValueError ''unexpected predicateType'')
       else (case get_default st ''predicate'' JNull of
               JObj _ \<Rightarrow> (case get_default st ''subject'' JNull of
                 JList subs \<Rightarrow> if list_all subject_ok subs then Ok st else Raise (ValueError ''invalid statement subject'')
               | _ \<Rightarrow> Raise (ValueError ''statement subject must be a list''))
             | _ \<Rightarrow> Raise (ValueError ''statement predicate must be an object''))
   | Some _ \<Rightarrow> Raise (ValueError ''statement must be an object''))"

definition envelope_field :: "jobj \<Rightarrow> str \<Rightarrow> json result" where
  "envelope_field env f = (case dict_get env f of
     None \<Rightarrow> Raise (ValueError (''DSSE envelope missing '' @ [CHR 0x27] @ f @ [CHR 0x27]))
   | Some v \<Rightarrow> Ok v)"

definition parse_envelope_bytes :: "json \<Rightarrow> (jobj \<times> bytes \<times> json list) result" where
  "parse_envelope_bytes envelope = (case envelope of
     JObj env \<Rightarrow>
       bind_ok (envelope_field env ''payload'') (\<lambda>pay64.
       bind_ok (envelope_field env ''payloadType'') (\<lambda>ty.
       bind_ok (envelope_field env ''signatures'') (\<lambda>sigs.
       if ty \<noteq> JStr PAYLOAD_TYPE then Raise (ValueError ''unexpected payloadType'')
       else (case sigs of
         JList es \<Rightarrow>
           bind_ok (sig_entries es) (\<lambda>_.
           bind_ok (b64d pay64) (\<lambda>pay.
           bind_ok (statement_of pay) (\<lambda>st. Ok (st, pay, es))))
       | _ \<Rightarrow> Raise (ValueError ''signatures must be a list'')))))
   | _ \<Rightarrow> Raise (ValueError ''DSSE envelope must be an object''))"

definition parse_envelope :: "json \<Rightarrow> jobj result" where
  "parse_envelope envelope = bind_ok (parse_envelope_bytes envelope) (\<lambda>(st, _, _). Ok st)"

section \<open>Authentication\<close>

datatype PublicKey = KeyObject bytes | KeyBytes bytes | KeyText str

definition key_bytes :: "PublicKey \<Rightarrow> bytes result" where
  "key_bytes k =
     (let raw = (\<lambda>b. if length b = 32 then Ok b else Raise (ValueError ''An Ed25519 public key is 32 bytes long'')) in
      case k of KeyObject b \<Rightarrow> Ok b | KeyBytes b \<Rightarrow> raw b | KeyText s \<Rightarrow> bind_ok (b64d (JStr s)) raw)"

fun trusted_keys :: "(str \<times> PublicKey) list \<Rightarrow> (str, bytes) dict result" where
  "trusted_keys [] = Ok []"
| "trusted_keys ((kid, k) # ks) =
     (if kid = [] then Raise (ValueError ''trusted keyid must be a nonempty string'')
      else bind_ok (key_bytes k) (\<lambda>b. bind_ok (trusted_keys ks) (\<lambda>d. Ok ((kid, b) # d))))"

definition entry_key :: "json \<Rightarrow> str \<times> str" where
  "entry_key e = (case e of JObj d \<Rightarrow>
      (case get_default d ''keyid'' JNull of JStr k \<Rightarrow> k | _ \<Rightarrow> [], case get_default d ''sig'' JNull of JStr s \<Rightarrow> s | _ \<Rightarrow> [])
    | _ \<Rightarrow> ([], []))"

text \<open>The distinct identities that have been verified: key identifiers under a trusted verifier, key
  material under a map of public keys.\<close>

fun verified_ids :: "(bytes \<Rightarrow> str \<Rightarrow> str \<Rightarrow> bool result) \<Rightarrow> bytes \<Rightarrow> json list \<Rightarrow> str set result" where
  "verified_ids f msg [] = Ok {}"
| "verified_ids f msg (e # es) =
     (case f msg (snd (entry_key e)) (fst (entry_key e)) of
        Inl _ \<Rightarrow> Raise (ValueError ''trusted verifier failed'')
      | Inr ok \<Rightarrow> bind_ok (verified_ids f msg es) (\<lambda>s. Ok (if ok then insert (fst (entry_key e)) s else s)))"

fun verified_keys :: "Ed25519 \<Rightarrow> (str, bytes) dict \<Rightarrow> bytes \<Rightarrow> json list \<Rightarrow> bytes set result" where
  "verified_keys cr tk msg [] = Ok {}"
| "verified_keys cr tk msg (e # es) =
     bind_ok (case dict_get tk (fst (entry_key e)) of
                None \<Rightarrow> Ok {}
              | Some pk \<Rightarrow> bind_ok (b64d (JStr (snd (entry_key e)))) (\<lambda>sg. Ok (if vfy cr pk msg sg then {pk} else {}))) (\<lambda>here.
     bind_ok (verified_keys cr tk msg es) (\<lambda>s. Ok (here \<union> s)))"

definition verify_envelope ::
  "Ed25519 \<Rightarrow> json \<Rightarrow> (bytes \<Rightarrow> str \<Rightarrow> str \<Rightarrow> bool result) option \<Rightarrow> (str \<times> PublicKey) list option \<Rightarrow> int \<Rightarrow> jobj result" where
  "verify_envelope cr envelope verifier public_keys threshold =
     (if threshold < 1 then Raise (ValueError ''threshold must be a positive integer'')
      else if (verifier = None) = (public_keys = None) then Raise (ValueError ''provide exactly one trusted verifier or public_keys'')
      else bind_ok (case public_keys of None \<Rightarrow> Ok [] | Some ks \<Rightarrow> trusted_keys ks) (\<lambda>tk.
        bind_ok (parse_envelope_bytes envelope) (\<lambda>(st, pay, es).
        if es = [] then Raise (ValueError ''authentication requires signatures'')
        else let msg = pae PAYLOAD_TYPE pay in
          bind_ok (case verifier of
                     Some f \<Rightarrow> bind_ok (verified_ids f msg es) (\<lambda>s. Ok (card s))
                   | None \<Rightarrow> bind_ok (verified_keys cr tk msg es) (\<lambda>s. Ok (card s))) (\<lambda>n.
          if int n < threshold then Raise (ValueError ''signature authentication threshold not met'') else Ok st))))"

section \<open>Wrapping a bundle directory\<close>

text \<open>The files are a map from paths to texts and joining two paths is an argument.\<close>

definition wrap_bundle ::
  "(str \<Rightarrow> str \<Rightarrow> str) \<Rightarrow> (str \<rightharpoonup> str) \<Rightarrow> str \<Rightarrow> str option \<Rightarrow> jobj list option \<Rightarrow> (str \<times> (str \<rightharpoonup> str)) result" where
  "wrap_bundle joinp files bundle_path output_path signatures =
     (case files (joinp bundle_path ''bundle.json'') of
        None \<Rightarrow> Raise (FileNotFoundError (joinp bundle_path ''bundle.json''))
      | Some s \<Rightarrow> (case loads s of
          None \<Rightarrow> Raise (ValueError ''invalid JSON'')
        | Some v \<Rightarrow> (case signatures of
            None \<Rightarrow> Raise (ValueError ''supply DSSE PAE signatures, or [] for unsigned serialization'')
          | Some sigs \<Rightarrow> (case v of
              JObj bundle \<Rightarrow>
                bind_ok (create_envelope bundle sigs) (\<lambda>envelope.
                let out = (case output_path of None \<Rightarrow> joinp bundle_path ''bundle.dsse.json'' | Some q \<Rightarrow> q) in
                if \<not> finite_floats (JObj envelope) then Raise (ValueError ''Out of range float values are not JSON compliant'')
                else Ok (out, files(out \<mapsto> dumps indent2 (JObj envelope) @ [CHR 0x0A])))
            | _ \<Rightarrow> Raise (AttributeError ''get'')))))"

section \<open>The signed encoding\<close>

lemma sep_unique: "x \<notin> set as \<Longrightarrow> x \<notin> set bs \<Longrightarrow> as @ x # cs = bs @ x # ds \<longleftrightarrow> as = bs \<and> cs = ds"
proof (induction as arbitrary: bs)
  case Nil
  then show ?case by (cases bs) auto
next
  case (Cons a as)
  then show ?case by (cases bs) auto
qed

lemma digit_byte: "is_digit c \<Longrightarrow> utf8_char c = [word_of_nat (of_char c)] \<and> (of_char c :: nat) \<in> {48..57}"
  by (simp add: is_digit_def utf8_char_def Let_def)

lemma space_byte: "utf8 '' '' = [32]"
  by code_simp

lemma space_notin_digits: "(32 :: byte) \<notin> set (utf8 (nat_str n))"
proof
  assume "(32 :: byte) \<in> set (utf8 (nat_str n))"
  then obtain c where c: "c \<in> set (nat_str n)" "(32 :: byte) \<in> set (utf8_char c)" by (auto simp: utf8_def)
  with nat_str_digits have d: "is_digit c" by blast
  with c(2) digit_byte have "(32 :: byte) = word_of_nat (of_char c)" "(of_char c :: nat) \<in> {48..57}" by auto
  then have "unat (32 :: byte) = of_char c" using unat_byte_of_nat [of "of_char c"] by (metis of_char_less)
  with \<open>of_char c \<in> {48..57}\<close> show False by simp
qed

lemma length_field_unique:
  "utf8 (nat_str (length as)) @ 32 # as @ cs = utf8 (nat_str (length bs)) @ 32 # bs @ ds \<longleftrightarrow> as = bs \<and> cs = ds"
  by (auto simp: sep_unique [OF space_notin_digits space_notin_digits])

text \<open>The bytes that are signed determine the type and the payload: no other envelope has them.\<close>

theorem pae_injective: "pae ty pay = pae ty' pay' \<longleftrightarrow> ty = ty' \<and> pay = pay'"
  using length_field_unique [of "utf8 ty" "32 # utf8 (nat_str (length pay)) @ 32 # pay" "utf8 ty'" "32 # utf8 (nat_str (length pay')) @ 32 # pay'"]
    length_field_unique [of pay "[]" pay' "[]"]
  by (simp add: pae_def space_byte Let_def)

section \<open>What authentication establishes\<close>

lemma b64d_encode [simp]: "b64d (JStr (b64encode d)) = Ok d"
  by (simp add: b64d_def)

lemma b64d_Ok: "b64d v = Ok d \<Longrightarrow> v = JStr (b64encode d)"
  by (cases v) (auto simp: b64d_def split: option.splits if_splits)

text \<open>An entry of the list counts for a key.\<close>

definition counts_for :: "Ed25519 \<Rightarrow> (str, bytes) dict \<Rightarrow> bytes \<Rightarrow> json list \<Rightarrow> bytes \<Rightarrow> bool" where
  "counts_for cr tk msg es pk \<longleftrightarrow>
     (\<exists>e \<in> set es. \<exists>sg. dict_get tk (fst (entry_key e)) = Some pk \<and> snd (entry_key e) = b64encode sg \<and> vfy cr pk msg sg)"

lemma verified_keys_exact:
  "verified_keys cr tk msg es = Ok K \<Longrightarrow> finite K \<and> (\<forall>pk. pk \<in> K \<longleftrightarrow> counts_for cr tk msg es pk)"
proof (induction es arbitrary: K)
  case Nil
  then show ?case by (auto simp: counts_for_def)
next
  case (Cons e es)
  from Cons.prems obtain here s where h: "(case dict_get tk (fst (entry_key e)) of None \<Rightarrow> Ok {}
      | Some pk \<Rightarrow> bind_ok (b64d (JStr (snd (entry_key e)))) (\<lambda>sg. Ok (if vfy cr pk msg sg then {pk} else {}))) = Ok here"
    and s: "verified_keys cr tk msg es = Ok s" and K: "K = here \<union> s"
    by (auto simp: bind_ok_Inr)
  from h have "finite here \<and> (\<forall>pk. pk \<in> here \<longleftrightarrow> counts_for cr tk msg [e] pk)"
    by (auto simp: counts_for_def bind_ok_Inr dest!: b64d_Ok split: option.splits if_splits)
  moreover have "counts_for cr tk msg (e # es) pk \<longleftrightarrow> counts_for cr tk msg [e] pk \<or> counts_for cr tk msg es pk" for pk
    by (auto simp: counts_for_def)
  ultimately show ?case using Cons.IH [OF s] K by auto
qed

lemma trusted_keys_get:
  "trusted_keys ks = Ok tk \<Longrightarrow> dict_get tk kid = Some pk \<Longrightarrow> \<exists>k. (kid, k) \<in> set ks \<and> key_bytes k = Ok pk"
  by (induction ks arbitrary: tk rule: trusted_keys.induct) (auto simp: bind_ok_Inr split: if_splits)

lemma parse_envelope_bytes_Ok:
  assumes "parse_envelope_bytes (JObj env) = Ok (st, pay, es)"
  shows "dict_get env ''payload'' = Some (JStr (b64encode pay))" "dict_get env ''signatures'' = Some (JList es)"
    "statement_of pay = Ok st" "sig_entries es = Ok ()"
  using assms
  by (auto simp: parse_envelope_bytes_def envelope_field_def bind_ok_Inr dest!: b64d_Ok split: option.splits if_splits json.splits)

text \<open>C38: When an envelope is accepted under a map of trusted keys, at least the threshold's number of
  distinct trusted keys each have a signature in the list over the encoding of exactly the payload
  in the envelope, and the statement that is returned is what that payload reads as.\<close>

theorem envelope_threshold:
  assumes "verify_envelope cr (JObj env) None (Some ks) threshold = Ok st"
  shows "\<exists>pay es K. dict_get env ''payload'' = Some (JStr (b64encode pay)) \<and> dict_get env ''signatures'' = Some (JList es) \<and>
    statement_of pay = Ok st \<and> 1 \<le> threshold \<and> threshold \<le> int (card K) \<and> finite K \<and>
    (\<forall>pk \<in> K. \<exists>kid k e sg. (kid, k) \<in> set ks \<and> key_bytes k = Ok pk \<and> e \<in> set es \<and> entry_key e = (kid, b64encode sg) \<and>
       vfy cr pk (pae PAYLOAD_TYPE pay) sg)"
proof -
  from assms obtain tk pay es K where tk: "trusted_keys ks = Ok tk" and p: "parse_envelope_bytes (JObj env) = Ok (st, pay, es)"
    and K: "verified_keys cr tk (pae PAYLOAD_TYPE pay) es = Ok K" and n: "1 \<le> threshold" "threshold \<le> int (card K)"
    by (auto simp: verify_envelope_def bind_ok_Inr Let_def split: if_splits)
  note x = verified_keys_exact [OF K]
  have "\<exists>kid k e sg. (kid, k) \<in> set ks \<and> key_bytes k = Ok pk \<and> e \<in> set es \<and> entry_key e = (kid, b64encode sg) \<and>
      vfy cr pk (pae PAYLOAD_TYPE pay) sg" if pk: "pk \<in> K" for pk
  proof -
    from pk x have "counts_for cr tk (pae PAYLOAD_TYPE pay) es pk" by blast
    then obtain e sg where e: "e \<in> set es" "dict_get tk (fst (entry_key e)) = Some pk" "snd (entry_key e) = b64encode sg"
      "vfy cr pk (pae PAYLOAD_TYPE pay) sg" by (auto simp: counts_for_def)
    from trusted_keys_get [OF tk e(2)] obtain k where k: "(fst (entry_key e), k) \<in> set ks" "key_bytes k = Ok pk" by blast
    show ?thesis using e k by (metis prod.collapse)
  qed
  with x n parse_envelope_bytes_Ok(1-3) [OF p] show ?thesis by blast
qed

section \<open>Wrapping and unwrapping\<close>

definition sort_dict :: "jobj \<Rightarrow> jobj" where
  "sort_dict d = sort_key fst (map (\<lambda>q. (fst q, sort_json (snd q))) d)"

lemma sort_json_dict: "sort_json (JObj d) = JObj (sort_dict d)"
  by (simp add: sort_dict_def)

lemma set_sort_dict: "set (sort_dict d) = (\<lambda>q. (fst q, sort_json (snd q))) ` set d"
  by (simp add: sort_dict_def)

lemma sort_dict_get:
  assumes "distinct (dict_keys d)"
  shows "dict_get (sort_dict d) k = map_option sort_json (dict_get d k)"
proof -
  have "distinct (dict_keys (map (\<lambda>q. (fst q, sort_json (snd q))) d))" using assms by (simp add: comp_def)
  moreover from this have "distinct (dict_keys (sort_dict d))"
    by (simp add: sort_dict_def distinct_map) (auto simp: distinct_map inj_on_def)
  ultimately have "dict_get (sort_dict d) k = dict_get (map (\<lambda>q. (fst q, sort_json (snd q))) d) k"
    by (intro dict_get_same_set) (auto simp: set_sort_dict)
  then show ?thesis by (simp add: dict_get_map)
qed

lemma sort_json_idem: "sort_json (sort_json v) = sort_json v"
proof (induction v rule: sort_json.induct)
  case (2 kvs)
  let ?s = "sort_key fst (map (\<lambda>q. (fst q, sort_json (snd q))) kvs)"
  have "map (\<lambda>q. (fst q, sort_json (snd q))) ?s = ?s"
    using 2 by (intro map_idI) auto
  moreover have "sort_key fst ?s = ?s" by (intro sort_key_id_if_sorted) simp
  ultimately show ?case by simp
qed auto

lemma finite_floats_sort [simp]: "finite_floats (sort_json v) = finite_floats v"
  by (induction v rule: sort_json.induct) (auto simp: list_all_iff)

lemma loads_strict_sorted:
  "json_wf v \<Longrightarrow> finite_floats v \<Longrightarrow> loads_strict (dumps compact_unicode (sort_json v)) = Some (sort_json v)"
  by (simp add: loads_strict_def loads_dumps lex_dumps)

lemma subject_of_sort: "sort_json (subject_of (JStr n) (JStr s)) = JObj [(''digest'', JObj [(''sha256'', JStr s)]), (''name'', JStr n)]"
  by (simp add: subject_of_def)

definition subjects_ok :: "jobj \<Rightarrow> bool" where
  "subjects_ok st = (case get_default st ''subject'' JNull of JList subs \<Rightarrow> list_all subject_ok subs | _ \<Rightarrow> False)"

lemma subject_of_ok: "subject_ok (subject_of n s) \<Longrightarrow> \<exists>n' s'. n = JStr n' \<and> s = JStr s'"
  by (auto simp: subject_ok_def subject_of_def split: json.splits)

lemma create_statement_Ok:
  assumes "create_statement bundle = Ok st" "subjects_ok st"
  obtains subs where "st = [(''_type'', JStr STATEMENT_TYPE), (''subject'', JList (map (\<lambda>(n, s). subject_of (JStr n) (JStr s)) subs)),
    (''predicateType'', JStr PREDICATE_TYPE), (''predicate'', JObj bundle)]"
proof -
  from assms(1) obtain a b c d where st: "st = [(''_type'', JStr STATEMENT_TYPE),
      (''subject'', JList ((if json_truthy a then [subject_of b a] else []) @ (if json_truthy c then [subject_of d c] else []))),
      (''predicateType'', JStr PREDICATE_TYPE), (''predicate'', JObj bundle)]"
    by (auto simp: create_statement_def bind_ok_Inr)
  let ?subs = "(if json_truthy a then [subject_of b a] else []) @ (if json_truthy c then [subject_of d c] else [])"
  have "list_all subject_ok ?subs" using assms(2) st by (simp add: subjects_ok_def get_default_def)
  then have "\<exists>l. ?subs = map (\<lambda>(n, s). subject_of (JStr n) (JStr s)) l"
    unfolding ex_map_conv by (auto simp: list_all_iff dest!: subject_of_ok split: if_splits) (rule exI, rule exI, rule refl)+
  then show ?thesis using st that by metis
qed

text \<open>The statement survives sorting, printing, encoding and strict parsing.\<close>

lemma statement_of_bytes:
  assumes "create_statement bundle = Ok st" "subjects_ok st" "obj_wf bundle" "finite_floats (JObj bundle)"
  shows "finite_floats (JObj st)" "statement_of (statement_bytes st) = Ok (sort_dict st)"
    "dict_get (sort_dict st) ''predicate'' = Some (sort_json (JObj bundle))"
proof -
  from create_statement_Ok [OF assms(1,2)] obtain subs where st: "st = [(''_type'', JStr STATEMENT_TYPE),
      (''subject'', JList (map (\<lambda>(n, s). subject_of (JStr n) (JStr s)) subs)),
      (''predicateType'', JStr PREDICATE_TYPE), (''predicate'', JObj bundle)]" .
  have w: "json_wf (JObj st)" using assms(3) by (auto simp: st obj_wf_def list_all_iff subject_of_def)
  show f: "finite_floats (JObj st)" using assms(4) by (auto simp: st list_all_iff subject_of_def)
  have g: "dict_get (sort_dict st) k = map_option sort_json (dict_get st k)" for k
    by (rule sort_dict_get) (simp add: st)
  show "dict_get (sort_dict st) ''predicate'' = Some (sort_json (JObj bundle))" unfolding g by (simp add: st)
  have "list_all (\<lambda>x. subject_ok (sort_json x)) (map (\<lambda>(n, s). subject_of (JStr n) (JStr s)) subs)"
    by (auto simp: list_all_iff subject_of_sort subject_ok_def)
  moreover have "loads_strict (dumps compact_unicode (JObj (sort_dict st))) = Some (JObj (sort_dict st))"
    using loads_strict_sorted [OF w f] by (simp only: sort_json_dict)
  moreover have "dict_get (sort_dict st) ''_type'' = Some (JStr STATEMENT_TYPE)"
    "dict_get (sort_dict st) ''predicateType'' = Some (JStr PREDICATE_TYPE)"
    "dict_get (sort_dict st) ''predicate'' = Some (JObj (sort_dict bundle))"
    "dict_get (sort_dict st) ''subject'' = Some (JList (map sort_json (map (\<lambda>(n, s). subject_of (JStr n) (JStr s)) subs)))"
    unfolding g sort_json_dict [symmetric] by (simp_all add: st)
  ultimately show "statement_of (statement_bytes st) = Ok (sort_dict st)"
    by (simp add: statement_of_def statement_bytes_def sort_json_dict get_default_def list.pred_map comp_def del: sort_json.simps map_map list.map_comp)
qed

section \<open>Signed envelopes\<close>

text \<open>What a signer contributes: a signature under its key identifier over the encoded payload.\<close>

definition signature_entry :: "Ed25519 \<Rightarrow> bytes \<Rightarrow> str \<times> bytes \<Rightarrow> jobj" where
  "signature_entry cr msg = (\<lambda>(kid, seed). [(''sig'', JStr (b64encode (sgn cr seed msg))), (''keyid'', JStr kid)])"

definition signer_key :: "Ed25519 \<Rightarrow> str \<times> bytes \<Rightarrow> str \<times> PublicKey" where
  "signer_key cr = (\<lambda>(kid, seed). (kid, KeyObject (pub cr seed)))"

definition good_signer :: "Ed25519 \<Rightarrow> bytes \<Rightarrow> str \<times> bytes \<Rightarrow> bool" where
  "good_signer cr msg = (\<lambda>(kid, seed). kid \<noteq> [] \<and> sgn cr seed msg \<noteq> [] \<and> vfy cr (pub cr seed) msg (sgn cr seed msg))"

lemma trusted_signers:
  "list_all (good_signer cr msg) ss \<Longrightarrow> trusted_keys (map (signer_key cr) ss) = Ok (map (\<lambda>(kid, seed). (kid, pub cr seed)) ss)"
  by (induction ss) (auto simp: signer_key_def good_signer_def key_bytes_def Let_def)

lemma sig_entries_signers: "list_all (good_signer cr msg) ss \<Longrightarrow> sig_entries (map (\<lambda>s. JObj (signature_entry cr msg s)) ss) = Ok ()"
  by (induction ss) (auto simp: signature_entry_def good_signer_def get_default_def)

lemma entry_key_signer [simp]: "entry_key (JObj (signature_entry cr msg (kid, seed))) = (kid, b64encode (sgn cr seed msg))"
  by (simp add: entry_key_def signature_entry_def get_default_def)

lemma verified_signers:
  assumes "list_all (good_signer cr msg) ss" "\<And>kid seed. (kid, seed) \<in> set ss \<Longrightarrow> dict_get tk kid = Some (pub cr seed)"
  shows "verified_keys cr tk msg (map (\<lambda>s. JObj (signature_entry cr msg s)) ss) = Ok ((\<lambda>s. pub cr (snd s)) ` set ss)"
  using assms
proof (induction ss)
  case (Cons s ss)
  obtain kid seed where s: "s = (kid, seed)" by (cases s)
  with Cons.prems(1) have v: "vfy cr (pub cr seed) msg (sgn cr seed msg)" by (simp add: good_signer_def)
  have k: "dict_get tk kid = Some (pub cr seed)" using Cons.prems(2) [of kid seed] s by simp
  have i: "verified_keys cr tk msg (map (\<lambda>s. JObj (signature_entry cr msg s)) ss) = Ok ((\<lambda>s. pub cr (snd s)) ` set ss)"
    using Cons by simp
  show ?case using v k s i by simp
qed simp

lemma signed_envelope_verifies:
  assumes "create_statement bundle = Ok st" "subjects_ok st" "obj_wf bundle" "finite_floats (JObj bundle)"
    and "msg = pae PAYLOAD_TYPE (statement_bytes st)"
    and "list_all (good_signer cr msg) signers" "distinct (map fst signers)"
    and "1 \<le> threshold" "threshold \<le> int (card ((\<lambda>s. pub cr (snd s)) ` set signers))"
  shows "\<exists>env st'. create_envelope bundle (map (signature_entry cr msg) signers) = Ok env \<and>
    verify_envelope cr (JObj env) None (Some (map (signer_key cr) signers)) threshold = Ok st' \<and>
    json_eq (JObj st') (JObj st) \<and> dict_get st' ''predicate'' = Some (sort_json (JObj bundle))"
proof -
  let ?es = "map (\<lambda>s. JObj (signature_entry cr msg s)) signers"
  let ?env = "[(''payload'', JStr (b64encode (statement_bytes st))), (''payloadType'', JStr PAYLOAD_TYPE), (''signatures'', JList ?es)]"
  let ?tk = "map (\<lambda>(kid, seed). (kid, pub cr seed)) signers"
  note s = statement_of_bytes [OF assms(1-4)]
  have c: "create_envelope bundle (map (signature_entry cr msg) signers) = Ok ?env"
    by (simp add: create_envelope_def assms(1) s(1) comp_def del: finite_floats.simps)
  have p: "parse_envelope_bytes (JObj ?env) = Ok (sort_dict st, statement_bytes st, ?es)"
    by (simp add: parse_envelope_bytes_def envelope_field_def sig_entries_signers [OF assms(6)] s(2))
  have "dict_get ?tk kid = Some (pub cr seed)" if "(kid, seed) \<in> set signers" for kid seed
    using assms(7) that by (intro dict_get_in) (auto simp: comp_def case_prod_beta image_iff intro!: bexI [of _ "(kid, seed)"])
  then have k: "verified_keys cr ?tk msg ?es = Ok ((\<lambda>s. pub cr (snd s)) ` set signers)"
    by (rule verified_signers [OF assms(6)])
  have "signers \<noteq> []" using assms(8,9) by auto
  then have "verify_envelope cr (JObj ?env) None (Some (map (signer_key cr) signers)) threshold = Ok (sort_dict st)"
    using assms(8,9) k unfolding verify_envelope_def trusted_signers [OF assms(6)] p by (simp add: trusted_signers [OF assms(6)] p assms(5) [symmetric])
  moreover have "json_eq (JObj (sort_dict st)) (JObj st)"
    unfolding json_eq_def sort_json_dict [symmetric] by (rule sort_json_idem)
  ultimately show ?thesis using c s(3) by (intro exI [of _ ?env] exI [of _ "sort_dict st"] conjI)
qed

text \<open>C39: an envelope created for a bundle and signed by good signers authenticates, for every threshold
  up to the number of their distinct keys, and its statement carries the bundle.\<close>

theorem signed_envelope_authenticates:
  assumes "create_statement bundle = Ok st" "subjects_ok st" "obj_wf bundle" "finite_floats (JObj bundle)"
    and "msg = pae PAYLOAD_TYPE (statement_bytes st)"
    and "list_all (good_signer cr msg) signers" "distinct (map fst signers)"
    and "1 \<le> threshold" "threshold \<le> int (card ((\<lambda>s. pub cr (snd s)) ` set signers))"
  shows "\<exists>env st'. create_envelope bundle (map (signature_entry cr msg) signers) = Ok env \<and>
    verify_envelope cr (JObj env) None (Some (map (signer_key cr) signers)) threshold = Ok st' \<and>
    json_eq (JObj st') (JObj st) \<and> dict_get st' ''predicate'' = Some (sort_json (JObj bundle))"
  using assms by (rule signed_envelope_verifies)

definition sample_bundle :: jobj where
  "sample_bundle = [(''proposal'', JObj [(''output'', JStr ''o''), (''source'', JStr ''s''), (''source_sha256'', JStr ''ab'')]),
     (''events'', JList [JObj [(''event_type'', JStr ''ARTIFACT_READBACK''), (''payload'', JObj [(''output_sha256'', JStr ''cd'')])]])]"

definition sample_statement :: jobj where
  "sample_statement = [(''_type'', JStr STATEMENT_TYPE),
     (''subject'', JList [subject_of (JStr ''o'') (JStr ''cd''), subject_of (JStr ''s'') (JStr ''ab'')]),
     (''predicateType'', JStr PREDICATE_TYPE), (''predicate'', JObj sample_bundle)]"

definition sample_message :: bytes where
  "sample_message = pae PAYLOAD_TYPE (statement_bytes sample_statement)"

definition sample_signers :: "(str \<times> bytes) list" where
  "sample_signers = [(''a'', [1]), (''b'', [2])]"

lemma sample_facts:
  "create_statement sample_bundle = Ok sample_statement" "subjects_ok sample_statement" "obj_wf sample_bundle"
  "finite_floats (JObj sample_bundle)" "list_all (good_signer echo_scheme m) sample_signers" "distinct (map fst sample_signers)"
  "card ((\<lambda>s. pub echo_scheme (snd s)) ` set sample_signers) = 2"
proof -
  show "create_statement sample_bundle = Ok sample_statement" by code_simp
  show "subjects_ok sample_statement" by code_simp
  show "obj_wf sample_bundle" by code_simp
  show "finite_floats (JObj sample_bundle)" by (simp add: sample_bundle_def)
  show "list_all (good_signer echo_scheme m) sample_signers" by (simp add: good_signer_def echo_scheme_def sample_signers_def)
  show "distinct (map fst sample_signers)" by code_simp
  show "card ((\<lambda>s. pub echo_scheme (snd s)) ` set sample_signers) = 2" by (simp add: echo_scheme_def sample_signers_def)
qed

theorem signed_envelope_authenticates_witness:
  "\<exists>env st'. create_envelope sample_bundle (map (signature_entry echo_scheme sample_message) sample_signers) = Ok env \<and>
    verify_envelope echo_scheme (JObj env) None (Some (map (signer_key echo_scheme) sample_signers)) 2 = Ok st' \<and>
    json_eq (JObj st') (JObj sample_statement) \<and> dict_get st' ''predicate'' = Some (sort_json (JObj sample_bundle))"
  by (rule signed_envelope_authenticates [OF sample_facts(1-4) sample_message_def sample_facts(5,6)]) (simp_all add: sample_facts(7))

theorem envelope_threshold_witness:
  "\<exists>env st pay (K :: bytes set). verify_envelope echo_scheme (JObj env) None (Some (map (signer_key echo_scheme) sample_signers)) 2 = Ok st \<and>
    dict_get env ''payload'' = Some (JStr (b64encode pay)) \<and> statement_of pay = Ok st \<and> 2 \<le> int (card K)"
proof -
  have "\<exists>env st'. create_envelope sample_bundle (map (signature_entry echo_scheme sample_message) sample_signers) = Ok env \<and>
      verify_envelope echo_scheme (JObj env) None (Some (map (signer_key echo_scheme) sample_signers)) 2 = Ok st' \<and>
      json_eq (JObj st') (JObj sample_statement) \<and> dict_get st' ''predicate'' = Some (sort_json (JObj sample_bundle))"
    by (rule signed_envelope_verifies [OF sample_facts(1-4) sample_message_def sample_facts(5,6)]) (simp_all add: sample_facts(7))
  then obtain env st where v: "verify_envelope echo_scheme (JObj env) None (Some (map (signer_key echo_scheme) sample_signers)) 2 = Ok st"
    by blast
  from envelope_threshold [OF v] obtain pay and K :: "bytes set" where "dict_get env ''payload'' = Some (JStr (b64encode pay))"
    "statement_of pay = Ok st" "2 \<le> int (card K)" by (elim exE conjE) (rule that)
  then show ?thesis using v by (intro exI conjI)
qed

end
