(* ===== verification/TrustPolicy.thy ===== *)
theory TrustPolicy
  imports LegalTransaction
begin

text \<open>
  \<^verbatim>\<open>kairo/legal_v3/trust_policy.py\<close>: loading a trust policy and the checks against it. A policy is a JSON
  object; the file it is read from is an optional text, absent when the path does not exist. A check
  returns the error Python raises when an entry of the policy has a type it cannot use. Writing the
  default policy is I/O. The lemmas: a policy that was loaded has the profile and a list of clauses,
  the checks on it that read a defaulted entry never fail for want of it, and the default policy
  decides exactly what the governed transaction enforces.
\<close>

section \<open>Loading\<close>

definition DEFAULT_POLICY :: jobj where
  "DEFAULT_POLICY =
     [(''profile'', JStr ''kairo-legal-v3''),
      (''allowed_clauses'', JList (map JStr [''governing_law'', ''liability_cap'', ''termination_notice'', ''confidentiality_survival'', ''indemnification_cap''])),
      (''trusted_key_ids'', JNull), (''approval_ttl_seconds'', JInt 600), (''reject_observer_collision'', JBool True),
      (''max_source_bytes'', JInt 26214400)]"

text \<open>\<^verbatim>\<open>key in data\<close> for the values \<^verbatim>\<open>json.loads\<close> returns.\<close>

definition json_has :: "json \<Rightarrow> str \<Rightarrow> bool result" where
  "json_has v k = (case v of
     JObj d \<Rightarrow> Ok (dict_get d k \<noteq> None)
   | JStr s \<Rightarrow> Ok (str_in k s)
   | JList vs \<Rightarrow> Ok (JStr k \<in> set vs)
   | _ \<Rightarrow> Raise (TypeError ''not iterable''))"

fun fill_defaults :: "jobj \<Rightarrow> jobj \<Rightarrow> jobj" where
  "fill_defaults [] d = d"
| "fill_defaults ((k, v) # ds) d = fill_defaults ds (if dict_get d k = None then d @ [(k, v)] else d)"

definition policy_fields :: "json \<Rightarrow> jobj result" where
  "policy_fields v = bind_ok (json_has v ''profile'') (\<lambda>has.
     if \<not> has then Raise (TrustPolicyError ''trust policy missing profile field'')
     else (case v of
       JObj d \<Rightarrow>
         if get_default d ''profile'' JNull \<noteq> JStr ''kairo-legal-v3'' then Raise (TrustPolicyError ''trust policy profile mismatch'')
         else (case dict_get d ''allowed_clauses'' of
           None \<Rightarrow> Raise (TrustPolicyError ''trust policy missing allowed_clauses field'')
         | Some (JList _) \<Rightarrow> Ok (fill_defaults DEFAULT_POLICY d)
         | Some _ \<Rightarrow> Raise (TrustPolicyError ''allowed_clauses must be a list''))
     | _ \<Rightarrow> Raise (TypeError ''indices must be integers'')))"

definition load_policy :: "(str \<rightharpoonup> str) \<Rightarrow> str option \<Rightarrow> jobj result" where
  "load_policy files path = (case path of
     None \<Rightarrow> Ok DEFAULT_POLICY
   | Some p \<Rightarrow> (case files p of
       None \<Rightarrow> Raise (TrustPolicyError (''trust policy file not found: '' @ p))
     | Some s \<Rightarrow> (case loads s of
         None \<Rightarrow> Raise (TrustPolicyError ''invalid JSON in trust policy'')
       | Some v \<Rightarrow> policy_fields v)))"

section \<open>Checks\<close>

definition check_clause :: "jobj \<Rightarrow> str \<Rightarrow> bool result" where
  "check_clause policy clause = (case dict_get policy ''allowed_clauses'' of
     None \<Rightarrow> Raise (KeyError ''allowed_clauses'')
   | Some v \<Rightarrow> json_has v clause)"

definition check_key_trust :: "jobj \<Rightarrow> str \<Rightarrow> bool result" where
  "check_key_trust policy key_id = (case get_default policy ''trusted_key_ids'' JNull of
     JNull \<Rightarrow> Ok True
   | v \<Rightarrow> json_has v key_id)"

text \<open>\<^verbatim>\<open>x <= limit\<close> for an integer and a value of the policy.\<close>

definition int_le_json :: "int \<Rightarrow> json \<Rightarrow> bool result" where
  "int_le_json x v = (case num_val v of
     None \<Rightarrow> Raise (TypeError ''<= not supported'')
   | Some r \<Rightarrow> Ok (real_of_int x \<le> r))"

definition check_approval_ttl :: "jobj \<Rightarrow> int \<Rightarrow> int \<Rightarrow> bool result" where
  "check_approval_ttl policy issued_at approved_at =
     int_le_json (approved_at - issued_at) (get_default policy ''approval_ttl_seconds'' (JInt 600))"

definition check_observer_collision :: "jobj \<Rightarrow> str \<Rightarrow> str list \<Rightarrow> bool" where
  "check_observer_collision policy observer_key_id other_key_ids =
     (if \<not> json_truthy (get_default policy ''reject_observer_collision'' (JBool True)) then True
      else observer_key_id \<notin> set other_key_ids)"

definition check_source_size :: "jobj \<Rightarrow> int \<Rightarrow> bool result" where
  "check_source_size policy size_bytes = int_le_json size_bytes (get_default policy ''max_source_bytes'' (JInt 26214400))"

section \<open>Loaded policies\<close>

lemma default_fields:
  "dict_get DEFAULT_POLICY ''profile'' = Some (JStr ''kairo-legal-v3'')"
  "dict_get DEFAULT_POLICY ''allowed_clauses'' = Some (JList (map JStr ALLOWED_CLAUSES))"
  "dict_get DEFAULT_POLICY ''max_source_bytes'' = Some (JInt 26214400)"
  by (simp_all add: DEFAULT_POLICY_def ALLOWED_CLAUSES_def)

lemma fill_defaults_get:
  "dict_get (fill_defaults ds d) k = (case dict_get d k of None \<Rightarrow> dict_get ds k | Some v \<Rightarrow> Some v)"
proof (induction ds d rule: fill_defaults.induct)
  case (2 k' v ds d)
  have "dict_get (d @ [(k', v)]) k = (case dict_get d k of None \<Rightarrow> if k' = k then Some v else None | Some w \<Rightarrow> Some w)"
    by (induction d) (auto split: option.splits)
  then show ?case using 2 by (auto split: option.splits)
qed (simp split: option.splits)

lemma policy_fields_Ok:
  assumes "policy_fields v = Ok pol"
  obtains d cs where "v = JObj d" "pol = fill_defaults DEFAULT_POLICY d"
    "dict_get d ''profile'' = Some (JStr ''kairo-legal-v3'')" "dict_get d ''allowed_clauses'' = Some (JList cs)"
proof -
  from assms obtain d where d: "v = JObj d"
    by (cases v) (auto simp: policy_fields_def bind_ok_Inr split: if_splits)
  with assms have p: "dict_get d ''profile'' = Some (JStr ''kairo-legal-v3'')"
    and c: "(case dict_get d ''allowed_clauses'' of
           None \<Rightarrow> Raise (TrustPolicyError ''trust policy missing allowed_clauses field'')
         | Some (JList _) \<Rightarrow> Ok (fill_defaults DEFAULT_POLICY d)
         | Some _ \<Rightarrow> Raise (TrustPolicyError ''allowed_clauses must be a list'')) = Ok pol"
    by (simp_all add: policy_fields_def bind_ok_Inr get_default_JStr split: if_splits)
  from c obtain cs where "dict_get d ''allowed_clauses'' = Some (JList cs)"
    by (cases "dict_get d ''allowed_clauses''", simp) (rename_tac w, case_tac w, simp_all)
  with that d p c show ?thesis by simp
qed

lemma load_policy_cases:
  assumes "load_policy files path = Ok pol"
  obtains "path = None" "pol = DEFAULT_POLICY"
  | p s d cs where "path = Some p" "files p = Some s" "loads s = Some (JObj d)" "pol = fill_defaults DEFAULT_POLICY d"
      "dict_get d ''profile'' = Some (JStr ''kairo-legal-v3'')" "dict_get d ''allowed_clauses'' = Some (JList cs)"
proof (cases path)
  case None
  then show ?thesis using assms that(1) by (simp add: load_policy_def)
next
  case (Some p)
  with assms obtain s where s: "files p = Some s" by (cases "files p") (simp_all add: load_policy_def)
  with Some assms obtain v where v: "loads s = Some v" "policy_fields v = Ok pol"
    by (cases "loads s") (simp_all add: load_policy_def)
  from v(2) show ?thesis by (rule policy_fields_Ok) (rule that(2) [OF Some s], use v in simp_all)
qed

text \<open>C40: A loaded policy is well formed: it has the profile of the legal transaction, its
  \<open>allowed_clauses\<close> is a list, every entry of the default policy is present, and where the policy was
  read from a file the entries of the file win over the defaults. So the check of a clause always
  gives an answer.\<close>

theorem loaded_policy_wf:
  assumes "load_policy files path = Ok pol"
  shows "dict_get pol ''profile'' = Some (JStr ''kairo-legal-v3'') \<and> (\<exists>cs. dict_get pol ''allowed_clauses'' = Some (JList cs)) \<and>
    (\<forall>k v. dict_get DEFAULT_POLICY k = Some v \<longrightarrow> dict_get pol k \<noteq> None) \<and>
    (\<forall>p s d k v. path = Some p \<longrightarrow> files p = Some s \<longrightarrow> loads s = Some (JObj d) \<longrightarrow> dict_get d k = Some v \<longrightarrow> dict_get pol k = Some v) \<and>
    is_ok (check_clause pol clause)"
proof (intro conjI)
  from assms show "dict_get pol ''profile'' = Some (JStr ''kairo-legal-v3'')"
    by (rule load_policy_cases) (simp_all add: fill_defaults_get default_fields)
  from assms show c: "\<exists>cs. dict_get pol ''allowed_clauses'' = Some (JList cs)"
    by (rule load_policy_cases) (simp_all add: fill_defaults_get default_fields)
  from assms show "\<forall>k v. dict_get DEFAULT_POLICY k = Some v \<longrightarrow> dict_get pol k \<noteq> None"
    by (rule load_policy_cases) (auto simp: fill_defaults_get split: option.splits)
  from assms show "\<forall>p s d k v. path = Some p \<longrightarrow> files p = Some s \<longrightarrow> loads s = Some (JObj d) \<longrightarrow> dict_get d k = Some v \<longrightarrow> dict_get pol k = Some v"
    by (rule load_policy_cases) (auto simp: fill_defaults_get split: option.splits)
  from c show "is_ok (check_clause pol clause)" by (auto simp: check_clause_def json_has_def)
qed

theorem loaded_policy_wf_witness:
  "\<exists>pol. load_policy [''p'' \<mapsto> dumps compact_unicode (JObj [(''profile'', JStr ''kairo-legal-v3''), (''allowed_clauses'', JList [])])] (Some ''p'') = Ok pol \<and>
     is_ok (check_clause pol ''x'') \<and> dict_get pol ''allowed_clauses'' = Some (JList [])"
proof -
  let ?d = "[(''profile'', JStr ''kairo-legal-v3''), (''allowed_clauses'', JList [])]"
  let ?f = "[''p'' \<mapsto> dumps compact_unicode (JObj ?d)]"
  have l: "loads (dumps compact_unicode (JObj ?d)) = Some (JObj ?d)" by (rule loads_dumps) simp_all
  then have p: "load_policy ?f (Some ''p'') = Ok (fill_defaults DEFAULT_POLICY ?d)"
    by (simp add: load_policy_def policy_fields_def json_has_def get_default_def del: fill_defaults.simps)
  from loaded_policy_wf [OF p, of "''x''"] l show ?thesis
    by (intro exI [of _ "fill_defaults DEFAULT_POLICY ?d"]) (simp add: p)
qed

section \<open>The default policy and the transaction\<close>

lemma allowed_clauses_members:
  "allowed_clauses cs = Ok () \<Longrightarrow> c \<in> set cs \<Longrightarrow> \<exists>d cid. c = JObj d \<and> dict_get d ''clause_id'' = Some (JStr cid) \<and> cid \<in> set ALLOWED_CLAUSES"
  by (induction cs rule: allowed_clauses.induct)
     (auto simp: Let_def bind_ok_Inr get_default_def split: if_splits option.splits)

lemma default_policy_clauses: "check_clause DEFAULT_POLICY cid = Ok (cid \<in> set ALLOWED_CLAUSES)"
  by (auto simp: check_clause_def default_fields json_has_def)

text \<open>The default policy decides what the transaction enforces with its own constants: a source
  passes the size check exactly when the transaction reads it, every clause of a playbook the
  transaction takes passes the clause check, and an observer that the transaction accepts passes the
  collision check against the producer and the approver.\<close>

theorem default_policy_enforced:
  assumes "load_policy files None = Ok pol"
  shows "check_source_size pol (int (length b)) = Ok (is_ok (read_node (Some (Regular b)))) \<and>
    (allowed_playbook pb = Ok () \<longrightarrow> dict_get pb ''clauses'' = Some (JList cs) \<longrightarrow> c \<in> set cs \<longrightarrow>
      (\<exists>d cid. c = JObj d \<and> dict_get d ''clause_id'' = Some (JStr cid) \<and> check_clause pol cid = Ok True)) \<and>
    (observer_independent proposal approval okey \<longrightarrow> dict_get okey ''key_id'' = Some oid \<longrightarrow>
      dict_get proposal ''producer_key_id'' = Some (JStr pid) \<longrightarrow> dict_get approval ''principal'' = Some (JStr aid) \<longrightarrow>
      check_observer_collision pol oid [pid, aid])"
proof (intro conjI impI)
  have pol: "pol = DEFAULT_POLICY" using assms by (simp add: load_policy_def)
  have "real_of_int (int (length b)) \<le> 26214400 \<longleftrightarrow> length b \<le> 25 * 1024 * 1024"
    using of_nat_le_iff [of "length b" "25 * 1024 * 1024", where ?'a = real] by simp
  then show "check_source_size pol (int (length b)) = Ok (is_ok (read_node (Some (Regular b))))"
    by (simp add: pol check_source_size_def get_default_def default_fields int_le_json_def num_val_def read_node_def MAX_BYTES_def)
  show "\<exists>d cid. c = JObj d \<and> dict_get d ''clause_id'' = Some (JStr cid) \<and> check_clause pol cid = Ok True"
    if "allowed_playbook pb = Ok ()" "dict_get pb ''clauses'' = Some (JList cs)" "c \<in> set cs"
  proof -
    have "allowed_clauses cs = Ok ()" using that by (auto simp: allowed_playbook_def split: if_splits)
    from allowed_clauses_members [OF this that(3)] show ?thesis by (auto simp: pol default_policy_clauses)
  qed
  show "check_observer_collision pol oid [pid, aid]"
    if "observer_independent proposal approval okey" "dict_get okey ''key_id'' = Some oid"
      "dict_get proposal ''producer_key_id'' = Some (JStr pid)" "dict_get approval ''principal'' = Some (JStr aid)"
    using that by (simp add: check_observer_collision_def observer_independent_def get_default_def Let_def)
qed

theorem default_policy_enforced_witness:
  "check_source_size DEFAULT_POLICY (int (length [7 :: byte])) = Ok (is_ok (read_node (Some (Regular [7])))) \<and>
   check_observer_collision DEFAULT_POLICY ''o'' [''p'', ''a''] \<and>
   (\<exists>d cid. JObj [(''clause_id'', JStr ''governing_law''), (''match_text'', JStr ''m''), (''replacement_text'', JStr ''r''),
        (''citation'', JStr ''c''), (''rationale'', JStr ''w'')] = JObj d \<and>
      dict_get d ''clause_id'' = Some (JStr cid) \<and> check_clause DEFAULT_POLICY cid = Ok True)"
proof -
  let ?c = "JObj [(''clause_id'', JStr ''governing_law''), (''match_text'', JStr ''m''), (''replacement_text'', JStr ''r''),
        (''citation'', JStr ''c''), (''rationale'', JStr ''w'')]"
  have l: "load_policy Map.empty None = Ok DEFAULT_POLICY" by (simp add: load_policy_def)
  have a: "allowed_playbook [(''clauses'', JList [?c])] = Ok ()" "dict_get [(''clauses'', JList [?c])] ''clauses'' = Some (JList [?c])"
    by code_simp+
  have ob: "observer_independent [(''producer_key_id'', JStr ''p'')] [(''principal'', JStr ''a'')] [(''role'', ''observer''), (''key_id'', ''o'')]"
    by code_simp
  note e = default_policy_enforced [OF l, of "[7]" "[(''clauses'', JList [?c])]" "[?c]" ?c
      "[(''producer_key_id'', JStr ''p'')]" "[(''principal'', JStr ''a'')]" "[(''role'', ''observer''), (''key_id'', ''o'')]" "''o''" "''p''" "''a''"]
  from e have "check_source_size DEFAULT_POLICY (int (length [7 :: byte])) = Ok (is_ok (read_node (Some (Regular [7]))))" by (rule conjunct1)
  moreover from e a have "\<exists>d cid. ?c = JObj d \<and> dict_get d ''clause_id'' = Some (JStr cid) \<and> check_clause DEFAULT_POLICY cid = Ok True"
    by simp
  moreover from e ob have "check_observer_collision DEFAULT_POLICY ''o'' [''p'', ''a'']" by simp
  ultimately show ?thesis by (intro conjI)
qed

end
