(* ===== verification/CircuitBreaker.thy ===== *)
theory CircuitBreaker
  imports Prelude Complex_Main
begin

text \<open>
  The circuit breaker of \<^verbatim>\<open>kernel/sidecar/melious_router.py\<close> and the protocol its callers follow in
  \<^verbatim>\<open>_complete\<close>: a caller is admitted under the router's lock and remembers the generation and whether it
  is the probe, later reports successes and failures with that generation, and finally gives the
  probe's lease back. Every critical section is one step, so a sequence of steps is an interleaving of
  any number of callers. The lemmas: at most one caller holds the probe of a half-open circuit, only
  that caller can change an open circuit, and a circuit whose callers are gone is never stuck.
\<close>

section \<open>The breaker\<close>

record CircuitBreaker =
  failure_threshold :: int
  recovery_seconds :: real
  failures :: int
  opened_at :: "real option"
  probing :: bool
  generation :: int

definition mk_breaker :: "int \<Rightarrow> real \<Rightarrow> CircuitBreaker" where
  "mk_breaker threshold recovery =
     \<lparr>failure_threshold = threshold, recovery_seconds = recovery, failures = 0, opened_at = None, probing = False, generation = 0\<rparr>"

definition cb_allow :: "real \<Rightarrow> CircuitBreaker \<Rightarrow> bool \<times> CircuitBreaker" where
  "cb_allow now b = (case opened_at b of
     None \<Rightarrow> (True, b)
   | Some t \<Rightarrow> if now - t < recovery_seconds b \<or> probing b then (False, b) else (True, b\<lparr>probing := True\<rparr>))"

definition cb_success :: "int option \<Rightarrow> CircuitBreaker \<Rightarrow> CircuitBreaker" where
  "cb_success g b =
     (if g \<noteq> None \<and> g \<noteq> Some (generation b) then b
      else let b = (if opened_at b \<noteq> None then b\<lparr>generation := generation b + 1\<rparr> else b)
           in b\<lparr>failures := 0, opened_at := None, probing := False\<rparr>)"

definition cb_failure :: "real \<Rightarrow> int option \<Rightarrow> CircuitBreaker \<Rightarrow> CircuitBreaker" where
  "cb_failure now g b =
     (if g \<noteq> None \<and> g \<noteq> Some (generation b) then b
      else let b = b\<lparr>failures := failures b + 1, probing := False\<rparr>
           in if failures b \<ge> failure_threshold b then b\<lparr>opened_at := Some now, generation := generation b + 1\<rparr> else b)"

datatype CircuitState = CLOSED | OPEN | HALF_OPEN

definition cb_state :: "real \<Rightarrow> CircuitBreaker \<Rightarrow> CircuitState" where
  "cb_state now b = (case opened_at b of
     None \<Rightarrow> CLOSED
   | Some t \<Rightarrow> if now - t \<ge> recovery_seconds b then HALF_OPEN else OPEN)"

text \<open>The \<^verbatim>\<open>finally\<close> block of a route: a probe that has not been answered fails.\<close>

definition cb_release :: "real \<Rightarrow> int \<Rightarrow> bool \<Rightarrow> CircuitBreaker \<Rightarrow> CircuitBreaker" where
  "cb_release now g is_probe b =
     (if is_probe \<and> generation b = g \<and> probing b then cb_failure now (Some g) b else b)"

section \<open>Interleavings of callers\<close>

text \<open>The callers that have been admitted, with the generation and the probe flag they remember.\<close>

type_synonym callers = "nat \<rightharpoonup> int \<times> bool"

inductive cb_step :: "CircuitBreaker \<times> callers \<Rightarrow> CircuitBreaker \<times> callers \<Rightarrow> bool" where
  admit: "calls i = None \<Longrightarrow> cb_allow now b = (True, b') \<Longrightarrow> cb_step (b, calls) (b', calls(i \<mapsto> (generation b', probing b')))"
| refuse: "cb_allow now b = (False, b') \<Longrightarrow> cb_step (b, calls) (b', calls)"
| respond_ok: "calls i = Some (g, p) \<Longrightarrow> cb_step (b, calls) (cb_success (Some g) b, calls)"
| respond_fail: "calls i = Some (g, p) \<Longrightarrow> cb_step (b, calls) (cb_failure now (Some g) b, calls)"
| finish: "calls i = Some (g, p) \<Longrightarrow> cb_step (b, calls) (cb_release now g p b, calls(i := None))"

inductive cb_reach :: "int \<Rightarrow> real \<Rightarrow> CircuitBreaker \<times> callers \<Rightarrow> bool" for threshold recovery where
  fresh: "cb_reach threshold recovery (mk_breaker threshold recovery, Map.empty)"
| more: "cb_reach threshold recovery s \<Longrightarrow> cb_step s s' \<Longrightarrow> cb_reach threshold recovery s'"

section \<open>Invariant\<close>

definition holds_lease :: "CircuitBreaker \<Rightarrow> callers \<Rightarrow> nat \<Rightarrow> bool" where
  "holds_lease b calls i \<longleftrightarrow> calls i = Some (generation b, True)"

definition cb_inv :: "CircuitBreaker \<times> callers \<Rightarrow> bool" where
  "cb_inv = (\<lambda>(b, calls).
     (opened_at b = None \<longrightarrow> \<not> probing b) \<and> (opened_at b \<noteq> None \<longrightarrow> failure_threshold b \<le> failures b) \<and>
     (\<forall>i g p. calls i = Some (g, p) \<longrightarrow> g \<le> generation b \<and> (g = generation b \<longrightarrow> p = (opened_at b \<noteq> None) \<and> p = probing b)) \<and>
     (\<forall>i j. holds_lease b calls i \<longrightarrow> holds_lease b calls j \<longrightarrow> i = j) \<and> (probing b \<longrightarrow> (\<exists>i. holds_lease b calls i)))"

lemma cb_success_cases:
  "(g \<noteq> generation b \<and> cb_success (Some g) b = b) \<or>
   (g = generation b \<and> opened_at b = None \<and> cb_success (Some g) b = b\<lparr>failures := 0, opened_at := None, probing := False\<rparr>) \<or>
   (g = generation b \<and> opened_at b \<noteq> None \<and>
      cb_success (Some g) b = b\<lparr>generation := generation b + 1, failures := 0, opened_at := None, probing := False\<rparr>)"
  by (cases "opened_at b") (auto simp: cb_success_def)

lemma cb_failure_cases:
  "(g \<noteq> generation b \<and> cb_failure now (Some g) b = b) \<or>
   (g = generation b \<and> failures b + 1 < failure_threshold b \<and>
      cb_failure now (Some g) b = b\<lparr>failures := failures b + 1, probing := False\<rparr>) \<or>
   (g = generation b \<and> failure_threshold b \<le> failures b + 1 \<and>
      cb_failure now (Some g) b = b\<lparr>failures := failures b + 1, probing := False, opened_at := Some now, generation := generation b + 1\<rparr>)"
  by (auto simp: cb_failure_def Let_def)

lemma cb_inv_new_generation:
  assumes "cb_inv (b, calls)" "generation b' = generation b + 1" "\<not> probing b'"
    and "opened_at b' \<noteq> None \<longrightarrow> failure_threshold b' \<le> failures b'"
  shows "cb_inv (b', calls)"
proof -
  have "g < generation b'" if "calls i = Some (g, p)" for i g p using assms(1,2) that by (fastforce simp: cb_inv_def)
  then show ?thesis using assms(3,4) by (fastforce simp: cb_inv_def holds_lease_def)
qed

lemma cb_inv_success: "cb_inv (b, calls) \<Longrightarrow> cb_inv (cb_success (Some g) b, calls)"
proof (use cb_success_cases [of g b] in \<open>elim disjE conjE\<close>)
  assume i: "cb_inv (b, calls)" and "opened_at b = None"
    and e: "cb_success (Some g) b = b\<lparr>failures := 0, opened_at := None, probing := False\<rparr>"
  then show ?thesis unfolding e by (auto simp: cb_inv_def holds_lease_def)
next
  assume i: "cb_inv (b, calls)" and e: "cb_success (Some g) b = b\<lparr>generation := generation b + 1, failures := 0, opened_at := None, probing := False\<rparr>"
  show ?thesis unfolding e by (rule cb_inv_new_generation [OF i]) simp_all
qed simp

lemma cb_inv_failure: "cb_inv (b, calls) \<Longrightarrow> cb_inv (cb_failure now (Some g) b, calls)"
proof (use cb_failure_cases [of g b now] in \<open>elim disjE conjE\<close>)
  assume i: "cb_inv (b, calls)" and l: "failures b + 1 < failure_threshold b"
    and e: "cb_failure now (Some g) b = b\<lparr>failures := failures b + 1, probing := False\<rparr>"
  from i l have "opened_at b = None" by (auto simp: cb_inv_def)
  with i show ?thesis unfolding e by (auto simp: cb_inv_def holds_lease_def)
next
  assume i: "cb_inv (b, calls)" and l: "failure_threshold b \<le> failures b + 1"
    and e: "cb_failure now (Some g) b = b\<lparr>failures := failures b + 1, probing := False, opened_at := Some now, generation := generation b + 1\<rparr>"
  show ?thesis unfolding e by (rule cb_inv_new_generation [OF i]) (simp_all add: l)
qed simp

lemma cb_failure_generation: "cb_failure now (Some g) b = b \<or> generation (cb_failure now (Some g) b) \<noteq> g \<or> \<not> probing (cb_failure now (Some g) b)"
  using cb_failure_cases [of g b now] by auto

lemma cb_inv_drop:
  assumes "cb_inv (b, calls)" "\<not> holds_lease b calls i"
  shows "cb_inv (b, calls(i := None))"
proof -
  have "\<exists>j. holds_lease b (calls(i := None)) j" if "holds_lease b calls j" for j
    using that assms(2) by (cases "j = i") (auto simp: holds_lease_def intro: exI [of _ j])
  then show ?thesis using assms(1) by (auto simp: cb_inv_def) (auto simp: holds_lease_def split: if_splits)
qed

lemma cb_inv_step: "cb_step s s' \<Longrightarrow> cb_inv s \<Longrightarrow> cb_inv s'"
proof (induction rule: cb_step.induct)
  case (admit calls i now b b')
  show ?case
  proof (cases "opened_at b")
    case None
    then show ?thesis using admit by (auto simp: cb_allow_def cb_inv_def holds_lease_def)
  next
    case (Some t)
    with admit(2) have b': "b' = b\<lparr>probing := True\<rparr>" "\<not> probing b" by (auto simp: cb_allow_def split: if_splits)
    have "\<not> (calls j = Some (generation b, p))" for j p
      using admit(3) b'(2) Some by (fastforce simp: cb_inv_def)
    then show ?thesis using admit(1,3) Some unfolding b' by (auto simp: cb_inv_def holds_lease_def)
  qed
next
  case (finish calls i g p b now)
  show ?case
  proof (cases "p \<and> generation b = g \<and> probing b")
    case True
    have "cb_inv (cb_failure now (Some g) b, calls)" by (rule cb_inv_failure [OF finish(2)])
    moreover have "\<not> holds_lease (cb_failure now (Some g) b) calls i"
    proof -
      have "opened_at b \<noteq> None" "failure_threshold b \<le> failures b + 1" using finish(2) True by (auto simp: cb_inv_def)
      then have "generation (cb_failure now (Some g) b) = g + 1" using cb_failure_cases [of g b now] True by auto
      then show ?thesis using finish(1) by (simp add: holds_lease_def)
    qed
    ultimately show ?thesis using True by (simp add: cb_release_def cb_inv_drop)
  next
    case False
    then have "\<not> holds_lease b calls i" using finish by (auto simp: cb_inv_def holds_lease_def)
    with False finish(2) show ?thesis by (auto simp: cb_release_def cb_inv_drop)
  qed
qed (auto simp: cb_inv_success cb_inv_failure cb_allow_def split: option.splits if_splits)

lemma cb_inv_reach: "cb_reach threshold recovery s \<Longrightarrow> cb_inv s"
proof (induction rule: cb_reach.induct)
  case fresh
  show ?case by (simp add: cb_inv_def mk_breaker_def holds_lease_def)
next
  case (more s s')
  then show ?case by (blast intro: cb_inv_step)
qed

text \<open>The exclusive probe. However the callers of a circuit interleave: at most one of them holds the
  lease of the probe; the breaker says it is probing exactly when one of them does; while the circuit
  is open no caller other than the holder has the current generation, so no answer to an earlier call
  can close or reopen it; and when nobody holds the lease and the recovery time has passed, the next
  caller is admitted.\<close>

theorem probe_exclusive:
  assumes "cb_reach threshold recovery (b, calls)"
  shows "(\<forall>i j. holds_lease b calls i \<and> holds_lease b calls j \<longrightarrow> i = j) \<and>
    (probing b \<longleftrightarrow> (\<exists>i. holds_lease b calls i)) \<and>
    (\<forall>i g p. calls i = Some (g, p) \<and> opened_at b \<noteq> None \<and> \<not> holds_lease b calls i \<longrightarrow>
       cb_success (Some g) b = b \<and> cb_failure now (Some g) b = b) \<and>
    (\<forall>t. opened_at b = Some t \<and> (\<forall>i. \<not> holds_lease b calls i) \<and> recovery_seconds b \<le> now - t \<longrightarrow>
       cb_allow now b = (True, b\<lparr>probing := True\<rparr>))"
proof -
  have i: "cb_inv (b, calls)" using assms by (rule cb_inv_reach)
  have "cb_success (Some g) b = b \<and> cb_failure now (Some g) b = b"
    if "calls j = Some (g, p)" "opened_at b \<noteq> None" "\<not> holds_lease b calls j" for j g p
  proof -
    have "g \<noteq> generation b" using i that by (auto simp: cb_inv_def holds_lease_def)
    then show ?thesis by (simp add: cb_success_def cb_failure_def)
  qed
  moreover have "probing b \<longleftrightarrow> (\<exists>j. holds_lease b calls j)" using i by (auto simp: cb_inv_def holds_lease_def)
  moreover have "cb_allow now b = (True, b\<lparr>probing := True\<rparr>)"
    if "opened_at b = Some t" "\<forall>j. \<not> holds_lease b calls j" "recovery_seconds b \<le> now - t" for t
    using that calculation(2) by (auto simp: cb_allow_def)
  ultimately show ?thesis using i by (auto simp: cb_inv_def)
qed

text \<open>A circuit that opened after one failure, with a probe under way and an earlier call still unanswered.\<close>

definition half_open_breaker :: CircuitBreaker where
  "half_open_breaker = \<lparr>failure_threshold = 1, recovery_seconds = 15, failures = 1, opened_at = Some 1, probing = True, generation = 1\<rparr>"

definition half_open_calls :: callers where
  "half_open_calls = [0 \<mapsto> (0, False), 1 \<mapsto> (0, False), 2 \<mapsto> (1, True)]"

lemma half_open_reached: "cb_reach 1 15 (half_open_breaker, half_open_calls)"
proof -
  let ?b0 = "mk_breaker 1 15"
  let ?b1 = "\<lparr>failure_threshold = 1, recovery_seconds = 15, failures = 1, opened_at = Some 1, probing = False, generation = 1\<rparr>"
  have "cb_step (?b0, Map.empty) (?b0, [0 \<mapsto> (generation ?b0, probing ?b0)])"
    by (rule cb_step.admit [of _ _ 0]) (simp_all add: cb_allow_def mk_breaker_def)
  then have s0: "cb_reach 1 15 (?b0, [0 \<mapsto> (0, False)])"
    using cb_reach.more [OF cb_reach.fresh] by (simp add: mk_breaker_def)
  have "cb_step (?b0, [0 \<mapsto> (0, False)]) (?b0, [0 \<mapsto> (0, False), 1 \<mapsto> (generation ?b0, probing ?b0)])"
    by (rule cb_step.admit [of _ _ 0]) (simp_all add: cb_allow_def mk_breaker_def)
  then have s1: "cb_reach 1 15 (?b0, [0 \<mapsto> (0, False), 1 \<mapsto> (0, False)])"
    using cb_reach.more [OF s0] by (simp add: mk_breaker_def)
  have "cb_step (?b0, [0 \<mapsto> (0, False), 1 \<mapsto> (0, False)]) (cb_failure 1 (Some 0) ?b0, [0 \<mapsto> (0, False), 1 \<mapsto> (0, False)])"
    by (rule cb_step.respond_fail [of _ 0 0 False]) simp
  then have s2: "cb_reach 1 15 (?b1, [0 \<mapsto> (0, False), 1 \<mapsto> (0, False)])"
    using cb_reach.more [OF s1] by (simp add: cb_failure_def mk_breaker_def)
  have "cb_step (?b1, [0 \<mapsto> (0, False), 1 \<mapsto> (0, False)]) (half_open_breaker,
      [0 \<mapsto> (0, False), 1 \<mapsto> (0, False), 2 \<mapsto> (generation half_open_breaker, probing half_open_breaker)])"
    by (rule cb_step.admit [of _ _ 16]) (simp_all add: cb_allow_def half_open_breaker_def)
  then show ?thesis using cb_reach.more [OF s2] by (simp add: half_open_breaker_def half_open_calls_def)
qed

theorem probe_exclusive_witness:
  "cb_reach 1 15 (half_open_breaker, half_open_calls) \<and> holds_lease half_open_breaker half_open_calls 2 \<and>
   probing half_open_breaker \<and> cb_success (Some 0) half_open_breaker = half_open_breaker"
proof -
  note p = probe_exclusive [OF half_open_reached]
  have h: "holds_lease half_open_breaker half_open_calls 2" by (simp add: holds_lease_def half_open_breaker_def half_open_calls_def)
  have "half_open_calls 0 = Some (0, False)" "opened_at half_open_breaker \<noteq> None" "\<not> holds_lease half_open_breaker half_open_calls 0"
    by (simp_all add: holds_lease_def half_open_breaker_def half_open_calls_def)
  with p have "cb_success (Some 0) half_open_breaker = half_open_breaker" by blast
  moreover from p h have "probing half_open_breaker" by blast
  ultimately show ?thesis using half_open_reached h by simp
qed

end
