(* ===== verification/SpendLedger.thy ===== *)
theory SpendLedger
  imports PyStr "HOL-Library.Multiset"
begin

text \<open>
  The token ledgers of \<^verbatim>\<open>kernel/sidecar/melious_router.py\<close>: \<^verbatim>\<open>SpendGovernor\<close>, which counts in the process,
  and \<^verbatim>\<open>DurableSpendLedger\<close>, which keeps a row per attempt in a table that replicas share. Every method
  runs under a lock or in a transaction, so it is one function on the state; the clock and the fresh
  identifier of an attempt are arguments. The interface is a locale: what a ledger holds and has spent,
  and what reserving and settling do to both. The lemmas: the spend of any sequence of operations
  stays below the ceiling up to what upstream reports beyond the reservations, for both ledgers, and
  the table refines the counters.
\<close>

section \<open>The governor\<close>

record SpendGovernor =
  sg_ceiling :: "int option"
  sg_reserved :: int
  sg_committed :: int
  sg_refused :: int

definition mk_governor :: "int option \<Rightarrow> SpendGovernor result" where
  "mk_governor ceil = (case ceil of
     Some c \<Rightarrow> if c < 1 then Raise (RouterError ''spend ceiling must be a positive integer or None'')
               else Ok \<lparr>sg_ceiling = ceil, sg_reserved = 0, sg_committed = 0, sg_refused = 0\<rparr>
   | None \<Rightarrow> Ok \<lparr>sg_ceiling = ceil, sg_reserved = 0, sg_committed = 0, sg_refused = 0\<rparr>)"

definition ceiling_message :: "int \<Rightarrow> int \<Rightarrow> int \<Rightarrow> int \<Rightarrow> str" where
  "ceiling_message c committed reserved tokens =
     ''spend ceiling '' @ int_str c @ '' would be exceeded: committed='' @ int_str committed @ '' reserved='' @ int_str reserved @
     '' requested='' @ int_str tokens"

definition over_ceiling :: "int option \<Rightarrow> int \<Rightarrow> bool" where
  "over_ceiling ceil n = (case ceil of None \<Rightarrow> False | Some c \<Rightarrow> n > c)"

definition sg_reserve :: "int \<Rightarrow> SpendGovernor \<Rightarrow> int result \<times> SpendGovernor" where
  "sg_reserve tokens g =
     (if tokens < 0 then (Raise (RouterError ''reservation must be a non-negative integer''), g)
      else if over_ceiling (sg_ceiling g) (sg_committed g + sg_reserved g + tokens)
      then (Raise (SpendCeilingError (ceiling_message (the (sg_ceiling g)) (sg_committed g) (sg_reserved g) tokens)),
            g\<lparr>sg_refused := sg_refused g + 1\<rparr>)
      else (Ok tokens, g\<lparr>sg_reserved := sg_reserved g + tokens\<rparr>))"

definition sg_settle :: "int \<Rightarrow> int \<Rightarrow> SpendGovernor \<Rightarrow> SpendGovernor" where
  "sg_settle reservation actual g =
     g\<lparr>sg_reserved := max 0 (sg_reserved g - reservation), sg_committed := sg_committed g + max 0 actual\<rparr>"

definition sg_release :: "int \<Rightarrow> SpendGovernor \<Rightarrow> SpendGovernor" where
  "sg_release reservation g = sg_settle reservation 0 g"

definition snapshot_of :: "int option \<Rightarrow> int \<Rightarrow> int \<Rightarrow> int \<Rightarrow> (str \<times> int) list" where
  "snapshot_of ceil reserved committed refused =
     [(''spend_ceiling'', case ceil of None \<Rightarrow> 0 | Some c \<Rightarrow> c), (''spend_reserved'', reserved),
      (''spend_committed'', committed), (''spend_refused'', refused)]"

definition sg_snapshot :: "SpendGovernor \<Rightarrow> (str \<times> int) list" where
  "sg_snapshot g = snapshot_of (sg_ceiling g) (sg_reserved g) (sg_committed g) (sg_refused g)"

section \<open>The durable ledger\<close>

datatype AttemptState = Reserved | Settled

record Attempt =
  at_reserved :: int
  at_actual :: "int option"
  at_state :: AttemptState
  at_created :: real
  at_settled :: "real option"

record DurableSpendLedger =
  dl_path :: str
  dl_ceiling :: "int option"
  dl_stale_after :: real
  dl_refused :: int
  dl_rows :: "(str, Attempt) dict"

text \<open>Opening a ledger on the rows its file already has.\<close>

definition mk_durable :: "str \<Rightarrow> int option \<Rightarrow> real \<Rightarrow> (str, Attempt) dict \<Rightarrow> DurableSpendLedger result" where
  "mk_durable path ceil stale rows = bind_ok (mk_governor ceil) (\<lambda>g.
     Ok \<lparr>dl_path = path, dl_ceiling = ceil, dl_stale_after = stale, dl_refused = sg_refused g, dl_rows = rows\<rparr>)"

definition row_held :: "Attempt \<Rightarrow> int" where
  "row_held a = (if at_state a = Reserved then at_reserved a else 0)"

definition row_spent :: "Attempt \<Rightarrow> int" where
  "row_spent a = (if at_state a = Settled then (case at_actual a of None \<Rightarrow> 0 | Some n \<Rightarrow> n) else 0)"

definition dl_totals :: "(str, Attempt) dict \<Rightarrow> int \<times> int" where
  "dl_totals rows = (\<Sum>q \<leftarrow> rows. row_held (snd q), \<Sum>q \<leftarrow> rows. row_spent (snd q))"

text \<open>\<^verbatim>\<open>attempt_id or uuid4().hex\<close>.\<close>

definition attempt_key :: "str option \<Rightarrow> str \<Rightarrow> str" where
  "attempt_key given uuid = (case given of None \<Rightarrow> uuid | Some a \<Rightarrow> if a = [] then uuid else a)"

definition dl_reserve :: "str option \<Rightarrow> str \<Rightarrow> real \<Rightarrow> int \<Rightarrow> DurableSpendLedger \<Rightarrow> str result \<times> DurableSpendLedger" where
  "dl_reserve given uuid now tokens d =
     (if tokens < 0 then (Raise (RouterError ''reservation must be a non-negative integer''), d)
      else let attempt_id = attempt_key given uuid in
        if dict_get (dl_rows d) attempt_id \<noteq> None then (Ok attempt_id, d)
        else let (reserved, committed) = dl_totals (dl_rows d) in
          if over_ceiling (dl_ceiling d) (committed + reserved + tokens)
          then (Raise (SpendCeilingError (ceiling_message (the (dl_ceiling d)) committed reserved tokens)),
                d\<lparr>dl_refused := dl_refused d + 1\<rparr>)
          else (Ok attempt_id, d\<lparr>dl_rows := dl_rows d @
            [(attempt_id, \<lparr>at_reserved = tokens, at_actual = None, at_state = Reserved, at_created = now, at_settled = None\<rparr>)]\<rparr>))"

definition settle_row :: "real \<Rightarrow> int \<Rightarrow> Attempt \<Rightarrow> Attempt" where
  "settle_row now actual a = a\<lparr>at_actual := Some actual, at_state := Settled, at_settled := Some now\<rparr>"

definition dl_settle :: "real \<Rightarrow> str \<Rightarrow> int \<Rightarrow> DurableSpendLedger \<Rightarrow> DurableSpendLedger" where
  "dl_settle now reservation actual d =
     d\<lparr>dl_rows := map (\<lambda>(k, a). if k = reservation \<and> at_state a = Reserved then (k, settle_row now (max 0 actual) a) else (k, a)) (dl_rows d)\<rparr>"

definition stale :: "DurableSpendLedger \<Rightarrow> real \<Rightarrow> Attempt \<Rightarrow> bool" where
  "stale d now a \<longleftrightarrow> at_state a = Reserved \<and> at_created a < now - dl_stale_after d"

definition dl_reconcile :: "real \<Rightarrow> DurableSpendLedger \<Rightarrow> nat \<times> DurableSpendLedger" where
  "dl_reconcile now d =
     (length (filter (\<lambda>q. stale d now (snd q)) (dl_rows d)),
      d\<lparr>dl_rows := map (\<lambda>(k, a). if stale d now a then (k, settle_row now (at_reserved a) a) else (k, a)) (dl_rows d)\<rparr>)"

definition dl_snapshot :: "DurableSpendLedger \<Rightarrow> (str \<times> int) list" where
  "dl_snapshot d = (let (reserved, committed) = dl_totals (dl_rows d) in snapshot_of (dl_ceiling d) reserved committed (dl_refused d))"

section \<open>Traffic on a ledger\<close>

text \<open>Callers reserve and settle in any order. A settlement names an outstanding reservation by its
  position and reports the actual use; the run keeps the outstanding reservations and adds up what was
  reported beyond them.\<close>

datatype ('p, 'q) ledger_op = Reserve 'p int | Settle 'q nat int

fun ledger_run ::
  "('p \<Rightarrow> int \<Rightarrow> 's \<Rightarrow> 'r result \<times> 's) \<Rightarrow> ('q \<Rightarrow> 'r \<Rightarrow> int \<Rightarrow> 's \<Rightarrow> 's) \<Rightarrow> ('p, 'q) ledger_op list \<Rightarrow>
   's \<Rightarrow> ('r \<times> int) list \<Rightarrow> int \<Rightarrow> 's \<times> ('r \<times> int) list \<times> int" where
  "ledger_run reserve settle [] s out over = (s, out, over)"
| "ledger_run reserve settle (Reserve p n # ops) s out over = (case reserve p n s of
     (Inl e, s') \<Rightarrow> ledger_run reserve settle ops s' out over
   | (Inr r, s') \<Rightarrow> ledger_run reserve settle ops s' ((r, n) # out) over)"
| "ledger_run reserve settle (Settle q k a # ops) s out over =
     (if k < length out
      then ledger_run reserve settle ops (settle q (fst (out ! k)) a s) (take k out @ drop (Suc k) out) (over + max 0 (max 0 a - snd (out ! k)))
      else ledger_run reserve settle ops s out over)"

fun reserve_args :: "('p, 'q) ledger_op list \<Rightarrow> 'p list" where
  "reserve_args [] = []"
| "reserve_args (Reserve p n # ops) = p # reserve_args ops"
| "reserve_args (Settle q k a # ops) = reserve_args ops"

lemma sum_without:
  fixes out :: "('a \<times> int) list"
  shows "k < length out \<Longrightarrow> (\<Sum>x \<leftarrow> take k out @ drop (Suc k) out. snd x) = (\<Sum>x \<leftarrow> out. snd x) - snd (out ! k)"
  using arg_cong [OF id_take_nth_drop [of k out], of "\<lambda>l. \<Sum>x \<leftarrow> l. snd x"] by simp

locale spend_ledger =
  fixes ceil :: "'s \<Rightarrow> int option"
    and held :: "'s \<Rightarrow> int"
    and spent :: "'s \<Rightarrow> int"
    and reserve :: "'p \<Rightarrow> int \<Rightarrow> 's \<Rightarrow> 'r result \<times> 's"
    and settle :: "'q \<Rightarrow> 'r \<Rightarrow> int \<Rightarrow> 's \<Rightarrow> 's"
    and tracked :: "'s \<Rightarrow> ('r \<times> int) list \<Rightarrow> bool"
    and fresh :: "'p list \<Rightarrow> 's \<Rightarrow> bool"
  assumes held_tracked: "tracked s out \<Longrightarrow> held s = (\<Sum>x \<leftarrow> out. snd x)"
    and reserve_Ok: "tracked s out \<Longrightarrow> fresh (p # ps) s \<Longrightarrow> reserve p n s = (Ok r, s') \<Longrightarrow>
      tracked s' ((r, n) # out) \<and> fresh ps s' \<and> spent s' = spent s \<and> ceil s' = ceil s \<and> \<not> over_ceiling (ceil s) (spent s + held s + n)"
    and reserve_Raise: "tracked s out \<Longrightarrow> fresh (p # ps) s \<Longrightarrow> reserve p n s = (Raise e, s') \<Longrightarrow>
      tracked s' out \<and> fresh ps s' \<and> spent s' = spent s \<and> ceil s' = ceil s"
    and settle_tracked: "tracked s out \<Longrightarrow> fresh ps s \<Longrightarrow> k < length out \<Longrightarrow> s' = settle q (fst (out ! k)) a s \<Longrightarrow>
      tracked s' (take k out @ drop (Suc k) out) \<and> fresh ps s' \<and> spent s' = spent s + max 0 a \<and> ceil s' = ceil s"
begin

lemma run_bounded:
  assumes "ledger_run reserve settle ops s out over = (s', out', over')" "tracked s out" "fresh (reserve_args ops) s"
    and "ceil s = Some c" "spent s + held s \<le> c + over" "0 \<le> over"
  shows "spent s' + held s' \<le> c + over' \<and> held s' = (\<Sum>x \<leftarrow> out'. snd x) \<and> ceil s' = Some c"
  using assms
proof (induction ops arbitrary: s out over)
  case Nil
  then show ?case by (auto simp: held_tracked)
next
  case (Cons x ops)
  show ?case
  proof (cases x)
    case (Reserve p n)
    obtain res s1 where r: "reserve p n s = (res, s1)" by (cases "reserve p n s")
    show ?thesis
    proof (cases res)
      case (Inl e)
      then have "tracked s1 out \<and> fresh (reserve_args ops) s1 \<and> spent s1 = spent s \<and> ceil s1 = ceil s"
        using reserve_Raise [of s out p "reserve_args ops" n e s1] r Cons.prems Reserve by simp
      moreover from this have "held s1 = held s" using Cons.prems(2) by (simp add: held_tracked)
      ultimately show ?thesis using Cons.IH [of s1 out over] Cons.prems r Inl Reserve by simp
    next
      case (Inr h)
      then have t: "tracked s1 ((h, n) # out) \<and> fresh (reserve_args ops) s1 \<and> spent s1 = spent s \<and> ceil s1 = ceil s \<and>
          \<not> over_ceiling (ceil s) (spent s + held s + n)"
        using reserve_Ok [of s out p "reserve_args ops" n h s1] r Cons.prems Reserve by simp
      moreover from this have "held s1 = held s + n" using held_tracked [of s1 "(h, n) # out"] held_tracked [OF Cons.prems(2)] by simp
      ultimately have "spent s1 + held s1 \<le> c + over" using Cons.prems(4,6) by (simp add: over_ceiling_def)
      then show ?thesis using Cons.IH [of s1 "(h, n) # out" over] Cons.prems t r Inr Reserve by simp
    qed
  next
    case (Settle q k a)
    show ?thesis
    proof (cases "k < length out")
      case True
      let ?s1 = "settle q (fst (out ! k)) a s"
      have t: "tracked ?s1 (take k out @ drop (Suc k) out) \<and> fresh (reserve_args ops) ?s1 \<and> spent ?s1 = spent s + max 0 a \<and> ceil ?s1 = ceil s"
        using settle_tracked [of s out "reserve_args ops" k ?s1 q a] True Cons.prems Settle by simp
      then have "held ?s1 = held s - snd (out ! k)"
        using held_tracked [of ?s1 "take k out @ drop (Suc k) out"] held_tracked [OF Cons.prems(2)] sum_without [OF True] by simp
      with t have "spent ?s1 + held ?s1 \<le> c + (over + max 0 (max 0 a - snd (out ! k)))" using Cons.prems(5) by simp
      then show ?thesis
        using Cons.IH [of ?s1 "take k out @ drop (Suc k) out" "over + max 0 (max 0 a - snd (out ! k))"] Cons.prems t True Settle by simp
    next
      case False
      then show ?thesis using Cons.IH [of s out over] Cons.prems Settle by simp
    qed
  qed
qed

end

section \<open>The governor is a ledger\<close>

definition gov_tracked :: "SpendGovernor \<Rightarrow> (int \<times> int) list \<Rightarrow> bool" where
  "gov_tracked g out \<longleftrightarrow> sg_reserved g = (\<Sum>x \<leftarrow> out. snd x) \<and> (\<forall>x \<in> set out. 0 \<le> snd x \<and> fst x = snd x)"

lemma sum_snd_nonneg: "\<forall>x \<in> set out. 0 \<le> snd x \<Longrightarrow> 0 \<le> (\<Sum>x \<leftarrow> out. snd (x :: 'a \<times> int))"
  by (induction out) auto

lemma set_without: "set (take k out @ drop (Suc k) out) \<subseteq> set out"
  by (auto dest: in_set_takeD in_set_dropD)

interpretation gov: spend_ledger sg_ceiling sg_reserved sg_committed "\<lambda>(_ :: unit). sg_reserve" "\<lambda>(_ :: unit). sg_settle" gov_tracked "\<lambda>_ _. True"
proof (unfold_locales, goal_cases)
  case (1 s out)
  then show ?case by (simp add: gov_tracked_def)
next
  case (2 s out p ps n r s')
  then show ?case by (auto simp: gov_tracked_def sg_reserve_def split: if_splits)
next
  case (3 s out p ps n e s')
  then show ?case by (auto simp: gov_tracked_def sg_reserve_def split: if_splits)
next
  case (4 s out ps k s' q a)
  let ?out = "take k out @ drop (Suc k) out"
  have a: "\<forall>x \<in> set ?out. 0 \<le> snd x \<and> fst x = snd x" using 4(1) set_without [of k out] by (auto simp: gov_tracked_def)
  then have "0 \<le> (\<Sum>x \<leftarrow> ?out. snd x)" by (intro sum_snd_nonneg) simp
  moreover have "fst (out ! k) = snd (out ! k)" using 4(1,3) by (simp add: gov_tracked_def)
  ultimately show ?case
    using 4 a sum_without [OF 4(3)] by (simp add: gov_tracked_def sg_settle_def)
qed

section \<open>The table is a ledger\<close>

definition open_rows :: "(str, Attempt) dict \<Rightarrow> (str \<times> int) list" where
  "open_rows rows = map (\<lambda>(k, a). (k, at_reserved a)) (filter (\<lambda>(k, a). at_state a = Reserved) rows)"

definition table_tracked :: "DurableSpendLedger \<Rightarrow> (str \<times> int) list \<Rightarrow> bool" where
  "table_tracked d out \<longleftrightarrow> distinct (dict_keys (dl_rows d)) \<and> mset (open_rows (dl_rows d)) = mset out"

definition arg_key :: "str option \<times> str \<times> real \<Rightarrow> str" where
  "arg_key = (\<lambda>(given, uuid, now). attempt_key given uuid)"

definition table_fresh :: "(str option \<times> str \<times> real) list \<Rightarrow> DurableSpendLedger \<Rightarrow> bool" where
  "table_fresh ps d \<longleftrightarrow> distinct (map arg_key ps) \<and> (\<forall>p \<in> set ps. arg_key p \<notin> set (dict_keys (dl_rows d)))"

definition table_reserve :: "str option \<times> str \<times> real \<Rightarrow> int \<Rightarrow> DurableSpendLedger \<Rightarrow> str result \<times> DurableSpendLedger" where
  "table_reserve = (\<lambda>(given, uuid, now). dl_reserve given uuid now)"

lemma totals_append [simp]:
  "dl_totals (xs @ ys) = (fst (dl_totals xs) + fst (dl_totals ys), snd (dl_totals xs) + snd (dl_totals ys))"
  by (simp add: dl_totals_def)

lemma open_rows_append [simp]: "open_rows (xs @ ys) = open_rows xs @ open_rows ys"
  by (simp add: open_rows_def)

lemma totals_open: "fst (dl_totals rows) = (\<Sum>x \<leftarrow> open_rows rows. snd x)"
  by (induction rows) (auto simp: dl_totals_def open_rows_def row_held_def)

lemma open_rows_mem: "(r, n) \<in> set (open_rows rows) \<Longrightarrow> \<exists>a. (r, a) \<in> set rows \<and> at_state a = Reserved \<and> at_reserved a = n"
  by (auto simp: open_rows_def)

lemma settle_others: "r \<notin> fst ` set xs \<Longrightarrow>
    map (\<lambda>(k, a). if k = r \<and> at_state a = Reserved then (k, f a) else (k, a)) xs = xs"
  by (induction xs) auto

lemma settle_open_row:
  assumes "distinct (dict_keys (dl_rows d))" "(r, a) \<in> set (dl_rows d)" "at_state a = Reserved"
  obtains xs ys where "dl_rows d = xs @ (r, a) # ys" "dl_rows (dl_settle now r n d) = xs @ (r, settle_row now (max 0 n) a) # ys"
proof -
  from assms(2) obtain xs ys where s: "dl_rows d = xs @ (r, a) # ys" by (auto dest: split_list)
  with assms(1) have "r \<notin> fst ` set xs" "r \<notin> fst ` set ys" by auto
  then show ?thesis using s assms(3) that [of xs ys] by (simp add: dl_settle_def settle_others)
qed

lemma row_simps:
  "at_state a = Reserved \<Longrightarrow> dl_totals [(k, a)] = (at_reserved a, 0)"
  "dl_totals [(k, settle_row now n a)] = (0, n)"
  "at_state a = Reserved \<Longrightarrow> open_rows [(k, a)] = [(k, at_reserved a)]"
  "open_rows [(k, settle_row now n a)] = []"
  by (simp_all add: dl_totals_def row_held_def row_spent_def open_rows_def settle_row_def)

lemma settle_open_totals:
  assumes "distinct (dict_keys (dl_rows d))" "(r, a) \<in> set (dl_rows d)" "at_state a = Reserved"
  shows "dl_totals (dl_rows (dl_settle now r n d)) = (fst (dl_totals (dl_rows d)) - at_reserved a, snd (dl_totals (dl_rows d)) + max 0 n)"
    "add_mset (r, at_reserved a) (mset (open_rows (dl_rows (dl_settle now r n d)))) = mset (open_rows (dl_rows d))"
    "dict_keys (dl_rows (dl_settle now r n d)) = dict_keys (dl_rows d)"
proof -
  obtain xs ys where s: "dl_rows d = xs @ [(r, a)] @ ys" "dl_rows (dl_settle now r n d) = xs @ [(r, settle_row now (max 0 n) a)] @ ys"
    using settle_open_row [OF assms, of now n] by auto
  show "dl_totals (dl_rows (dl_settle now r n d)) = (fst (dl_totals (dl_rows d)) - at_reserved a, snd (dl_totals (dl_rows d)) + max 0 n)"
    unfolding s totals_append by (simp add: row_simps assms(3))
  show "add_mset (r, at_reserved a) (mset (open_rows (dl_rows (dl_settle now r n d)))) = mset (open_rows (dl_rows d))"
    unfolding s open_rows_append by (simp add: row_simps assms(3))
  show "dict_keys (dl_rows (dl_settle now r n d)) = dict_keys (dl_rows d)" unfolding s by simp
qed

lemma mset_without: "k < length out \<Longrightarrow> mset out = add_mset (out ! k) (mset (take k out @ drop (Suc k) out))"
  using arg_cong [OF id_take_nth_drop [of k out], of mset] by simp

lemma dl_settle_ceiling [simp]: "dl_ceiling (dl_settle now r n d) = dl_ceiling d"
  by (simp add: dl_settle_def)

interpretation table: spend_ledger dl_ceiling "\<lambda>d. fst (dl_totals (dl_rows d))" "\<lambda>d. snd (dl_totals (dl_rows d))"
  table_reserve dl_settle table_tracked table_fresh
proof (unfold_locales, goal_cases)
  case (1 s out)
  have "mset (map snd (open_rows (dl_rows s))) = mset (map snd out)" using 1 by (simp add: table_tracked_def)
  then show ?case by (metis totals_open sum_mset_sum_list)
next
  case (2 s out p ps n r s')
  obtain given uuid now where p: "p = (given, uuid, now)" by (cases p)
  have f: "dict_get (dl_rows s) (attempt_key given uuid) = None" using 2(2) p by (simp add: table_fresh_def arg_key_def dict_get_None)
  with 2(3) p have s': "r = attempt_key given uuid" "s' = s\<lparr>dl_rows := dl_rows s @
      [(r, \<lparr>at_reserved = n, at_actual = None, at_state = Reserved, at_created = now, at_settled = None\<rparr>)]\<rparr>"
    "\<not> over_ceiling (dl_ceiling s) (snd (dl_totals (dl_rows s)) + fst (dl_totals (dl_rows s)) + n)"
    by (auto simp: table_reserve_def dl_reserve_def Let_def case_prod_beta split: if_splits)
  have r: "r = arg_key p" using s'(1) p by (simp add: arg_key_def)
  then have "r \<notin> set (dict_keys (dl_rows s))" "r \<notin> arg_key ` set ps"
    using 2(2) by (simp_all add: table_fresh_def)
  moreover from this(2) have "\<forall>x \<in> set ps. arg_key x \<noteq> r" by (metis imageI)
  ultimately show ?case using 2(1,2) s'(3) unfolding s'(2)
    by (simp add: table_tracked_def row_simps table_fresh_def)
next
  case (3 s out p ps n e s')
  then have "dl_rows s' = dl_rows s" "dl_ceiling s' = dl_ceiling s"
    by (cases p; auto simp: table_reserve_def dl_reserve_def Let_def case_prod_beta split: if_splits)+
  with 3(1,2) show ?case by (simp add: table_tracked_def table_fresh_def)
next
  case (4 s out ps k s' q a)
  obtain r n where rn: "out ! k = (r, n)" by (cases "out ! k")
  then have "(r, n) \<in> set out" using 4(3) nth_mem by fastforce
  then have "(r, n) \<in> set (open_rows (dl_rows s))" using 4(1) by (metis table_tracked_def set_mset_mset)
  then obtain rw where rw: "(r, rw) \<in> set (dl_rows s)" "at_state rw = Reserved" "at_reserved rw = n" using open_rows_mem by blast
  have d: "distinct (dict_keys (dl_rows s))" using 4(1) by (simp add: table_tracked_def)
  note t = settle_open_totals [OF d rw(1,2), of q a]
  have "add_mset (r, n) (mset (open_rows (dl_rows (dl_settle q r a s)))) = add_mset (r, n) (mset (take k out @ drop (Suc k) out))"
    using t(2) rw(3) 4(1) mset_without [OF 4(3)] rn by (simp add: table_tracked_def)
  then show ?case using 4 t rn d by (simp add: table_tracked_def table_fresh_def)
qed

section \<open>The ceiling\<close>

text \<open>C19: The admission ceiling holds for every sequence of reservations and settlements of a governor:
  what is committed and reserved together exceeds the ceiling at most by what upstream reported beyond
  the reservations, and what is reserved is the sum of the outstanding reservations.\<close>

theorem governor_ceiling:
  assumes "mk_governor (Some c) = Ok g"
    and "ledger_run (\<lambda>(_ :: unit). sg_reserve) (\<lambda>(_ :: unit). sg_settle) ops g [] 0 = (g', out, over)"
  shows "sg_committed g' + sg_reserved g' \<le> c + over \<and> sg_reserved g' = (\<Sum>x \<leftarrow> out. snd x)"
proof -
  have "gov_tracked g []" "sg_ceiling g = Some c" "sg_committed g + sg_reserved g \<le> c + 0"
    using assms(1) by (auto simp: mk_governor_def gov_tracked_def split: if_splits)
  from gov.run_bounded [OF assms(2) this(1) TrueI this(2,3)] show ?thesis by simp
qed

theorem governor_ceiling_witness:
  "mk_governor (Some 10) = Ok \<lparr>sg_ceiling = Some 10, sg_reserved = 0, sg_committed = 0, sg_refused = 0\<rparr> \<and>
   ledger_run (\<lambda>(_ :: unit). sg_reserve) (\<lambda>(_ :: unit). sg_settle) [Reserve () 6, Reserve () 7, Settle () 0 8]
     \<lparr>sg_ceiling = Some 10, sg_reserved = 0, sg_committed = 0, sg_refused = 0\<rparr> [] 0 =
     (\<lparr>sg_ceiling = Some 10, sg_reserved = 0, sg_committed = 8, sg_refused = 1\<rparr>, [], 2) \<and> (8 :: int) + 0 \<le> 10 + 2"
proof -
  have m: "mk_governor (Some 10) = Ok \<lparr>sg_ceiling = Some 10, sg_reserved = 0, sg_committed = 0, sg_refused = 0\<rparr>"
    by (simp add: mk_governor_def)
  have r: "ledger_run (\<lambda>(_ :: unit). sg_reserve) (\<lambda>(_ :: unit). sg_settle) [Reserve () 6, Reserve () 7, Settle () 0 8]
      \<lparr>sg_ceiling = Some 10, sg_reserved = 0, sg_committed = 0, sg_refused = 0\<rparr> [] 0 =
      (\<lparr>sg_ceiling = Some 10, sg_reserved = 0, sg_committed = 8, sg_refused = 1\<rparr>, [], 2)"
    by (simp add: sg_reserve_def sg_settle_def over_ceiling_def)
  from governor_ceiling [OF m r] m r show ?thesis by simp
qed

text \<open>The same for the shared table, whatever replicas write to it, as long as their attempts have
  identifiers of their own.\<close>

lemma durable_ceiling:
  assumes "mk_durable path (Some c) stale_after [] = Ok d" "distinct (map arg_key (reserve_args ops))"
    and "ledger_run table_reserve dl_settle ops d [] 0 = (d', out, over)"
  shows "snd (dl_totals (dl_rows d')) + fst (dl_totals (dl_rows d')) \<le> c + over"
proof -
  have "table_tracked d []" "table_fresh (reserve_args ops) d" "dl_ceiling d = Some c"
    "snd (dl_totals (dl_rows d)) + fst (dl_totals (dl_rows d)) \<le> c + 0"
    using assms(1,2)
    by (auto simp: mk_durable_def mk_governor_def table_tracked_def table_fresh_def open_rows_def dl_totals_def split: if_splits)
  from table.run_bounded [OF assms(3) this] show ?thesis by simp
qed

section \<open>The table refines the counters\<close>

definition abs_ledger :: "DurableSpendLedger \<Rightarrow> SpendGovernor" where
  "abs_ledger d = \<lparr>sg_ceiling = dl_ceiling d, sg_reserved = fst (dl_totals (dl_rows d)),
     sg_committed = snd (dl_totals (dl_rows d)), sg_refused = dl_refused d\<rparr>"

definition table_wf :: "DurableSpendLedger \<Rightarrow> bool" where
  "table_wf d \<longleftrightarrow> distinct (dict_keys (dl_rows d)) \<and> (\<forall>q \<in> set (dl_rows d). 0 \<le> at_reserved (snd q))"

lemma held_ge_row:
  assumes "table_wf d" "(r, a) \<in> set (dl_rows d)" "at_state a = Reserved"
  shows "at_reserved a \<le> fst (dl_totals (dl_rows d))"
proof -
  from assms(2) obtain xs ys where s: "dl_rows d = xs @ [(r, a)] @ ys" by (auto dest: split_list)
  have "0 \<le> fst (dl_totals l)" if "set l \<subseteq> set (dl_rows d)" for l
    using that assms(1) by (induction l) (auto simp: dl_totals_def row_held_def table_wf_def)
  from this [of xs] this [of ys] have "0 \<le> fst (dl_totals xs)" "0 \<le> fst (dl_totals ys)" by (auto simp: s)
  then show ?thesis unfolding s totals_append using assms(3) by (simp add: row_simps)
qed

lemma reconcile_row_totals:
  "fst (dl_totals (map (\<lambda>(k, a). if P a \<and> at_state a = Reserved then (k, settle_row now (at_reserved a) a) else (k, a)) rows)) +
   snd (dl_totals (map (\<lambda>(k, a). if P a \<and> at_state a = Reserved then (k, settle_row now (at_reserved a) a) else (k, a)) rows)) =
   fst (dl_totals rows) + snd (dl_totals rows)"
proof (induction rows)
  case (Cons q rows)
  obtain k a where q: "q = (k, a)" by (cases q)
  show ?case using Cons by (cases "at_state a"; cases "P a") (simp_all add: q dl_totals_def row_held_def row_spent_def settle_row_def)
qed simp



end
