(* ===== verification/ModelRouter.thy ===== *)
theory ModelRouter
  imports CircuitBreaker SpendLedger DsseEnvelope
begin

text \<open>
  \<^verbatim>\<open>MeliousModelRouter\<close> of \<^verbatim>\<open>kernel/sidecar/melious_router.py\<close>: construction from the environment, admission
  of a request, the fallback chain over the models with retries, circuit breakers and cool-downs, the
  checks of a response, the accounting and the metrics. What the process cannot decide is a \<open>World\<close>: the
  successive readings of the clock, whether a timed acquisition of the lock succeeds, what other
  threads did to the shared state before the lock was entered, what the transport answers, random
  numbers and fresh identifiers, each indexed by the number of interactions so far. A cancellation
  (\<^verbatim>\<open>BaseException\<close>) is an answer of the transport. A status attached to an exception is an integer and
  its \<^verbatim>\<open>retry_after\<close> a number. Messages that print a float or the trace are shortened; the trace itself is
  part of the state. The lemmas: every request gives back its slot and settles its reservation at
  exactly what the answers report, whatever happens; the calls of a request are bounded in number and
  in time; a returned completion has passed every check; a probe is never left behind.
\<close>

section \<open>Ledgers and shared state\<close>

datatype Ledger = Local SpendGovernor | Durable DurableSpendLedger

datatype Handle = Tokens int | AttemptId str

definition l_reserve :: "str \<Rightarrow> real \<Rightarrow> int \<Rightarrow> Ledger \<Rightarrow> Handle result \<times> Ledger" where
  "l_reserve uuid now n led = (case led of
     Local g \<Rightarrow> (let (res, g') = sg_reserve n g in (bind_ok res (\<lambda>t. Ok (Tokens t)), Local g'))
   | Durable d \<Rightarrow> (let (res, d') = dl_reserve None uuid now n d in (bind_ok res (\<lambda>a. Ok (AttemptId a)), Durable d')))"

text \<open>\<^verbatim>\<open>str(reservation)\<close> turns a number into text.\<close>

definition l_settle :: "real \<Rightarrow> Handle \<Rightarrow> int \<Rightarrow> Ledger \<Rightarrow> Ledger" where
  "l_settle now h actual led = (case led of
     Local g \<Rightarrow> (case h of Tokens t \<Rightarrow> Local (sg_settle t actual g) | AttemptId _ \<Rightarrow> Local g)
   | Durable d \<Rightarrow> Durable (dl_settle now (case h of Tokens t \<Rightarrow> int_str t | AttemptId a \<Rightarrow> a) actual d))"

definition l_snapshot :: "Ledger \<Rightarrow> (str \<times> int) list" where
  "l_snapshot led = (case led of Local g \<Rightarrow> sg_snapshot g | Durable d \<Rightarrow> dl_snapshot d)"

record Shared =
  sh_breakers :: "(str, CircuitBreaker) dict"
  sh_cooldown :: "(str, real) dict"
  sh_metrics :: "(str, int) dict"

text \<open>The dictionaries have an entry for every model and every counter from the start.\<close>

definition breaker_of :: "Shared \<Rightarrow> str \<Rightarrow> CircuitBreaker" where
  "breaker_of sh m = (case dict_get (sh_breakers sh) m of Some b \<Rightarrow> b | None \<Rightarrow> mk_breaker 3 15)"

definition set_breaker :: "str \<Rightarrow> CircuitBreaker \<Rightarrow> Shared \<Rightarrow> Shared" where
  "set_breaker m b sh = sh\<lparr>sh_breakers := dict_set m b (sh_breakers sh)\<rparr>"

definition cooldown_of :: "Shared \<Rightarrow> str \<Rightarrow> real" where
  "cooldown_of sh m = (case dict_get (sh_cooldown sh) m of Some t \<Rightarrow> t | None \<Rightarrow> 0)"

definition count :: "str \<Rightarrow> int \<Rightarrow> Shared \<Rightarrow> Shared" where
  "count k n sh = sh\<lparr>sh_metrics := dict_set k ((case dict_get (sh_metrics sh) k of Some v \<Rightarrow> v | None \<Rightarrow> 0) + n) (sh_metrics sh)\<rparr>"

section \<open>Construction\<close>

definition DEFAULT_MODELS :: "str list" where
  "DEFAULT_MODELS = [''glm-5.3'', ''glm-5.3-flash'', ''kimi-k3'', ''qwen3.8-27b'']"

record RouterArgs =
  ra_models :: "str list option"
  ra_base_url :: "str option"
  ra_timeout :: real
  ra_max_retries :: int
  ra_acquire_timeout :: real
  ra_probe_timeout :: "real option"
  ra_max_inflight :: int
  ra_total_timeout :: real
  ra_spend_ceiling :: "int option"
  ra_spend :: "Ledger option"

record Router =
  r_models :: "str list"
  r_base_url :: str
  r_timeout :: real
  r_max_retries :: nat
  r_acquire_timeout :: real
  r_probe_timeout :: real
  r_total_timeout :: real
  r_model_timeouts :: "(str, real) dict"
  r_slots :: nat
  r_spend :: Ledger
  r_shared :: Shared

definition getenv :: "(str \<rightharpoonup> str) \<Rightarrow> str \<Rightarrow> str" where
  "getenv env k = (case env k of None \<Rightarrow> [] | Some v \<Rightarrow> v)"

text \<open>\<^verbatim>\<open>models or env_models or DEFAULT_MODELS\<close>.\<close>

definition choose_models :: "(str \<rightharpoonup> str) \<Rightarrow> str list option \<Rightarrow> str list" where
  "choose_models env given =
     (let env_models = filter (\<lambda>m. m \<noteq> []) (map strip (split_on CHR '','' (getenv env ''MELIOUS_MODELS''))) in
      case given of
        Some (m # ms) \<Rightarrow> m # ms
      | _ \<Rightarrow> if env_models \<noteq> [] then env_models else DEFAULT_MODELS)"

fun parse_timeouts :: "str list \<Rightarrow> str list \<Rightarrow> (str, real) dict \<Rightarrow> (str, real) dict result" where
  "parse_timeouts models [] d = Ok d"
| "parse_timeouts models (p # ps) d =
     (let entry = strip p in
      if entry = [] then parse_timeouts models ps d
      else if CHR ''='' \<notin> set entry then Raise (RouterError ''MELIOUS_MODEL_TIMEOUTS entry must be model=seconds'')
      else let name = strip (takeWhile (\<lambda>c. c \<noteq> CHR ''='') entry); raw = drop 1 (dropWhile (\<lambda>c. c \<noteq> CHR ''='') entry) in
        if name \<notin> set models then Raise (RouterError ''MELIOUS_MODEL_TIMEOUTS names unknown model'')
        else case py_float raw of
          None \<Rightarrow> Raise (RouterError ''MELIOUS_MODEL_TIMEOUTS value must be a number'')
        | Some v \<Rightarrow> if v \<le> 0 then Raise (RouterError ''MELIOUS_MODEL_TIMEOUTS value must be finite and positive'')
                    else parse_timeouts models ps (dict_set name v d))"

text \<open>\<^verbatim>\<open>str.isdigit\<close> also holds for the superscripts one to three, which \<^verbatim>\<open>int\<close> does not read.\<close>

definition superscript :: "char \<Rightarrow> bool" where
  "superscript c \<longleftrightarrow> (of_char c :: nat) \<in> {0xB2, 0xB3, 0xB9}"

definition env_ceiling :: "(str \<rightharpoonup> str) \<Rightarrow> int option result" where
  "env_ceiling env =
     (let s = strip (getenv env ''MELIOUS_TOKEN_CEILING'') in
      if s = [] then Ok None
      else if \<not> list_all (\<lambda>c. is_digit c \<or> superscript c) s then Raise (RouterError ''MELIOUS_TOKEN_CEILING must be a positive integer'')
      else if \<not> list_all is_digit s then Raise (ValueError ''invalid literal for int()'')
      else Ok (Some (int (nat_of_digits s))))"

text \<open>The rows a ledger file already has are an argument.\<close>

definition choose_ledger :: "(str \<rightharpoonup> str) \<Rightarrow> (str \<Rightarrow> (str, Attempt) dict) \<Rightarrow> int option \<Rightarrow> Ledger result" where
  "choose_ledger env rows given =
     bind_ok (case given of Some c \<Rightarrow> Ok (Some c) | None \<Rightarrow> env_ceiling env) (\<lambda>c.
     let path = strip (getenv env ''MELIOUS_SPEND_LEDGER'') in
     if path \<noteq> [] then bind_ok (mk_durable path c 900 (rows path)) (\<lambda>d. Ok (Durable d))
     else bind_ok (mk_governor c) (\<lambda>g. Ok (Local g)))"

definition METRICS :: "str list" where
  "METRICS = [''requests'', ''successes'', ''failures'', ''fallbacks'', ''prompt_tokens'', ''completion_tokens'', ''reasoning_tokens'',
     ''total_tokens'', ''budget_exhausted'']"

definition fresh_shared :: "str list \<Rightarrow> Shared" where
  "fresh_shared models = \<lparr>sh_breakers = fold (\<lambda>m. dict_set m (mk_breaker 3 15)) models [],
     sh_cooldown = fold (\<lambda>m. dict_set m 0) models [], sh_metrics = map (\<lambda>k. (k, 0)) METRICS\<rparr>"

definition strip_slashes :: "str \<Rightarrow> str" where
  "strip_slashes s = rev (dropWhile (\<lambda>c. c = CHR ''/'') (rev s))"

definition mk_router :: "(str \<rightharpoonup> str) \<Rightarrow> (str \<Rightarrow> (str, Attempt) dict) \<Rightarrow> RouterArgs \<Rightarrow> Router result" where
  "mk_router env rows a =
     (let models = choose_models env (ra_models a);
          base = (case ra_base_url a of
                    Some (c # u) \<Rightarrow> c # u
                  | _ \<Rightarrow> (case env ''MELIOUS_BASE_URL'' of None \<Rightarrow> ''https://api.melious.ai/v1'' | Some u \<Rightarrow> u));
          probe = (case ra_probe_timeout a of Some t \<Rightarrow> t | None \<Rightarrow> max 1 (ra_timeout a / 2))
      in if models = [] then Raise (RouterError ''no models configured'')
      else if ra_max_inflight a < 1 then Raise (RouterError ''max_inflight must be a positive integer'')
      else if \<exists>v \<in> set [ra_timeout a, ra_acquire_timeout a, probe, ra_total_timeout a]. v \<le> 0
      then Raise (RouterError ''timeouts must be finite and positive'')
      else bind_ok (parse_timeouts models (split_on CHR '','' (strip (getenv env ''MELIOUS_MODEL_TIMEOUTS''))) []) (\<lambda>timeouts.
        bind_ok (case ra_spend a of Some led \<Rightarrow> Ok led | None \<Rightarrow> choose_ledger env rows (ra_spend_ceiling a)) (\<lambda>led.
        Ok \<lparr>r_models = models, r_base_url = strip_slashes base, r_timeout = ra_timeout a, r_max_retries = nat (ra_max_retries a),
            r_acquire_timeout = ra_acquire_timeout a, r_probe_timeout = probe, r_total_timeout = ra_total_timeout a,
            r_model_timeouts = timeouts, r_slots = nat (ra_max_inflight a), r_spend = led, r_shared = fresh_shared models\<rparr>)))"

section \<open>Transport\<close>

text \<open>What a call of the transport comes to: a JSON value, an exception with its class, its status and its
  \<^verbatim>\<open>retry_after\<close>, or a cancellation.\<close>

datatype TransportOut = Response json | Fails str "int option" real | Cancel

definition retry_after :: "(str \<Rightarrow> real option) \<Rightarrow> str option \<Rightarrow> real" where
  "retry_after date_delay v = (case v of
     None \<Rightarrow> 0
   | Some s \<Rightarrow> (case py_float s of
       Some x \<Rightarrow> max 0 x
     | None \<Rightarrow> (case date_delay s of Some x \<Rightarrow> max 0 x | None \<Rightarrow> 0)))"

definition retry_secs :: "real \<Rightarrow> real" where
  "retry_secs x = max 0 x"

datatype HttpOut = Http200 bytes | HttpError int "str option" | HttpRaises str

definition MAX_RESPONSE_BYTES :: nat where "MAX_RESPONSE_BYTES = 2097152"

text \<open>Sending the request body is an argument, as is the delay until the date of a header.\<close>

definition http_transport ::
  "(str \<rightharpoonup> str) \<Rightarrow> (str \<Rightarrow> real option) \<Rightarrow> (bytes \<Rightarrow> real \<Rightarrow> HttpOut) \<Rightarrow> str \<Rightarrow> jobj \<Rightarrow> real \<Rightarrow> TransportOut" where
  "http_transport env date_delay post model payload_d timeout =
     (if getenv env ''MELIOUS_API_KEY'' = [] then Fails ''RouterError'' None 0
      else case post (utf8 (dumps plain (JObj (dict_set ''model'' (JStr model) payload_d)))) timeout of
        Http200 body \<Rightarrow>
          if length body > MAX_RESPONSE_BYTES then Fails ''RouterError'' None 0
          else (case utf8_decode body of
            None \<Rightarrow> Fails ''UnicodeDecodeError'' None 0
          | Some s \<Rightarrow> (case loads s of None \<Rightarrow> Fails ''JSONDecodeError'' None 0 | Some v \<Rightarrow> Response v))
      | HttpError code retry \<Rightarrow> Fails ''RouterError'' (Some code) (retry_after date_delay retry)
      | HttpRaises name \<Rightarrow> Fails name None 0)"

section \<open>Checking requests and responses\<close>

definition MAX_MESSAGES :: nat where "MAX_MESSAGES = 256"
definition MAX_COMPLETION_TOKENS :: int where "MAX_COMPLETION_TOKENS = 4096"
definition MAX_REQUEST_BYTES :: nat where "MAX_REQUEST_BYTES = 262144"

record UsageCounts =
  u_prompt :: int
  u_completion :: int
  u_total :: int
  u_reasoning :: int

text \<open>\<^verbatim>\<open>type(value) is int\<close> and not negative.\<close>

definition count_of :: "json \<Rightarrow> int option" where
  "count_of v = (case v of JInt i \<Rightarrow> if i \<ge> 0 then Some i else None | _ \<Rightarrow> None)"

definition usage_counts :: "jobj \<Rightarrow> UsageCounts result" where
  "usage_counts data = (case get_default data ''usage'' (JObj []) of
     JObj usage \<Rightarrow>
       bind_ok (case get_default usage ''completion_tokens_details'' (JObj []) of
           JNull \<Rightarrow> Ok [] | JObj d \<Rightarrow> Ok d | _ \<Rightarrow> Raise (RouterError ''malformed upstream token details'')) (\<lambda>details.
       case (count_of (get_default usage ''prompt_tokens'' (JInt 0)), count_of (get_default usage ''completion_tokens'' (JInt 0)),
             count_of (get_default usage ''total_tokens'' (JInt 0)),
             count_of (get_default details ''reasoning_tokens'' (get_default usage ''reasoning_tokens'' (JInt 0)))) of
         (Some p, Some c, Some t, Some r) \<Rightarrow> Ok \<lparr>u_prompt = p, u_completion = c, u_total = max t (p + c), u_reasoning = r\<rparr>
       | _ \<Rightarrow> Raise (RouterError ''upstream token counts must be non-negative integers''))
   | _ \<Rightarrow> Raise (RouterError ''malformed upstream usage''))"

definition check_choice :: "json \<Rightarrow> unit result" where
  "check_choice v = (case v of
     JObj choice \<Rightarrow> (case get_default choice ''message'' JNull of
       JObj message \<Rightarrow>
         if (case get_default message ''content'' JNull of JStr s \<Rightarrow> strip s \<noteq> [] | _ \<Rightarrow> False) then Ok ()
         else if get_default choice ''finish_reason'' JNull = JStr ''length''
         then Raise (BudgetExhaustedError ''completion budget consumed before any output text (reasoning tokens); raise max_tokens'')
         else Raise (RouterError ''upstream text completion content must be a non-empty string'')
     | _ \<Rightarrow> Raise (RouterError ''malformed upstream choice''))
   | _ \<Rightarrow> Raise (RouterError ''malformed upstream choice''))"

fun check_choices :: "json list \<Rightarrow> unit result" where
  "check_choices [] = Ok ()"
| "check_choices (c # cs) = bind_ok (check_choice c) (\<lambda>_. check_choices cs)"

definition check_response :: "int \<Rightarrow> UsageCounts \<Rightarrow> jobj \<Rightarrow> unit result" where
  "check_response budget counts data = (case get_default data ''choices'' JNull of
     JList choices \<Rightarrow>
       if choices = [] then Raise (RouterError ''malformed upstream response'')
       else bind_ok (check_choices choices) (\<lambda>_.
         if length choices \<noteq> 1 then Raise (RouterError ''unexpected multiple completions'')
         else if u_completion counts > budget then Raise (RouterError ''upstream exceeded completion budget'')
         else Ok ())
   | _ \<Rightarrow> Raise (RouterError ''malformed upstream response''))"

definition content_of :: "json \<Rightarrow> str option" where
  "content_of m = (case m of
     JObj d \<Rightarrow> (case get_default d ''content'' JNull of JStr s \<Rightarrow> Some s | _ \<Rightarrow> None)
   | _ \<Rightarrow> None)"

definition content_length :: "json list \<Rightarrow> nat" where
  "content_length ms = (\<Sum>m \<leftarrow> ms. case content_of m of Some s \<Rightarrow> length s | None \<Rightarrow> 0)"

definition message_ok :: "json \<Rightarrow> bool" where
  "message_ok m = (case m of
     JObj d \<Rightarrow> (case get_default d ''role'' JNull of JStr _ \<Rightarrow> content_of m \<noteq> None | _ \<Rightarrow> False)
   | _ \<Rightarrow> False)"

text \<open>The text of a message's content counts when the message has one.\<close>

definition reservation_estimate :: "json \<Rightarrow> jobj \<Rightarrow> int" where
  "reservation_estimate messages options = (case messages of
     JList ms \<Rightarrow>
       (let budget = get_default options ''max_completion_tokens'' (get_default options ''max_tokens'' (JInt MAX_COMPLETION_TOKENS));
            b = (case budget of JInt i \<Rightarrow> if i < 1 then MAX_COMPLETION_TOKENS else i | _ \<Rightarrow> MAX_COMPLETION_TOKENS)
        in (int (content_length ms) + 2) div 3 + b)
   | _ \<Rightarrow> 0)"

definition budget_of :: "jobj \<Rightarrow> (str \<times> int) result" where
  "budget_of options =
     (let key = (if dict_get options ''max_completion_tokens'' \<noteq> None then ''max_completion_tokens'' else ''max_tokens'') in
      case get_default options key (JInt MAX_COMPLETION_TOKENS) of
        JInt b \<Rightarrow> if 1 \<le> b \<and> b \<le> MAX_COMPLETION_TOKENS then Ok (key, b)
                  else Raise (RouterError ''completion budget must be an integer in 1..4096'')
      | _ \<Rightarrow> Raise (RouterError ''completion budget must be an integer in 1..4096''))"

definition check_messages :: "json \<Rightarrow> unit result" where
  "check_messages messages = (case messages of
     JList ms \<Rightarrow>
       if ms = [] \<or> length ms > MAX_MESSAGES then Raise (RouterError ''messages must be a non-empty list of at most 256 items'')
       else if \<not> list_all message_ok ms then Raise (RouterError ''each message needs string role and content'')
       else if content_length ms > MAX_REQUEST_BYTES then Raise (RouterError ''prompt exceeds byte budget'')
       else Ok ()
   | _ \<Rightarrow> Raise (RouterError ''messages must be a non-empty list of at most 256 items''))"

definition check_request :: "json \<Rightarrow> jobj \<Rightarrow> (jobj \<times> int) result" where
  "check_request messages options =
     bind_ok (check_messages messages) (\<lambda>_.
     if dict_get options ''model'' \<noteq> None then Raise (RouterError ''model is chosen by the router; do not pass it'')
     else if dict_get options ''max_tokens'' \<noteq> None \<and> dict_get options ''max_completion_tokens'' \<noteq> None
     then Raise (RouterError ''provide exactly one completion budget'')
     else bind_ok (budget_of options) (\<lambda>(key, budget).
       if json_truthy (get_default options ''stream'' JNull) then Raise (RouterError ''streaming is not supported by the JSON completion router'')
       else if num_val (get_default options ''n'' (JInt 1)) \<noteq> Some 1 then Raise (RouterError ''only one completion is supported per budget'')
       else let pl = dict_set key (JInt budget) ((''messages'', messages) # options) in
         if \<not> finite_floats (JObj pl) then Raise (RouterError ''payload must be finite JSON'')
         else if length (utf8 (dumps plain_unicode (JObj pl))) > MAX_REQUEST_BYTES then Raise (RouterError ''payload exceeds byte budget'')
         else Ok (pl, budget)))"

section \<open>The world and the state of a request\<close>

record World =
  w_clock :: "nat \<Rightarrow> real"
  w_lock :: "nat \<Rightarrow> bool"
  w_others :: "nat \<Rightarrow> Shared \<Rightarrow> Shared"
  w_transport :: "nat \<Rightarrow> str \<Rightarrow> jobj \<Rightarrow> real \<Rightarrow> TransportOut"
  w_random :: "nat \<Rightarrow> real"
  w_uuid :: str
  w_wall :: "nat \<Rightarrow> real"
  w_other_spend :: "Ledger \<Rightarrow> Ledger"

text \<open>Every call of the transport is recorded with the model, its deadline and what came of it.\<close>

record Run =
  rn_shared :: Shared
  rn_tick :: nat
  rn_spent :: int
  rn_trace :: "json list"
  rn_status :: "int option"
  rn_calls :: "(str \<times> real \<times> TransportOut) list"

definition read_clock :: "World \<Rightarrow> Run \<Rightarrow> real \<times> Run" where
  "read_clock w s = (w_clock w (rn_tick s), s\<lparr>rn_tick := Suc (rn_tick s)\<rparr>)"

text \<open>Entering the lock, with and without a limit on the waiting time.\<close>

definition enter_lock :: "World \<Rightarrow> Run \<Rightarrow> Run" where
  "enter_lock w s = s\<lparr>rn_shared := w_others w (rn_tick s) (rn_shared s), rn_tick := Suc (rn_tick s)\<rparr>"

definition try_lock :: "World \<Rightarrow> Run \<Rightarrow> bool \<times> Run" where
  "try_lock w s = (if w_lock w (rn_tick s) then (True, enter_lock w s) else (False, s\<lparr>rn_tick := Suc (rn_tick s)\<rparr>))"

definition on_shared :: "(Shared \<Rightarrow> Shared) \<Rightarrow> Run \<Rightarrow> Run" where
  "on_shared f s = s\<lparr>rn_shared := f (rn_shared s)\<rparr>"

definition note_trace :: "json \<Rightarrow> Run \<Rightarrow> Run" where
  "note_trace t s = s\<lparr>rn_trace := rn_trace s @ [t]\<rparr>"

definition trace_entry :: "str \<Rightarrow> str \<Rightarrow> json" where
  "trace_entry model res = JObj [(''model'', JStr model), (''result'', JStr res)]"

definition status_json :: "int option \<Rightarrow> json" where
  "status_json st = (case st of None \<Rightarrow> JNull | Some i \<Rightarrow> JInt i)"

definition failure_entry :: "str \<Rightarrow> str \<Rightarrow> int option \<Rightarrow> json" where
  "failure_entry model name st = JObj [(''model'', JStr model), (''result'', JStr ''failure''), (''error'', JStr name),
     (''detail'', JStr (case st of Some i \<Rightarrow> ''upstream HTTP '' @ int_str i | None \<Rightarrow> ''upstream request failed'')), (''status'', status_json st)]"

definition budget_entry :: "str \<Rightarrow> json" where
  "budget_entry model = JObj [(''model'', JStr model), (''result'', JStr ''budget_exhausted''), (''error'', JStr ''BudgetExhaustedError''),
     (''detail'', JStr ''completion budget consumed by reasoning tokens''), (''status'', JNull)]"

section \<open>One attempt\<close>

text \<open>What the body of the \<^verbatim>\<open>try\<close> comes to.\<close>

datatype Attempted = Answer json | OutOfBudget | Failure str "int option" real | Cancelled

definition count_usage :: "UsageCounts \<Rightarrow> Shared \<Rightarrow> Shared" where
  "count_usage c sh = count ''reasoning_tokens'' (u_reasoning c) (count ''total_tokens'' (u_total c)
     (count ''completion_tokens'' (u_completion c) (count ''prompt_tokens'' (u_prompt c) sh)))"

definition router_note :: "str \<Rightarrow> json list \<Rightarrow> json" where
  "router_note model trace = JObj [(''selected_model'', JStr model), (''fallback_chain'', JList (trace @ [trace_entry model ''success'']))]"

definition accept_response :: "World \<Rightarrow> str \<Rightarrow> int \<Rightarrow> int \<Rightarrow> jobj \<Rightarrow> Run \<Rightarrow> Attempted \<times> Run" where
  "accept_response w model gen budget data s = (case usage_counts data of
     Inl e \<Rightarrow> (Failure ''RouterError'' None 0, s)
   | Inr counts \<Rightarrow>
       let s = on_shared (count_usage counts) (enter_lock w (s\<lparr>rn_spent := rn_spent s + u_total counts\<rparr>)) in
       case check_response budget counts data of
         Inl (BudgetExhaustedError m) \<Rightarrow> (OutOfBudget, s)
       | Inl e \<Rightarrow> (Failure ''RouterError'' None 0, s)
       | Inr _ \<Rightarrow>
           let (ok, s) = try_lock w s in
           if \<not> ok then (Failure ''RouterError'' None 0, s)
           else let s = on_shared (\<lambda>sh. count ''successes'' 1 (set_breaker model (cb_success (Some gen) (breaker_of sh model)) sh)) s
                in (Answer (JObj (dict_set ''router'' (router_note model (rn_trace s)) data)), s))"

definition route_limit :: "Router \<Rightarrow> str \<Rightarrow> bool \<Rightarrow> real" where
  "route_limit r model is_probe =
     (if is_probe then r_probe_timeout r else case dict_get (r_model_timeouts r) model of Some t \<Rightarrow> t | None \<Rightarrow> r_timeout r)"

definition attempt_call :: "World \<Rightarrow> Router \<Rightarrow> real \<Rightarrow> jobj \<Rightarrow> int \<Rightarrow> str \<Rightarrow> bool \<Rightarrow> int \<Rightarrow> Run \<Rightarrow> Attempted \<times> Run" where
  "attempt_call w r deadline pl budget model is_probe gen s =
     (let (now, s) = read_clock w s; remaining = min (deadline - now) (r_total_timeout r) in
      if remaining \<le> 0 then (Failure ''RouterError'' None 0, s)
      else let limit = min remaining (route_limit r model is_probe);
               out = w_transport w (rn_tick s) model pl limit;
               s = s\<lparr>rn_tick := Suc (rn_tick s), rn_calls := rn_calls s @ [(model, limit, out)]\<rparr>
           in case out of
                Fails name st ra \<Rightarrow> (Failure name st ra, s)
              | Cancel \<Rightarrow> (Cancelled, s)
              | Response v \<Rightarrow> (case v of
                  JObj data \<Rightarrow> accept_response w model gen budget data s
                | _ \<Rightarrow> (Failure ''RouterError'' None 0, s)))"

section \<open>Retries on one route\<close>

text \<open>How a route ends: a completion, an exception, a cancellation, or on to the next model.\<close>

datatype Routed = Completed json | Raised py_error | Aborted | NextModel

text \<open>The failure is recorded if the lock is free in time; a 429 answer also starts a cool-down.\<close>

definition record_failure :: "World \<Rightarrow> str \<Rightarrow> int \<Rightarrow> int option \<Rightarrow> real \<Rightarrow> Run \<Rightarrow> Run" where
  "record_failure w model gen st ra s =
     (let (ok, s) = try_lock w s in
      if \<not> ok then s
      else let (now, s) = read_clock w s;
               s = on_shared (\<lambda>sh. set_breaker model (cb_failure now (Some gen) (breaker_of sh model)) sh) s
           in if st \<noteq> Some 429 then s
              else let (now, s) = read_clock w s in
                on_shared (\<lambda>sh. sh\<lparr>sh_cooldown := dict_set model (max (cooldown_of sh model) (now + retry_secs ra)) (sh_cooldown sh)\<rparr>) s)"

definition server_error :: "int option \<Rightarrow> bool" where
  "server_error st = (case st of Some i \<Rightarrow> 500 \<le> i \<and> i < 600 | None \<Rightarrow> False)"

text \<open>Whether a failure ends the route: the status, a probe, or a circuit that is open by now.\<close>

definition ends_route :: "World \<Rightarrow> bool \<Rightarrow> str \<Rightarrow> bool \<Rightarrow> int option \<Rightarrow> Run \<Rightarrow> bool \<times> Run" where
  "ends_route w last_model model is_probe st s =
     (if st = Some 429 \<or> server_error st \<and> \<not> last_model then (True, s)
      else if is_probe \<or> st \<noteq> None \<and> \<not> server_error st then (True, s)
      else let s = enter_lock w s in (opened_at (breaker_of (rn_shared s) model) \<noteq> None, s))"

definition retry_admitted :: "World \<Rightarrow> Router \<Rightarrow> real \<Rightarrow> str \<Rightarrow> int \<Rightarrow> Run \<Rightarrow> Routed option \<times> Run" where
  "retry_admitted w r deadline model gen s =
     (let (now, s) = read_clock w s in
      if min (deadline - now) (r_total_timeout r) \<le> 0 then (Some NextModel, s)
      else let (ok, s) = try_lock w s in
        if \<not> ok then (Some (Raised (RouterError ''router saturated during retry admission'')), s)
        else let b = breaker_of (rn_shared s) model in
          if generation b \<noteq> gen \<or> opened_at b \<noteq> None then (Some NextModel, note_trace (trace_entry model ''circuit_open'') s)
          else let (now, s) = read_clock w s in
            if now < cooldown_of (rn_shared s) model then (Some NextModel, note_trace (trace_entry model ''circuit_open'') s)
            else (None, s))"

text \<open>The loop over the attempts; \<open>left\<close> is the number of attempts that remain.\<close>

fun attempts :: "World \<Rightarrow> Router \<Rightarrow> real \<Rightarrow> jobj \<Rightarrow> int \<Rightarrow> bool \<Rightarrow> str \<Rightarrow> bool \<Rightarrow> int \<Rightarrow> nat \<Rightarrow> nat \<Rightarrow> Run \<Rightarrow> Routed \<times> Run" where
  "attempts w r deadline pl budget last_model model is_probe gen attempt 0 s = (NextModel, s)"
| "attempts w r deadline pl budget last_model model is_probe gen attempt (Suc left) s =
     (let (stop, s) = (if attempt = 0 then (None, s) else retry_admitted w r deadline model gen s) in
      case stop of
        Some res \<Rightarrow> (res, s)
      | None \<Rightarrow>
        let (out, s) = attempt_call w r deadline pl budget model is_probe gen s in
        case out of
          Answer v \<Rightarrow> (Completed v, s)
        | Cancelled \<Rightarrow> (Aborted, s)
        | OutOfBudget \<Rightarrow>
            let (ok, s) = try_lock w (note_trace (budget_entry model) s);
                s = (if ok then on_shared (\<lambda>sh. count ''budget_exhausted'' 1 (count ''failures'' 1
                       (set_breaker model (cb_success (Some gen) (breaker_of sh model)) sh))) s else s)
            in (Raised (BudgetExhaustedError ''completion budget consumed before any output text (reasoning tokens); raise max_tokens''), s)
        | Failure name st ra \<Rightarrow>
            let s = record_failure w model gen st ra (note_trace (failure_entry model name st) (s\<lparr>rn_status := st\<rparr>));
                (ends, s) = ends_route w last_model model is_probe st s
            in if ends then (NextModel, s)
               else if left = 0 then (NextModel, s)
               else let delay = (if retry_secs ra \<noteq> 0 then retry_secs ra else 1 / 10 * 2 ^ attempt + w_random w (rn_tick s) * (5 / 100));
                        (now, s) = read_clock w s
                    in if delay \<ge> deadline - now then (NextModel, s)
                       else attempts w r deadline pl budget last_model model is_probe gen (Suc attempt) left s)"

section \<open>The fallback chain\<close>

text \<open>The \<^verbatim>\<open>finally\<close> block of a route.\<close>

definition release_probe :: "World \<Rightarrow> str \<Rightarrow> bool \<Rightarrow> int \<Rightarrow> Run \<Rightarrow> Run" where
  "release_probe w model is_probe gen s =
     (if \<not> is_probe then s
      else let s = enter_lock w s; b = breaker_of (rn_shared s) model in
        if generation b = gen \<and> probing b
        then let (now, s) = read_clock w s in on_shared (set_breaker model (cb_failure now (Some gen) b)) s
        else s)"

text \<open>Admission to a route, under the lock: the deadline, the cool-down and the breaker.\<close>

datatype Admission = PastDeadline | Saturated | CircuitOpen | Admitted bool int

definition admit_route :: "World \<Rightarrow> real \<Rightarrow> nat \<Rightarrow> str \<Rightarrow> Run \<Rightarrow> Admission \<times> Run" where
  "admit_route w deadline index model s =
     (let (now, s) = read_clock w s in
      if now \<ge> deadline then (PastDeadline, s)
      else let (ok, s) = try_lock w s in
        if \<not> ok then (Saturated, s)
        else let (allowed, b) = (if now \<ge> cooldown_of (rn_shared s) model then cb_allow now (breaker_of (rn_shared s) model)
                                 else (False, breaker_of (rn_shared s) model));
                 s = on_shared (set_breaker model b) s
             in if \<not> allowed then (CircuitOpen, note_trace (trace_entry model ''circuit_open'') s)
                else (Admitted (probing b) (generation b),
                      if index = 0 then s else let (ok, s) = try_lock w s in if ok then on_shared (count ''fallbacks'' 1) s else s))"

fun routes :: "World \<Rightarrow> Router \<Rightarrow> real \<Rightarrow> jobj \<Rightarrow> int \<Rightarrow> nat \<Rightarrow> str list \<Rightarrow> Run \<Rightarrow> Routed \<times> Run" where
  "routes w r deadline pl budget index [] s = (NextModel, s)"
| "routes w r deadline pl budget index (model # models) s =
     (let (adm, s) = admit_route w deadline index model s in
      case adm of
        PastDeadline \<Rightarrow> (NextModel, s)
      | Saturated \<Rightarrow> (Raised (RouterError ''router saturated: lock not acquired''), s)
      | CircuitOpen \<Rightarrow> routes w r deadline pl budget (Suc index) models s
      | Admitted is_probe gen \<Rightarrow>
          let (res, s) = attempts w r deadline pl budget (models = []) model is_probe gen 0 (Suc (r_max_retries r)) s;
              s = release_probe w model is_probe gen s
          in if res = NextModel then routes w r deadline pl budget (Suc index) models s else (res, s))"

definition complete_locked :: "World \<Rightarrow> Router \<Rightarrow> json \<Rightarrow> jobj \<Rightarrow> real \<Rightarrow> Run \<Rightarrow> Routed \<times> int option \<times> Run" where
  "complete_locked w r messages options deadline s = (case check_request messages options of
     Inl e \<Rightarrow> (Raised e, None, s)
   | Inr (pl, budget) \<Rightarrow>
       let (ok, s) = try_lock w s in
       if \<not> ok then (Raised (RouterError ''router saturated: lock not acquired''), None, s)
       else let (res, s) = routes w r deadline pl budget 0 (r_models r) (on_shared (count ''requests'' 1) s) in
         if res \<noteq> NextModel then (res, None, s)
         else let (ok, s) = try_lock w s; s = (if ok then on_shared (count ''failures'' 1) s else s)
              in (Raised (RouterError ''all model routes failed''), rn_status s, s))"

definition start_run :: "Router \<Rightarrow> Run" where
  "start_run r = \<lparr>rn_shared = r_shared r, rn_tick = 0, rn_spent = 0, rn_trace = [], rn_status = None, rn_calls = []\<rparr>"

text \<open>The whole request: the outcome with the status attached to an exception, the router afterwards
  and the run.\<close>

definition complete_request :: "World \<Rightarrow> Router \<Rightarrow> json \<Rightarrow> jobj \<Rightarrow> (Routed \<times> int option) \<times> Router \<times> Run" where
  "complete_request w r messages options =
     (let s = start_run r in
      if r_slots r = 0 then ((Raised (RouterError ''router saturated: inflight capacity exhausted''), None), r, s)
      else let r1 = r\<lparr>r_slots := r_slots r - 1\<rparr>;
               (res, led) = l_reserve (w_uuid w) (w_wall w 0) (reservation_estimate messages options) (r_spend r1)
           in case res of
                Inl e \<Rightarrow> ((Raised e, None), r1\<lparr>r_spend := led, r_slots := r_slots r1 + 1\<rparr>, s)
              | Inr h \<Rightarrow>
                  let (now, s) = read_clock w s;
                      (out, st, s) = complete_locked w r1 messages options (now + r_total_timeout r) s
                  in ((out, st), r1\<lparr>r_spend := l_settle (w_wall w 1) h (rn_spent s) (w_other_spend w led), r_slots := r_slots r1 + 1,
                        r_shared := rn_shared s\<rparr>, s))"

section \<open>Metrics\<close>

definition circuit_name :: "CircuitState \<Rightarrow> str" where
  "circuit_name c = (case c of CLOSED \<Rightarrow> ''CLOSED'' | OPEN \<Rightarrow> ''OPEN'' | HALF_OPEN \<Rightarrow> ''HALF_OPEN'')"

definition get_metrics :: "real \<Rightarrow> Router \<Rightarrow> (str \<times> int) list \<times> (str \<times> str) list" where
  "get_metrics now r =
     (fold (\<lambda>(k, v). dict_set k v) (l_snapshot (r_spend r)) (sh_metrics (r_shared r)),
      map (\<lambda>(m, b). (m, circuit_name (cb_state now b))) (sh_breakers (r_shared r)))"

definition get_prometheus_metrics :: "real \<Rightarrow> Router \<Rightarrow> str" where
  "get_prometheus_metrics now r =
     (let (ms, cs) = get_metrics now r in
      join [CHR 0x0A] (map (\<lambda>(k, v). ''axiom_router_'' @ k @ '' '' @ int_str v) ms @
        map (\<lambda>(m, st). ''axiom_router_circuit_state{model='' @ [CHR 0x22] @ m @ [CHR 0x22] @ '',state='' @ [CHR 0x22] @ st @ [CHR 0x22] @ ''} 1'') cs) @ [CHR 0x0A])"

section \<open>What the steps leave alone\<close>

text \<open>Reading the clock, entering the lock and bookkeeping touch neither the calls nor the spend.\<close>

definition same_calls :: "Run \<Rightarrow> Run \<Rightarrow> bool" where
  "same_calls s s' \<longleftrightarrow> rn_calls s' = rn_calls s \<and> rn_spent s' = rn_spent s"

named_theorems quiet

lemma same_calls_refl [quiet]: "same_calls s s"
  by (simp add: same_calls_def)

lemma same_calls_trans: "same_calls s s' \<Longrightarrow> same_calls s' s'' \<Longrightarrow> same_calls s s''"
  by (simp add: same_calls_def)

lemma quiet_steps [quiet]:
  "same_calls s (snd (read_clock w s))" "same_calls s (enter_lock w s)" "same_calls s (snd (try_lock w s))"
  "same_calls s (on_shared f s)" "same_calls s (note_trace t s)" "same_calls s (s\<lparr>rn_status := st\<rparr>)"
  by (simp_all add: same_calls_def read_clock_def enter_lock_def try_lock_def on_shared_def note_trace_def)

lemma quiet_after:
  "same_calls s0 s \<Longrightarrow> same_calls s0 (snd (read_clock w s))" "same_calls s0 s \<Longrightarrow> same_calls s0 (enter_lock w s)"
  "same_calls s0 s \<Longrightarrow> same_calls s0 (snd (try_lock w s))" "same_calls s0 s \<Longrightarrow> same_calls s0 (on_shared f s)"
  "same_calls s0 s \<Longrightarrow> same_calls s0 (note_trace t s)" "same_calls s0 s \<Longrightarrow> same_calls s0 (s\<lparr>rn_status := st\<rparr>)"
  by (rule same_calls_trans, assumption, rule quiet)+

lemma quiet_record [quiet]: "same_calls s (record_failure w model gen st ra s)"
  by (auto simp: record_failure_def Let_def case_prod_beta intro!: quiet_after same_calls_refl)

lemma quiet_ends [quiet]: "same_calls s (snd (ends_route w l model p st s))"
  by (auto simp: ends_route_def Let_def intro!: quiet_after same_calls_refl)

lemma quiet_retry [quiet]: "same_calls s (snd (retry_admitted w r deadline model gen s))"
  by (auto simp: retry_admitted_def Let_def case_prod_beta intro!: quiet_after same_calls_refl)

lemma quiet_release [quiet]: "same_calls s (release_probe w model p gen s)"
  by (auto simp: release_probe_def Let_def case_prod_beta intro!: quiet_after same_calls_refl)

section \<open>Accounting and bounds\<close>

definition billed :: "TransportOut \<Rightarrow> int" where
  "billed t = (case t of
     Response (JObj data) \<Rightarrow> (case usage_counts data of Inr c \<Rightarrow> u_total c | Inl _ \<Rightarrow> 0)
   | _ \<Rightarrow> 0)"

lemma route_limit_slots [simp]: "route_limit (r\<lparr>r_slots := n\<rparr>) m p = route_limit r m p"
  by (simp add: route_limit_def split: option.splits)

definition call_in_time :: "Router \<Rightarrow> str \<times> real \<times> TransportOut \<Rightarrow> bool" where
  "call_in_time r = (\<lambda>(m, t, _). 0 < t \<and> t \<le> r_total_timeout r \<and> t \<le> max (route_limit r m True) (route_limit r m False))"

definition positive_limits :: "Router \<Rightarrow> bool" where
  "positive_limits r \<longleftrightarrow> 0 < r_timeout r \<and> 0 < r_probe_timeout r \<and> (\<forall>m t. dict_get (r_model_timeouts r) m = Some t \<longrightarrow> 0 < t)"

definition accounted :: "Router \<Rightarrow> Run \<Rightarrow> bool" where
  "accounted r s \<longleftrightarrow> rn_spent s = (\<Sum>c \<leftarrow> rn_calls s. billed (snd (snd c))) \<and> (positive_limits r \<longrightarrow> list_all (call_in_time r) (rn_calls s))"

lemma accounted_slots [simp]: "accounted (r\<lparr>r_slots := n\<rparr>) s = accounted r s"
  by (simp add: accounted_def positive_limits_def call_in_time_def)

lemma accounted_same: "same_calls s s' \<Longrightarrow> accounted r s \<Longrightarrow> accounted r s'"
  by (simp add: same_calls_def accounted_def)

lemma accept_response_calls:
  assumes "accept_response w model gen budget data s = (out, s')"
  shows "rn_calls s' = rn_calls s \<and> rn_spent s' = rn_spent s + billed (Response (JObj data))"
proof (cases "usage_counts data")
  case (Inl e)
  then show ?thesis using assms by (simp add: accept_response_def billed_def)
next
  case (Inr counts)
  have "same_calls (s\<lparr>rn_spent := rn_spent s + u_total counts\<rparr>) s'"
    using assms Inr
    by (auto simp: accept_response_def Let_def case_prod_beta intro!: quiet_after same_calls_refl split: sum.splits py_error.splits if_splits)
  then show ?thesis using Inr by (simp add: same_calls_def billed_def)
qed

lemma attempt_call_accounted:
  assumes "attempt_call w r deadline pl budget model p gen s = (out, s')" "accounted r s"
  shows "accounted r s' \<and> length (rn_calls s') \<le> Suc (length (rn_calls s))"
proof -
  let ?now = "fst (read_clock w s)" and ?s0 = "snd (read_clock w s)"
  let ?rem = "min (deadline - ?now) (r_total_timeout r)"
  have q: "same_calls s ?s0" by (rule quiet)
  show ?thesis
  proof (cases "?rem \<le> 0")
    case True
    then have "s' = ?s0" using assms(1) by (simp add: attempt_call_def case_prod_beta)
    then show ?thesis using q assms(2) by (simp add: accounted_same) (simp add: same_calls_def)
  next
    case False
    let ?limit = "min ?rem (route_limit r model p)"
    let ?out = "w_transport w (rn_tick ?s0) model pl ?limit"
    let ?s1 = "?s0\<lparr>rn_tick := Suc (rn_tick ?s0), rn_calls := rn_calls ?s0 @ [(model, ?limit, ?out)]\<rparr>"
    have c: "rn_calls s' = rn_calls s @ [(model, ?limit, ?out)] \<and> rn_spent s' = rn_spent s + billed ?out"
    proof (cases "\<exists>data. ?out = Response (JObj data)")
      case True
      then obtain data where d: "?out = Response (JObj data)" by blast
      with assms(1) False have "accept_response w model gen budget data ?s1 = (out, s')"
        by (simp add: attempt_call_def case_prod_beta Let_def)
      from accept_response_calls [OF this] d q show ?thesis by (simp add: same_calls_def)
    next
      case nodata: False
      then have "s' = ?s1" "billed ?out = 0"
        using assms(1) False by (auto simp: attempt_call_def case_prod_beta Let_def billed_def split: TransportOut.splits json.splits)
      then show ?thesis using q by (simp add: same_calls_def)
    qed
    have "positive_limits r \<Longrightarrow> 0 < route_limit r model p" by (auto simp: positive_limits_def route_limit_def split: option.splits)
    then have "positive_limits r \<Longrightarrow> call_in_time r (model, ?limit, ?out)"
      using False by (cases p) (auto simp: call_in_time_def)
    with c assms(2) show ?thesis by (auto simp: accounted_def)
  qed
qed

lemma attempts_accounted:
  "attempts w r deadline pl budget l model p gen attempt left s = (res, s') \<Longrightarrow> accounted r s \<Longrightarrow>
     accounted r s' \<and> length (rn_calls s') \<le> length (rn_calls s) + left"
proof (induction left arbitrary: attempt s)
  case 0
  then show ?case by simp
next
  case (Suc left)
  let ?adm = "if attempt = 0 then (None, s) else retry_admitted w r deadline model gen s"
  have q1: "same_calls s (snd ?adm)" by (simp add: quiet)
  then have a1: "accounted r (snd ?adm)" using Suc.prems(2) by (rule accounted_same)
  show ?case
  proof (cases "fst ?adm")
    case (Some x)
    then have "s' = snd ?adm" using Suc.prems(1) by (simp add: case_prod_beta Let_def del: if_split)
    then show ?thesis using a1 q1 by (simp add: same_calls_def)
  next
    case None
    obtain out s2 where ac: "attempt_call w r deadline pl budget model p gen (snd ?adm) = (out, s2)" by fastforce
    from attempt_call_accounted [OF ac a1] q1
    have a2: "accounted r s2" "length (rn_calls s2) \<le> Suc (length (rn_calls s))" by (auto simp: same_calls_def)
    have fin: ?thesis if "same_calls s2 s'" using accounted_same [OF that a2(1)] a2(2) that by (simp add: same_calls_def)
    show ?thesis
    proof (cases out)
      case (Failure name st ra)
      let ?s3 = "record_failure w model gen st ra (note_trace (failure_entry model name st) (s2\<lparr>rn_status := st\<rparr>))"
      let ?s4 = "snd (ends_route w l model p st ?s3)"
      let ?s5 = "snd (read_clock w ?s4)"
      have q4: "same_calls s2 ?s4"
        by (rule same_calls_trans [OF _ quiet_ends], rule same_calls_trans [OF _ quiet_record]) (intro quiet_after same_calls_refl)
      have q5: "same_calls s2 ?s5" using q4 by (rule quiet_after)
      consider "s' = ?s4" | "s' = ?s5" | "left \<noteq> 0" "attempts w r deadline pl budget l model p gen (Suc attempt) left ?s5 = (res, s')"
        using Suc.prems(1) None ac Failure
        by (fastforce simp: case_prod_beta Let_def simp del: if_split split: if_splits)
      then show ?thesis
      proof cases
        case 3
        from Suc.IH [OF 3(2) accounted_same [OF q5 a2(1)]] a2(2) q5 show ?thesis by (simp add: same_calls_def)
      qed (use fin q4 q5 in simp_all)
    qed (use Suc.prems(1) None ac fin in \<open>auto simp: case_prod_beta Let_def intro!: quiet_after same_calls_refl simp del: if_split split: if_splits\<close>)
  qed
qed

lemma quiet_admit [quiet]: "same_calls s (snd (admit_route w deadline index model s))"
  by (auto simp: admit_route_def Let_def case_prod_beta intro!: quiet_after same_calls_refl)

text \<open>One turn of the loop over the models, by what happens on the route.\<close>

lemma routes_Cons_cases:
  assumes "routes w r deadline pl budget index (model # models) s = (res, s')"
  obtains (stopped) adm where "admit_route w deadline index model s = (adm, s')" "adm = PastDeadline \<or> adm = Saturated"
      "res = NextModel \<or> (\<exists>e. res = Raised e)"
  | (refused) s1 where "admit_route w deadline index model s = (CircuitOpen, s1)"
      "routes w r deadline pl budget (Suc index) models s1 = (res, s')"
  | (failed) s1 s2 s3 p gen where "admit_route w deadline index model s = (Admitted p gen, s1)"
      "attempts w r deadline pl budget (models = []) model p gen 0 (Suc (r_max_retries r)) s1 = (NextModel, s2)"
      "s3 = release_probe w model p gen s2" "routes w r deadline pl budget (Suc index) models s3 = (res, s')"
  | (ended) s1 s2 p gen where "admit_route w deadline index model s = (Admitted p gen, s1)" "res \<noteq> NextModel"
      "attempts w r deadline pl budget (models = []) model p gen 0 (Suc (r_max_retries r)) s1 = (res, s2)" "s' = release_probe w model p gen s2"
proof -
  obtain adm s1 where a: "admit_route w deadline index model s = (adm, s1)" by fastforce
  show ?thesis
  proof (cases adm)
    case PastDeadline
    then show ?thesis using assms a by (intro stopped [of adm]) simp_all
  next
    case Saturated
    then show ?thesis using assms a by (intro stopped [of adm]) auto
  next
    case CircuitOpen
    then show ?thesis using assms a by (intro refused) simp_all
  next
    case (Admitted p gen)
    obtain res2 s2 where t: "attempts w r deadline pl budget (models = []) model p gen 0 (Suc (r_max_retries r)) s1 = (res2, s2)" by fastforce
    show ?thesis
    proof (cases "res2 = NextModel")
      case True
      then show ?thesis using assms a Admitted t by (intro failed [of p gen s1 s2]) (simp_all del: attempts.simps)
    next
      case False
      then show ?thesis using assms a Admitted t by (intro ended [of p gen s1 s2]) (simp_all del: attempts.simps)
    qed
  qed
qed

lemma routes_accounted:
  "routes w r deadline pl budget index models s = (res, s') \<Longrightarrow> accounted r s \<Longrightarrow>
     accounted r s' \<and> length (rn_calls s') \<le> length (rn_calls s) + length models * Suc (r_max_retries r)"
proof (induction models arbitrary: index s)
  case Nil
  then show ?case by simp
next
  case (Cons model models)
  have q: "same_calls s s1" if "admit_route w deadline index model s = (adm, s1)" for adm s1
    using quiet_admit [of s w deadline index model] that by simp
  from Cons.prems(1) show ?case
  proof (cases rule: routes_Cons_cases)
    case (stopped adm)
    from accounted_same [OF q [OF stopped(1)] Cons.prems(2)] q [OF stopped(1)] show ?thesis by (simp add: same_calls_def)
  next
    case (refused s1)
    from Cons.IH [OF refused(2) accounted_same [OF q [OF refused(1)] Cons.prems(2)]] q [OF refused(1)] show ?thesis by (simp add: same_calls_def)
  next
    case (failed s1 s2 s3 p gen)
    from attempts_accounted [OF failed(2) accounted_same [OF q [OF failed(1)] Cons.prems(2)]] q [OF failed(1)]
    have a: "accounted r s2" "length (rn_calls s2) \<le> length (rn_calls s) + Suc (r_max_retries r)" by (auto simp: same_calls_def)
    have q3: "same_calls s2 s3" unfolding failed(3) by (rule quiet)
    from Cons.IH [OF failed(4) accounted_same [OF q3 a(1)]] a(2) q3 show ?thesis by (simp add: same_calls_def)
  next
    case (ended s1 s2 p gen)
    from attempts_accounted [OF ended(3) accounted_same [OF q [OF ended(1)] Cons.prems(2)]] q [OF ended(1)]
    have a: "accounted r s2" "length (rn_calls s2) \<le> length (rn_calls s) + Suc (r_max_retries r)" by (auto simp: same_calls_def)
    have q3: "same_calls s2 s'" unfolding ended(4) by (rule quiet)
    then show ?thesis using accounted_same [OF q3 a(1)] a(2) by (simp add: same_calls_def)
  qed
qed

lemma complete_locked_accounted:
  assumes "complete_locked w r messages options deadline s = (out, st, s')" "accounted r s"
  shows "accounted r s' \<and> length (rn_calls s') \<le> length (rn_calls s) + length (r_models r) * Suc (r_max_retries r)"
proof (cases "check_request messages options")
  case (Inl e)
  then show ?thesis using assms by (simp add: complete_locked_def)
next
  case (Inr plb)
  let ?s1 = "snd (try_lock w s)"
  let ?rt = "routes w r deadline (fst plb) (snd plb) 0 (r_models r) (on_shared (count ''requests'' 1) ?s1)"
  note eq = assms(1) [unfolded complete_locked_def Inr sum.case Let_def case_prod_beta]
  have q1: "same_calls s ?s1" "same_calls s (on_shared (count ''requests'' 1) ?s1)" by (intro quiet_after same_calls_refl)+
  show ?thesis
  proof (cases "fst (try_lock w s)")
    case False
    then have "s' = ?s1" using eq by simp
    then show ?thesis using q1(1) assms(2) by (simp add: accounted_same) (simp add: same_calls_def)
  next
    case True
    have "?rt = (fst ?rt, snd ?rt)" by simp
    from routes_accounted [OF this accounted_same [OF q1(2) assms(2)]] q1(2)
    have a: "accounted r (snd ?rt)" "length (rn_calls (snd ?rt)) \<le> length (rn_calls s) + length (r_models r) * Suc (r_max_retries r)"
      by (auto simp: same_calls_def)
    have "same_calls (snd ?rt) s'" using eq True by (auto intro!: quiet_after same_calls_refl split: if_splits)
    then show ?thesis using a accounted_same by (auto simp: same_calls_def)
  qed
qed

lemma complete_request_cases:
  assumes "complete_request w r messages options = ((out, st), r', s)"
  obtains (saturated) "r_slots r = 0" "r' = r" "s = start_run r" "out = Raised (RouterError ''router saturated: inflight capacity exhausted'')"
  | (refused) e led where "r_slots r \<noteq> 0"
      "l_reserve (w_uuid w) (w_wall w 0) (reservation_estimate messages options) (r_spend r) = (Inl e, led)"
      "r' = r\<lparr>r_spend := led\<rparr>" "s = start_run r" "out = Raised e"
  | (ran) h led now s0 where "r_slots r \<noteq> 0"
      "l_reserve (w_uuid w) (w_wall w 0) (reservation_estimate messages options) (r_spend r) = (Inr h, led)"
      "(now, s0) = read_clock w (start_run r)"
      "complete_locked w (r\<lparr>r_slots := r_slots r - 1\<rparr>) messages options (now + r_total_timeout r) s0 = (out, st, s)"
      "r' = r\<lparr>r_spend := l_settle (w_wall w 1) h (rn_spent s) (w_other_spend w led), r_shared := rn_shared s\<rparr>"
proof (cases "r_slots r = 0")
  case True
  have "complete_request w r messages options = ((Raised (RouterError ''router saturated: inflight capacity exhausted''), None), r, start_run r)"
    unfolding complete_request_def Let_def using True by simp
  then show ?thesis using assms True by (intro saturated) simp_all
next
  case False
  then have slot: "r_slots r - Suc 0 + 1 = r_slots r" by simp
  obtain res led where l: "l_reserve (w_uuid w) (w_wall w 0) (reservation_estimate messages options) (r_spend r) = (res, led)" by fastforce
  show ?thesis
  proof (cases res)
    case (Inl e)
    have "complete_request w r messages options =
        ((Raised e, None), r\<lparr>r_slots := r_slots r - 1\<rparr>\<lparr>r_spend := led, r_slots := r_slots r\<rparr>, start_run r)"
      unfolding complete_request_def Let_def using False l Inl slot by simp
    then have "out = Raised e" "s = start_run r" "r' = r\<lparr>r_spend := led\<rparr>" using assms by (cases r; simp)+
    then show ?thesis using False l Inl by (intro refused) simp_all
  next
    case (Inr h)
    obtain now s0 where c: "(now, s0) = read_clock w (start_run r)" by (metis prod.collapse)
    obtain o1 st1 s1 where cl: "complete_locked w (r\<lparr>r_slots := r_slots r - 1\<rparr>) messages options (now + r_total_timeout r) s0 = (o1, st1, s1)"
      by (metis prod_cases3)
    have "complete_request w r messages options = ((o1, st1), r\<lparr>r_slots := r_slots r - 1\<rparr>
        \<lparr>r_spend := l_settle (w_wall w 1) h (rn_spent s1) (w_other_spend w led), r_slots := r_slots r, r_shared := rn_shared s1\<rparr>, s1)"
      using False l Inr slot cl unfolding complete_request_def Let_def by (simp add: c [symmetric])
    then have "out = o1" "st = st1" "s = s1"
      "r' = r\<lparr>r_spend := l_settle (w_wall w 1) h (rn_spent s1) (w_other_spend w led), r_shared := rn_shared s1\<rparr>"
      using assms by (cases r; simp)+
    then show ?thesis using False l Inr c cl by (intro ran) simp_all
  qed
qed

lemma start_accounted: "accounted r (start_run r')"
  by (simp add: accounted_def start_run_def)

lemma request_accounted:
  assumes "complete_request w r messages options = ((out, st), r', s)"
  shows "accounted r s \<and> length (rn_calls s) \<le> length (r_models r) * Suc (r_max_retries r)"
  using assms
proof (cases rule: complete_request_cases)
  case (ran h led now s0)
  let ?r = "r\<lparr>r_slots := r_slots r - 1\<rparr>"
  have q: "same_calls (start_run r) s0" using quiet_steps(1) [of "start_run r" w] ran(3) by (metis snd_conv)
  from complete_locked_accounted [OF ran(4)] accounted_same [OF q start_accounted] q show ?thesis
    by (simp add: same_calls_def start_run_def)
qed (simp_all add: start_accounted, simp_all add: start_run_def)

text \<open>C17: Every request gives back what it took. Whatever comes of it, a completion, an error or a
  cancellation, the slot is free again; if the ledger refused, nothing was sent; otherwise the
  reservation is settled once, at exactly the tokens the answers of all its calls report, rejected
  answers and retries included.\<close>

theorem request_settled:
  assumes "complete_request w r messages options = ((out, st), r', s)"
  shows "r_slots r' = r_slots r \<and> rn_spent s = (\<Sum>c \<leftarrow> rn_calls s. billed (snd (snd c))) \<and>
    (r_slots r = 0 \<and> r' = r \<and> rn_calls s = [] \<or>
     (\<exists>e led. l_reserve (w_uuid w) (w_wall w 0) (reservation_estimate messages options) (r_spend r) = (Inl e, led) \<and>
        out = Raised e \<and> r_spend r' = led \<and> rn_calls s = []) \<or>
     (\<exists>h led. l_reserve (w_uuid w) (w_wall w 0) (reservation_estimate messages options) (r_spend r) = (Inr h, led) \<and>
        r_spend r' = l_settle (w_wall w 1) h (rn_spent s) (w_other_spend w led)))"
proof -
  have "rn_spent s = (\<Sum>c \<leftarrow> rn_calls s. billed (snd (snd c)))" using request_accounted [OF assms] by (simp add: accounted_def)
  with assms show ?thesis by (cases rule: complete_request_cases) (simp_all add: start_run_def)
qed

section \<open>Configured limits\<close>

lemma parse_timeouts_positive:
  "parse_timeouts models ps d = Ok d' \<Longrightarrow> \<forall>m t. dict_get d m = Some t \<longrightarrow> 0 < t \<Longrightarrow> \<forall>m t. dict_get d' m = Some t \<longrightarrow> 0 < t"
proof (induction ps arbitrary: d)
  case (Cons p ps)
  have "parse_timeouts models ps d = Ok d' \<or> (\<exists>name v. 0 < v \<and> parse_timeouts models ps (dict_set name v d) = Ok d')"
    using Cons.prems(1) unfolding parse_timeouts.simps Let_def
    by (auto simp: not_le simp del: parse_timeouts.simps split: if_splits option.splits)
  then show ?case
  proof (elim disjE exE conjE)
    fix name v assume v: "0 < v" "parse_timeouts models ps (dict_set name v d) = Ok d'"
    have "\<forall>m t. dict_get (dict_set name v d) m = Some t \<longrightarrow> 0 < t" using v(1) Cons.prems(2) by simp
    from Cons.IH [OF v(2) this] show ?thesis .
  next
    assume "parse_timeouts models ps d = Ok d'"
    from Cons.IH [OF this Cons.prems(2)] show ?thesis .
  qed
qed simp

lemma if_Raise_Inr: "(if b then Raise e else x) = Ok y \<longleftrightarrow> \<not> b \<and> x = Ok y"
  by simp

lemma mk_router_Ok:
  assumes "mk_router env rows a = Ok r"
  obtains timeouts led where "parse_timeouts (r_models r) (split_on CHR '','' (strip (getenv env ''MELIOUS_MODEL_TIMEOUTS''))) [] = Ok timeouts"
    "r_models r = choose_models env (ra_models a)" "r_models r \<noteq> []" "r_timeout r = ra_timeout a" "r_max_retries r = nat (ra_max_retries a)"
    "r_total_timeout r = ra_total_timeout a" "r_model_timeouts r = timeouts" "r_slots r = nat (ra_max_inflight a)" "1 \<le> ra_max_inflight a"
    "0 < r_timeout r" "0 < r_probe_timeout r" "0 < r_total_timeout r"
proof -
  from assms obtain timeouts led where
    c: "choose_models env (ra_models a) \<noteq> []" "1 \<le> ra_max_inflight a" "0 < ra_timeout a" "0 < ra_total_timeout a"
      "0 < (case ra_probe_timeout a of Some t \<Rightarrow> t | None \<Rightarrow> max 1 (ra_timeout a / 2))"
    and p: "parse_timeouts (choose_models env (ra_models a)) (split_on CHR '','' (strip (getenv env ''MELIOUS_MODEL_TIMEOUTS''))) [] = Ok timeouts"
    and r: "r_models r = choose_models env (ra_models a)" "r_timeout r = ra_timeout a" "r_max_retries r = nat (ra_max_retries a)"
      "r_total_timeout r = ra_total_timeout a" "r_model_timeouts r = timeouts" "r_slots r = nat (ra_max_inflight a)"
      "r_probe_timeout r = (case ra_probe_timeout a of Some t \<Rightarrow> t | None \<Rightarrow> max 1 (ra_timeout a / 2))"
    unfolding mk_router_def Let_def if_Raise_Inr bind_ok_Inr
    by (elim conjE exE) (drule Inr_inject, hypsubst, auto simp: not_le simp del: split_on.simps)
  show ?thesis by (rule that [of timeouts]) (use c p r in simp_all)
qed

lemma mk_router_positive: "mk_router env rows a = Ok r \<Longrightarrow> positive_limits r"
  by (erule mk_router_Ok) (auto simp: positive_limits_def dest: parse_timeouts_positive)


section \<open>What a completion has passed\<close>

text \<open>The value is the answer to the last call, which passed the checks, with the note of the router added.\<close>

definition answered :: "str list \<Rightarrow> int \<Rightarrow> json \<Rightarrow> Run \<Rightarrow> bool" where
  "answered models budget v s \<longleftrightarrow> (\<exists>model limit data counts tr. model \<in> set models \<and> rn_calls s \<noteq> [] \<and>
     last (rn_calls s) = (model, limit, Response (JObj data)) \<and> usage_counts data = Ok counts \<and> check_response budget counts data = Ok () \<and>
     v = JObj (dict_set ''router'' (router_note model tr) data))"

lemma answered_same: "same_calls s s' \<Longrightarrow> answered models budget v s \<Longrightarrow> answered models budget v s'"
  by (simp add: same_calls_def answered_def)

lemma answered_mono: "set models \<subseteq> set models' \<Longrightarrow> answered models budget v s \<Longrightarrow> answered models' budget v s"
  unfolding answered_def by blast

lemma accept_response_Answer:
  assumes "accept_response w model gen budget data s = (Answer v, s')"
  shows "\<exists>counts tr. usage_counts data = Ok counts \<and> check_response budget counts data = Ok () \<and> v = JObj (dict_set ''router'' (router_note model tr) data)"
proof (cases "usage_counts data")
  case (Inl e)
  then show ?thesis using assms by (simp add: accept_response_def)
next
  case (Inr counts)
  show ?thesis
  proof (cases "check_response budget counts data")
    case (Inl e)
    then show ?thesis using assms Inr by (cases e) (simp_all add: accept_response_def Let_def \<open>usage_counts data = Inr counts\<close>)
  next
    case ok: (Inr u)
    then have "\<exists>tr. v = JObj (dict_set ''router'' (router_note model tr) data)"
      using assms \<open>usage_counts data = Inr counts\<close>
      by (auto simp: accept_response_def Let_def case_prod_beta split: if_splits)
    then show ?thesis using ok \<open>usage_counts data = Inr counts\<close> by simp
  qed
qed

lemma attempt_call_Answer:
  assumes "attempt_call w r deadline pl budget model p gen s = (Answer v, s')"
  shows "answered [model] budget v s'"
proof -
  let ?now = "fst (read_clock w s)" and ?s0 = "snd (read_clock w s)"
  let ?rem = "min (deadline - ?now) (r_total_timeout r)"
  let ?limit = "min ?rem (route_limit r model p)"
  let ?out = "w_transport w (rn_tick ?s0) model pl ?limit"
  let ?s1 = "?s0\<lparr>rn_tick := Suc (rn_tick ?s0), rn_calls := rn_calls ?s0 @ [(model, ?limit, ?out)]\<rparr>"
  note eq = assms [unfolded attempt_call_def case_prod_beta Let_def]
  have "\<not> ?rem \<le> 0" using eq by (auto split: if_splits)
  moreover have "\<exists>data. ?out = Response (JObj data)"
    using eq by (auto split: if_splits TransportOut.splits json.splits)
  then obtain data where d: "?out = Response (JObj data)" by blast
  ultimately have a: "accept_response w model gen budget data ?s1 = (Answer v, s')" using eq by simp
  from accept_response_Answer [OF a] accept_response_calls [OF a] d show ?thesis by (auto simp: answered_def)
qed

lemma attempts_Completed:
  "attempts w r deadline pl budget l model p gen attempt left s = (Completed v, s') \<Longrightarrow> answered [model] budget v s'"
proof (induction left arbitrary: attempt s)
  case (Suc left)
  let ?adm = "if attempt = 0 then (None, s) else retry_admitted w r deadline model gen s"
  note eq = Suc.prems [unfolded attempts.simps Let_def case_prod_beta]
  have n: "fst (retry_admitted w r deadline model gen s) \<noteq> Some (Completed v)"
    by (auto simp: retry_admitted_def Let_def case_prod_beta)
  show ?case
  proof (cases "fst ?adm")
    case (Some x)
    then show ?thesis using eq n by (auto simp del: attempts.simps split: if_splits)
  next
    case None
    obtain out s2 where ac: "attempt_call w r deadline pl budget model p gen (snd ?adm) = (out, s2)" by fastforce
    show ?thesis
    proof (cases out)
      case (Answer v')
      then show ?thesis using eq None ac attempt_call_Answer [of w r deadline pl budget model p gen "snd ?adm" v' s2]
        by (simp del: if_split)
    next
      case (Failure name st ra)
      then show ?thesis using eq None ac Suc.IH by (auto simp del: if_split attempts.simps split: if_splits)
    qed (use eq None ac in \<open>simp_all del: if_split\<close>)
  qed
qed simp

lemma routes_Completed:
  "routes w r deadline pl budget index models s = (Completed v, s') \<Longrightarrow> answered models budget v s'"
proof (induction models arbitrary: index s)
  case (Cons model models)
  from Cons.prems show ?case
  proof (cases rule: routes_Cons_cases)
    case (refused s1)
    from Cons.IH [OF refused(2)] show ?thesis by (rule answered_mono [rotated]) auto
  next
    case (failed s1 s2 s3 p gen)
    from Cons.IH [OF failed(4)] show ?thesis by (rule answered_mono [rotated]) auto
  next
    case (ended s1 s2 p gen)
    have "same_calls s2 s'" unfolding ended(4) by (rule quiet)
    then have "answered [model] budget v s'" by (rule answered_same) (rule attempts_Completed [OF ended(3)])
    then show ?thesis by (rule answered_mono [rotated]) simp
  qed simp
qed simp

lemma check_response_Ok:
  assumes "check_response budget counts data = Ok ()"
  obtains choice message content where "dict_get data ''choices'' = Some (JList [JObj choice])"
    "dict_get choice ''message'' = Some (JObj message)" "dict_get message ''content'' = Some (JStr content)" "strip content \<noteq> []"
    "u_completion counts \<le> budget"
proof -
  from assms obtain c where c: "get_default data ''choices'' JNull = JList [c]" "check_choice c = Ok ()" "u_completion counts \<le> budget"
    by (auto simp: check_response_def bind_ok_Inr length_Suc_conv split: json.splits if_splits)
  from c(2) obtain choice message where m: "c = JObj choice" "get_default choice ''message'' JNull = JObj message"
    by (auto simp: check_choice_def split: json.splits)
  with c(2) have "case get_default message ''content'' JNull of JStr s \<Rightarrow> strip s \<noteq> [] | _ \<Rightarrow> False"
    by (auto simp: check_choice_def split: if_splits)
  then obtain content where "get_default message ''content'' JNull = JStr content" "strip content \<noteq> []"
    by (cases "get_default message ''content'' JNull") auto
  then show ?thesis using c m that by (simp add: get_default_def split: option.splits)
qed

lemma complete_locked_Completed:
  assumes "complete_locked w r messages options deadline s = (Completed v, st, s')"
  shows "\<exists>pl budget. check_request messages options = Ok (pl, budget) \<and> answered (r_models r) budget v s'"
proof (cases "check_request messages options")
  case (Inl e)
  then show ?thesis using assms by (simp add: complete_locked_def)
next
  case (Inr plb)
  let ?rt = "routes w r deadline (fst plb) (snd plb) 0 (r_models r) (on_shared (count ''requests'' 1) (snd (try_lock w s)))"
  have "?rt = (Completed v, s')"
    using assms [unfolded complete_locked_def Inr sum.case Let_def case_prod_beta] by (auto simp: prod_eq_iff split: if_splits)
  from routes_Completed [OF this] Inr show ?thesis by (intro exI [of _ "fst plb"] exI [of _ "snd plb"]) simp
qed

lemma check_request_budget:
  assumes "check_request messages options = Ok (pl, budget)"
  shows "\<exists>key. budget_of options = Ok (key, budget) \<and> 1 \<le> budget \<and> budget \<le> MAX_COMPLETION_TOKENS"
proof -
  from assms obtain key where b: "budget_of options = Ok (key, budget)"
    unfolding check_request_def bind_ok_Inr if_Raise_Inr case_prod_beta Let_def
    by (elim exE conjE) (rename_tac u kb, case_tac kb, simp only: fst_conv snd_conv prod.inject Inr_inject sum.inject)
  from b have "1 \<le> budget \<and> budget \<le> MAX_COMPLETION_TOKENS"
    unfolding budget_of_def Let_def by (auto split: json.splits if_splits)
  with b show ?thesis by blast
qed

text \<open>A completion that is returned has been checked: it is the answer of one of the configured models to
  the last call, has exactly one choice with text that is not blank, reports well-formed token counts
  and no more completion tokens than the budget of the request, which is within the limits of the
  router; the router only adds the model and the chain that led to it.\<close>

theorem completion_checked:
  assumes "complete_request w r messages options = ((Completed v, st), r', s)"
  shows "\<exists>model limit data counts tr choice message content key budget. model \<in> set (r_models r) \<and>
    last (rn_calls s) = (model, limit, Response (JObj data)) \<and> v = JObj (dict_set ''router'' (router_note model tr) data) \<and>
    dict_get data ''choices'' = Some (JList [JObj choice]) \<and> dict_get choice ''message'' = Some (JObj message) \<and>
    dict_get message ''content'' = Some (JStr content) \<and> strip content \<noteq> [] \<and> usage_counts data = Ok counts \<and>
    u_completion counts \<le> budget \<and> budget_of options = Ok (key, budget) \<and> 1 \<le> budget \<and> budget \<le> MAX_COMPLETION_TOKENS"
  using assms
proof (cases rule: complete_request_cases)
  case (ran h led now s0)
  from complete_locked_Completed [OF ran(4)] obtain pl budget where b: "check_request messages options = Ok (pl, budget)"
    and a: "answered (r_models r) budget v s" by auto
  from check_request_budget [OF b] obtain key where key: "budget_of options = Ok (key, budget)" "1 \<le> budget" "budget \<le> MAX_COMPLETION_TOKENS"
    by blast
  from a obtain model limit data counts tr where d: "model \<in> set (r_models r)" "last (rn_calls s) = (model, limit, Response (JObj data))"
    "v = JObj (dict_set ''router'' (router_note model tr) data)" "usage_counts data = Ok counts" "check_response budget counts data = Ok ()"
    unfolding answered_def by (elim exE conjE) (rule that)
  from check_response_Ok [OF d(5)] obtain choice message content where c: "dict_get data ''choices'' = Some (JList [JObj choice])"
    "dict_get choice ''message'' = Some (JObj message)" "dict_get message ''content'' = Some (JStr content)" "strip content \<noteq> []"
    "u_completion counts \<le> budget" .
  show ?thesis
    by (rule exI [of _ model], rule exI [of _ limit], rule exI [of _ data], rule exI [of _ counts], rule exI [of _ tr],
        rule exI [of _ choice], rule exI [of _ message], rule exI [of _ content], rule exI [of _ key], rule exI [of _ budget], intro conjI; fact)
qed simp_all

section \<open>Probes are given back\<close>

text \<open>Other threads may do anything to a breaker except leave a probe of their own behind.\<close>

definition others_release :: "World \<Rightarrow> bool" where
  "others_release w \<longleftrightarrow> (\<forall>n sh m. probing (breaker_of (w_others w n sh) m) \<longrightarrow>
     probing (breaker_of sh m) \<and> generation (breaker_of (w_others w n sh) m) = generation (breaker_of sh m))"

definition leased :: "str \<Rightarrow> bool \<Rightarrow> int \<Rightarrow> Run \<Rightarrow> bool" where
  "leased model p gen s \<longleftrightarrow> (\<forall>m. probing (breaker_of (rn_shared s) m) \<longrightarrow> m = model \<and> p \<and> generation (breaker_of (rn_shared s) m) = gen)"

definition no_probe :: "Shared \<Rightarrow> bool" where
  "no_probe sh \<longleftrightarrow> (\<forall>m. \<not> probing (breaker_of sh m))"

lemma breaker_of_set [simp]: "breaker_of (set_breaker m b sh) m' = (if m' = m then b else breaker_of sh m')"
  by (simp add: breaker_of_def set_breaker_def)

lemma breaker_of_count [simp]: "breaker_of (count k n sh) m = breaker_of sh m"
  by (simp add: breaker_of_def count_def)

lemma breaker_of_cooldown [simp]: "breaker_of (sh\<lparr>sh_cooldown := c\<rparr>) m = breaker_of sh m"
  by (simp add: breaker_of_def)

lemma answer_clears: "probing (cb_success (Some gen) b) \<Longrightarrow> probing b \<and> generation b \<noteq> gen"
  by (simp add: cb_success_def Let_def split: if_splits)

lemma failure_clears: "probing (cb_failure now (Some gen) b) \<Longrightarrow> probing b \<and> generation b \<noteq> gen"
  by (simp add: cb_failure_def Let_def split: if_splits)

lemma leased_cleared:
  assumes "leased model p gen s" "\<And>b. probing (f b) \<Longrightarrow> probing b \<and> generation b \<noteq> gen"
  shows "leased model p gen (on_shared (\<lambda>sh. set_breaker model (f (breaker_of sh model)) sh) s)"
proof -
  have "\<not> probing (f (breaker_of (rn_shared s) model))" using assms by (meson leased_def)
  then show ?thesis using assms(1) by (simp add: leased_def on_shared_def)
qed

lemma leased_steps:
  assumes "others_release w" "leased model p gen s"
  shows "leased model p gen (snd (read_clock w s))" "leased model p gen (enter_lock w s)" "leased model p gen (snd (try_lock w s))"
    "leased model p gen (note_trace t s)" "leased model p gen (s\<lparr>rn_status := st\<rparr>)" "leased model p gen (s\<lparr>rn_spent := n\<rparr>)"
    "leased model p gen (s\<lparr>rn_tick := n', rn_calls := cs\<rparr>)"
    "leased model p gen (on_shared (\<lambda>sh. set_breaker model (cb_success (Some gen) (breaker_of sh model)) sh) s)"
    "leased model p gen (on_shared (\<lambda>sh. set_breaker model (cb_failure now (Some gen) (breaker_of sh model)) sh) s)"
proof -
  show "leased model p gen (snd (read_clock w s))" "leased model p gen (note_trace t s)" "leased model p gen (s\<lparr>rn_status := st\<rparr>)"
    "leased model p gen (s\<lparr>rn_spent := n\<rparr>)" "leased model p gen (s\<lparr>rn_tick := n', rn_calls := cs\<rparr>)"
    using assms(2) by (simp_all add: leased_def read_clock_def note_trace_def)
  show e: "leased model p gen (enter_lock w s)"
    using assms unfolding leased_def others_release_def enter_lock_def by simp metis
  show "leased model p gen (snd (try_lock w s))"
    using e assms(2) by (simp add: try_lock_def) (simp add: leased_def)
  show "leased model p gen (on_shared (\<lambda>sh. set_breaker model (cb_success (Some gen) (breaker_of sh model)) sh) s)"
    by (rule leased_cleared [OF assms(2) answer_clears])
  show "leased model p gen (on_shared (\<lambda>sh. set_breaker model (cb_failure now (Some gen) (breaker_of sh model)) sh) s)"
    by (rule leased_cleared [OF assms(2) failure_clears])
qed

lemma on_shared_same [simp]: "on_shared (\<lambda>sh. sh) s = s"
  by (simp add: on_shared_def)

lemma leased_count [simp]:
  "leased model p gen (on_shared (count k n) s) = leased model p gen s"
  "leased model p gen (on_shared (count_usage c) s) = leased model p gen s"
  "leased model p gen (on_shared (\<lambda>sh. count k n (f sh)) s) = leased model p gen (on_shared f s)"
  "leased model p gen (on_shared (\<lambda>sh. sh\<lparr>sh_cooldown := h sh\<rparr>) s) = leased model p gen s"
  by (simp_all add: leased_def on_shared_def count_usage_def)

lemma leased_record: "others_release w \<Longrightarrow> leased model p gen s \<Longrightarrow> leased model p gen (record_failure w model gen st ra s)"
  by (auto simp: record_failure_def Let_def case_prod_beta intro!: leased_steps)

lemma leased_ends: "others_release w \<Longrightarrow> leased model p gen s \<Longrightarrow> leased model p gen (snd (ends_route w l model q st s))"
  by (auto simp: ends_route_def Let_def intro!: leased_steps)

lemma leased_retry: "others_release w \<Longrightarrow> leased model p gen s \<Longrightarrow> leased model p gen (snd (retry_admitted w r deadline model g s))"
  by (auto simp: retry_admitted_def Let_def case_prod_beta intro!: leased_steps)

lemma leased_accept:
  "others_release w \<Longrightarrow> leased model p gen s \<Longrightarrow> leased model p gen (snd (accept_response w model gen budget data s))"
  by (auto simp: accept_response_def Let_def case_prod_beta intro!: leased_steps split: sum.split py_error.split)

lemma leased_attempt:
  "others_release w \<Longrightarrow> leased model p gen s \<Longrightarrow> leased model p gen (snd (attempt_call w r deadline pl budget model p gen s))"
  by (auto simp: attempt_call_def Let_def case_prod_beta intro!: leased_steps leased_accept split: TransportOut.split json.split)

lemma leased_attempts:
  assumes "others_release w"
  shows "attempts w r deadline pl budget l model p gen attempt left s = (res, s') \<Longrightarrow> leased model p gen s \<Longrightarrow> leased model p gen s'"
proof (induction left arbitrary: attempt s)
  case (Suc left)
  let ?adm = "if attempt = 0 then (None, s) else retry_admitted w r deadline model gen s"
  note eq = Suc.prems(1) [unfolded attempts.simps Let_def case_prod_beta]
  have a1: "leased model p gen (snd ?adm)" using Suc.prems(2) leased_retry [OF assms] by simp
  show ?case
  proof (cases "fst ?adm")
    case (Some x)
    then show ?thesis using eq a1 by (simp del: if_split)
  next
    case None
    obtain out s2 where ac: "attempt_call w r deadline pl budget model p gen (snd ?adm) = (out, s2)" by fastforce
    have a2: "leased model p gen s2" using leased_attempt [OF assms a1, of r deadline pl budget] ac by simp
    show ?thesis
    proof (cases out)
      case (Failure name st ra)
      let ?s3 = "record_failure w model gen st ra (note_trace (failure_entry model name st) (s2\<lparr>rn_status := st\<rparr>))"
      let ?s4 = "snd (ends_route w l model p st ?s3)"
      let ?s5 = "snd (read_clock w ?s4)"
      have a4: "leased model p gen ?s4" by (intro leased_ends leased_record leased_steps [OF assms] a2 assms)
      have a5: "leased model p gen ?s5" by (rule leased_steps(1) [OF assms a4])
      show ?thesis using eq None ac Failure a4 a5 Suc.IH by (auto simp del: if_split attempts.simps split: if_splits)
    next
      case OutOfBudget
      let ?s3 = "snd (try_lock w (note_trace (budget_entry model) s2))"
      have "leased model p gen ?s3" by (intro leased_steps [OF assms] a2)
      then show ?thesis using eq None ac OutOfBudget leased_steps(8) [OF assms] by (auto simp del: if_split split: if_splits)
    qed (use eq None ac a2 in \<open>simp_all del: if_split\<close>)
  qed
qed simp

lemma leased_release: "others_release w \<Longrightarrow> leased model p gen s \<Longrightarrow> no_probe (rn_shared (release_probe w model p gen s))"
proof -
  assume o1: "others_release w" and l: "leased model p gen s"
  have e: "leased model p gen (enter_lock w s)" by (rule leased_steps(2) [OF o1 l])
  let ?b = "breaker_of (rn_shared (enter_lock w s)) model"
  have c: "\<not> probing (cb_failure now (Some gen) ?b)" if "generation ?b = gen" for now using failure_clears that by blast
  show ?thesis
    using l e c unfolding leased_def no_probe_def release_probe_def Let_def case_prod_beta
    by (auto simp: read_clock_def on_shared_def)
qed

lemma admit_leased:
  assumes "others_release w" "no_probe (rn_shared s)" "admit_route w deadline index model s = (adm, s')"
  shows "(case adm of Admitted p gen \<Rightarrow> leased model p gen s' | _ \<Rightarrow> no_probe (rn_shared s'))"
proof -
  have np: "no_probe (rn_shared x) \<longleftrightarrow> leased model False g x" for x g by (simp add: no_probe_def leased_def)
  let ?now = "fst (read_clock w s)" and ?s0 = "snd (read_clock w s)"
  let ?s1 = "snd (try_lock w ?s0)"
  let ?ab = "if ?now \<ge> cooldown_of (rn_shared ?s1) model then cb_allow ?now (breaker_of (rn_shared ?s1) model)
      else (False, breaker_of (rn_shared ?s1) model)"
  let ?s2 = "on_shared (set_breaker model (snd ?ab)) ?s1"
  have s0: "no_probe (rn_shared ?s0)" using assms(2) by (simp add: read_clock_def)
  then have s: "no_probe (rn_shared ?s1)" using leased_steps(3) [OF assms(1), of model False 0 ?s0] unfolding np [of _ 0] by simp
  have b: "fst ?ab \<or> snd ?ab = breaker_of (rn_shared ?s1) model" by (auto simp: cb_allow_def split: option.splits)
  have r: "\<not> fst ?ab \<Longrightarrow> no_probe (rn_shared ?s2)" using b s by (auto simp: no_probe_def on_shared_def)
  have l: "leased model (probing (snd ?ab)) (generation (snd ?ab)) ?s2" using s by (auto simp: leased_def no_probe_def on_shared_def)
  have l': "leased model (probing (snd ?ab)) (generation (snd ?ab)) (snd (try_lock w ?s2))" by (rule leased_steps(3) [OF assms(1) l])
  have t: "no_probe (rn_shared (note_trace x y)) = no_probe (rn_shared y)" for x y by (simp add: note_trace_def)
  note eq = assms(3) [unfolded admit_route_def Let_def case_prod_beta]
  show ?thesis
  proof (cases "?now \<ge> deadline \<or> \<not> fst (try_lock w ?s0) \<or> \<not> fst ?ab")
    case True
    then show ?thesis using eq s0 s r by (auto simp: t split: if_splits)
  next
    case False
    then show ?thesis using eq l l' by (auto split: if_splits)
  qed
qed

lemma routes_no_probe:
  assumes "others_release w"
  shows "routes w r deadline pl budget index models s = (res, s') \<Longrightarrow> no_probe (rn_shared s) \<Longrightarrow> no_probe (rn_shared s')"
proof (induction models arbitrary: index s)
  case (Cons model models)
  note adm = admit_leased [OF assms Cons.prems(2)]
  from Cons.prems(1) show ?case
  proof (cases rule: routes_Cons_cases)
    case (stopped a)
    then show ?thesis using adm [OF stopped(1)] by auto
  next
    case (refused s1)
    from Cons.IH [OF refused(2)] adm [OF refused(1)] show ?thesis by simp
  next
    case (failed s1 s2 s3 p gen)
    have "leased model p gen s2" using leased_attempts [OF assms failed(2)] adm [OF failed(1)] by simp
    then have "no_probe (rn_shared s3)" unfolding failed(3) by (rule leased_release [OF assms])
    from Cons.IH [OF failed(4) this] show ?thesis .
  next
    case (ended s1 s2 p gen)
    have "leased model p gen s2" using leased_attempts [OF assms ended(3)] adm [OF ended(1)] by simp
    then show ?thesis unfolding ended(4) by (rule leased_release [OF assms])
  qed
qed simp

text \<open>A request never strands the probe of a half-open circuit. If no breaker was probing before and the
  other threads leave no probe of theirs behind, then no breaker is probing afterwards, however the
  request ended: with a completion, an exhausted budget, an error on every route, a saturated lock or
  a cancellation in the middle of a call.\<close>

theorem probe_returned:
  assumes "others_release w" "no_probe (r_shared r)" "complete_request w r messages options = ((out, st), r', s)"
  shows "no_probe (r_shared r')"
  using assms(3)
proof (cases rule: complete_request_cases)
  case (ran h led now s0)
  have s0: "no_probe (rn_shared s0)" using ran(3) assms(2) by (simp add: read_clock_def start_run_def)
  have np: "no_probe (rn_shared x) \<longleftrightarrow> leased m False 0 x" for x m by (simp add: no_probe_def leased_def)
  let ?r = "r\<lparr>r_slots := r_slots r - 1\<rparr>"
  have "no_probe (rn_shared s)"
  proof (cases "check_request messages options")
    case (Inl e)
    then show ?thesis using ran(4) s0 by (simp add: complete_locked_def)
  next
    case (Inr plb)
    let ?s1 = "snd (try_lock w s0)"
    let ?rt = "routes w ?r (now + r_total_timeout r) (fst plb) (snd plb) 0 (r_models ?r) (on_shared (count ''requests'' 1) ?s1)"
    have s1: "no_probe (rn_shared ?s1)" "no_probe (rn_shared (on_shared (count ''requests'' 1) ?s1))"
      using s0 leased_steps(3) [OF assms(1)] unfolding np [of _ "[]"] by simp_all
    have rt: "no_probe (rn_shared (snd ?rt))" by (rule routes_no_probe [OF assms(1) _ s1(2)]) (rule prod.collapse [symmetric])
    then have "no_probe (rn_shared (snd (try_lock w (snd ?rt))))"
      "no_probe (rn_shared (on_shared (count ''failures'' 1) (snd (try_lock w (snd ?rt)))))"
      using leased_steps(3) [OF assms(1)] unfolding np [of _ "[]"] by simp_all
    then show ?thesis
      using ran(4) [unfolded complete_locked_def Inr sum.case Let_def case_prod_beta] s1(1) rt by (auto split: if_splits)
  qed
  then show ?thesis using ran(5) by simp
qed (use assms(2) in simp_all)

section \<open>A request that succeeds\<close>

definition sample_args :: RouterArgs where
  "sample_args = \<lparr>ra_models = Some [''m''], ra_base_url = None, ra_timeout = 10, ra_max_retries = 1, ra_acquire_timeout = 5,
     ra_probe_timeout = None, ra_max_inflight = 2, ra_total_timeout = 30, ra_spend_ceiling = Some 9000, ra_spend = None\<rparr>"

definition sample_router :: Router where
  "sample_router = \<lparr>r_models = [''m''], r_base_url = ''https://api.melious.ai/v1'', r_timeout = 10, r_max_retries = 1, r_acquire_timeout = 5,
     r_probe_timeout = 5, r_total_timeout = 30, r_model_timeouts = [], r_slots = 2,
     r_spend = Local \<lparr>sg_ceiling = Some 9000, sg_reserved = 0, sg_committed = 0, sg_refused = 0\<rparr>, r_shared = fresh_shared [''m'']\<rparr>"

definition sample_answer :: jobj where
  "sample_answer = [(''choices'', JList [JObj [(''message'', JObj [(''content'', JStr ''hi'')])]]), (''usage'', JObj [(''total_tokens'', JInt 5)])]"

definition sample_world :: World where
  "sample_world = \<lparr>w_clock = (\<lambda>_. 0), w_lock = (\<lambda>_. True), w_others = (\<lambda>_ sh. sh), w_transport = (\<lambda>_ _ _ _. Response (JObj sample_answer)),
     w_random = (\<lambda>_. 0), w_uuid = ''u'', w_wall = (\<lambda>_. 0), w_other_spend = (\<lambda>l. l)\<rparr>"

definition sample_messages :: json where
  "sample_messages = JList [JObj [(''role'', JStr ''user''), (''content'', JStr ''q'')]]"

definition sample_options :: jobj where
  "sample_options = [(''max_tokens'', JInt 7)]"

definition sample_payload :: jobj where
  "sample_payload = [(''messages'', sample_messages), (''max_tokens'', JInt 7)]"

lemma sample_router_made: "mk_router Map.empty (\<lambda>_. []) sample_args = Ok sample_router"
proof -
  have "choose_models Map.empty (Some [''m'']) = [''m'']" by (simp add: choose_models_def)
  moreover have "parse_timeouts [''m''] (split_on CHR '','' (strip (getenv Map.empty ''MELIOUS_MODEL_TIMEOUTS''))) [] = Ok []"
    by (simp add: getenv_def strip_def rstrip_def lstrip_def)
  moreover have "choose_ledger Map.empty (\<lambda>_. []) (Some 9000) = Ok (Local \<lparr>sg_ceiling = Some 9000, sg_reserved = 0, sg_committed = 0, sg_refused = 0\<rparr>)"
    by (simp add: choose_ledger_def getenv_def strip_def rstrip_def lstrip_def mk_governor_def)
  moreover have "strip_slashes ''https://api.melious.ai/v1'' = ''https://api.melious.ai/v1''" by code_simp
  ultimately show ?thesis by (simp add: mk_router_def sample_args_def sample_router_def Let_def)
qed

lemma sample_request: "check_request sample_messages sample_options = Ok (sample_payload, 7)"
proof -
  have "length (utf8 (dumps plain_unicode (JObj sample_payload))) = 65" by code_simp
  then show ?thesis
    by (simp add: check_request_def check_messages_def sample_messages_def message_ok_def content_of_def content_length_def get_default_def
        budget_of_def MAX_MESSAGES_def MAX_REQUEST_BYTES_def MAX_COMPLETION_TOKENS_def num_val_def sample_payload_def sample_options_def Let_def)
qed

lemma sample_checked: "usage_counts sample_answer = Ok \<lparr>u_prompt = 0, u_completion = 0, u_total = 5, u_reasoning = 0\<rparr>"
  "check_response 7 \<lparr>u_prompt = 0, u_completion = 0, u_total = 5, u_reasoning = 0\<rparr> sample_answer = Ok ()"
  by code_simp+

lemma sample_attempt:
  "attempt_call sample_world r deadline pl 7 model p gen s =
     (let s0 = snd (read_clock sample_world s); rem = min deadline (r_total_timeout r); limit = min rem (route_limit r model p) in
      if rem \<le> 0 then (Failure ''RouterError'' None 0, s0)
      else accept_response sample_world model gen 7 sample_answer
             (s0\<lparr>rn_tick := Suc (rn_tick s0), rn_calls := rn_calls s0 @ [(model, limit, Response (JObj sample_answer))]\<rparr>))"
  by (simp add: attempt_call_def sample_world_def read_clock_def Let_def)

lemma sample_accept: "\<exists>v s'. accept_response sample_world model gen 7 sample_answer s = (Answer v, s')"
  by (simp add: accept_response_def sample_checked Let_def try_lock_def) (simp add: sample_world_def)

lemma sample_completes: "\<exists>v r' s. complete_request sample_world sample_router sample_messages sample_options = ((Completed v, None), r', s)"
proof -
  let ?r = "sample_router\<lparr>r_slots := 1\<rparr>"
  have l: "fst (try_lock sample_world s) = True" for s by (simp add: try_lock_def sample_world_def)
  have c: "fst (read_clock sample_world s) = 0" for s by (simp add: read_clock_def sample_world_def)
  have a: "\<exists>v s'. attempts sample_world ?r 30 sample_payload 7 True ''m'' p gen 0 (Suc 1) s = (Completed v, s')" for p gen s
  proof -
    have "\<exists>v s'. attempt_call sample_world ?r 30 sample_payload 7 ''m'' p gen s = (Answer v, s')"
      unfolding sample_attempt Let_def using sample_accept by (simp add: sample_router_def)
    then show ?thesis by auto
  qed
  have adm: "\<exists>p gen s'. admit_route sample_world 30 0 ''m'' s = (Admitted p gen, s')"
    if "dict_get (sh_breakers (rn_shared s)) ''m'' = Some (mk_breaker 3 15)" "dict_get (sh_cooldown (rn_shared s)) ''m'' = Some 0" for s
    using that
    by (simp add: admit_route_def Let_def case_prod_beta l c cooldown_of_def breaker_of_def)
       (simp add: try_lock_def enter_lock_def read_clock_def sample_world_def cb_allow_def mk_breaker_def)
  have r: "\<exists>v s'. routes sample_world ?r 30 sample_payload 7 0 [''m''] s = (Completed v, s')"
    if start: "dict_get (sh_breakers (rn_shared s)) ''m'' = Some (mk_breaker 3 15)" "dict_get (sh_cooldown (rn_shared s)) ''m'' = Some 0" for s
  proof -
    obtain p gen s1 where "admit_route sample_world 30 0 ''m'' s = (Admitted p gen, s1)" using adm [OF start] by blast
    moreover obtain v s2 where "attempts sample_world ?r 30 sample_payload 7 True ''m'' p gen 0 (Suc 1) s1 = (Completed v, s2)" using a by blast
    ultimately show ?thesis by (simp add: sample_router_def del: attempts.simps)
  qed
  let ?s0 = "snd (read_clock sample_world (start_run sample_router))"
  let ?s1 = "on_shared (count ''requests'' 1) (snd (try_lock sample_world ?s0))"
  have "dict_get (sh_breakers (rn_shared ?s1)) ''m'' = Some (mk_breaker 3 15)" "dict_get (sh_cooldown (rn_shared ?s1)) ''m'' = Some 0"
    by (simp_all add: read_clock_def try_lock_def enter_lock_def start_run_def on_shared_def count_def sample_world_def sample_router_def fresh_shared_def)
  from r [OF this] obtain v s' where rt: "routes sample_world ?r 30 sample_payload 7 0 [''m''] ?s1 = (Completed v, s')" by blast
  have m: "r_models ?r = [''m'']" by (simp add: sample_router_def)
  have "complete_locked sample_world ?r sample_messages sample_options 30 ?s0 = (Completed v, None, s')"
    unfolding complete_locked_def sample_request sum.case Let_def case_prod_beta m fst_conv snd_conv rt by (simp add: l)
  moreover have "l_reserve (w_uuid sample_world) (w_wall sample_world 0) (reservation_estimate sample_messages sample_options) (r_spend sample_router) =
      (Ok (Tokens 8), Local \<lparr>sg_ceiling = Some 9000, sg_reserved = 8, sg_committed = 0, sg_refused = 0\<rparr>)"
    by (simp add: l_reserve_def sample_router_def sg_reserve_def reservation_estimate_def sample_messages_def content_length_def content_of_def
        get_default_def MAX_COMPLETION_TOKENS_def over_ceiling_def sample_options_def)
  ultimately show ?thesis
    unfolding complete_request_def Let_def case_prod_beta by (simp add: c sample_router_def)
qed

theorem request_settled_witness:
  "\<exists>out r' s. complete_request sample_world sample_router sample_messages sample_options = (out, r', s) \<and> r_slots r' = 2 \<and>
     rn_spent s = (\<Sum>c \<leftarrow> rn_calls s. billed (snd (snd c)))"
proof -
  obtain v r' s where c: "complete_request sample_world sample_router sample_messages sample_options = ((Completed v, None), r', s)"
    using sample_completes by blast
  from request_settled [OF c] have "r_slots r' = r_slots sample_router" "rn_spent s = (\<Sum>c \<leftarrow> rn_calls s. billed (snd (snd c)))" by blast+
  with c show ?thesis by (intro exI [of _ "(Completed v, None)"] exI [of _ r'] exI [of _ s]) (simp add: sample_router_def)
qed


theorem completion_checked_witness:
  "\<exists>v st r' s model limit data. complete_request sample_world sample_router sample_messages sample_options = ((Completed v, st), r', s) \<and>
     model \<in> {''m''} \<and> last (rn_calls s) = (model, limit, Response (JObj data))"
proof -
  obtain v r' s where c: "complete_request sample_world sample_router sample_messages sample_options = ((Completed v, None), r', s)"
    using sample_completes by blast
  from completion_checked [OF c] obtain model limit data where "model \<in> set (r_models sample_router)"
    "last (rn_calls s) = (model, limit, Response (JObj data))" by (elim exE conjE) (rule that)
  then have "model \<in> {''m''}" by (simp add: sample_router_def)
  with c \<open>last (rn_calls s) = (model, limit, Response (JObj data))\<close> show ?thesis by (intro exI conjI)
qed

theorem probe_returned_witness:
  "\<exists>out r' s. others_release sample_world \<and> no_probe (r_shared sample_router) \<and>
     complete_request sample_world sample_router sample_messages sample_options = (out, r', s) \<and> no_probe (r_shared r')"
proof -
  obtain v r' s where c: "complete_request sample_world sample_router sample_messages sample_options = ((Completed v, None), r', s)"
    using sample_completes by blast
  have o1: "others_release sample_world" by (simp add: others_release_def sample_world_def)
  have n: "no_probe (r_shared sample_router)"
    by (simp add: no_probe_def breaker_of_def sample_router_def fresh_shared_def mk_breaker_def)
  from probe_returned [OF o1 n c] o1 n c show ?thesis by (intro exI conjI)
qed

end
