(* ===== verification/RedlineOracles.thy ===== *)
theory RedlineOracles
  imports RedlinePipeline
begin

text \<open>
  The oracles a redline run is released through: \<^verbatim>\<open>kairo/oracles/clause_coverage.py\<close>,
  \<^verbatim>\<open>kairo/oracles/no_hallucinated_citation.py\<close> and \<^verbatim>\<open>kairo/oracles/audit_log_integrity.py\<close>, and how
  they compose with the pipeline of \<open>RedlinePipeline\<close>. Results and playbooks hold JSON values, so the
  sets of identifiers follow Python's rules for set members: a list or a dictionary cannot be hashed,
  a boolean equals the number it stands for. \<open>fe\<close> is Python's equality where one side is a
  floating-point number.
\<close>

section \<open>Members of Python sets\<close>

definition set_member :: "json \<Rightarrow> unit result" where
  "set_member v = (case v of JList _ \<Rightarrow> Raise (TypeError ''unhashable type'')
     | JObj _ \<Rightarrow> Raise (TypeError ''unhashable type'') | _ \<Rightarrow> Ok ())"

definition as_int :: "json \<Rightarrow> int option" where
  "as_int v = (case v of JInt i \<Rightarrow> Some i | JBool b \<Rightarrow> Some (if b then 1 else 0) | _ \<Rightarrow> None)"

definition is_float :: "json \<Rightarrow> bool" where
  "is_float v = (case v of JFloat _ \<Rightarrow> True | _ \<Rightarrow> False)"

definition member_eq :: "(json \<Rightarrow> json \<Rightarrow> bool) \<Rightarrow> json \<Rightarrow> json \<Rightarrow> bool" where
  "member_eq fe v w = (case (v, w) of
     (JStr s, JStr t) \<Rightarrow> s = t
   | (JNull, JNull) \<Rightarrow> True
   | _ \<Rightarrow> (case (as_int v, as_int w) of
            (Some i, Some j) \<Rightarrow> i = j
          | (a, b) \<Rightarrow> (is_float v \<or> a \<noteq> None) \<and> (is_float w \<or> b \<noteq> None) \<and> fe v w))"

fun set_of :: "json list \<Rightarrow> json list result" where
  "set_of [] = Ok []"
| "set_of (v # vs) = bind_ok (set_member v) (\<lambda>_. bind_ok (set_of vs) (\<lambda>ws. Ok (v # ws)))"

definition set_has :: "(json \<Rightarrow> json \<Rightarrow> bool) \<Rightarrow> json list \<Rightarrow> json \<Rightarrow> bool result" where
  "set_has fe vs v = bind_ok (set_member v) (\<lambda>_. Ok (list_ex (member_eq fe v) vs))"

section \<open>Clause coverage\<close>

fun missing_clauses ::
  "(json \<Rightarrow> json \<Rightarrow> bool) \<Rightarrow> json list \<Rightarrow> json list \<Rightarrow> json list \<Rightarrow> json list result" where
  "missing_clauses fe edited_ids flagged_ids [] = Ok []"
| "missing_clauses fe edited_ids flagged_ids (JObj c # cs) =
     (let cid = get_default c ''clause_id'' (JStr []) in
      if \<not> json_truthy cid then Raise (AssertionError ''playbook clause missing clause_id'')
      else
        bind_ok (set_has fe edited_ids cid) (\<lambda>e.
        bind_ok (if e then Ok True else set_has fe flagged_ids cid) (\<lambda>known.
        bind_ok (missing_clauses fe edited_ids flagged_ids cs) (\<lambda>ms.
        Ok (if known then ms else cid # ms)))))"
| "missing_clauses fe edited_ids flagged_ids (_ # cs) = Raise (AttributeError ''get'')"

definition verify_clause_coverage ::
  "(json \<Rightarrow> json \<Rightarrow> bool) \<Rightarrow> RedlineResult \<Rightarrow> json list \<Rightarrow> bool result" where
  "verify_clause_coverage fe r playbook_clauses =
     (if playbook_clauses = [] then Raise (AssertionError ''playbook_clauses must be a non-empty list'')
      else
        bind_ok (set_of (map ap_clause_id (rr_applied_edits r))) (\<lambda>edited_ids.
        bind_ok (set_of (map fc_clause_id (rr_flagged_clauses r))) (\<lambda>flagged_ids.
        bind_ok (missing_clauses fe edited_ids flagged_ids playbook_clauses) (\<lambda>missing.
        if missing \<noteq> [] then Raise (AssertionError ''clause_coverage FAILED'') else Ok True))))"

section \<open>Citations\<close>

definition strip_value :: "json \<Rightarrow> str result" where
  "strip_value v = (case v of JStr s \<Rightarrow> Ok (strip s) | _ \<Rightarrow> Raise (AttributeError ''strip''))"

fun valid_citations :: "json list \<Rightarrow> str list result" where
  "valid_citations [] = Ok []"
| "valid_citations (JObj c # cs) =
     (let citation = get_default c ''citation'' (JStr []) in
      if json_truthy citation
      then bind_ok (strip_value citation) (\<lambda>s. bind_ok (valid_citations cs) (\<lambda>ss. Ok (s # ss)))
      else valid_citations cs)"
| "valid_citations (_ # cs) = Raise (AttributeError ''get'')"

fun fake_citations :: "str list \<Rightarrow> AppliedEdit list \<Rightarrow> (json \<times> str) list result" where
  "fake_citations valid [] = Ok []"
| "fake_citations valid (e # es) =
     bind_ok (if json_truthy (ap_citation e) then strip_value (ap_citation e) else Ok []) (\<lambda>citation.
     bind_ok (fake_citations valid es) (\<lambda>fs.
     Ok (if citation \<noteq> [] \<and> citation \<notin> set valid then (ap_clause_id e, citation) # fs else fs)))"

definition verify_no_hallucinated_citation :: "RedlineResult \<Rightarrow> json list \<Rightarrow> bool result" where
  "verify_no_hallucinated_citation r playbook_clauses =
     (if playbook_clauses = [] then Raise (AssertionError ''playbook_clauses must be a non-empty list'')
      else
        bind_ok (valid_citations playbook_clauses) (\<lambda>valid.
        bind_ok (fake_citations valid (rr_applied_edits r)) (\<lambda>fake.
        if fake \<noteq> [] then Raise (AssertionError ''no_hallucinated_citation FAILED'') else Ok True)))"

section \<open>Audit log\<close>

definition verify_audit_log_integrity ::
  "(bytes \<Rightarrow> bytes) \<Rightarrow> Ed25519 \<Rightarrow> LegalEntry list \<Rightarrow> bytes \<Rightarrow> bool result" where
  "verify_audit_log_integrity H cr entries public_key =
     (if entries = [] then Raise (AssertionError ''audit_log_integrity FAILED: entries list is empty'')
      else bind_ok (legal_verify_chain H cr public_key entries) (\<lambda>ok.
        if \<not> ok then Raise (AssertionError ''audit_log_integrity FAILED: chain verification failed'') else Ok True))"

section \<open>What acceptance means\<close>

text \<open>The identifier is a non-empty text, the citation a text or empty: what the schema of a playbook
  asks for.\<close>

definition clause_ok :: "jobj \<Rightarrow> bool" where
  "clause_ok c \<longleftrightarrow> (\<exists>s. get_default c ''clause_id'' (JStr []) = JStr s \<and> s \<noteq> []) \<and>
     (\<exists>s. get_default c ''citation'' (JStr []) = JStr s)"

definition clause_key :: "jobj \<Rightarrow> json" where
  "clause_key c = get_default c ''clause_id'' (JStr [])"

lemma set_of_texts: "(\<forall>v \<in> set vs. \<exists>s. v = JStr s) \<Longrightarrow> set_of vs = Ok vs"
  by (induction vs) (auto simp: set_member_def)

lemma member_eq_JStr [simp]: "member_eq fe (JStr s) v \<longleftrightarrow> v = JStr s"
  by (cases v) (auto simp: member_eq_def as_int_def is_float_def)

lemma set_has_JStr [simp]: "set_has fe vs (JStr s) = Ok (JStr s \<in> set vs)"
  by (auto simp: set_has_def set_member_def list_ex_iff)

lemma missing_clauses_texts:
  "list_all clause_ok ds \<Longrightarrow>
     missing_clauses fe es fs (map JObj ds) = Ok (filter (\<lambda>v. v \<notin> set es \<union> set fs) (map clause_key ds))"
proof (induction ds)
  case (Cons d ds)
  then obtain s where "get_default d ''clause_id'' (JStr []) = JStr s" "s \<noteq> []" by (auto simp: clause_ok_def)
  with Cons show ?case by (simp add: clause_key_def Let_def)
qed simp

lemma coverage_iff:
  assumes "list_all clause_ok ds" "ds \<noteq> []"
    and "\<forall>v \<in> ap_clause_id ` set (rr_applied_edits r) \<union> fc_clause_id ` set (rr_flagged_clauses r). \<exists>s. v = JStr s"
  shows "verify_clause_coverage fe r (map JObj ds) = Ok True \<longleftrightarrow>
    clause_key ` set ds \<subseteq> ap_clause_id ` set (rr_applied_edits r) \<union> fc_clause_id ` set (rr_flagged_clauses r)"
proof -
  have "set_of (map ap_clause_id (rr_applied_edits r)) = Ok (map ap_clause_id (rr_applied_edits r))"
    "set_of (map fc_clause_id (rr_flagged_clauses r)) = Ok (map fc_clause_id (rr_flagged_clauses r))"
    using assms(3) by (intro set_of_texts; auto)+
  then show ?thesis using assms(2)
    by (auto simp: verify_clause_coverage_def missing_clauses_texts [OF assms(1)] filter_empty_conv)
qed

lemma valid_citations_texts:
  "list_all clause_ok ds \<Longrightarrow>
     \<exists>vs. valid_citations (map JObj ds) = Ok vs \<and>
       (\<forall>d \<in> set ds. \<forall>s. get_default d ''citation'' (JStr []) = JStr s \<longrightarrow> s \<noteq> [] \<longrightarrow> strip s \<in> set vs)"
proof (induction ds)
  case (Cons d ds)
  then obtain s where "get_default d ''citation'' (JStr []) = JStr s" by (auto simp: clause_ok_def)
  moreover from Cons obtain vs where "valid_citations (map JObj ds) = Ok vs"
    "\<forall>d \<in> set ds. \<forall>s. get_default d ''citation'' (JStr []) = JStr s \<longrightarrow> s \<noteq> [] \<longrightarrow> strip s \<in> set vs" by auto
  ultimately show ?case by (auto simp: Let_def strip_value_def)
qed simp

lemma fake_citations_none:
  "(\<forall>e \<in> set es. \<exists>s. ap_citation e = JStr s \<and> (s \<noteq> [] \<longrightarrow> strip s \<in> set valid)) \<Longrightarrow> fake_citations valid es = Ok []"
  by (induction es) (auto simp: strip_value_def)

lemma citations_accepted:
  assumes "list_all clause_ok ds" "ds \<noteq> []" "set (rr_applied_edits r) \<subseteq> clause_edit ` set ds"
  shows "verify_no_hallucinated_citation r (map JObj ds) = Ok True"
proof -
  from valid_citations_texts [OF assms(1)] obtain vs where v: "valid_citations (map JObj ds) = Ok vs"
    and m: "\<forall>d \<in> set ds. \<forall>s. get_default d ''citation'' (JStr []) = JStr s \<longrightarrow> s \<noteq> [] \<longrightarrow> strip s \<in> set vs" by blast
  have "fake_citations vs (rr_applied_edits r) = Ok []"
  proof (rule fake_citations_none, rule ballI)
    fix e assume "e \<in> set (rr_applied_edits r)"
    then obtain d where "d \<in> set ds" "e = clause_edit d" using assms(3) by blast
    moreover obtain s where "get_default d ''citation'' (JStr []) = JStr s"
      using assms(1) \<open>d \<in> set ds\<close> by (auto simp: list_all_iff clause_ok_def)
    ultimately show "\<exists>s. ap_citation e = JStr s \<and> (s \<noteq> [] \<longrightarrow> strip s \<in> set vs)"
      using m by (auto simp: clause_edit_def)
  qed
  with v assms(2) show ?thesis by (simp add: verify_no_hallucinated_citation_def)
qed

lemma integrity_iff:
  "verify_audit_log_integrity H cr es pk = Ok True \<longleftrightarrow> es \<noteq> [] \<and> legal_verify_chain H cr pk es = Ok True"
  by (auto simp: verify_audit_log_integrity_def bind_ok_Inr)

section \<open>Composition with the pipeline\<close>

lemma writer_flags_ids:
  "n \<le> length ds \<Longrightarrow> fc_clause_id ` set (writer_flags (map JObj ds) n k) \<subseteq> clause_key ` set ds"
  by (auto simp: writer_flags_def writer_flag_def clause_key_def)

lemma run_nonempty:
  assumes "redline_contract env cp contract pp (Some pbfile) op author key = Ok r" "rr_ok r"
    "load_playbook pbfile = Ok (pb, map JObj ds)"
  shows "ds \<noteq> []"
proof
  assume "ds = []"
  then have "load_playbook pbfile = Ok (pb, [])" using assms(3) by simp
  then show False using assms(1,2)
    by (cases contract) (simp_all add: redline_contract_def Let_def blank_result_def split: prod.splits, auto)
qed

lemma run_edits_and_flags:
  assumes "redline_contract env cp contract pp (Some pbfile) op author key = Ok r" "rr_ok r"
    "load_playbook pbfile = Ok (pb, map JObj ds)"
  shows "set (rr_applied_edits r) \<subseteq> clause_edit ` set ds"
    and "fc_clause_id ` set (rr_flagged_clauses r) \<subseteq> clause_key ` set ds" and "ds \<noteq> []"
    and "(\<forall>es o' a'. int (length es) \<le> wr_applied_count (re_writer env es o' a')) \<Longrightarrow>
      clause_key ` set ds \<subseteq> ap_clause_id ` set (rr_applied_edits r) \<union> fc_clause_id ` set (rr_flagged_clauses r)"
proof -
  from redline_ok [OF assms(1,2)] obtain paras pbf pb' ds' ap fl w where
    l: "Some pbfile = Some pbf" "load_playbook pbf = Ok (pb', map JObj ds')"
    and p: "prepare (re_str env) (join [CHR 0x0A] paras) (map JObj ds') = Ok (ap, fl)"
    and ap: "ap = map clause_edit (filter (located (re_str env) (join [CHR 0x0A] paras)) ds')"
    and w: "w = re_writer env (map (edit_of (re_str env)) ap) op author"
    and r: "rr_applied_edits r = slice_to ap (wr_applied_count w)"
      "rr_flagged_clauses r = fl @ writer_flags (map JObj ds') (length ap) (wr_applied_count w)"
    by metis
  let ?loc = "located (re_str env) (join [CHR 0x0A] paras)"
  have [simp]: "ds' = ds" using l assms(3) by (auto simp: inj_map_eq_map inj_def)
  from prepare_Ok [OF p] obtain es where "map JObj ds = map JObj es"
    and "map fc_clause_id fl = map (\<lambda>c. ap_clause_id (clause_edit c)) (filter (\<lambda>c. \<not> ?loc c) es)" by auto
  then have "map fc_clause_id fl = map clause_key (filter (\<lambda>c. \<not> ?loc c) ds)"
    by (simp add: inj_map_eq_map inj_def clause_key_def clause_edit_def)
  then have f: "fc_clause_id ` set fl = clause_key ` {c \<in> set ds. \<not> ?loc c}" by (metis set_map set_filter)
  show "set (rr_applied_edits r) \<subseteq> clause_edit ` set ds" using r(1) ap in_slice_to by fastforce
  show "fc_clause_id ` set (rr_flagged_clauses r) \<subseteq> clause_key ` set ds"
    using writer_flags_ids [of "length ap" ds] f by (auto simp: r(2) ap image_Un)
  show "ds \<noteq> []" using run_nonempty [OF assms] .
  assume "\<forall>es o' a'. int (length es) \<le> wr_applied_count (re_writer env es o' a')"
  then have "int (length ap) \<le> wr_applied_count w" using w by (metis length_map)
  then have "rr_applied_edits r = ap" by (simp add: r(1) slice_to_def)
  then have "clause_key ` {c \<in> set ds. ?loc c} \<subseteq> ap_clause_id ` set (rr_applied_edits r)"
    by (auto simp: ap clause_key_def clause_edit_def image_image)
  then show "clause_key ` set ds \<subseteq> ap_clause_id ` set (rr_applied_edits r) \<union> fc_clause_id ` set (rr_flagged_clauses r)"
    using f by (auto simp: r(2) image_Un)
qed

lemma run_ids_are_texts:
  assumes "list_all clause_ok ds" "set ae \<subseteq> clause_edit ` set ds" "fc_clause_id ` set fl \<subseteq> clause_key ` set ds"
  shows "\<forall>v \<in> ap_clause_id ` set ae \<union> fc_clause_id ` set fl. \<exists>s. v = JStr s"
proof -
  have "\<exists>s. clause_key d = JStr s" if "d \<in> set ds" for d
    using that assms(1) by (auto simp: list_all_iff clause_ok_def clause_key_def)
  then have k: "\<exists>s. v = JStr s" if "v \<in> clause_key ` set ds" for v using that by auto
  have "ap_clause_id ` set ae \<subseteq> ap_clause_id ` clause_edit ` set ds" by (rule image_mono [OF assms(2)])
  also have "\<dots> = clause_key ` set ds" by (simp add: image_image clause_edit_def clause_key_def)
  finally show ?thesis using assms(3) k by (meson Un_least subsetD)
qed

section \<open>Properties\<close>

text \<open>C34: a signed redline run passes the oracles it is released through. For a playbook that follows
  its schema, the citation oracle accepts every successful run, the audit log the run returns reads
  back to entries the integrity oracle accepts, and the coverage oracle accepts exactly when every
  clause of the playbook is reported as edited or flagged; it does accept when the writer applies
  every edit it is given.\<close>

theorem redline_passes_oracles:
  assumes "redline_contract env cp contract pp (Some pbfile) op author (Some seed) = Ok r" and "rr_ok r"
    and "load_playbook pbfile = Ok (pb, map JObj ds)" and "obj_wf pb" and "list_all obj_wf ds" and "list_all clause_ok ds"
    and "ed25519_correct (re_crypto env)" and "length seed = 32"
  shows "verify_no_hallucinated_citation r (map JObj ds) = Ok True \<and>
    (\<exists>es. entries_from_json (rr_audit_log_json r) = Ok es \<and>
      verify_audit_log_integrity (re_hash env) (re_crypto env) es (pub (re_crypto env) seed) = Ok True) \<and>
    (verify_clause_coverage fe r (map JObj ds) = Ok True \<longleftrightarrow>
      clause_key ` set ds \<subseteq> ap_clause_id ` set (rr_applied_edits r) \<union> fc_clause_id ` set (rr_flagged_clauses r)) \<and>
    ((\<forall>es o' a'. int (length es) \<le> wr_applied_count (re_writer env es o' a')) \<longrightarrow>
      verify_clause_coverage fe r (map JObj ds) = Ok True)"
proof -
  note run = run_edits_and_flags [OF assms(1-3)]
  have cov: "verify_clause_coverage fe r (map JObj ds) = Ok True \<longleftrightarrow>
      clause_key ` set ds \<subseteq> ap_clause_id ` set (rr_applied_edits r) \<union> fc_clause_id ` set (rr_flagged_clauses r)"
    by (rule coverage_iff [OF assms(6) run(3) run_ids_are_texts [OF assms(6) run(1,2)]])
  from redline_audit_recorded [OF assms(1-5,7,8)] obtain es where
    e: "entries_from_json (rr_audit_log_json r) = Ok es"
      "legal_verify_chain (re_hash env) (re_crypto env) (pub (re_crypto env) seed) es = Ok True" and "es \<noteq> []"
    by (elim exE conjE) (rule that, assumption, assumption, auto)
  then have "verify_audit_log_integrity (re_hash env) (re_crypto env) es (pub (re_crypto env) seed) = Ok True"
    by (simp add: integrity_iff)
  then show ?thesis
    using e(1) cov run(4) by (intro conjI impI exI [of _ es] citations_accepted [OF assms(6) run(3,1)]) simp_all
qed

theorem redline_passes_oracles_witness:
  "\<exists>r cs. sample_redline 1 (Some (replicate 32 1)) = Ok r \<and> load_playbook (dumps plain (JObj sample_playbook)) = Ok (sample_playbook, cs) \<and>
     verify_no_hallucinated_citation r cs = Ok True \<and> verify_clause_coverage (=) r cs = Ok True"
proof -
  obtain r where r: "sample_redline 1 (Some (replicate 32 1)) = Ok r" "rr_ok r"
      "map ap_clause_id (rr_applied_edits r) = [JStr ''c2'']" "map fc_clause_id (rr_flagged_clauses r) = [JStr ''c1'']"
    by (simp add: sample_redline_def redline_contract_def sample_playbook_load sample_prepare redline_env_def Let_def slice_to_def
        writer_flags_def del: prepare.simps)
  let ?ds = "[[(''clause_id'', JStr ''c1''), (''match_text'', JStr ''absent''), (''replacement_text'', JStr ''x'')],
      [(''clause_id'', JStr ''c2''), (''match_text'', JStr ''law of A''), (''replacement_text'', JStr ''law of B'')]]"
  have ec: "ed25519_correct (re_crypto (redline_env 1))" by (simp add: ed25519_correct_def redline_env_def echo_scheme_def)
  have l: "load_playbook (dumps plain (JObj sample_playbook)) = Ok (sample_playbook, map JObj ?ds)"
    by (simp add: sample_playbook_load)
  have wf: "obj_wf sample_playbook" "list_all obj_wf ?ds" by (simp_all add: obj_wf_def sample_playbook_def)
  have ok: "list_all clause_ok ?ds" by (simp add: clause_ok_def get_default_def)
  have "clause_key ` set ?ds \<subseteq> ap_clause_id ` set (rr_applied_edits r) \<union> fc_clause_id ` set (rr_flagged_clauses r)"
    using arg_cong [OF r(3), of set] arg_cong [OF r(4), of set] by (simp add: clause_key_def get_default_def)
  with redline_passes_oracles [OF r(1) [unfolded sample_redline_def] r(2) l wf ok ec length_replicate, of "(=)"]
  show ?thesis using r(1) l by (intro exI [of _ r] exI [of _ "map JObj ?ds"]) blast
qed

text \<open>The coverage oracle catches the run in which the writer applied nothing: the pipeline flags the
  clause at the index of the edit, so the clause that was dropped is in neither list.\<close>

lemma coverage_catches_wrong_flag:
  "\<exists>r cs. sample_redline 0 None = Ok r \<and> rr_ok r \<and> load_playbook (dumps plain (JObj sample_playbook)) = Ok (sample_playbook, cs) \<and>
     verify_clause_coverage (=) r cs = Raise (AssertionError ''clause_coverage FAILED'')"
  by (simp add: sample_redline_def redline_contract_def sample_playbook_load sample_prepare redline_env_def Let_def slice_to_def
      writer_flags_def writer_flag_def get_default_def verify_clause_coverage_def set_member_def set_has_def member_eq_def
      del: prepare.simps)

end
