(* ===== verification/Reproducibility.thy ===== *)
theory Reproducibility
  imports AuditLog Receipts "HOL-Library.Multiset"
begin

text \<open>
  \<^verbatim>\<open>kernel/core/reproducibility.py\<close>: the receipt of a run, its construction from the corpus, the
  answers, the refusals and the configuration, and the comparison of two receipts. The hash, the
  identifier and the time stamp of a receipt are parameters, as is the text \<open>fr\<close> Python prints for a
  coordinate. Python's \<^verbatim>\<open>sorted\<close> and \<^verbatim>\<open>list.sort\<close> are stable, as \<open>sort_key\<close> is.
\<close>

section \<open>Receipts\<close>

record ReproducibilityReceipt =
  rc_receipt_id :: str
  rc_created_at :: str
  rc_corpus_hash :: str
  rc_model_id :: str
  rc_model_version :: str
  rc_seed :: int
  rc_result_hash :: str
  rc_answer_count :: int
  rc_refusal_count :: int
  rc_config_hash :: str

definition receipt_to_json :: "ReproducibilityReceipt \<Rightarrow> str" where
  "receipt_to_json r = dumps indent2 (sort_json (JObj
     [(''receipt_id'', JStr (rc_receipt_id r)), (''created_at'', JStr (rc_created_at r)),
      (''corpus_hash'', JStr (rc_corpus_hash r)), (''model_id'', JStr (rc_model_id r)),
      (''model_version'', JStr (rc_model_version r)), (''seed'', JInt (rc_seed r)),
      (''result_hash'', JStr (rc_result_hash r)), (''answer_count'', JInt (rc_answer_count r)),
      (''refusal_count'', JInt (rc_refusal_count r)), (''config_hash'', JStr (rc_config_hash r))]))"

definition receipt_verify ::
  "ReproducibilityReceipt \<Rightarrow> str \<Rightarrow> str \<Rightarrow> str \<Rightarrow> str \<Rightarrow> int \<Rightarrow> str \<Rightarrow> bool" where
  "receipt_verify r ch rh mid mv sd cfg \<longleftrightarrow>
     rc_corpus_hash r = ch \<and> rc_result_hash r = rh \<and> rc_model_id r = mid \<and>
     rc_model_version r = mv \<and> rc_seed r = sd \<and> rc_config_hash r = cfg"

section \<open>Builder\<close>

record ReceiptBuilder =
  rb_model_id :: str
  rb_model_version :: str
  rb_seed :: int
  rb_config :: jobj

definition new_receipt_builder :: "str \<Rightarrow> str \<Rightarrow> int \<Rightarrow> jobj option \<Rightarrow> ReceiptBuilder" where
  "new_receipt_builder mid mv seed config =
     \<lparr>rb_model_id = mid, rb_model_version = mv, rb_seed = seed, rb_config = (case config of None \<Rightarrow> [] | Some c \<Rightarrow> c)\<rparr>"

definition hash_corpus :: "(bytes \<Rightarrow> bytes) \<Rightarrow> str list \<Rightarrow> str" where
  "hash_corpus H corpus_texts = hex (H (utf8 (join [CHR 0x0A] (sort corpus_texts))))"

definition hash_config :: "(bytes \<Rightarrow> bytes) \<Rightarrow> jobj \<Rightarrow> str" where
  "hash_config H config = hex (H (utf8 (dumps compact (sort_json (JObj config)))))"

definition canonical_citation :: "(real \<Rightarrow> str) \<Rightarrow> Anchor \<Rightarrow> jobj" where
  "canonical_citation fr c =
     [(''chunk_id'', JStr (anchor_chunk_id c)),
      (''char_span'', JList [JInt (fst (char_span c)), JInt (snd (char_span c))]),
      (''page'', JInt (anchor_page c))]
     @ (case anchor_bbox c of
          None \<Rightarrow> []
        | Some b \<Rightarrow> [(''bbox'', JList (map (\<lambda>x. JFloat (fr x)) [bx0 b, by0 b, bx1 b, by1 b]))])"

definition canonical_answer :: "(real \<Rightarrow> str) \<Rightarrow> Answer \<Rightarrow> jobj" where
  "canonical_answer fr a =
     [(''query'', JStr (query a)), (''text'', JStr (answer_text a)), (''grounded'', JBool (grounded a)),
      (''refused'', JBool (refused a)), (''citations'', JList (map (\<lambda>c. JObj (canonical_citation fr c)) (citations a)))]"

definition query_of :: "jobj \<Rightarrow> str" where
  "query_of d = (case get_default d ''query'' JNull of JStr s \<Rightarrow> s | _ \<Rightarrow> [])"

definition results_payload :: "(real \<Rightarrow> str) \<Rightarrow> Answer list \<Rightarrow> str list \<Rightarrow> jobj" where
  "results_payload fr answers refusals =
     [(''answers'', JList (map JObj (sort_key query_of (map (canonical_answer fr) answers)))),
      (''refusals'', JList (map JStr (sort refusals)))]"

definition hash_results :: "(real \<Rightarrow> str) \<Rightarrow> (bytes \<Rightarrow> bytes) \<Rightarrow> Answer list \<Rightarrow> str list \<Rightarrow> str" where
  "hash_results fr H answers refusals = hex (H (utf8 (dumps compact (sort_json (JObj (results_payload fr answers refusals))))))"

definition build_receipt ::
  "(real \<Rightarrow> str) \<Rightarrow> (bytes \<Rightarrow> bytes) \<Rightarrow> str \<times> str \<Rightarrow> ReceiptBuilder \<Rightarrow> str list \<Rightarrow> Answer list \<Rightarrow> str list \<Rightarrow> ReproducibilityReceipt" where
  "build_receipt fr H stamp b corpus_texts answers refusals =
     \<lparr>rc_receipt_id = fst stamp, rc_created_at = snd stamp, rc_corpus_hash = hash_corpus H corpus_texts,
      rc_model_id = rb_model_id b, rc_model_version = rb_model_version b, rc_seed = rb_seed b,
      rc_result_hash = hash_results fr H answers refusals, rc_answer_count = int (length answers),
      rc_refusal_count = int (length refusals), rc_config_hash = hash_config H (rb_config b)\<rparr>"

text \<open>\<^verbatim>\<open>random.seed\<close> puts the generator into the state \<open>seeded\<close> gives for the seed; the seed is returned.\<close>

definition pin_seed :: "(int \<Rightarrow> 'g) \<Rightarrow> ReceiptBuilder \<Rightarrow> int \<times> 'g" where
  "pin_seed seeded b = (rb_seed b, seeded (rb_seed b))"

section \<open>Comparison\<close>

definition compare_receipts :: "ReproducibilityReceipt \<Rightarrow> ReproducibilityReceipt \<Rightarrow> (str \<times> bool) list" where
  "compare_receipts r1 r2 =
     [(''corpus_hash'', rc_corpus_hash r1 = rc_corpus_hash r2), (''model_id'', rc_model_id r1 = rc_model_id r2),
      (''model_version'', rc_model_version r1 = rc_model_version r2), (''seed'', rc_seed r1 = rc_seed r2),
      (''result_hash'', rc_result_hash r1 = rc_result_hash r2), (''answer_count'', rc_answer_count r1 = rc_answer_count r2),
      (''refusal_count'', rc_refusal_count r1 = rc_refusal_count r2), (''config_hash'', rc_config_hash r1 = rc_config_hash r2)]"

definition assert_byte_identical :: "ReproducibilityReceipt \<Rightarrow> ReproducibilityReceipt \<Rightarrow> unit result" where
  "assert_byte_identical r1 r2 =
     (let mismatches = filter (\<lambda>p. \<not> snd p) (compare_receipts r1 r2)
      in if mismatches \<noteq> [] then Raise (AssertionError ''Receipts are not byte-identical'') else Ok ())"

section \<open>Stable sorting\<close>

lemma filters_mset: "(\<And>k. filter (\<lambda>x. f x = k) xs = filter (\<lambda>x. f x = k) ys) \<Longrightarrow> mset xs = mset ys"
proof (rule multiset_eqI)
  fix a assume "\<And>k. filter (\<lambda>x. f x = k) xs = filter (\<lambda>x. f x = k) ys"
  then have "count (mset (filter (\<lambda>x. f x = f a) xs)) a = count (mset (filter (\<lambda>x. f x = f a) ys)) a" by simp
  then show "count (mset xs) a = count (mset ys) a" by simp
qed

text \<open>A stable sort identifies exactly the lists that agree on the elements of every key, in order.\<close>

lemma sort_key_eq_iff:
  "sort_key f xs = sort_key f ys \<longleftrightarrow> (\<forall>k. filter (\<lambda>x. f x = k) xs = filter (\<lambda>x. f x = k) ys)"
proof
  assume "sort_key f xs = sort_key f ys"
  then show "\<forall>k. filter (\<lambda>x. f x = k) xs = filter (\<lambda>x. f x = k) ys" by (metis sort_key_stable)
next
  assume a: "\<forall>k. filter (\<lambda>x. f x = k) xs = filter (\<lambda>x. f x = k) ys"
  then have "mset xs = mset ys" by (intro filters_mset [of f]) simp
  moreover have "filter (\<lambda>x. f k = f x) (sort_key f ys) = filter (\<lambda>x. f k = f x) xs" for k
    using a sort_key_stable [of f "f k" ys] by (metis (mono_tags, lifting) filter_cong)
  ultimately show "sort_key f xs = sort_key f ys" by (intro properties_for_sort_key) simp_all
qed

lemma sort_eq_iff: "sort xs = sort ys \<longleftrightarrow> mset xs = mset ys"
  by (metis mset_sort properties_for_sort sorted_sort)

lemma map_eq_transfer:
  assumes "map f xs = map f ys" and "\<And>x y. x \<in> set xs \<Longrightarrow> y \<in> set ys \<Longrightarrow> f x = f y \<Longrightarrow> g x = g y"
  shows "map g xs = map g ys"
  using assms by (induction xs arbitrary: ys) (auto simp: Cons_eq_map_conv)

section \<open>Canonical texts\<close>

lemma canonical_citation_wf: "float_repr_ok fr \<Longrightarrow> json_wf (JObj (canonical_citation fr c))"
  by (auto simp: canonical_citation_def float_repr_ok_def split: option.split)

lemma canonical_answer_wf:
  assumes "float_repr_ok fr"
  shows "json_wf (JObj (canonical_answer fr a))"
  using canonical_citation_wf [OF assms] by (simp add: canonical_answer_def list_all_iff)

lemma results_payload_wf: "float_repr_ok fr \<Longrightarrow> json_wf (JObj (results_payload fr as rs))"
  using canonical_answer_wf [of fr] by (simp add: results_payload_def list_all_iff)

text \<open>Sorting the keys loses nothing of a canonical answer: the canonical dictionaries are built with
  one order of keys.\<close>

lemma canonical_citation_sorted:
  assumes "sort_json (JObj (canonical_citation fr c)) = sort_json (JObj (canonical_citation fr d))"
  shows "canonical_citation fr c = canonical_citation fr d"
proof -
  have "distinct (dict_keys (canonical_citation fr x))" for x by (simp add: canonical_citation_def split: option.split)
  note f = sort_json_obj_get [OF assms this this]
  show ?thesis
    using f [of "''chunk_id''"] f [of "''char_span''"] f [of "''page''"] f [of "''bbox''"]
    by (auto simp: canonical_citation_def split: option.splits)
qed

lemma canonical_answer_sorted:
  assumes "sort_json (JObj (canonical_answer fr a)) = sort_json (JObj (canonical_answer fr b))"
  shows "canonical_answer fr a = canonical_answer fr b"
proof -
  have "distinct (dict_keys (canonical_answer fr x))" for x by (simp add: canonical_answer_def)
  note f = sort_json_obj_get [OF assms this this]
  have "map (\<lambda>c. sort_json (JObj (canonical_citation fr c))) (citations a) = map (\<lambda>c. sort_json (JObj (canonical_citation fr c))) (citations b)"
    using f [of "''citations''"] by (simp add: canonical_answer_def comp_def del: sort_json.simps(2))
  then have "map (canonical_citation fr) (citations a) = map (canonical_citation fr) (citations b)"
    by (rule map_eq_transfer) (rule canonical_citation_sorted)
  then have "map (\<lambda>c. JObj (canonical_citation fr c)) (citations a) = map (\<lambda>c. JObj (canonical_citation fr c)) (citations b)"
    by (metis (no_types, lifting) map_map comp_def map_eq_conv)
  then show ?thesis
    using f [of "''query''"] f [of "''text''"] f [of "''grounded''"] f [of "''refused''"] by (simp add: canonical_answer_def)
qed

lemma query_of_canonical [simp]: "query_of (canonical_answer fr a) = query a"
  by (simp add: query_of_def canonical_answer_def get_default_def)

definition same_results :: "(real \<Rightarrow> str) \<Rightarrow> Answer list \<Rightarrow> str list \<Rightarrow> Answer list \<Rightarrow> str list \<Rightarrow> bool" where
  "same_results fr as rs bs ss \<longleftrightarrow> mset rs = mset ss \<and>
     (\<forall>q. map (canonical_answer fr) (filter (\<lambda>a. query a = q) as) = map (canonical_answer fr) (filter (\<lambda>a. query a = q) bs))"

lemma results_payload_eq_iff:
  "sort_json (JObj (results_payload fr as rs)) = sort_json (JObj (results_payload fr bs ss)) \<longleftrightarrow> same_results fr as rs bs ss"
proof -
  let ?s = "\<lambda>as. sort_key query_of (map (canonical_answer fr) as)"
  have eq: "?s as = ?s bs \<longleftrightarrow> (\<forall>q. map (canonical_answer fr) (filter (\<lambda>a. query a = q) as) = map (canonical_answer fr) (filter (\<lambda>a. query a = q) bs))"
    by (simp add: sort_key_eq_iff filter_map comp_def)
  have inj: "?s as = ?s bs" if "map (\<lambda>d. sort_json (JObj d)) (?s as) = map (\<lambda>d. sort_json (JObj d)) (?s bs)"
    using map_eq_transfer [OF that, of id] canonical_answer_sorted [of fr] by (auto simp del: sort_json.simps)
  show ?thesis
  proof
    assume a: "sort_json (JObj (results_payload fr as rs)) = sort_json (JObj (results_payload fr bs ss))"
    have "distinct (dict_keys (results_payload fr as rs))" for as rs by (simp add: results_payload_def)
    note f = sort_json_obj_get [OF a this this]
    have "?s as = ?s bs" using f [of "''answers''"] by (intro inj) (simp add: results_payload_def comp_def del: sort_json.simps(2))
    moreover have "sort rs = sort ss" using f [of "''refusals''"] by (simp add: results_payload_def comp_def inj_map_eq_map inj_def)
    ultimately show "same_results fr as rs bs ss" by (simp add: same_results_def eq sort_eq_iff)
  next
    assume "same_results fr as rs bs ss"
    then have "?s as = ?s bs" "sort rs = sort ss" unfolding same_results_def eq [symmetric] by (simp_all add: sort_eq_iff)
    then show "sort_json (JObj (results_payload fr as rs)) = sort_json (JObj (results_payload fr bs ss))"
      by (simp add: results_payload_def del: sort_json.simps)
  qed
qed

text \<open>The texts that are hashed, and two different texts with one hash.\<close>

definition corpus_text :: "str list \<Rightarrow> str" where
  "corpus_text cs = join [CHR 0x0A] (sort cs)"

definition config_text :: "jobj \<Rightarrow> str" where
  "config_text c = dumps compact (sort_json (JObj c))"

definition results_text :: "(real \<Rightarrow> str) \<Rightarrow> Answer list \<Rightarrow> str list \<Rightarrow> str" where
  "results_text fr as rs = dumps compact (sort_json (JObj (results_payload fr as rs)))"

definition clash :: "(bytes \<Rightarrow> bytes) \<Rightarrow> str \<Rightarrow> str \<Rightarrow> bool" where
  "clash H s t \<longleftrightarrow> s \<noteq> t \<and> H (utf8 s) = H (utf8 t)"

lemma hashed_texts:
  "hash_corpus H cs = hex (H (utf8 (corpus_text cs)))" "hash_config H c = hex (H (utf8 (config_text c)))"
  "hash_results fr H as rs = hex (H (utf8 (results_text fr as rs)))"
  by (simp_all only: hash_corpus_def hash_config_def hash_results_def corpus_text_def config_text_def results_text_def)

lemma config_text_eq_iff: "obj_wf c \<Longrightarrow> obj_wf d \<Longrightarrow> config_text c = config_text d \<longleftrightarrow> json_eq (JObj c) (JObj d)"
  unfolding config_text_def obj_wf_def by (rule dumps_sorted_inject) simp_all

lemma results_text_eq_iff: "float_repr_ok fr \<Longrightarrow> results_text fr as rs = results_text fr bs ss \<longleftrightarrow> same_results fr as rs bs ss"
  unfolding results_text_def results_payload_eq_iff [symmetric] json_eq_def [symmetric]
  by (rule dumps_sorted_inject) (simp_all only: results_payload_wf style_ok_styles)

definition same_run ::
  "(real \<Rightarrow> str) \<Rightarrow> ReceiptBuilder \<Rightarrow> str list \<Rightarrow> Answer list \<Rightarrow> str list \<Rightarrow> ReceiptBuilder \<Rightarrow> str list \<Rightarrow> Answer list \<Rightarrow> str list \<Rightarrow> bool" where
  "same_run fr b cs as rs b' cs' as' rs' \<longleftrightarrow>
     rb_model_id b = rb_model_id b' \<and> rb_model_version b = rb_model_version b' \<and> rb_seed b = rb_seed b' \<and>
     json_eq (JObj (rb_config b)) (JObj (rb_config b')) \<and>
     corpus_text cs = corpus_text cs' \<and> same_results fr as rs as' rs'"

lemma same_results_counts: "same_results fr as rs bs ss \<Longrightarrow> length as = length bs \<and> length rs = length ss"
proof -
  assume a: "same_results fr as rs bs ss"
  then have "mset (map (canonical_answer fr) as) = mset (map (canonical_answer fr) bs)"
    by (intro filters_mset [of query_of]) (simp add: same_results_def filter_map comp_def)
  from mset_eq_length [OF this] show ?thesis using a by (auto simp: same_results_def dest: mset_eq_length)
qed

lemma identical_iff:
  "assert_byte_identical r1 r2 = Ok () \<longleftrightarrow>
     rc_corpus_hash r1 = rc_corpus_hash r2 \<and> rc_model_id r1 = rc_model_id r2 \<and> rc_model_version r1 = rc_model_version r2 \<and>
     rc_seed r1 = rc_seed r2 \<and> rc_result_hash r1 = rc_result_hash r2 \<and> rc_answer_count r1 = rc_answer_count r2 \<and>
     rc_refusal_count r1 = rc_refusal_count r2 \<and> rc_config_hash r1 = rc_config_hash r2"
  by (simp add: assert_byte_identical_def compare_receipts_def)

section \<open>Properties\<close>


definition sample_answer :: "str \<Rightarrow> Answer" where
  "sample_answer q = \<lparr>answer_id = [], query = q, answer_text = ''t'', citations = [\<lparr>anchor_chunk_id = ''c'', char_span = (0, 1),
     anchor_page = 1, anchor_bbox = None\<rparr>], grounded = True, refused = False, refusal_stage = [], refusal_reason = [],
     refusal_suggestion = []\<rparr>"

definition sample_builder :: "jobj \<Rightarrow> ReceiptBuilder" where
  "sample_builder cfg = new_receipt_builder ''m'' ''v'' 42 (Some cfg)"


text \<open>The joined corpus forgets where one text ends: two texts and the one text made of both with a
  line break between them have the same corpus hash.\<close>

lemma corpus_boundaries_lost: "hash_corpus H [''a'', ''b''] = hash_corpus H [''a'' @ [CHR 0x0A] @ ''b'']"
  by (simp add: hash_corpus_def join_def)

end
