(* ===== verification/Regex.thy ===== *)
theory Regex
  imports PyStr
begin

text \<open>
  Python's \<^verbatim>\<open>re\<close> module for the patterns the security filter is made of: character classes,
  sequences, ordered alternatives, greedy and lazy repetition, \<^verbatim>\<open>\b\<close> and \<^verbatim>\<open>$\<close>. A position in a
  text is the pair of the text before it, reversed, and the text after it. \<open>ends\<close> lists where a match
  that starts at a position can end, in the order the backtracking matcher tries them, so its head is
  the match Python reports; \<open>matches\<close> is the relation a pattern denotes, and \<open>ends_iff\<close> shows that
  the two agree. On a pattern without \<^verbatim>\<open>\b\<close> and \<^verbatim>\<open>$\<close> the relation is the language of the pattern.
\<close>

section \<open>Patterns and what they denote\<close>

type_synonym pos = "str \<times> str"

datatype rx =
    Eps
  | Ch "char \<Rightarrow> bool"
  | Seq rx rx
  | Alt rx rx
  | Star rx
  | LazyStar rx
  | Edge
  | AtEnd

definition word_before :: "str \<Rightarrow> bool" where
  "word_before s = (case s of [] \<Rightarrow> False | c # _ \<Rightarrow> is_word c)"

text \<open>\<^verbatim>\<open>\b\<close>: exactly one of the two neighbours is a word character.\<close>

definition at_edge :: "pos \<Rightarrow> bool" where
  "at_edge z \<longleftrightarrow> word_before (fst z) \<noteq> word_before (snd z)"

text \<open>\<^verbatim>\<open>$\<close>: the end of the text or before the line break that ends it.\<close>

definition at_end :: "pos \<Rightarrow> bool" where
  "at_end z \<longleftrightarrow> snd z = [] \<or> snd z = [CHR 0x0A]"

definition reads :: "(char \<Rightarrow> bool) \<Rightarrow> pos \<Rightarrow> pos \<Rightarrow> bool" where
  "reads p z z' \<longleftrightarrow> (\<exists>c s. snd z = c # s \<and> p c \<and> z' = (c # fst z, s))"

primrec matches :: "rx \<Rightarrow> pos \<Rightarrow> pos \<Rightarrow> bool" where
  "matches Eps = (=)"
| "matches (Ch p) = reads p"
| "matches (Seq r s) = matches r OO matches s"
| "matches (Alt r s) = (\<lambda>z z'. matches r z z' \<or> matches s z z')"
| "matches (Star r) = (matches r)\<^sup>*\<^sup>*"
| "matches (LazyStar r) = (matches r)\<^sup>*\<^sup>*"
| "matches Edge = (\<lambda>z z'. z = z' \<and> at_edge z)"
| "matches AtEnd = (\<lambda>z z'. z = z' \<and> at_end z)"

section \<open>The matcher\<close>

function star_ends :: "(pos \<Rightarrow> pos list) \<Rightarrow> pos \<Rightarrow> pos list" where
  "star_ends f z = concat (map (\<lambda>z'. if length (snd z') < length (snd z) then star_ends f z' else []) (f z)) @ [z]"
  by pat_completeness auto
termination
  by (relation "measure (\<lambda>(f, z). length (snd z))") auto

function lazy_ends :: "(pos \<Rightarrow> pos list) \<Rightarrow> pos \<Rightarrow> pos list" where
  "lazy_ends f z = z # concat (map (\<lambda>z'. if length (snd z') < length (snd z) then lazy_ends f z' else []) (f z))"
  by pat_completeness auto
termination
  by (relation "measure (\<lambda>(f, z). length (snd z))") auto

declare star_ends.simps [simp del] lazy_ends.simps [simp del]

primrec ends :: "rx \<Rightarrow> pos \<Rightarrow> pos list" where
  "ends Eps = (\<lambda>z. [z])"
| "ends (Ch p) = (\<lambda>z. case snd z of [] \<Rightarrow> [] | c # s \<Rightarrow> if p c then [(c # fst z, s)] else [])"
| "ends (Seq r s) = (\<lambda>z. concat (map (ends s) (ends r z)))"
| "ends (Alt r s) = (\<lambda>z. ends r z @ ends s z)"
| "ends (Star r) = star_ends (ends r)"
| "ends (LazyStar r) = lazy_ends (ends r)"
| "ends Edge = (\<lambda>z. if at_edge z then [z] else [])"
| "ends AtEnd = (\<lambda>z. if at_end z then [z] else [])"

fun search_from :: "rx \<Rightarrow> str \<Rightarrow> str \<Rightarrow> bool" where
  "search_from r b [] = (ends r (b, []) \<noteq> [])"
| "search_from r b (c # s) = (ends r (b, c # s) \<noteq> [] \<or> search_from r (c # b) s)"

definition re_search :: "rx \<Rightarrow> str \<Rightarrow> bool" where
  "re_search r s = search_from r [] s"

text \<open>The successive matches of \<^verbatim>\<open>findall\<close> and \<^verbatim>\<open>sub\<close> from left to right, and the characters between
  them. Only patterns that never match the empty text are used here; an empty match is passed over.\<close>

datatype piece = Gap char | Hit str

definition first_end :: "rx \<Rightarrow> str \<Rightarrow> str \<Rightarrow> pos option" where
  "first_end r b s = (case ends r (b, s) of [] \<Rightarrow> None | z # _ \<Rightarrow> if length (snd z) < length s then Some z else None)"

function pieces :: "rx \<Rightarrow> str \<Rightarrow> str \<Rightarrow> piece list" where
  "pieces r b s = (case first_end r b s of
     Some z \<Rightarrow> Hit (take (length s - length (snd z)) s) # pieces r (fst z) (snd z)
   | None \<Rightarrow> (case s of [] \<Rightarrow> [] | c # t \<Rightarrow> Gap c # pieces r (c # b) t))"
  by pat_completeness auto
termination
  by (relation "measure (\<lambda>(r, b, s). length s)") (auto simp: first_end_def split: list.splits if_splits)

declare pieces.simps [simp del]

definition re_findall :: "rx \<Rightarrow> str \<Rightarrow> str list" where
  "re_findall r s = concat (map (\<lambda>p. case p of Gap _ \<Rightarrow> [] | Hit w \<Rightarrow> [w]) (pieces r [] s))"

definition re_sub :: "rx \<Rightarrow> str \<Rightarrow> str \<Rightarrow> str" where
  "re_sub r repl s = concat (map (\<lambda>p. case p of Gap c \<Rightarrow> [c] | Hit _ \<Rightarrow> repl) (pieces r [] s))"

text \<open>\<^verbatim>\<open>split\<close> for a pattern without groups; the part being read is kept reversed.\<close>

fun split_pieces :: "str \<Rightarrow> piece list \<Rightarrow> str list" where
  "split_pieces acc [] = [rev acc]"
| "split_pieces acc (Gap c # ps) = split_pieces (c # acc) ps"
| "split_pieces acc (Hit w # ps) = rev acc # split_pieces [] ps"

definition re_split :: "rx \<Rightarrow> str \<Rightarrow> str list" where
  "re_split r s = split_pieces [] (pieces r [] s)"

section \<open>Building patterns\<close>

definition seqs :: "rx list \<Rightarrow> rx" where
  "seqs rs = foldr Seq rs Eps"

fun alts :: "rx list \<Rightarrow> rx" where
  "alts [] = Ch (\<lambda>_. False)"
| "alts [r] = r"
| "alts (r # rs) = Alt r (alts rs)"

text \<open>Letters without regard to case; an optional part; one or more; between m and n times.\<close>

definition ci :: "str \<Rightarrow> rx" where
  "ci s = seqs (map (\<lambda>c. Ch (\<lambda>d. lower_char d = lower_char c)) s)"

definition opt :: "rx \<Rightarrow> rx" where
  "opt r = Alt r Eps"

definition plus :: "rx \<Rightarrow> rx" where
  "plus r = Seq r (Star r)"

fun upto_times :: "nat \<Rightarrow> rx \<Rightarrow> rx" where
  "upto_times 0 r = Eps"
| "upto_times (Suc n) r = opt (Seq r (upto_times n r))"

definition times :: "nat \<Rightarrow> rx \<Rightarrow> rx" where
  "times n r = seqs (replicate n r)"

definition ch :: "str \<Rightarrow> rx" where
  "ch cs = Ch (\<lambda>c. c \<in> set cs)"

abbreviation ws :: rx where "ws \<equiv> plus (Ch is_space)"
abbreviation ws0 :: rx where "ws0 \<equiv> Star (Ch is_space)"

definition dot :: rx where
  "dot = Ch (\<lambda>c. c \<noteq> CHR 0x0A)"

definition dot_all :: rx where
  "dot_all = Ch (\<lambda>_. True)"

text \<open>A word followed by white space, as in \<^verbatim>\<open>all\s+\<close>, and the first of several such words.\<close>

definition wsp :: "str \<Rightarrow> rx" where
  "wsp s = Seq (ci s) ws"

definition words :: "str list \<Rightarrow> rx" where
  "words ss = alts (map ci ss)"

definition words_wsp :: "str list \<Rightarrow> rx" where
  "words_wsp ss = alts (map wsp ss)"

text \<open>A word with an optional last letter, as in \<^verbatim>\<open>prompts?\<close>.\<close>

definition ci_s :: "str \<Rightarrow> rx" where
  "ci_s s = Seq (ci s) (opt (ci ''s''))"

definition between :: "char \<Rightarrow> char \<Rightarrow> char \<Rightarrow> bool" where
  "between a b c \<longleftrightarrow> (of_char a :: nat) \<le> of_char c \<and> (of_char c :: nat) \<le> of_char b"

definition upper_az :: "char \<Rightarrow> bool" where
  "upper_az = between CHR ''A'' CHR ''Z''"

definition lower_az :: "char \<Rightarrow> bool" where
  "lower_az = between CHR ''a'' CHR ''z''"

definition alnum_ascii :: "char \<Rightarrow> bool" where
  "alnum_ascii c \<longleftrightarrow> upper_az c \<or> lower_az c \<or> is_digit c"

section \<open>The matcher computes the relation\<close>

declare split_paired_All [simp del] split_paired_Ex [simp del]

definition moved :: "pos \<Rightarrow> str \<Rightarrow> pos \<Rightarrow> bool" where
  "moved z w z' \<longleftrightarrow> snd z = w @ snd z' \<and> fst z' = rev w @ fst z"

lemma moved_Nil [simp]: "moved z [] z' \<longleftrightarrow> z' = z"
  by (auto simp: moved_def prod_eq_iff)

lemma moved_append: "moved z (v @ w) z' \<longleftrightarrow> (\<exists>y. moved z v y \<and> moved y w z')"
proof
  assume "moved z (v @ w) z'"
  then show "\<exists>y. moved z v y \<and> moved y w z'" by (intro exI [of _ "(rev v @ fst z, w @ snd z')"]) (simp add: moved_def)
qed (auto simp: moved_def)

lemma moved_trans: "moved z v y \<Longrightarrow> moved y w z' \<Longrightarrow> moved z (v @ w) z'"
  by (simp add: moved_def)

lemma moved_refl [simp]: "\<exists>w. moved z w z"
  by (rule exI [of _ "[]"]) simp

lemma moved_length: "moved z w z' \<Longrightarrow> length (snd z) = length w + length (snd z')"
  by (simp add: moved_def)

lemma reads_moved: "reads p z z' \<longleftrightarrow> (\<exists>c. p c \<and> moved z [c] z')"
  by (cases z; cases z') (auto simp: reads_def moved_def)

definition advances :: "(pos \<Rightarrow> pos \<Rightarrow> bool) \<Rightarrow> bool" where
  "advances R \<longleftrightarrow> (\<forall>z z'. R z z' \<longrightarrow> (\<exists>w. moved z w z'))"

lemma advances_star: "advances R \<Longrightarrow> advances R\<^sup>*\<^sup>*"
proof -
  assume a: "advances R"
  have "R\<^sup>*\<^sup>* z z' \<Longrightarrow> \<exists>w. moved z w z'" for z z'
  proof (induction rule: rtranclp_induct)
    case (step y z')
    then obtain v w where "moved z v y" "moved y w z'" using a unfolding advances_def by blast
    then have "moved z (v @ w) z'" by (rule moved_trans)
    then show ?case ..
  qed simp
  then show ?thesis by (simp add: advances_def)
qed

lemma advances_matches: "advances (matches r)"
proof (induction r)
  case (Seq r s)
  then show ?case unfolding advances_def by (metis matches.simps(3) moved_trans relcomppE)
qed (auto simp: reads_moved simp flip: advances_def intro: advances_star, auto simp: advances_def reads_moved)

lemma matches_moved: "matches r z z' \<Longrightarrow> \<exists>w. moved z w z'"
  using advances_matches [of r] unfolding advances_def by blast

text \<open>An iteration that reads nothing stays where it is, so the matcher may skip it.\<close>

lemma star_skip:
  assumes "advances R"
    and g: "\<And>z y. y \<in> set (g z) \<longleftrightarrow> (\<exists>x. R z x \<and> length (snd x) < length (snd z) \<and> y \<in> set (g x)) \<or> y = z"
  shows "y \<in> set (g z) \<longleftrightarrow> R\<^sup>*\<^sup>* z y"
proof
  show "y \<in> set (g z) \<Longrightarrow> R\<^sup>*\<^sup>* z y"
  proof (induction "length (snd z)" arbitrary: z rule: less_induct)
    case less
    then consider "y = z" | x where "R z x" "length (snd x) < length (snd z)" "y \<in> set (g x)" using g [of y z] by blast
    then show ?case by cases (use less(1) in \<open>auto intro: converse_rtranclp_into_rtranclp\<close>)
  qed
next
  assume "R\<^sup>*\<^sup>* z y"
  then show "y \<in> set (g z)"
  proof (induction rule: converse_rtranclp_induct)
    case base
    then show ?case using g [of y y] by blast
  next
    case (step u v)
    from assms(1) step(1) obtain w where w: "moved u w v" unfolding advances_def by blast
    show ?case
    proof (cases w)
      case Nil
      with w step show ?thesis by simp
    next
      case (Cons c w')
      then have "length (snd v) < length (snd u)" using moved_length [OF w] by simp
      with step show ?thesis using g [of y u] by blast
    qed
  qed
qed

lemma star_ends_unfold:
  "y \<in> set (star_ends f z) \<longleftrightarrow> (\<exists>x. x \<in> set (f z) \<and> length (snd x) < length (snd z) \<and> y \<in> set (star_ends f x)) \<or> y = z"
  by (subst star_ends.simps) (auto split: if_splits)

lemma lazy_ends_unfold:
  "y \<in> set (lazy_ends f z) \<longleftrightarrow> (\<exists>x. x \<in> set (f z) \<and> length (snd x) < length (snd z) \<and> y \<in> set (lazy_ends f x)) \<or> y = z"
  by (subst lazy_ends.simps) (auto split: if_splits)

lemma star_ends_iff:
  assumes "advances R" "\<And>z y. y \<in> set (f z) \<longleftrightarrow> R z y"
  shows "y \<in> set (star_ends f z) \<longleftrightarrow> R\<^sup>*\<^sup>* z y" and "y \<in> set (lazy_ends f z) \<longleftrightarrow> R\<^sup>*\<^sup>* z y"
proof -
  show "y \<in> set (star_ends f z) \<longleftrightarrow> R\<^sup>*\<^sup>* z y"
    by (rule star_skip [OF assms(1)]) (subst star_ends_unfold, simp only: assms(2))
  show "y \<in> set (lazy_ends f z) \<longleftrightarrow> R\<^sup>*\<^sup>* z y"
    by (rule star_skip [OF assms(1)]) (subst lazy_ends_unfold, simp only: assms(2))
qed

lemma ends_iff: "z' \<in> set (ends r z) \<longleftrightarrow> matches r z z'"
proof (induction r arbitrary: z z')
  case (Ch p)
  then show ?case by (auto simp: reads_def split: list.split)
next
  case (Seq r s)
  show ?case by (auto simp: relcompp_apply Seq.IH)
next
  case (Star r)
  then show ?case by (simp add: star_ends_iff [OF advances_matches])
next
  case (LazyStar r)
  then show ?case by (simp add: star_ends_iff [OF advances_matches])
qed auto

lemma ends_Nil_iff: "ends r z = [] \<longleftrightarrow> (\<forall>z'. \<not> matches r z z')"
  by (metis ends_iff list.set_intros(1) neq_Nil_conv empty_iff list.set(1))

section \<open>Searching\<close>

text \<open>The pattern matches somewhere in the text.\<close>

definition occurs :: "rx \<Rightarrow> str \<Rightarrow> bool" where
  "occurs r s \<longleftrightarrow> (\<exists>x y z'. s = x @ y \<and> matches r (rev x, y) z')"

lemma search_from_iff: "search_from r b s \<longleftrightarrow> (\<exists>x y z'. s = x @ y \<and> matches r (rev x @ b, y) z')"
proof (induction r b s rule: search_from.induct)
  case (2 r b c s)
  have "(\<exists>x y z'. c # s = x @ y \<and> matches r (rev x @ b, y) z') \<longleftrightarrow>
      (\<exists>z'. matches r (b, c # s) z') \<or> (\<exists>x y z'. s = x @ y \<and> matches r (rev x @ c # b, y) z')"
  proof (intro iffI)
    assume "\<exists>x y z'. c # s = x @ y \<and> matches r (rev x @ b, y) z'"
    then obtain x y z' where x: "c # s = x @ y" "matches r (rev x @ b, y) z'" by blast
    then show "(\<exists>z'. matches r (b, c # s) z') \<or> (\<exists>x y z'. s = x @ y \<and> matches r (rev x @ c # b, y) z')"
      by (cases x) auto
  next
    assume "(\<exists>z'. matches r (b, c # s) z') \<or> (\<exists>x y z'. s = x @ y \<and> matches r (rev x @ c # b, y) z')"
    then consider z' where "matches r (b, c # s) z'" | x y z' where "s = x @ y" "matches r (rev x @ c # b, y) z'" by blast
    then show "\<exists>x y z'. c # s = x @ y \<and> matches r (rev x @ b, y) z'"
    proof cases
      case 1
      then show ?thesis by (intro exI [of _ "[]"] exI [of _ "c # s"] exI [of _ z']) simp
    next
      case 2
      then show ?thesis by (intro exI [of _ "c # x"] exI [of _ y] exI [of _ z']) simp
    qed
  qed
  with 2 show ?case by (simp add: ends_Nil_iff)
qed (simp add: ends_Nil_iff)

lemma re_search_iff: "re_search r s \<longleftrightarrow> occurs r s"
  by (simp add: re_search_def occurs_def search_from_iff)

section \<open>Patterns without anchors\<close>

primrec anchor_free :: "rx \<Rightarrow> bool" where
  "anchor_free Eps \<longleftrightarrow> True"
| "anchor_free (Ch p) \<longleftrightarrow> True"
| "anchor_free (Seq r s) \<longleftrightarrow> anchor_free r \<and> anchor_free s"
| "anchor_free (Alt r s) \<longleftrightarrow> anchor_free r \<and> anchor_free s"
| "anchor_free (Star r) \<longleftrightarrow> anchor_free r"
| "anchor_free (LazyStar r) \<longleftrightarrow> anchor_free r"
| "anchor_free Edge \<longleftrightarrow> False"
| "anchor_free AtEnd \<longleftrightarrow> False"

inductive_set kleene :: "str set \<Rightarrow> str set" for A where
  kleene_Nil: "[] \<in> kleene A"
| kleene_step: "v \<in> A \<Longrightarrow> w \<in> kleene A \<Longrightarrow> v @ w \<in> kleene A"

primrec lang :: "rx \<Rightarrow> str set" where
  "lang Eps = {[]}"
| "lang (Ch p) = {[c] | c. p c}"
| "lang (Seq r s) = {v @ w | v w. v \<in> lang r \<and> w \<in> lang s}"
| "lang (Alt r s) = lang r \<union> lang s"
| "lang (Star r) = kleene (lang r)"
| "lang (LazyStar r) = kleene (lang r)"
| "lang Edge = {}"
| "lang AtEnd = {}"

lemma star_lang:
  assumes "\<And>z z'. R z z' \<longleftrightarrow> (\<exists>w \<in> A. moved z w z')"
  shows "R\<^sup>*\<^sup>* z z' \<longleftrightarrow> (\<exists>w \<in> kleene A. moved z w z')"
proof
  assume "R\<^sup>*\<^sup>* z z'"
  then show "\<exists>w \<in> kleene A. moved z w z'"
  proof (induction rule: converse_rtranclp_induct)
    case base
    show ?case by (rule bexI [OF _ kleene_Nil]) simp
  next
    case (step y x)
    then obtain v w where "v \<in> A" "moved y v x" "w \<in> kleene A" "moved x w z'" using assms by blast
    then show ?case using kleene_step moved_trans by blast
  qed
next
  assume "\<exists>w \<in> kleene A. moved z w z'"
  then obtain w where "w \<in> kleene A" "moved z w z'" by blast
  then show "R\<^sup>*\<^sup>* z z'"
  proof (induction arbitrary: z rule: kleene.induct)
    case (kleene_step v w)
    then obtain y where "moved z v y" "moved y w z'" using moved_append by blast
    then show ?case using kleene_step assms by (meson converse_rtranclp_into_rtranclp)
  qed simp
qed

lemma matches_lang: "anchor_free r \<Longrightarrow> matches r z z' \<longleftrightarrow> (\<exists>w \<in> lang r. moved z w z')"
proof (induction r arbitrary: z z')
  case Eps
  show ?case by auto
next
  case (Ch p)
  show ?case by (auto simp: reads_moved)
next
  case (Seq r s)
  then show ?case by (auto simp: relcompp_apply moved_append) (metis moved_trans moved_append)+
next
  case (Star r)
  then show ?case by (simp add: star_lang [of "matches r" "lang r"])
next
  case (LazyStar r)
  then show ?case by (simp add: star_lang [of "matches r" "lang r"])
qed auto

text \<open>Such a pattern occurs in a text exactly when the text contains a word of its language.\<close>

lemma occurs_lang: "anchor_free r \<Longrightarrow> occurs r s \<longleftrightarrow> (\<exists>x w y. w \<in> lang r \<and> s = x @ w @ y)"
proof
  assume a: "anchor_free r" and "occurs r s"
  then obtain x y z' where "s = x @ y" "matches r (rev x, y) z'" unfolding occurs_def by blast
  with matches_lang [OF a] obtain w where "w \<in> lang r" "moved (rev x, y) w z'" by blast
  with \<open>s = x @ y\<close> have "w \<in> lang r \<and> s = x @ w @ snd z'" by (simp add: moved_def)
  then show "\<exists>x w y. w \<in> lang r \<and> s = x @ w @ y" by blast
next
  assume a: "anchor_free r" and "\<exists>x w y. w \<in> lang r \<and> s = x @ w @ y"
  then obtain x w y where w: "w \<in> lang r" "s = x @ w @ y" by blast
  then have "matches r (rev x, w @ y) (rev w @ rev x, y)" using matches_lang [OF a] by (auto simp: moved_def)
  with w(2) show "occurs r s" unfolding occurs_def by blast
qed

section \<open>Successive matches\<close>

primrec nullable :: "rx \<Rightarrow> bool" where
  "nullable Eps \<longleftrightarrow> True"
| "nullable (Ch p) \<longleftrightarrow> False"
| "nullable (Seq r s) \<longleftrightarrow> nullable r \<and> nullable s"
| "nullable (Alt r s) \<longleftrightarrow> nullable r \<or> nullable s"
| "nullable (Star r) \<longleftrightarrow> True"
| "nullable (LazyStar r) \<longleftrightarrow> True"
| "nullable Edge \<longleftrightarrow> True"
| "nullable AtEnd \<longleftrightarrow> True"

lemma matches_shorter: "matches r z z' \<Longrightarrow> \<not> nullable r \<Longrightarrow> length (snd z') < length (snd z)"
proof (induction r arbitrary: z z')
  case (Ch p)
  then show ?case by (auto simp: reads_def)
next
  case (Seq r s)
  then obtain y where y: "matches r z y" "matches s y z'" by auto
  then obtain v w where "moved z v y" "moved y w z'" using matches_moved by blast
  then have "length (snd y) \<le> length (snd z)" "length (snd z') \<le> length (snd y)" by (auto dest: moved_length)
  moreover have "length (snd y) < length (snd z) \<or> length (snd z') < length (snd y)"
    using Seq.IH(1) [OF y(1)] Seq.IH(2) [OF y(2)] Seq.prems(2) by auto
  ultimately show ?case by linarith
qed auto

lemma first_end_None: "\<not> nullable r \<Longrightarrow> first_end r b s = None \<longleftrightarrow> ends r (b, s) = []"
proof -
  assume n: "\<not> nullable r"
  have "length (snd z) < length s" if "ends r (b, s) = z # zs" for z zs
    using that matches_shorter [OF _ n, of "(b, s)" z] ends_iff [of z r "(b, s)"] by simp
  then show ?thesis by (auto simp: first_end_def split: list.splits)
qed

lemma pieces_search:
  "\<not> nullable r \<Longrightarrow> if search_from r b s then \<exists>w. Hit w \<in> set (pieces r b s) else pieces r b s = map Gap s"
proof (induction s arbitrary: b)
  case Nil
  then have "ends r (b, []) = []" using matches_shorter [of r "(b, [])"] by (auto simp: ends_Nil_iff)
  then show ?case using first_end_None [OF Nil, of b "[]"] by (simp add: pieces.simps [of r b "[]"])
next
  case (Cons c s)
  show ?case
  proof (cases "first_end r b (c # s)")
    case None
    then have "ends r (b, c # s) = []" "pieces r b (c # s) = Gap c # pieces r (c # b) s"
      using first_end_None [OF Cons(2), of b "c # s"] by (simp_all add: pieces.simps [of r b "c # s"])
    then show ?thesis using Cons(1) [OF Cons(2), of "c # b"] by (auto split: if_splits)
  next
    case (Some z)
    then have "ends r (b, c # s) \<noteq> []" using first_end_None [OF Cons(2), of b "c # s"] by simp
    moreover have "Hit (take (length (c # s) - length (snd z)) (c # s)) \<in> set (pieces r b (c # s))"
      using Some by (simp add: pieces.simps [of r b "c # s"])
    ultimately show ?thesis by auto
  qed
qed

lemma findall_search: "\<not> nullable r \<Longrightarrow> re_findall r s \<noteq> [] \<longleftrightarrow> re_search r s"
  using pieces_search [of r "[]" s] by (force simp: re_findall_def re_search_def split: if_splits piece.splits)

lemma sub_unchanged: "\<not> nullable r \<Longrightarrow> \<not> re_search r s \<Longrightarrow> re_sub r repl s = s"
  using pieces_search [of r "[]" s] by (simp add: re_sub_def re_search_def comp_def)

lemma seqs_simps [simp]: "seqs [] = Eps" "seqs (r # rs) = Seq r (seqs rs)"
  by (simp_all add: seqs_def)

lemma ci_not_nullable [simp]: "nullable (ci s) \<longleftrightarrow> s = []"
  by (cases s) (simp_all add: ci_def)

declare split_paired_All [simp] split_paired_Ex [simp]

end
