(* ===== verification/Ingestor.thy ===== *)
theory Ingestor
  imports Regex DataModel
begin

text \<open>
  \<^verbatim>\<open>kernel/sidecar/ingestor.py\<close>: a file becomes a document, its pages and its chunks. A file is
  what the parsers the code calls report of it: its bytes, its text, the entries of its container
  (\<^verbatim>\<open>zipfile\<close>), its paragraphs (python-docx) and its pages with their words (pdfplumber); \<open>None\<close>
  stands for an exception of the parser. The limits the module reads from its environment are a
  record, identifiers and the time parameters. Coordinates are reals.
\<close>

section \<open>Files\<close>

record Limits =
  MAX_PDF_PAGES :: int
  MAX_EXTRACTED_CHARS :: int
  MAX_DOCX_EXPANDED_BYTES :: int
  MAX_DOCX_ENTRIES :: int

definition default_limits :: Limits where
  "default_limits = \<lparr>MAX_PDF_PAGES = 200, MAX_EXTRACTED_CHARS = 4 * 1024 * 1024,
     MAX_DOCX_EXPANDED_BYTES = 64 * 1024 * 1024, MAX_DOCX_ENTRIES = 2048\<rparr>"

record PdfWord =
  pw_x0 :: real
  pw_x1 :: real
  pw_top :: real
  pw_bottom :: real

record PdfPage =
  pp_width :: real
  pp_height :: real
  pp_words :: "PdfWord list"
  pp_text :: str

record SourceFile =
  sf_bytes :: bytes
  sf_text :: str
  sf_entries :: "int list option"
  sf_paragraphs :: "str list option"
  sf_pdf :: "PdfPage option list option"

text \<open>\<^verbatim>\<open>pathlib.Path\<close>: the normalised path, and the suffix of its last component.\<close>

definition path_parts :: "str \<Rightarrow> str list" where
  "path_parts p = filter (\<lambda>x. x \<noteq> [] \<and> x \<noteq> ''.'') (split_on CHR ''/'' p)"

definition path_root :: "str \<Rightarrow> str" where
  "path_root p = (let n = length (takeWhile (\<lambda>c. c = CHR ''/'') p) in if n = 0 then [] else if n = 2 then ''//'' else ''/'')"

definition path_str :: "str \<Rightarrow> str" where
  "path_str p = (let s = path_root p @ join ''/'' (path_parts p) in if s = [] then ''.'' else s)"

definition path_suffix :: "str \<Rightarrow> str" where
  "path_suffix p =
     (let nm = (if path_parts p = [] then [] else last (path_parts p));
          tail = rev (takeWhile (\<lambda>c. c \<noteq> CHR ''.'') (rev nm))
      in if tail = [] \<or> length nm \<le> Suc (length tail) then [] else CHR ''.'' # tail)"

section \<open>Layout of plain paragraphs\<close>

definition LINES_PER_PAGE :: int where "LINES_PER_PAGE = 60"
definition CHARS_PER_LINE :: int where "CHARS_PER_LINE = 80"

definition page_at :: "int \<Rightarrow> int" where
  "page_at current_line = current_line div LINES_PER_PAGE + 1"

definition box_at :: "int \<Rightarrow> int \<Rightarrow> BBox result" where
  "box_at current_line para_lines =
     (let page_offset = current_line mod LINES_PER_PAGE;
          y0 = real_of_int page_offset * (1 / real_of_int LINES_PER_PAGE);
          y1 = min 1 (real_of_int (page_offset + para_lines) * (1 / real_of_int LINES_PER_PAGE))
      in mk_bbox 0 y0 1 y1)"

definition place :: "str \<Rightarrow> int \<Rightarrow> int \<Rightarrow> str \<Rightarrow> str \<Rightarrow> Chunk result" where
  "place cid current_line para_lines t st =
     bind_ok (box_at current_line para_lines) (\<lambda>b. mk_chunk cid [] (page_at current_line) (Some b) (strip t) st [])"

definition blank_page :: "int \<Rightarrow> Page" where
  "blank_page p = \<lparr>page_doc_id = [], page_index = p, width_px = 800, height_px = 1000, image_sha256 = []\<rparr>"

section \<open>Text\<close>

text \<open>\<^verbatim>\<open>re.split\<close> on \<^verbatim>\<open>\n\s*\n\<close>.\<close>

definition PARA_BREAK :: rx where
  "PARA_BREAK = Seq (Ch (\<lambda>c. c = CHR 0x0A)) (Seq (Star (Ch is_space)) (Ch (\<lambda>c. c = CHR 0x0A)))"

definition split_paragraphs :: "str \<Rightarrow> str list" where
  "split_paragraphs t = filter (\<lambda>b. strip b \<noteq> []) (re_split PARA_BREAK t)"

fun text_loop :: "(nat \<Rightarrow> str) \<Rightarrow> nat \<Rightarrow> int \<Rightarrow> int \<Rightarrow> str list \<Rightarrow> (Chunk list \<times> int) result" where
  "text_loop fresh k current_line n_pages [] = Ok ([], n_pages)"
| "text_loop fresh k current_line n_pages (t # ts) =
     (if strip t = [] then text_loop fresh k (current_line + 1) n_pages ts
      else let para_lines = int (length (filter (\<lambda>c. c = CHR 0x0A) t)) + 1 in
        bind_ok (place (fresh k) current_line para_lines t ''text'') (\<lambda>c.
        bind_ok (text_loop fresh (Suc k) (current_line + para_lines + 1) (max n_pages (page_at current_line)) ts) (\<lambda>(cs, n).
        Ok (c # cs, n))))"

definition ingest_text :: "(nat \<Rightarrow> str) \<Rightarrow> SourceFile \<Rightarrow> (Chunk list \<times> int \<times> Page list) result" where
  "ingest_text fresh f =
     bind_ok (text_loop fresh 0 0 1 (split_paragraphs (sf_text f))) (\<lambda>(chunks, n_pages).
     Ok (chunks, n_pages, map blank_page [1..n_pages]))"

section \<open>DOCX\<close>

definition inspect_zip_container :: "Limits \<Rightarrow> SourceFile \<Rightarrow> (int \<times> int) result" where
  "inspect_zip_container lm f = (case sf_entries f of
     None \<Rightarrow> Raise (ValueError ''Unable to parse DOCX document'')
   | Some infos \<Rightarrow>
       if int (length infos) > MAX_DOCX_ENTRIES lm then Raise (ResourceBudgetExceeded ''DOCX container has too many entries'')
       else if sum_list infos > MAX_DOCX_EXPANDED_BYTES lm then Raise (ResourceBudgetExceeded ''DOCX declares too many expanded bytes'')
       else Ok (int (length infos), sum_list infos))"

fun docx_loop :: "Limits \<Rightarrow> (nat \<Rightarrow> str) \<Rightarrow> nat \<Rightarrow> int \<Rightarrow> int \<Rightarrow> int \<Rightarrow> str list \<Rightarrow> (Chunk list \<times> int) result" where
  "docx_loop lm fresh k current_line n_pages extracted_chars [] = Ok ([], n_pages)"
| "docx_loop lm fresh k current_line n_pages extracted_chars (t # ts) =
     (if strip t = [] then docx_loop lm fresh k (current_line + 1) n_pages extracted_chars ts
      else if extracted_chars + int (length t) > MAX_EXTRACTED_CHARS lm
      then Raise (ResourceBudgetExceeded ''DOCX text exceeds the character budget'')
      else let para_lines = max 1 (int (length t) div CHARS_PER_LINE + 1) in
        bind_ok (place (fresh k) current_line para_lines t ''docx_paragraph'') (\<lambda>c.
        bind_ok (docx_loop lm fresh (Suc k) (current_line + para_lines + 1) (max n_pages (page_at current_line))
                   (extracted_chars + int (length t)) ts) (\<lambda>(cs, n).
        Ok (c # cs, n))))"

definition ingest_docx :: "Limits \<Rightarrow> (nat \<Rightarrow> str) \<Rightarrow> SourceFile \<Rightarrow> (Chunk list \<times> int \<times> Page list) result" where
  "ingest_docx lm fresh f =
     bind_ok (inspect_zip_container lm f) (\<lambda>_.
     case sf_paragraphs f of
       None \<Rightarrow> Raise (ValueError ''Unable to parse DOCX document'')
     | Some paras \<Rightarrow>
         bind_ok (docx_loop lm fresh 0 0 1 0 paras) (\<lambda>(chunks, n_pages).
         Ok (chunks, n_pages, map blank_page [1..n_pages])))"

section \<open>PDF\<close>

definition pdf_box :: "PdfPage \<Rightarrow> BBox result" where
  "pdf_box p =
     (let ws = pp_words p;
          x0 = max 0 (min 1 (Min (set (map pw_x0 ws)) / pp_width p));
          x1 = max x0 (min 1 (Max (set (map pw_x1 ws)) / pp_width p));
          y0 = max 0 (min 1 (Min (set (map pw_top ws)) / pp_height p));
          y1 = max y0 (min 1 (Max (set (map pw_bottom ws)) / pp_height p))
      in mk_bbox x0 y0 x1 y1)"

abbreviation pdf_error :: py_error where "pdf_error \<equiv> ValueError ''Unable to parse PDF document''"

text \<open>Every exception but a budget violation leaves the loop as one error.\<close>

fun pdf_loop :: "Limits \<Rightarrow> (nat \<Rightarrow> str) \<Rightarrow> nat \<Rightarrow> int \<Rightarrow> int \<Rightarrow> PdfPage option list \<Rightarrow> (Chunk list \<times> Page list) result" where
  "pdf_loop lm fresh k number extracted_chars [] = Ok ([], [])"
| "pdf_loop lm fresh k number extracted_chars (None # ps) = Raise pdf_error"
| "pdf_loop lm fresh k number extracted_chars (Some p # ps) =
     (if pp_width p \<le> 0 \<or> pp_height p \<le> 0 then Raise pdf_error
      else let pg = \<lparr>page_doc_id = [], page_index = number, width_px = \<lfloor>pp_width p\<rfloor>, height_px = \<lfloor>pp_height p\<rfloor>, image_sha256 = []\<rparr> in
        if pp_words p = [] \<or> strip (pp_text p) = [] then
          bind_ok (pdf_loop lm fresh k (number + 1) extracted_chars ps) (\<lambda>(cs, pgs). Ok (cs, pg # pgs))
        else if extracted_chars + int (length (pp_text p)) > MAX_EXTRACTED_CHARS lm
        then Raise (ResourceBudgetExceeded ''PDF text exceeds the character budget'')
        else (case pdf_box p of
            Inl _ \<Rightarrow> Raise pdf_error
          | Inr b \<Rightarrow> (case mk_chunk (fresh k) [] number (Some b) (strip (pp_text p)) ''pdf_text'' [] of
              Inl _ \<Rightarrow> Raise pdf_error
            | Inr c \<Rightarrow>
                bind_ok (pdf_loop lm fresh (Suc k) (number + 1) (extracted_chars + int (length (pp_text p))) ps) (\<lambda>(cs, pgs).
                Ok (c # cs, pg # pgs)))))"

definition ingest_pdf :: "Limits \<Rightarrow> (nat \<Rightarrow> str) \<Rightarrow> SourceFile \<Rightarrow> (Chunk list \<times> int \<times> Page list) result" where
  "ingest_pdf lm fresh f = (case sf_pdf f of
     None \<Rightarrow> Raise pdf_error
   | Some ps \<Rightarrow>
       if int (length ps) > MAX_PDF_PAGES lm then Raise (ResourceBudgetExceeded ''PDF has too many pages'')
       else bind_ok (pdf_loop lm fresh 0 1 0 ps) (\<lambda>(chunks, pages).
         if chunks = [] then Raise (ValueError ''PDF contains no extractable text; OCR is not enabled'')
         else Ok (chunks, int (length pages), pages)))"

section \<open>Ingestion\<close>

fun own_chunks :: "str \<Rightarrow> Chunk list \<Rightarrow> Chunk list result" where
  "own_chunks did [] = Ok []"
| "own_chunks did (c # cs) =
     (if chunk_bbox c = None then Raise (RuntimeError ''Ingestor invariant violated: no bbox'')
      else if chunk_page c < 1 then Raise (RuntimeError ''Ingestor invariant violated: page'')
      else bind_ok (own_chunks did cs) (\<lambda>ds. Ok (c\<lparr>chunk_doc_id := did\<rparr> # ds)))"

definition ingest_parts :: "Limits \<Rightarrow> (nat \<Rightarrow> str) \<Rightarrow> str \<Rightarrow> SourceFile \<Rightarrow> (Chunk list \<times> int \<times> Page list) result" where
  "ingest_parts lm fresh sfx f =
     (if sfx = ''.txt'' \<or> sfx = ''.md'' then ingest_text fresh f
      else if sfx = ''.pdf'' then ingest_pdf lm fresh f
      else if sfx = ''.docx'' then ingest_docx lm fresh f
      else Raise (ValueError (''Unsupported file type: '' @ sfx)))"

definition ingest ::
  "(bytes \<Rightarrow> bytes) \<Rightarrow> Limits \<Rightarrow> (nat \<Rightarrow> str) \<Rightarrow> str \<Rightarrow> str \<Rightarrow> (str \<Rightarrow> SourceFile option) \<Rightarrow> str \<Rightarrow> (Chunk list \<times> Document \<times> Page list) result" where
  "ingest H lm fresh did now files path = (case files path of
     None \<Rightarrow> Raise (FileNotFoundError (''Document not found: '' @ path))
   | Some f \<Rightarrow>
       bind_ok (ingest_parts lm fresh (lower (path_suffix path)) f) (\<lambda>(chunks, n_pages, pages).
       let doc = \<lparr>doc_id = did, source_path = path_str path, doc_sha256 = hex (H (sf_bytes f)), page_count = n_pages, ingested_at = now\<rparr>
       in bind_ok (own_chunks did chunks) (\<lambda>cs. Ok (cs, doc, map (\<lambda>p. p\<lparr>page_doc_id := did\<rparr>) pages))))"

section \<open>Lemmas\<close>

definition unit_box :: "BBox \<Rightarrow> bool" where
  "unit_box b \<longleftrightarrow> 0 \<le> bx0 b \<and> bx0 b \<le> bx1 b \<and> bx1 b \<le> 1 \<and> 0 \<le> by0 b \<and> by0 b \<le> by1 b \<and> by1 b \<le> 1"

text \<open>A located chunk: a page of the document, a box on that page in relative coordinates, trimmed
  text that is not empty.\<close>

definition located_chunk :: "int \<Rightarrow> Chunk \<Rightarrow> bool" where
  "located_chunk n c \<longleftrightarrow> 1 \<le> chunk_page c \<and> chunk_page c \<le> n \<and> (\<exists>b. chunk_bbox c = Some b \<and> unit_box b) \<and>
     chunk_text c \<noteq> [] \<and> strip (chunk_text c) = chunk_text c"

lemma strip_idem [simp]: "strip (strip t) = strip t"
proof -
  have d: "dropWhile is_space (dropWhile is_space u) = dropWhile is_space u" for u
    by (induction u) auto
  let ?u = "dropWhile is_space t"
  have "dropWhile is_space (rev (dropWhile is_space (rev ?u))) = rev (dropWhile is_space (rev ?u))"
  proof (cases "dropWhile is_space (rev ?u)")
    case (Cons c cs)
    obtain ys where ys: "rev ?u = ys @ dropWhile is_space (rev ?u)" by (metis takeWhile_dropWhile_id)
    have "?u = rev (dropWhile is_space (rev ?u)) @ rev ys" by (metis ys rev_append rev_rev_ident)
    then have "hd ?u = hd (rev (dropWhile is_space (rev ?u)))" "?u \<noteq> []" using Cons by (metis hd_append2 rev_is_Nil_conv list.distinct(1), auto)
    then have "\<not> is_space (hd (rev (dropWhile is_space (rev ?u))))" using hd_dropWhile [of is_space t] by metis
    then show ?thesis using Cons by (metis dropWhile_eq_self_iff)
  next
    case Nil
    then show ?thesis by (simp only: rev.simps dropWhile.simps)
  qed
  then show ?thesis by (simp add: strip_def rstrip_def lstrip_def d)
qed

lemma box_at_ok:
  assumes "1 \<le> k"
  shows "\<exists>b. box_at l k = Ok b \<and> unit_box b"
proof -
  define m where "m = l mod 60"
  have "0 \<le> m" "m \<le> 59" by (simp_all add: m_def)
  then have m: "0 \<le> real_of_int m" "real_of_int m \<le> 59" by linarith+
  have "1 \<le> real_of_int k" using assms by linarith
  define y0 y1 where y: "y0 = real_of_int m * (1 / real_of_int 60)" "y1 = min 1 (real_of_int (m + k) * (1 / real_of_int 60))"
  have "y0 \<le> real_of_int (m + k) * (1 / real_of_int 60)" "y0 \<le> 1" using m \<open>1 \<le> real_of_int k\<close> by (simp_all add: y(1))
  then have "0 \<le> y0" "y0 \<le> y1" "y1 \<le> 1" using m by (simp_all add: y)
  moreover have "box_at l k = mk_bbox 0 y0 1 y1"
    by (simp only: box_at_def Let_def LINES_PER_PAGE_def m_def y)
  ultimately show ?thesis by (simp add: mk_bbox_def unit_box_def)
qed

lemma place_ok:
  assumes "0 \<le> l" "1 \<le> k"
  shows "\<exists>c. place cid l k t st = Ok c \<and> chunk_page c = page_at l \<and> chunk_text c = strip t \<and>
    (\<exists>b. chunk_bbox c = Some b \<and> unit_box b)"
proof -
  from box_at_ok [OF assms(2)] obtain b where "box_at l k = Ok b" "unit_box b" by blast
  moreover have "\<not> page_at l < 0" using assms(1) by (simp add: page_at_def LINES_PER_PAGE_def pos_imp_zdiv_nonneg_iff not_less add_nonneg_nonneg)
  ultimately show ?thesis by (simp add: place_def mk_chunk_def)
qed

lemma located_mono: "located_chunk n c \<Longrightarrow> n \<le> m \<Longrightarrow> located_chunk m c"
  by (auto simp: located_chunk_def)

lemma place_located: "place cid l k t st = Ok c \<Longrightarrow> 0 \<le> l \<Longrightarrow> 1 \<le> k \<Longrightarrow> strip t \<noteq> [] \<Longrightarrow> page_at l \<le> n \<Longrightarrow> located_chunk n c"
  using place_ok [of l k cid t st] by (auto simp: located_chunk_def page_at_def LINES_PER_PAGE_def pos_imp_zdiv_nonneg_iff)

lemma text_loop_ok:
  assumes "0 \<le> l" "1 \<le> pc"
  shows "\<exists>cs n. text_loop fresh k l pc ts = Ok (cs, n) \<and> pc \<le> n \<and> list_all (located_chunk n) cs \<and>
    map chunk_text cs = map strip (filter (\<lambda>t. strip t \<noteq> []) ts)"
  using assms
proof (induction fresh k l pc ts rule: text_loop.induct)
  case (2 fresh k l pc t ts)
  show ?case
  proof (cases "strip t = []")
    case True
    with 2(1) 2(3,4) show ?thesis by simp
  next
    case False
    define j where "j = int (length (filter (\<lambda>c. c = CHR 0x0A) t)) + 1"
    have j: "1 \<le> j" by (simp add: j_def)
    from place_ok [OF 2(3) j] obtain c where c: "place (fresh k) l j t ''text'' = Ok c" "chunk_text c = strip t" by metis
    have mx: "1 \<le> max pc (page_at l)" using 2(4) by (rule max.coboundedI1)
    from 2(2) [OF False refl, folded j_def, OF _ mx] 2(3) j obtain cs n where
      r: "text_loop fresh (Suc k) (l + j + 1) (max pc (page_at l)) ts = Ok (cs, n)" "max pc (page_at l) \<le> n"
        "list_all (located_chunk n) cs" "map chunk_text cs = map strip (filter (\<lambda>t. strip t \<noteq> []) ts)" by auto
    have "located_chunk n c" by (rule place_located [OF c(1) 2(3) j False]) (use r(2) in simp)
    with False c r show ?thesis by (simp add: j_def [symmetric] Let_def)
  qed
qed simp

lemma strip_length: "length (strip t) \<le> length t"
proof -
  have "length (strip t) \<le> length (dropWhile is_space t)"
    using length_dropWhile_le [of is_space "rev (dropWhile is_space t)"] by (simp add: strip_def rstrip_def lstrip_def)
  then show ?thesis using length_dropWhile_le [of is_space t] by linarith
qed

definition total_text :: "Chunk list \<Rightarrow> int" where
  "total_text cs = (\<Sum>c\<leftarrow>cs. int (length (chunk_text c)))"

lemma docx_loop_ok:
  assumes "docx_loop lm fresh k l pc e ts = Ok (cs, n)" "0 \<le> l" "1 \<le> pc" "e \<le> MAX_EXTRACTED_CHARS lm"
  shows "pc \<le> n \<and> list_all (located_chunk n) cs \<and> map chunk_text cs = map strip (filter (\<lambda>t. strip t \<noteq> []) ts) \<and>
    e + total_text cs \<le> MAX_EXTRACTED_CHARS lm"
  using assms
proof (induction lm fresh k l pc e ts arbitrary: cs rule: docx_loop.induct)
  case (2 lm fresh k l pc e t ts)
  show ?case
  proof (cases "strip t = []")
    case True
    with 2(1) 2(3-6) show ?thesis by simp
  next
    case False
    define j where "j = max 1 (int (length t) div CHARS_PER_LINE + 1)"
    have j: "1 \<le> j" by (simp add: j_def)
    have mx: "1 \<le> max pc (page_at l)" using 2(5) by (rule max.coboundedI1)
    have e: "\<not> MAX_EXTRACTED_CHARS lm < e + int (length t)" using 2(3) False by (auto simp: Let_def split: if_splits)
    obtain c cs' where c: "place (fresh k) l j t ''docx_paragraph'' = Ok c"
      and r: "docx_loop lm fresh (Suc k) (l + j + 1) (max pc (page_at l)) (e + int (length t)) ts = Ok (cs', n)" and cs: "cs = c # cs'"
      using 2(3) False e by (auto simp: Let_def j_def [symmetric] bind_ok_Inr)
    have t: "chunk_text c = strip t" using place_ok [OF 2(4) j, of "fresh k" t "''docx_paragraph''"] c by simp
    from 2(2) [OF False e refl, folded j_def, OF r _ mx] 2(4) j e have
      i: "max pc (page_at l) \<le> n" "list_all (located_chunk n) cs'" "map chunk_text cs' = map strip (filter (\<lambda>t. strip t \<noteq> []) ts)"
        "e + int (length t) + total_text cs' \<le> MAX_EXTRACTED_CHARS lm" by linarith+
    have "located_chunk n c" by (rule place_located [OF c 2(4) j False]) (use i(1) in simp)
    moreover have "total_text cs = int (length (strip t)) + total_text cs'" by (simp add: cs total_text_def t)
    ultimately show ?thesis using False i t cs strip_length [of t] by simp
  qed
qed (simp add: total_text_def)

lemma pdf_box_ok: "\<exists>b. pdf_box p = Ok b \<and> unit_box b"
  by (auto simp: pdf_box_def Let_def mk_bbox_def unit_box_def)

lemma pdf_loop_ok:
  assumes "pdf_loop lm fresh k i e ps = Ok (cs, pgs)" "1 \<le> i" "e \<le> MAX_EXTRACTED_CHARS lm"
  shows "map page_index pgs = [i..i + int (length ps) - 1] \<and> list_all (located_chunk (i + int (length ps) - 1)) cs \<and>
    e + total_text cs \<le> MAX_EXTRACTED_CHARS lm"
  using assms
proof (induction lm fresh k i e ps arbitrary: cs pgs rule: pdf_loop.induct)
  case (3 lm fresh k i e p ps)
  have dims: "\<not> (pp_width p \<le> 0 \<or> pp_height p \<le> 0)" using 3(3) by (auto split: if_splits)
  have up: "[i..i + int (length (Some p # ps)) - 1] = i # [i + 1..i + 1 + int (length ps) - 1]"
    by (subst upto.simps) (simp add: algebra_simps)
  show ?case
  proof (cases "pp_words p = [] \<or> strip (pp_text p) = []")
    case True
    then obtain cs' pgs' where "pdf_loop lm fresh k (i + 1) e ps = Ok (cs', pgs')" "cs = cs'" "page_index (hd pgs) = i" "pgs \<noteq> []" "tl pgs = pgs'"
      using 3(3) dims by (auto simp: Let_def bind_ok_Inr)
    with 3(1) [OF dims refl True, of cs' pgs'] 3(4,5) show ?thesis unfolding up by (cases pgs) (auto simp: add.assoc)
  next
    case False
    have e: "\<not> MAX_EXTRACTED_CHARS lm < e + int (length (pp_text p))" using 3(3) dims False by (auto simp: Let_def split: if_splits)
    obtain b where b: "pdf_box p = Ok b" "unit_box b" using pdf_box_ok by blast
    define c where "c = \<lparr>chunk_id = fresh k, chunk_doc_id = [], chunk_page = i, chunk_bbox = Some b,
      chunk_text = strip (pp_text p), source_type = ''pdf_text'', embedding = []\<rparr>"
    have mk: "mk_chunk (fresh k) [] i (Some b) (strip (pp_text p)) ''pdf_text'' [] = Ok c" using 3(4) by (simp add: mk_chunk_def c_def)
    obtain cs' pgs' where r: "pdf_loop lm fresh (Suc k) (i + 1) (e + int (length (pp_text p))) ps = Ok (cs', pgs')"
      and cs: "cs = c # cs'" "page_index (hd pgs) = i" "pgs \<noteq> []" "tl pgs = pgs'"
      using 3(3) dims False e b(1) mk by (auto simp: Let_def bind_ok_Inr)
    from 3(2) [OF dims refl False e b(1) mk r] 3(4) e have
      i: "map page_index pgs' = [i + 1..i + 1 + int (length ps) - 1]" "list_all (located_chunk (i + 1 + int (length ps) - 1)) cs'"
        "e + int (length (pp_text p)) + total_text cs' \<le> MAX_EXTRACTED_CHARS lm" by auto
    have "located_chunk (i + int (length (Some p # ps)) - 1) c" using 3(4) b(2) False by (simp add: located_chunk_def c_def)
    moreover have "total_text cs = int (length (strip (pp_text p))) + total_text cs'" by (simp add: cs total_text_def c_def)
    ultimately show ?thesis unfolding up using i cs strip_length [of "pp_text p"] by (cases pgs) (auto simp: add.assoc)
  qed
qed (auto simp: total_text_def)

lemma blank_pages [simp]: "page_index \<circ> blank_page = id"
  by (simp add: blank_page_def fun_eq_iff)

lemma ingest_parts_ok:
  assumes "ingest_parts lm fresh sfx f = Ok (cs, n, pgs)" "0 \<le> MAX_EXTRACTED_CHARS lm"
  shows "list_all (located_chunk n) cs \<and> map page_index pgs = [1..n] \<and>
    (sfx \<in> {''.pdf'', ''.docx''} \<longrightarrow> total_text cs \<le> MAX_EXTRACTED_CHARS lm) \<and> (sfx = ''.pdf'' \<longrightarrow> n \<le> MAX_PDF_PAGES lm)"
proof -
  consider "sfx = ''.txt'' \<or> sfx = ''.md''" | "sfx = ''.pdf''" | "sfx = ''.docx''"
    using assms(1) by (auto simp: ingest_parts_def split: if_splits)
  then show ?thesis
  proof cases
    case 1
    then have "ingest_text fresh f = Ok (cs, n, pgs)" using assms(1) by (simp add: ingest_parts_def)
    then show ?thesis using 1 text_loop_ok [of 0 1 fresh 0 "split_paragraphs (sf_text f)"] by (auto simp: ingest_text_def bind_ok_Inr)
  next
    case 2
    then obtain ps where ps: "sf_pdf f = Some ps" "int (length ps) \<le> MAX_PDF_PAGES lm" "pdf_loop lm fresh 0 1 0 ps = Ok (cs, pgs)"
      "n = int (length pgs)"
      using assms(1) by (auto simp: ingest_parts_def ingest_pdf_def bind_ok_Inr split: option.splits if_splits)
    from pdf_loop_ok [OF ps(3) _ assms(2)] have l: "map page_index pgs = [1..int (length ps)]" "list_all (located_chunk (int (length ps))) cs"
      "total_text cs \<le> MAX_EXTRACTED_CHARS lm" by simp_all
    then have "length pgs = length ps" by (metis length_map length_upto diff_add_cancel nat_int add_diff_cancel_right' of_nat_1 add.commute)
    with l ps 2 show ?thesis by simp
  next
    case 3
    then obtain paras where "docx_loop lm fresh 0 0 1 0 paras = Ok (cs, n)" "pgs = map blank_page [1..n]"
      using assms(1) by (auto simp: ingest_parts_def ingest_docx_def bind_ok_Inr split: option.splits)
    with docx_loop_ok [OF this(1) _ _ assms(2)] 3 show ?thesis by simp
  qed
qed

lemma own_chunks_located: "list_all (located_chunk n) cs \<Longrightarrow> own_chunks did cs = Ok (map (\<lambda>c. c\<lparr>chunk_doc_id := did\<rparr>) cs)"
  by (induction cs) (auto simp: located_chunk_def)

lemma text_ingested:
  assumes "files path = Some f" "lower (path_suffix path) \<in> {''.txt'', ''.md''}"
  shows "\<exists>cs d pgs. ingest H lm fresh did now files path = Ok (cs, d, pgs) \<and> map chunk_text cs = map strip (split_paragraphs (sf_text f))"
proof -
  obtain cs n where t: "text_loop fresh 0 0 1 (split_paragraphs (sf_text f)) = Ok (cs, n)" "list_all (located_chunk n) cs"
    "map chunk_text cs = map strip (filter (\<lambda>t. strip t \<noteq> []) (split_paragraphs (sf_text f)))"
    using text_loop_ok [of 0 1 fresh 0 "split_paragraphs (sf_text f)"] by auto
  then have "ingest_parts lm fresh (lower (path_suffix path)) f = Ok (cs, n, map blank_page [1..n])"
    using assms(2) by (auto simp: ingest_parts_def ingest_text_def)
  moreover have "filter (\<lambda>t. strip t \<noteq> []) (split_paragraphs (sf_text f)) = split_paragraphs (sf_text f)"
    by (simp add: split_paragraphs_def)
  ultimately show ?thesis using assms(1) t by (simp add: ingest_def own_chunks_located Let_def comp_def)
qed

section \<open>Properties\<close>


definition sample_file :: SourceFile where
  "sample_file = \<lparr>sf_bytes = [1, 2], sf_text = ''ab'' @ [CHR 0x0A, CHR 0x0A] @ '' c'', sf_entries = None, sf_paragraphs = None, sf_pdf = None\<rparr>"


text \<open>The formats the module's description lists beyond these are refused.\<close>

lemma xlsx_unsupported: "files ''a.xlsx'' = Some f \<Longrightarrow> ingest H lm fresh did now files ''a.xlsx'' = Raise (ValueError ''Unsupported file type: .xlsx'')"
proof -
  assume f: "files ''a.xlsx'' = Some f"
  have "lower (path_suffix ''a.xlsx'') = ''.xlsx''" by code_simp
  with f show ?thesis by (simp add: ingest_def ingest_parts_def)
qed

text \<open>Lines that start with a bullet are not split, only blank lines separate paragraphs.\<close>

lemma bullets_not_split: "split_paragraphs (''- a'' @ [CHR 0x0A] @ ''- b'') = [''- a'' @ [CHR 0x0A] @ ''- b'']"
  by code_simp

end
