(* ===== verification/RegexGroups.thy ===== *)
theory RegexGroups
  imports Regex
begin

text \<open>
  Groups of Python's regular expressions: \<^verbatim>\<open>match\<close>, \<^verbatim>\<open>fullmatch\<close> and \<^verbatim>\<open>search\<close> with the texts their
  groups captured. The patterns in use have their groups side by side, never inside a repetition, so
  a pattern is a list of parts. What a group captures is a part of the text that was matched.
\<close>

declare split_paired_All [simp del] split_paired_Ex [simp del]

section \<open>Groups\<close>

text \<open>A pattern with groups is a sequence of parts, those that are captured marked; \<open>captures\<close> lists
  the captured texts and the end of every match in the order the matcher tries them.\<close>

type_synonym grx = "(bool \<times> rx) list"

abbreviation grp :: "rx \<Rightarrow> bool \<times> rx" where "grp r \<equiv> (True, r)"
abbreviation raw :: "rx \<Rightarrow> bool \<times> rx" where "raw r \<equiv> (False, r)"

definition consumed :: "pos \<Rightarrow> pos \<Rightarrow> str" where
  "consumed z z' = take (length (snd z) - length (snd z')) (snd z)"

fun captures :: "grx \<Rightarrow> pos \<Rightarrow> (str list \<times> pos) list" where
  "captures [] z = [([], z)]"
| "captures ((g, r) # rs) z = concat (map (\<lambda>z'.
     map (\<lambda>(vs, y). (if g then consumed z z' # vs else vs, y)) (captures rs z')) (ends r z))"

definition re_match :: "grx \<Rightarrow> str \<Rightarrow> str list option" where
  "re_match g s = (case captures g ([], s) of [] \<Rightarrow> None | (vs, _) # _ \<Rightarrow> Some vs)"

definition re_fullmatch :: "grx \<Rightarrow> str \<Rightarrow> str list option" where
  "re_fullmatch g s = map_option fst (find (\<lambda>p. snd (snd p) = []) (captures g ([], s)))"

fun groups_from :: "grx \<Rightarrow> str \<Rightarrow> str \<Rightarrow> str list option" where
  "groups_from g b [] = (case captures g (b, []) of [] \<Rightarrow> None | (vs, _) # _ \<Rightarrow> Some vs)"
| "groups_from g b (c # s) = (case captures g (b, c # s) of [] \<Rightarrow> groups_from g (c # b) s | (vs, _) # _ \<Rightarrow> Some vs)"

definition re_search_groups :: "grx \<Rightarrow> str \<Rightarrow> str list option" where
  "re_search_groups g s = groups_from g [] s"

text \<open>\<^verbatim>\<open>fullmatch\<close> and \<^verbatim>\<open>match\<close> where only success matters.\<close>

definition full :: "rx \<Rightarrow> str \<Rightarrow> bool" where
  "full r s \<longleftrightarrow> list_ex (\<lambda>z. snd z = []) (ends r ([], s))"

definition starts :: "rx \<Rightarrow> str \<Rightarrow> bool" where
  "starts r s \<longleftrightarrow> ends r ([], s) \<noteq> []"

lemma captures_sound:
  "(vs, z') \<in> set (captures g z) \<Longrightarrow> (\<exists>w. moved z w z') \<and> (\<forall>v \<in> set vs. sublist v (snd z)) \<and> length vs = length (filter fst g)"
proof (induction g z arbitrary: vs z' rule: captures.induct)
  case (2 g r rs z)
  then obtain y us where y: "y \<in> set (ends r z)" "(us, z') \<in> set (captures rs y)" "vs = (if g then consumed z y # us else us)"
    by auto
  from y(1) obtain u where u: "moved z u y" using ends_iff matches_moved by blast
  from 2(1) [OF y(1,2)] obtain w where w: "moved y w z'" "\<forall>v \<in> set us. sublist v (snd y)" "length us = length (filter fst rs)" by blast
  have "moved z (u @ w) z'" by (rule moved_trans [OF u w(1)])
  moreover have "sublist (consumed z y) (snd z)" by (simp add: consumed_def)
  moreover have "sublist (snd y) (snd z)" using u by (simp add: moved_def)
  then have "\<forall>v \<in> set us. sublist v (snd z)" using w(2) sublist_order.order_trans by blast
  ultimately show ?case using w(3) y(3) by auto
qed (simp_all add: exI [of _ "[]"])

definition groups_of :: "grx \<Rightarrow> str list \<Rightarrow> str \<Rightarrow> bool" where
  "groups_of g vs s \<longleftrightarrow> length vs = length (filter fst g) \<and> (\<forall>v \<in> set vs. sublist v s)"

lemma re_match_groups: "re_match g s = Some vs \<Longrightarrow> groups_of g vs s"
  using captures_sound [of vs _ g "([], s)"] by (auto simp: re_match_def groups_of_def split: list.splits)

lemma re_fullmatch_groups: "re_fullmatch g s = Some vs \<Longrightarrow> groups_of g vs s"
proof -
  assume "re_fullmatch g s = Some vs"
  then obtain z' where "(vs, z') \<in> set (captures g ([], s))"
    by (auto simp: re_fullmatch_def find_Some_iff) (metis nth_mem prod.collapse)
  then show ?thesis using captures_sound [of vs z' g "([], s)"] by (auto simp: groups_of_def)
qed

lemma groups_from_groups: "groups_from g b s = Some vs \<Longrightarrow> groups_of g vs s"
proof (induction g b s rule: groups_from.induct)
  case (1 g b)
  then show ?case using captures_sound [of vs _ g "(b, [])"] by (auto simp: groups_of_def split: list.splits)
next
  case (2 g b c s)
  show ?case
  proof (cases "captures g (b, c # s)")
    case Nil
    then have "groups_of g vs s" using 2 by simp
    then show ?thesis by (auto simp: groups_of_def sublist_Cons_right)
  next
    case (Cons p ps)
    then show ?thesis using 2(2) captures_sound [of vs "snd p" g "(b, c # s)"] by (cases p) (auto simp: groups_of_def)
  qed
qed

lemma re_search_groups_groups: "re_search_groups g s = Some vs \<Longrightarrow> groups_of g vs s"
  by (simp add: re_search_groups_def groups_from_groups)

text \<open>What \<^verbatim>\<open>findall\<close> returns stands in the text.\<close>

lemma pieces_sublist: "Hit w \<in> set (pieces r b s) \<Longrightarrow> sublist w s"
proof (induction r b s rule: pieces.induct)
  case (1 r b s)
  show ?case
  proof (cases "first_end r b s")
    case None
    show ?thesis
    proof (cases s)
      case Nil
      then show ?thesis using 1(3) None by (simp add: pieces.simps [of r b "[]"])
    next
      case (Cons c t)
      then have "Hit w \<in> set (pieces r (c # b) t)" using 1(3) None by (simp add: pieces.simps [of r b "c # t"])
      then show ?thesis using 1(1) [OF None Cons] Cons by (simp add: sublist_Cons_right)
    qed
  next
    case (Some z)
    then have "z \<in> set (ends r (b, s))" by (auto simp: first_end_def split: list.splits if_splits)
    then obtain u where u: "moved (b, s) u z" using ends_iff matches_moved by blast
    then have "sublist (snd z) s" by (simp add: moved_def)
    moreover have "w = take (length s - length (snd z)) s \<or> Hit w \<in> set (pieces r (fst z) (snd z))"
      using 1(3) Some by (auto simp: pieces.simps [of r b s])
    ultimately show ?thesis using 1(2) [OF Some] sublist_order.order_trans by auto
  qed
qed

lemma findall_sublist: "w \<in> set (re_findall r s) \<Longrightarrow> sublist w s"
  using pieces_sublist [of w r "[]" s] by (auto simp: re_findall_def split: piece.splits)

lemmas groups_facts = re_match_groups re_fullmatch_groups re_search_groups_groups

declare split_paired_All [simp] split_paired_Ex [simp]

end
