(* ===== verification/PackContract.thy ===== *)
theory PackContract
  imports Orchestrator
begin

text \<open>
  The contract between the orchestrator and the domain packs of \<^verbatim>\<open>src/packs\<close>, as locales, and the way
  packs assemble their extractions. \<open>domain_pack\<close> is what every pack keeps, \<open>citing_pack\<close> adds that its
  spans stand in the chunks, so that the grounding cascade accepts them, and \<open>field_pack\<close> is a pack that
  reports optional fields in order; it gives the other two.
\<close>

section \<open>Extractions of a pack\<close>

definition new_extraction :: "str \<Rightarrow> str \<Rightarrow> str \<Rightarrow> str \<Rightarrow> str \<Rightarrow> real \<Rightarrow> str \<Rightarrow> Extraction" where
  "new_extraction i pid fld val spn conf cid =
     \<lparr>ext_id = i, pack_id = pid, field_name = fld, ext_value = val, source_span = spn, confidence = conf, model_version = [],
      ext_status = ES_SUGGESTED, ext_chunk_id = cid, ext_method = GM_BLOCK, anchors = []\<rparr>"

lemma entry_sel [simp]:
  "ext_id (new_extraction i pid fld val spn conf cid) = i" "pack_id (new_extraction i pid fld val spn conf cid) = pid"
  "field_name (new_extraction i pid fld val spn conf cid) = fld" "ext_value (new_extraction i pid fld val spn conf cid) = val"
  "source_span (new_extraction i pid fld val spn conf cid) = spn" "confidence (new_extraction i pid fld val spn conf cid) = conf"
  "ext_chunk_id (new_extraction i pid fld val spn conf cid) = cid" "ext_status (new_extraction i pid fld val spn conf cid) = ES_SUGGESTED"
  by (simp_all add: new_extraction_def)

section \<open>The contract\<close>

text \<open>What the orchestrator relies on: a pack speaks for itself, about its own fields and chunks it was
  given, at most once per field and with fresh identifiers. \<open>None\<close> is a pack that raises.\<close>

locale domain_pack =
  fixes pid :: str and fields :: "str list" and pack_extract :: "(nat \<Rightarrow> str) \<Rightarrow> Chunk list \<Rightarrow> Extraction list option"
  assumes own: "pack_extract fresh chunks = Some es \<Longrightarrow> e \<in> set es \<Longrightarrow>
      pack_id e = pid \<and> field_name e \<in> set fields \<and> ext_chunk_id e \<in> set (map chunk_id chunks)"
    and once: "pack_extract fresh chunks = Some es \<Longrightarrow> distinct (map field_name es)"
    and ids: "pack_extract fresh chunks = Some es \<Longrightarrow> map ext_id es = map fresh [0..<length es]"
begin

lemma distinct_ids: "pack_extract fresh chunks = Some es \<Longrightarrow> inj fresh \<Longrightarrow> distinct (map ext_id es)"
  by (auto simp: ids distinct_map inj_on_def)

lemma one_per_field: "pack_extract fresh chunks = Some es \<Longrightarrow> e \<in> set es \<Longrightarrow> e' \<in> set es \<Longrightarrow> field_name e = field_name e' \<Longrightarrow> e = e'"
  using once by (auto simp: distinct_map dest: inj_onD)

lemma bounded: "pack_extract fresh chunks = Some es \<Longrightarrow> length es \<le> length fields"
proof -
  assume es: "pack_extract fresh chunks = Some es"
  have "length es = card (set (map field_name es))" using distinct_card [OF once [OF es]] by simp
  also have "\<dots> \<le> card (set fields)" using own [OF es] by (intro card_mono) auto
  also have "\<dots> \<le> length fields" by (rule card_length)
  finally show ?thesis .
qed

end

text \<open>A text that stands in a chunk up to case is an exact match for the cascade.\<close>

definition mentioned :: "Chunk list \<Rightarrow> str \<Rightarrow> bool" where
  "mentioned chunks v \<longleftrightarrow> (\<exists>c \<in> set chunks. str_in (lower v) (lower (chunk_text c)))"

lemma mentioned_grounded: "mentioned chunks v \<Longrightarrow> strip v = [] \<or> fst (verify H default_config val v chunks) = GM_EXACT"
  unfolding verify_exact_iff mentioned_def by (auto simp: default_config_def ground_target_def strip_def rstrip_def lstrip_def)

lemma sublist_mentioned: "c \<in> set chunks \<Longrightarrow> sublist v (chunk_text c) \<Longrightarrow> mentioned chunks v"
  by (auto simp: mentioned_def str_in_sublist lower_def intro: map_mono_sublist)

locale citing_pack = domain_pack pid fields pack_extract
  for pid :: str and fields :: "str list" and pack_extract :: "(nat \<Rightarrow> str) \<Rightarrow> Chunk list \<Rightarrow> Extraction list option" +
  fixes loose :: "str list"
  assumes mentions: "pack_extract fresh chunks = Some es \<Longrightarrow> e \<in> set es \<Longrightarrow> field_name e \<notin> set loose \<Longrightarrow> mentioned chunks (source_span e)"
begin

lemma grounded:
  "pack_extract fresh chunks = Some es \<Longrightarrow> e \<in> set es \<Longrightarrow>
     field_name e \<in> set loose \<or> strip (source_span e) = [] \<or> fst (verify H default_config (ext_value e) (source_span e) chunks) = GM_EXACT"
  using mentions [THEN mentioned_grounded] by blast

end

section \<open>Packs of optional fields\<close>

definition add_field :: "str \<Rightarrow> (nat \<Rightarrow> str) \<Rightarrow> str \<Rightarrow> real \<Rightarrow> (str \<times> str \<times> str) option \<Rightarrow> Extraction list \<Rightarrow> Extraction list" where
  "add_field pid fresh fld conf x es = (case x of
     None \<Rightarrow> es
   | Some (val, spn, cid) \<Rightarrow> es @ [new_extraction (fresh (length es)) pid fld val spn conf cid])"

definition put_all :: "str \<Rightarrow> (nat \<Rightarrow> str) \<Rightarrow> (str \<times> real \<times> (str \<times> str \<times> str) option) list \<Rightarrow> Extraction list" where
  "put_all pid fresh specs = fold (\<lambda>(fld, conf, x). add_field pid fresh fld conf x) specs []"

definition report :: "(Chunk list \<Rightarrow> (str \<times> real \<times> (str \<times> str \<times> str) option) list) \<Rightarrow> str \<Rightarrow> (nat \<Rightarrow> str) \<Rightarrow> Chunk list \<Rightarrow> Extraction list" where
  "report specs pid fresh chunks = (if chunks = [] then [] else put_all pid fresh (specs chunks))"

lemma put_all_snoc: "put_all pid fresh (specs @ [(fld, conf, x)]) = add_field pid fresh fld conf x (put_all pid fresh specs)"
  by (simp add: put_all_def)

lemma put_all_names: "map field_name (put_all pid fresh specs) = map fst (filter (\<lambda>p. snd (snd p) \<noteq> None) specs)"
proof (induction specs rule: rev_induct)
  case (snoc p specs)
  then show ?case by (cases p) (auto simp: put_all_snoc add_field_def split: option.split)
qed (simp add: put_all_def)

lemma put_all_ids: "map ext_id (put_all pid fresh specs) = map fresh [0..<length (put_all pid fresh specs)]"
proof (induction specs rule: rev_induct)
  case (snoc p specs)
  then show ?case by (cases p) (auto simp: put_all_snoc add_field_def split: option.split)
qed (simp add: put_all_def)

lemma put_all_mem:
  "e \<in> set (put_all pid fresh specs) \<Longrightarrow>
     pack_id e = pid \<and> (\<exists>conf. (field_name e, conf, Some (ext_value e, source_span e, ext_chunk_id e)) \<in> set specs)"
proof (induction specs rule: rev_induct)
  case (snoc p specs)
  then show ?case by (cases p) (auto simp: put_all_snoc add_field_def split: option.splits)
qed (simp add: put_all_def)

locale field_pack =
  fixes fields loose :: "str list" and specs :: "Chunk list \<Rightarrow> (str \<times> real \<times> (str \<times> str \<times> str) option) list"
  assumes names: "map fst (specs chunks) = fields"
    and distinct_fields: "distinct fields"
    and cites: "chunks \<noteq> [] \<Longrightarrow> (fld, conf, Some (val, spn, cid)) \<in> set (specs chunks) \<Longrightarrow> cid \<in> set (map chunk_id chunks)"
    and spans: "chunks \<noteq> [] \<Longrightarrow> (fld, conf, Some (val, spn, cid)) \<in> set (specs chunks) \<Longrightarrow> fld \<notin> set loose \<Longrightarrow> mentioned chunks spn"
begin

lemma report_mem:
  assumes "e \<in> set (report specs pid fresh chunks)"
  shows "pack_id e = pid \<and> field_name e \<in> set fields \<and> ext_chunk_id e \<in> set (map chunk_id chunks) \<and>
    (field_name e \<in> set loose \<or> mentioned chunks (source_span e))"
proof -
  have ne: "chunks \<noteq> []" using assms by (auto simp: report_def)
  then obtain conf where c: "(field_name e, conf, Some (ext_value e, source_span e, ext_chunk_id e)) \<in> set (specs chunks)" "pack_id e = pid"
    using assms put_all_mem [of e pid fresh "specs chunks"] by (auto simp: report_def)
  have "field_name e \<in> set fields" using c(1) names [of chunks] by (metis fst_conv image_eqI list.set_map)
  then show ?thesis using cites [OF ne c(1)] spans [OF ne c(1)] c(2) by blast
qed

lemma report_subseq: "subseq (map field_name (report specs pid fresh chunks)) fields"
proof (cases "chunks = []")
  case False
  have "subseq (map fst (filter (\<lambda>p. snd (snd p) \<noteq> None) (specs chunks))) (map fst (specs chunks))" by (intro subseq_map subseq_filter_left)
  then show ?thesis using False by (simp add: report_def put_all_names names)
qed (simp add: report_def)

lemma report_once: "distinct (map field_name (report specs pid fresh chunks))"
  using report_subseq [of pid fresh chunks] distinct_fields by (auto simp: subseq_conv_nths)

end

sublocale field_pack \<subseteq> pack: citing_pack pid fields "\<lambda>fresh chunks. Some (report specs pid fresh chunks)" loose for pid
  using report_mem report_once by unfold_locales (auto simp: report_def put_all_ids)

end
