(* ===== verification/InvoicePack.thy ===== *)
theory InvoicePack
  imports RegexGroups PackContract
begin

text \<open>
  \<^verbatim>\<open>packs/invoice/pack.py\<close>: the extraction of invoice fields from chunks by labels and rules. Every
  regular expression of the module is a pattern of \<open>Regex\<close> or \<open>RegexGroups\<close>; the characters beyond
  U+00FF in them (box drawing, the euro sign, the bullet) cannot occur in the modelled text and are
  left out of the classes. Identifiers of extractions and the text \<open>fr\<close> Python prints for a float are
  parameters.
\<close>

section \<open>Lines\<close>

definition is_break :: "char \<Rightarrow> bool" where
  "is_break c = (let n = (of_char c :: nat) in 10 \<le> n \<and> n \<le> 13 \<or> 28 \<le> n \<and> n \<le> 30 \<or> n = 133)"

text \<open>\<^verbatim>\<open>str.splitlines\<close>: the line being read is kept reversed; CR LF is one break.\<close>

fun lines_from :: "str \<Rightarrow> str \<Rightarrow> str list" where
  "lines_from acc [] = (if acc = [] then [] else [rev acc])"
| "lines_from acc [c] = (if is_break c then [rev acc] else [rev (c # acc)])"
| "lines_from acc (c # d # s) =
     (if c = CHR 0x0D \<and> d = CHR 0x0A then rev acc # lines_from [] s
      else if is_break c then rev acc # lines_from [] (d # s)
      else lines_from (c # acc) (d # s))"

definition splitlines :: "str \<Rightarrow> str list" where
  "splitlines s = lines_from [] s"

definition strip_set :: "str \<Rightarrow> str \<Rightarrow> str" where
  "strip_set cs s = rev (dropWhile (\<lambda>c. c \<in> set cs) (rev (dropWhile (\<lambda>c. c \<in> set cs) s)))"

definition border :: str where
  "border = [CHR '' '', CHR 0x09, CHR ''|'']"

type_synonym line_rec = "str \<times> Chunk"
type_synonym candidate = "str \<times> str \<times> Chunk"

definition records :: "Chunk list \<Rightarrow> line_rec list" where
  "records chunks = concat (map (\<lambda>c. map (\<lambda>l. (strip_set border l, c))
     (filter (\<lambda>l. strip_set border l \<noteq> []) (splitlines (chunk_text c)))) chunks)"

section \<open>Patterns\<close>

abbreviation tab1 :: rx where "tab1 \<equiv> plus (ch [CHR '' '', CHR 0x09])"
abbreviation tab0 :: rx where "tab0 \<equiv> Star (ch [CHR '' '', CHR 0x09])"
abbreviation digit1 :: rx where "digit1 \<equiv> Ch is_digit"
abbreviation colon0 :: rx where "colon0 \<equiv> seqs [tab0, opt (ci '':''), tab0]"
abbreviation colon1 :: rx where "colon1 \<equiv> seqs [tab0, ci '':'', tab0]"

text \<open>Words separated by blanks, as in \<^verbatim>\<open>total[ \t]+due\<close>.\<close>

fun phrase :: "str list \<Rightarrow> rx" where
  "phrase [] = Eps"
| "phrase [w] = ci w"
| "phrase (w # us) = seqs [ci w, tab1, phrase us]"

definition number_label :: rx where
  "number_label = alts
     [seqs [ci ''invoice'', tab1, alts [ci ''number'', seqs [ci ''no'', opt (ci ''.'')], ci ''nr'']],
      seqs [ci ''invoice'', tab0, ci ''#''],
      seqs [ci ''inv'', tab1, alts [ci ''number'', seqs [ci ''no'', opt (ci ''.'')]]],
      ci ''fakturanr'', phrase [''faktura'', ''nr''], ci ''rechnungsnr'',
      seqs [ci ''receipt'', tab1, ci ''no'', opt (ci ''.'')], seqs [ci ''receipt'', tab0, ci ''#'']]"

definition qualifier :: rx where
  "qualifier = alts [ci ''draft'', ci ''revised'', ci ''provisional'', seqs [ci ''estimate'', opt (ci ''d'')], ci ''proposed'',
     ci ''preliminary'', ci ''unapproved'']"

definition invoice_heading :: rx where
  "invoice_heading = seqs [opt (seqs [ci ''tax'', tab1]), ci ''invoice'']"

definition qualified_header :: rx where
  "qualified_header = Alt (seqs [qualifier, tab1, invoice_heading])
     (Seq invoice_heading (alts [seqs [tab1, qualifier],
        seqs [tab0, ci ''('', tab0, qualifier, tab0, ci '')''], seqs [tab0, ch ''-:'', tab0, qualifier]]))"

definition status_line :: rx where
  "status_line = Alt qualifier (seqs [opt (Seq (words [''invoice'', ''document'']) tab1), ci ''status'', colon1, qualifier])"

definition header_rx :: rx where
  "header_rx = alts [Seq invoice_heading (opt (seqs [colon1, plus dot])),
     Seq (ci ''faktura'') (opt (seqs [tab0, ci ''/'', tab0, ci ''invoice''])), ci ''rechnung'']"

definition is_heading :: "str \<Rightarrow> bool" where
  "is_heading l \<longleftrightarrow> full header_rx l \<or> full qualified_header l"

definition nonfinal_document :: "line_rec list \<Rightarrow> bool" where
  "nonfinal_document rs = list_ex (\<lambda>(l, _). full qualified_header l \<or> full status_line l) rs"

definition has_invoice_context :: "line_rec list \<Rightarrow> bool" where
  "has_invoice_context rs = list_ex (\<lambda>(l, _). full header_rx l \<or> full qualified_header l \<or>
     starts (Seq number_label (Alt (Seq tab0 (ci '':'')) tab1)) l) rs"

section \<open>Emitting\<close>

definition INVOICE_FIELDS :: "str list" where
  "INVOICE_FIELDS = [''vendor_name'', ''invoice_number'', ''invoice_date'', ''due_date'', ''total_amount'', ''currency'',
     ''line_items'', ''tax_amount'', ''payment_terms'']"

definition emit :: "str \<Rightarrow> (nat \<Rightarrow> str) \<Rightarrow> str \<Rightarrow> candidate list \<Rightarrow> real \<Rightarrow> Extraction list \<Rightarrow> Extraction list" where
  "emit pid fresh fld candidates conf es = (case candidates of
     [] \<Rightarrow> es
   | (val, spn, c) # rest \<Rightarrow>
       if card (fst ` set candidates) \<noteq> 1 then es
       else es @ [new_extraction (fresh (length es)) pid fld val spn conf (chunk_id c)])"

section \<open>Vendor\<close>

definition is_alpha :: "char \<Rightarrow> bool" where
  "is_alpha c = (let n = (of_char c :: nat) in
     65 \<le> n \<and> n \<le> 90 \<or> 97 \<le> n \<and> n \<le> 122 \<or> n = 170 \<or> n = 181 \<or> n = 186 \<or> 192 \<le> n \<and> n \<noteq> 215 \<and> n \<noteq> 247)"

definition not_vendor :: rx where
  "not_vendor = Seq (alts [ci ''invoice'', phrase [''tax'', ''invoice''], ci ''date'', ci ''due'', phrase [''bill'', ''to''], ci ''customer'',
     ci ''currency'', ci ''total'', ci ''description'', ci ''no'']) Edge"

definition vendor_candidate :: "str \<Rightarrow> bool" where
  "vendor_candidate v \<longleftrightarrow> v \<noteq> [] \<and> length v \<le> 200 \<and> list_ex is_alpha v \<and> CHR '':'' \<notin> set v \<and>
     \<not> full qualified_header v \<and> \<not> full status_line v \<and> \<not> starts not_vendor v"

definition vendor_label :: grx where
  "vendor_label = [raw (alts [invoice_heading, ci ''from'', ci ''vendor'', ci ''supplier'']), raw colon1, grp (plus dot)]"

definition rule_line :: rx where
  "rule_line = plus (ch ''=-*~_'')"

definition company_word :: rx where
  "company_word = seqs [Edge, alts [seqs [ci ''corp'', opt (ci ''oration'')], ci ''llc'', ci ''inc'', ci ''ltd'', ci ''limited'', ci ''company'',
     ci ''solutions'', ci ''services'', ci ''industries'', ci ''studio'', ci ''works'', ci ''ab''], Edge]"

definition vendor_at :: "line_rec list \<Rightarrow> nat \<Rightarrow> candidate list" where
  "vendor_at rs index =
     (let (l, c) = rs ! index;
          next_line = (if is_heading l \<and> index + 1 < length rs
            then (let (v, src) = rs ! (index + 1) in if vendor_candidate v \<and> \<not> full rule_line v then [(v, v, src)] else [])
            else [])
      in case re_fullmatch vendor_label l of
           Some [v] \<Rightarrow> if vendor_candidate v then [(v, v, c)] else next_line
         | _ \<Rightarrow> next_line)"

definition vendors :: "line_rec list \<Rightarrow> candidate list" where
  "vendors rs =
     (let vs = concat (map (vendor_at rs) [0..<min 12 (length rs)]) in
      if vs \<noteq> [] then vs
      else case find (\<lambda>(l, _). \<not> full rule_line l) (take 8 rs) of
             None \<Rightarrow> []
           | Some (v, c) \<Rightarrow> if vendor_candidate v \<and> re_search company_word v then [(v, v, c)] else [])"

section \<open>Invoice number\<close>

definition id_value :: rx where
  "id_value = Seq (Ch alnum_ascii) (Star (Ch (\<lambda>c. alnum_ascii c \<or> c = CHR ''/'' \<or> c = CHR ''-'')))"

definition number_line :: grx where
  "number_line = [raw number_label, raw (Alt colon1 tab1), grp id_value]"

definition short_number_line :: grx where
  "short_number_line = [raw (Alt (seqs [ci ''no'', opt (ci ''.'')]) (ci ''number'')), raw (seqs [tab0, opt (ci '':''), tab1]), grp id_value]"

definition identifiers :: "line_rec list \<Rightarrow> candidate list" where
  "identifiers rs = concat (map (\<lambda>(l, c).
     case re_fullmatch number_line l of
       Some [v] \<Rightarrow> [(v, v, c)]
     | _ \<Rightarrow> if list_ex (\<lambda>(t, _). is_heading t) rs
           then (case re_fullmatch short_number_line l of Some [v] \<Rightarrow> [(v, v, c)] | _ \<Rightarrow> [])
           else []) rs)"

section \<open>Dates\<close>

abbreviation letters1 :: rx where "letters1 \<equiv> plus (Ch (\<lambda>c. upper_az c \<or> lower_az c))"
abbreviation digits12 :: rx where "digits12 \<equiv> Seq digit1 (opt digit1)"

definition months :: "(str \<times> nat) list" where
  "months = [(''january'', 1), (''february'', 2), (''march'', 3), (''april'', 4), (''may'', 5), (''june'', 6), (''july'', 7), (''august'', 8),
     (''september'', 9), (''october'', 10), (''november'', 11), (''december'', 12), (''jan'', 1), (''feb'', 2), (''mar'', 3), (''apr'', 4),
     (''jun'', 6), (''jul'', 7), (''aug'', 8), (''sep'', 9), (''oct'', 10), (''nov'', 11), (''dec'', 12)]"

definition month_of :: "str \<Rightarrow> nat option" where
  "month_of w = map_of months (lower w)"

text \<open>The back reference of \<^verbatim>\<open>([0-9]{4})([-/])([0-9]{2})\2([0-9]{2})\<close> makes one pattern per separator.\<close>

definition iso_date :: "str \<Rightarrow> grx" where
  "iso_date sep = [grp (times 4 digit1), raw (ch sep), grp (times 2 digit1), raw (ch sep), grp (times 2 digit1)]"

definition day_month_year :: grx where
  "day_month_year = [grp digits12, raw tab1, grp letters1, raw tab1, grp (times 4 digit1)]"

definition month_day_year :: grx where
  "month_day_year = [grp letters1, raw tab1, grp digits12, raw (seqs [opt (ch '',''), tab1]), grp (times 4 digit1)]"

definition numeric_date :: grx where
  "numeric_date = [grp (times 2 digit1), raw (ch ''/''), grp (times 2 digit1), raw (ch ''/''), grp (times 4 digit1)]"

definition leap_year :: "nat \<Rightarrow> bool" where
  "leap_year y \<longleftrightarrow> y mod 4 = 0 \<and> (y mod 100 \<noteq> 0 \<or> y mod 400 = 0)"

definition days_in_month :: "nat \<Rightarrow> nat \<Rightarrow> nat" where
  "days_in_month y m = (if m = 2 then (if leap_year y then 29 else 28) else if m \<in> {4, 6, 9, 11} then 30 else 31)"

definition valid_date :: "nat \<Rightarrow> nat \<Rightarrow> nat \<Rightarrow> bool" where
  "valid_date y m d \<longleftrightarrow> 1 \<le> y \<and> y \<le> 9999 \<and> 1 \<le> m \<and> m \<le> 12 \<and> 1 \<le> d \<and> d \<le> days_in_month y m"

definition pad0 :: "nat \<Rightarrow> nat \<Rightarrow> str" where
  "pad0 k n = replicate (k - length (nat_str n)) CHR ''0'' @ nat_str n"

definition isoformat :: "nat \<Rightarrow> nat \<Rightarrow> nat \<Rightarrow> str" where
  "isoformat y m d = pad0 4 y @ ''-'' @ pad0 2 m @ ''-'' @ pad0 2 d"

text \<open>Year, month and day as far as the text gives them.\<close>

definition date_parts :: "str \<Rightarrow> (nat \<times> nat \<times> nat) option" where
  "date_parts s = (case (re_fullmatch (iso_date ''-'') s, re_fullmatch (iso_date ''/'') s) of
     (Some [y, m, d], _) \<Rightarrow> Some (nat_of_digits y, nat_of_digits m, nat_of_digits d)
   | (_, Some [y, m, d]) \<Rightarrow> Some (nat_of_digits y, nat_of_digits m, nat_of_digits d)
   | _ \<Rightarrow> (case re_fullmatch day_month_year s of
       Some [d, w, y] \<Rightarrow> map_option (\<lambda>m. (nat_of_digits y, m, nat_of_digits d)) (month_of w)
     | _ \<Rightarrow> (case re_fullmatch month_day_year s of
         Some [w, d, y] \<Rightarrow> map_option (\<lambda>m. (nat_of_digits y, m, nat_of_digits d)) (month_of w)
       | _ \<Rightarrow> (case re_fullmatch numeric_date s of
           Some [d, m, y] \<Rightarrow> if 12 < nat_of_digits d then Some (nat_of_digits y, nat_of_digits m, nat_of_digits d) else None
         | _ \<Rightarrow> None))))"

definition parse_date :: "str \<Rightarrow> str option" where
  "parse_date s = (case date_parts s of
     None \<Rightarrow> None
   | Some (y, m, d) \<Rightarrow> if valid_date y m d then Some (isoformat y m d) else None)"

definition date_value :: rx where
  "date_value = alts
     [seqs [times 4 digit1, ch ''-/'', times 2 digit1, ch ''-/'', times 2 digit1],
      seqs [digits12, tab1, letters1, tab1, times 4 digit1],
      seqs [letters1, tab1, digits12, opt (ch '',''), tab1, times 4 digit1],
      seqs [times 2 digit1, ch ''/'', times 2 digit1, ch ''/'', times 4 digit1]]"

definition invoice_date_label :: rx where
  "invoice_date_label = alts [phrase [''invoice'', ''date''], ci ''date'', ci ''issued'', ci ''billed'', ci ''fakturadatum'', ci ''datum'',
     ci ''rechnungsdatum'']"

definition due_date_label :: rx where
  "due_date_label = alts [phrase [''due'', ''date''], ci ''due'', phrase [''payment'', ''due''],
     ci (''f'' @ [CHR 0xF6] @ ''rfallodatum''), ci (''f'' @ [CHR 0xF6] @ ''rfallo''), ci (''f'' @ [CHR 0xE4] @ ''llig''),
     phrase [''zahlbar'', ''bis'']]"

text \<open>The raw dates of the lines with a label, and the candidates; one that does not parse spoils the
  field.\<close>

definition labelled_dates :: "rx \<Rightarrow> line_rec list \<Rightarrow> line_rec list" where
  "labelled_dates label rs = concat (map (\<lambda>(l, c).
     case re_fullmatch [raw label, raw colon0, grp date_value] l of Some [v] \<Rightarrow> [(v, c)] | _ \<Rightarrow> []) rs)"

definition dates :: "rx \<Rightarrow> line_rec list \<Rightarrow> candidate list" where
  "dates label rs =
     (let ds = labelled_dates label rs in
      if list_ex (\<lambda>(v, _). parse_date v = None) ds then []
      else map (\<lambda>(v, c). (case parse_date v of Some t \<Rightarrow> t | None \<Rightarrow> [], v, c)) ds)"

section \<open>Currency\<close>

definition upper_char :: "char \<Rightarrow> char" where
  "upper_char c = (if lower_az c then char_of ((of_char c :: nat) - 32) else c)"

definition supported_codes :: "str list" where
  "supported_codes = [''USD'', ''EUR'', ''GBP'', ''SGD'', ''AUD'', ''CAD'', ''JPY'', ''CNY'', ''INR'', ''SEK'', ''NOK'', ''DKK'', ''CHF'', ''NZD'', ''HKD'',
     ''ZAR'', ''BRL'', ''MXN'']"

definition currency_line :: grx where
  "currency_line = [raw (alts [phrase [''all'', ''amounts'', ''in''], ci ''currency'', ci ''valuta'', ci (''w'' @ [CHR 0xE4] @ ''hrung'')]), raw colon0,
     grp (times 3 (Ch (\<lambda>c. upper_az c \<or> lower_az c)))]"

definition code_in_parens :: rx where
  "code_in_parens = seqs [ch ''('', times 3 (Ch upper_az), ch '')'']"

definition currencies :: "line_rec list \<Rightarrow> candidate list" where
  "currencies rs =
     concat (map (\<lambda>(l, c).
       (case re_fullmatch currency_line l of
          Some [v] \<Rightarrow> if map upper_char v \<in> set supported_codes then [(map upper_char v, v, c)] else []
        | _ \<Rightarrow> []) @
       map (\<lambda>v. (v, v, c)) (filter (\<lambda>v. v \<in> set supported_codes) (map (\<lambda>w. butlast (tl w)) (re_findall code_in_parens l)))) rs) @
     concat (map (\<lambda>(l, c). if CHR 0xA3 \<in> set l then [(''GBP'', [CHR 0xA3], c)] else []) rs)"

section \<open>Amounts\<close>

definition money_sign :: rx where
  "money_sign = opt (Seq (ch [CHR ''$'', CHR 0xA3, CHR 0xA5]) tab0)"

definition money :: rx where
  "money = seqs [Alt (seqs [digit1, upto_times 2 digit1, plus (Seq (ch '','') (times 3 digit1))]) (plus digit1), ch ''.'', times 2 digit1]"

definition total_label :: rx where
  "total_label = alts [phrase [''total'', ''amount'', ''due''], phrase [''total'', ''due''], phrase [''grand'', ''total''], phrase [''amount'', ''due''],
     phrase [''amount'', ''payable''], phrase [''total'', ''payable''], phrase [''balance'', ''due''], phrase [''totalt'', ''att'', ''betala''],
     phrase [''belopp'', ''att'', ''betala''], ci ''gesamtbetrag'', phrase [''total'', ''amount''], ci ''total'',
     seqs [ci ''t'', ch ''0oO'', ci ''tal'', tab1, ci ''am'', ch ''0oO'', ci ''unt'', tab1, ci ''due'']]"

definition total_line :: grx where
  "total_line = [raw (opt (Seq qualifier tab1)), raw total_label, raw colon0, raw money_sign, grp money, grp (Star dot)]"

definition unsafe_predicate :: rx where
  "unsafe_predicate = alts [qualifier, seqs [ci ''not'', tab1, words [''approved'', ''final'']],
     seqs [ci ''neither'', tab1, Alt (phrase [''final'', ''nor'', ''approved'']) (phrase [''approved'', ''nor'', ''final''])]]"

definition total_warning :: rx where
  "total_warning = seqs
     [opt (Seq (words [''this'', ''the'', ''both'']) tab1),
      Alt (ci_s ''total'') (Seq (ci_s ''amount'') (opt (Seq tab1 (ci ''payable'')))),
      Alt (seqs [tab1, words [''is'', ''are''], tab1]) (seqs [opt (Seq tab1 (ci ''status'')), colon1]),
      unsafe_predicate, Star (seqs [tab1, ci ''and'', tab1, unsafe_predicate]),
      opt (seqs [ci '';'', tab0, phrase [''do'', ''not'', ''pay'']]), opt (ch ''.!'')]"

definition no_commas :: "str \<Rightarrow> str" where
  "no_commas s = filter (\<lambda>c. c \<noteq> CHR '','') s"

definition totals :: "line_rec list \<Rightarrow> candidate list" where
  "totals rs = concat (map (\<lambda>(l, c). case re_fullmatch total_line l of Some [v, _] \<Rightarrow> [(no_commas v, v, c)] | _ \<Rightarrow> []) rs)"

definition unsafe_line :: "str \<Rightarrow> bool" where
  "unsafe_line l \<longleftrightarrow>
     (case re_fullmatch total_line l of Some [_, rest] \<Rightarrow> starts (Seq qualifier Edge) l \<or> strip rest \<noteq> [] | _ \<Rightarrow> False) \<or>
     full total_warning l"

definition unsafe_total :: "line_rec list \<Rightarrow> bool" where
  "unsafe_total rs \<longleftrightarrow> nonfinal_document rs \<or> list_ex (\<lambda>(l, _). unsafe_line l) rs"

definition tax_line :: grx where
  "tax_line = [raw (alts [phrase [''sales'', ''tax''], ci ''tax'', ci ''vat'', ci ''gst'', ci ''moms'', ci ''ust'']), raw tab0,
     raw (opt (seqs [ch ''('', Star (Ch (\<lambda>c. c \<notin> set ''()'' \<and> c \<noteq> CHR 0x0A \<and> c \<noteq> CHR 0x0D)), ch '')''])), raw colon0, raw money_sign, grp money]"

definition taxes :: "line_rec list \<Rightarrow> candidate list" where
  "taxes rs = concat (map (\<lambda>(l, c). case re_fullmatch tax_line l of Some [v] \<Rightarrow> [(no_commas v, v, c)] | _ \<Rightarrow> []) rs)"

section \<open>Payment terms\<close>

definition generic_terms :: rx where
  "generic_terms = alts
     [seqs [ci ''net'', tab0, plus digit1], seqs [ci ''due'', tab1, words [''on'', ''upon''], tab1, ci ''receipt''],
      phrase [''due'', ''immediately'', ''upon'', ''receipt''], ci ''immediate'', phrase [''immediately'', ''upon'', ''receipt''],
      seqs [plus digit1, ci ''/'', plus digit1, tab1, ci ''net'', tab0, plus digit1],
      seqs [ci ''within'', tab1, plus digit1, tab1, ci ''days''], seqs [plus digit1, tab1, words [''dagar'', ''tage'']]]"

definition terms_label :: grx where
  "terms_label = [raw (alts [phrase [''payment'', ''terms''], ci ''terms'', ci ''betalningsvillkor'', ci ''zahlungsbedingungen'']), raw colon1, grp (plus dot)]"

definition payment_label :: grx where
  "payment_label = [raw (words [''payment'', ''betalning'', ''zahlung'']), raw colon1, grp (plus dot)]"

definition receipt_line :: grx where
  "receipt_line = [grp (seqs [opt (Seq (ci ''payment'') tab1), ci ''due'', tab1, opt (Seq (ci ''immediately'') tab1), opt (Seq (ci ''upon'') tab1), ci ''receipt''])]"

definition terms_of :: "line_rec \<Rightarrow> candidate list" where
  "terms_of r = (let (l, c) = r in case re_fullmatch terms_label l of
     Some [v] \<Rightarrow> [(v, v, c)]
   | _ \<Rightarrow> (case re_fullmatch payment_label l of
       Some [v] \<Rightarrow> if full generic_terms v then [(v, v, c)] else []
     | _ \<Rightarrow> (case re_fullmatch receipt_line l of Some [v] \<Rightarrow> [(''Due on Receipt'', v, c)] | _ \<Rightarrow> [])))"

definition payment_terms :: "line_rec list \<Rightarrow> candidate list" where
  "payment_terms rs = concat (map terms_of rs)"

section \<open>Line items\<close>

record LineItem =
  li_description :: str
  li_quantity :: nat
  li_unit_price :: real
  li_total :: real

definition price_rx :: rx where
  "price_rx = seqs [opt (ch [CHR ''$'', CHR 0xA3, CHR 0xA5]), ws0, plus (Ch (\<lambda>c. is_digit c \<or> c = CHR '','')), ch ''.'', times 2 digit1]"

definition table_item :: grx where
  "table_item =
     (let cell = Ch (\<lambda>c. upper_az c \<or> lower_az c \<or> is_space c \<or> c \<in> set ''()&-'') in
      [grp (Seq (times 5 cell) (Star cell)), raw ws, grp (plus digit1), raw ws, grp price_rx, raw ws, grp price_rx])"

definition item_total :: rx where
  "item_total = seqs [digit1, Star (Ch (\<lambda>c. is_digit c \<or> c = CHR '','')), ch ''.'', times 2 digit1]"

definition bullet_item :: grx where
  "bullet_item = [raw (ch ''-''), raw ws0, grp (Seq dot (LazyStar dot)), raw ws, raw (ch ''(''), grp (plus digit1), raw ws, raw (plus (Ch is_word)), raw ws,
     raw (ch ''@''), raw ws0, raw (opt (ch [CHR ''$'', CHR 0xA3])), grp (Seq (plus digit1) (opt (Seq (ch ''.'') (plus digit1)))), raw ws0,
     raw (opt (ch ''/'')), raw (Star (Ch is_word)), raw (ch '')''), raw ws, raw (opt (ch [CHR ''$'', CHR 0xA3])), grp item_total]"

definition plain_item :: grx where
  "plain_item = [raw (ch ''-''), raw ws0, grp (Seq dot (LazyStar dot)), raw ws, raw (opt (ch [CHR ''$'', CHR 0xA3])), grp item_total, raw ws0, raw AtEnd]"

text \<open>\<^verbatim>\<open>int\<close> refuses more than 4300 digits.\<close>

definition to_int :: "str \<Rightarrow> nat result" where
  "to_int s = (if 4300 < length s then Raise (ValueError ''Exceeds the limit (4300 digits) for integer string conversion'')
     else Ok (nat_of_digits s))"

definition to_float :: "str \<Rightarrow> real result" where
  "to_float s = (case py_float s of None \<Rightarrow> Raise (ValueError ''could not convert string to float'') | Some x \<Rightarrow> Ok x)"

definition digits_and_dots :: "str \<Rightarrow> str" where
  "digits_and_dots s = filter (\<lambda>c. is_digit c \<or> c = CHR ''.'') s"

definition item_of :: "str \<Rightarrow> LineItem option result" where
  "item_of l = (case re_search_groups table_item l of
     Some [d, q, p, t] \<Rightarrow>
       bind_ok (to_int q) (\<lambda>n. bind_ok (to_float (digits_and_dots p)) (\<lambda>x. bind_ok (to_float (digits_and_dots t)) (\<lambda>y.
       Ok (Some \<lparr>li_description = strip d, li_quantity = n, li_unit_price = x, li_total = y\<rparr>))))
   | _ \<Rightarrow> (case re_match bullet_item l of
       Some [d, q, p, t] \<Rightarrow>
         bind_ok (to_int q) (\<lambda>n. bind_ok (to_float p) (\<lambda>x. bind_ok (to_float (digits_and_dots t)) (\<lambda>y.
         Ok (Some \<lparr>li_description = strip d, li_quantity = n, li_unit_price = x, li_total = y\<rparr>))))
     | _ \<Rightarrow> (case re_match plain_item l of
         Some [d, t] \<Rightarrow> bind_ok (to_float (digits_and_dots t)) (\<lambda>y.
           Ok (Some \<lparr>li_description = strip d, li_quantity = 1, li_unit_price = y, li_total = y\<rparr>))
       | _ \<Rightarrow> Ok None)))"

fun items_of :: "line_rec list \<Rightarrow> (LineItem \<times> Chunk) list result" where
  "items_of [] = Ok []"
| "items_of ((l, c) # rs) =
     (if strip l = [] then items_of rs
      else bind_ok (item_of (strip l)) (\<lambda>i. bind_ok (items_of rs) (\<lambda>is. Ok (case i of None \<Rightarrow> is | Some x \<Rightarrow> (x, c) # is))))"

definition item_json :: "(real \<Rightarrow> str) \<Rightarrow> LineItem \<Rightarrow> json" where
  "item_json fr i = JObj [(''description'', JStr (li_description i)), (''quantity'', JInt (int (li_quantity i))),
     (''unit_price'', JFloat (fr (li_unit_price i))), (''total'', JFloat (fr (li_total i)))]"

definition emit_items :: "(real \<Rightarrow> str) \<Rightarrow> str \<Rightarrow> (nat \<Rightarrow> str) \<Rightarrow> (LineItem \<times> Chunk) list \<Rightarrow> Extraction list \<Rightarrow> Extraction list" where
  "emit_items fr pid fresh is es = (case is of
     [] \<Rightarrow> es
   | (i, c) # _ \<Rightarrow> es @ [new_extraction (fresh (length es)) pid ''line_items''
       (dumps plain (JList (map (\<lambda>p. item_json fr (fst p)) is))) (li_description i) (8 / 10) (chunk_id c)])"

section \<open>Extraction\<close>

definition labelled_fields :: "str \<Rightarrow> (nat \<Rightarrow> str) \<Rightarrow> line_rec list \<Rightarrow> Extraction list" where
  "labelled_fields pid fresh rs =
     (let put = emit pid fresh;
          es = put ''vendor_name'' (vendors rs) (9 / 10) [];
          es = put ''invoice_number'' (identifiers rs) (95 / 100) es;
          es = put ''invoice_date'' (dates invoice_date_label rs) (9 / 10) es;
          es = put ''due_date'' (dates due_date_label rs) (9 / 10) es;
          es = put ''currency'' (currencies rs) (9 / 10) es;
          es = (if unsafe_total rs then es else put ''total_amount'' (totals rs) (95 / 100) es);
          es = put ''tax_amount'' (taxes rs) (85 / 100) es
      in put ''payment_terms'' (payment_terms rs) (85 / 100) es)"

definition invoice_extract :: "(real \<Rightarrow> str) \<Rightarrow> str \<Rightarrow> (nat \<Rightarrow> str) \<Rightarrow> Chunk list \<Rightarrow> Extraction list result" where
  "invoice_extract fr pid fresh chunks =
     (let rs = records chunks in
      if chunks = [] \<or> \<not> has_invoice_context rs then Ok []
      else bind_ok (items_of (concat (map (\<lambda>c. map (\<lambda>l. (l, c)) (splitlines (chunk_text c))) chunks))) (\<lambda>is.
        Ok (emit_items fr pid fresh is (labelled_fields pid fresh rs))))"

section \<open>Everything extracted is text of a chunk\<close>

lemma lines_from_sublist: "l \<in> set (lines_from acc s) \<Longrightarrow> sublist l (rev acc @ s)"
proof (induction acc s rule: lines_from.induct)
  case (3 acc c d s)
  have tail: "sublist l t \<Longrightarrow> sublist l (u @ t)" for t u using sublist_order.order_trans sublist_append_leftI by blast
  show ?case
  proof (cases "c = CHR 0x0D \<and> d = CHR 0x0A")
    case True
    then have "l = rev acc \<or> l \<in> set (lines_from [] s)" using 3(4) by auto
    then show ?thesis using 3(1) [OF True] tail [of s "rev acc @ [c, d]"] by auto
  next
    case False
    show ?thesis
    proof (cases "is_break c")
      case True
      then have "l = rev acc \<or> l \<in> set (lines_from [] (d # s))" using 3(4) False by auto
      then show ?thesis using 3(2) [OF False True] tail [of "d # s" "rev acc @ [c]"] by auto
    next
      case nb: False
      then show ?thesis using 3(3) [OF False nb] 3(4) False by auto
    qed
  qed
qed (auto split: if_splits)

lemma strip_set_sublist: "sublist (strip_set cs s) s"
proof -
  have d: "suffix (dropWhile p u) u" for p and u :: str by (rule suffix_dropWhile)
  have "prefix (rev (dropWhile (\<lambda>c. c \<in> set cs) (rev u))) u" for u using d [of _ "rev u"] by (simp add: suffix_to_prefix)
  then show ?thesis unfolding strip_set_def using d by (meson prefix_imp_sublist suffix_imp_sublist sublist_order.order_trans)
qed

lemma strip_sublist: "sublist (strip s) s"
proof -
  have d: "suffix (dropWhile p u) u" for p and u :: str by (rule suffix_dropWhile)
  have "prefix (rev (dropWhile is_space (rev u))) u" for u using d [of _ "rev u"] by (simp add: suffix_to_prefix)
  then show ?thesis unfolding strip_def rstrip_def lstrip_def using d by (meson prefix_imp_sublist suffix_imp_sublist sublist_order.order_trans)
qed

lemma lines_from_no_break: "CHR 0x0A \<notin> set acc \<Longrightarrow> l \<in> set (lines_from acc s) \<Longrightarrow> CHR 0x0A \<notin> set l"
proof (induction acc s rule: lines_from.induct)
  case (2 acc c)
  have "is_break CHR 0x0A" by code_simp
  then show ?case using 2 by (auto split: if_splits)
next
  case (3 acc c d s)
  have "is_break CHR 0x0A" by code_simp
  then show ?case using 3 by (auto split: if_splits)
qed (auto split: if_splits)

text \<open>A text of one line of a chunk.\<close>

definition line_ok :: "Chunk list \<Rightarrow> line_rec \<Rightarrow> bool" where
  "line_ok chunks r \<longleftrightarrow> snd r \<in> set chunks \<and> sublist (fst r) (chunk_text (snd r)) \<and> CHR 0x0A \<notin> set (fst r)"

definition cand_ok :: "Chunk list \<Rightarrow> candidate \<Rightarrow> bool" where
  "cand_ok chunks x \<longleftrightarrow> line_ok chunks (snd x)"

lemma line_ok_sub: "line_ok chunks (l, c) \<Longrightarrow> sublist v l \<Longrightarrow> line_ok chunks (v, c)"
  unfolding line_ok_def using sublist_order.order_trans set_mono_sublist by fastforce

lemma splitlines_ok: "c \<in> set chunks \<Longrightarrow> l \<in> set (splitlines (chunk_text c)) \<Longrightarrow> line_ok chunks (l, c)"
  using lines_from_sublist [of l "[]" "chunk_text c"] lines_from_no_break [of "[]" l "chunk_text c"]
  by (simp add: line_ok_def splitlines_def)

lemma records_ok: "r \<in> set (records chunks) \<Longrightarrow> line_ok chunks r"
  by (auto simp: records_def intro: line_ok_sub [OF splitlines_ok strip_set_sublist])

lemma fullmatch_ok: "line_ok chunks (l, c) \<Longrightarrow> re_fullmatch g l = Some vs \<Longrightarrow> v \<in> set vs \<Longrightarrow> line_ok chunks (v, c)"
  using re_fullmatch_groups line_ok_sub by (auto simp: groups_of_def)

lemma fullmatch1_ok: "line_ok chunks (l, c) \<Longrightarrow> re_fullmatch g l = Some [v] \<Longrightarrow> line_ok chunks (v, c)"
  by (rule fullmatch_ok) auto

lemma fullmatch2_ok: "line_ok chunks (l, c) \<Longrightarrow> re_fullmatch g l = Some [v, u] \<Longrightarrow> line_ok chunks (v, c)"
  by (rule fullmatch_ok) auto

lemmas match_ok = fullmatch1_ok fullmatch2_ok fullmatch1_ok [OF _ sym] fullmatch2_ok [OF _ sym]

lemma line_cands_ok:
  "(\<And>l c. (l, c) \<in> set rs \<Longrightarrow> list_all (cand_ok chunks) (f (l, c))) \<Longrightarrow> list_all (cand_ok chunks) (concat (map f rs))"
  by (fastforce simp: list_all_iff)

lemma vendor_at_ok: "list_all (line_ok chunks) rs \<Longrightarrow> i < length rs \<Longrightarrow> list_all (cand_ok chunks) (vendor_at rs i)"
proof -
  assume rs: "list_all (line_ok chunks) rs" and i: "i < length rs"
  obtain l c where lc: "rs ! i = (l, c)" by fastforce
  then have ok: "line_ok chunks (l, c)" using rs i by (metis list_all_length)
  have nxt: "line_ok chunks (rs ! (i + 1))" if "i + 1 < length rs" using rs that by (metis list_all_length)
  show ?thesis
    using nxt fullmatch1_ok [OF ok, of vendor_label]
    by (auto simp: vendor_at_def lc cand_ok_def Let_def split: option.split list.split prod.split)
qed

lemma vendors_ok: "list_all (line_ok chunks) rs \<Longrightarrow> list_all (cand_ok chunks) (vendors rs)"
proof -
  assume rs: "list_all (line_ok chunks) rs"
  have "list_all (cand_ok chunks) (concat (map (vendor_at rs) [0..<min 12 (length rs)]))"
    using vendor_at_ok [OF rs] by (auto simp: list_all_iff)
  moreover have "line_ok chunks r" if "find p (take 8 rs) = Some r" for p r
    using that rs by (auto simp: find_Some_iff list_all_length)
  ultimately show ?thesis by (auto simp: vendors_def Let_def cand_ok_def split: option.split)
qed

lemma identifiers_ok: "list_all (line_ok chunks) rs \<Longrightarrow> list_all (cand_ok chunks) (identifiers rs)"
  unfolding identifiers_def
  by (rule line_cands_ok) (auto simp: list_all_iff cand_ok_def intro: match_ok split: option.split list.split)

lemma labelled_dates_ok: "list_all (line_ok chunks) rs \<Longrightarrow> list_all (line_ok chunks) (labelled_dates label rs)"
  by (auto simp: labelled_dates_def list_all_iff intro: match_ok split: option.splits list.splits)

lemma dates_ok: "list_all (line_ok chunks) rs \<Longrightarrow> list_all (cand_ok chunks) (dates label rs)"
  using labelled_dates_ok [of chunks rs label] by (auto simp: dates_def Let_def list_all_iff cand_ok_def)

lemma amounts_ok:
  assumes "list_all (line_ok chunks) rs"
  shows "list_all (cand_ok chunks) (totals rs)" "list_all (cand_ok chunks) (taxes rs)"
  unfolding totals_def taxes_def
  by (rule line_cands_ok, use assms in \<open>auto simp: list_all_iff cand_ok_def intro: match_ok split: option.split list.split\<close>)+

lemma payment_terms_ok: "list_all (line_ok chunks) rs \<Longrightarrow> list_all (cand_ok chunks) (payment_terms rs)"
  unfolding payment_terms_def
  by (rule line_cands_ok) (auto simp: terms_of_def list_all_iff cand_ok_def intro: match_ok split: option.split list.split)

lemma butlast_tl_sublist: "sublist (butlast (tl w)) w"
  by (meson sublist_butlast sublist_order.order_trans sublist_tl)

lemma currencies_ok: "list_all (line_ok chunks) rs \<Longrightarrow> list_all (cand_ok chunks) (currencies rs)"
proof -
  assume rs: "list_all (line_ok chunks) rs"
  have ok: "(l, c) \<in> set rs \<Longrightarrow> line_ok chunks (l, c)" for l c using rs by (auto simp: list_all_iff)
  have code: "line_ok chunks (butlast (tl w), c)" if "(l, c) \<in> set rs" "w \<in> set (re_findall code_in_parens l)" for l c w
    using that rs line_ok_sub [of chunks l c] butlast_tl_sublist [of w] findall_sublist [of w _ l]
    by (auto simp: list_all_iff intro: sublist_order.order_trans)
  have pound: "line_ok chunks ([CHR 0xA3], c)" if "(l, c) \<in> set rs" "CHR 0xA3 \<in> set l" for l c
    using that rs line_ok_sub [of chunks l c "[CHR 0xA3]"] by (auto simp: list_all_iff in_set_conv_decomp sublist_def)
  show ?thesis unfolding currencies_def list_all_append
  proof
    show "list_all (cand_ok chunks) (concat (map (\<lambda>(l, c).
       (case re_fullmatch currency_line l of
          Some [v] \<Rightarrow> if map upper_char v \<in> set supported_codes then [(map upper_char v, v, c)] else []
        | _ \<Rightarrow> []) @
       map (\<lambda>v. (v, v, c)) (filter (\<lambda>v. v \<in> set supported_codes) (map (\<lambda>w. butlast (tl w)) (re_findall code_in_parens l)))) rs))"
      by (intro line_cands_ok) (auto simp: list_all_iff cand_ok_def intro: code match_ok [OF ok] split: option.split list.split)
    show "list_all (cand_ok chunks) (concat (map (\<lambda>(l, c). if CHR 0xA3 \<in> set l then [(''GBP'', [CHR 0xA3], c)] else []) rs))"
      by (intro line_cands_ok) (auto simp: cand_ok_def pound)
  qed
qed

section \<open>What an extraction is made of\<close>

text \<open>The labelled fields in the order they are emitted, each with its candidates and confidence; an
  unsafe total has none.\<close>

definition plan :: "line_rec list \<Rightarrow> (str \<times> candidate list \<times> real) list" where
  "plan rs =
     [(''vendor_name'', vendors rs, 9 / 10), (''invoice_number'', identifiers rs, 95 / 100),
      (''invoice_date'', dates invoice_date_label rs, 9 / 10), (''due_date'', dates due_date_label rs, 9 / 10),
      (''currency'', currencies rs, 9 / 10), (''total_amount'', if unsafe_total rs then [] else totals rs, 95 / 100),
      (''tax_amount'', taxes rs, 85 / 100), (''payment_terms'', payment_terms rs, 85 / 100)]"

lemma emit_Nil [simp]: "emit pid fresh fld [] conf es = es"
  by (simp add: emit_def)

lemma labelled_fields_plan:
  "labelled_fields pid fresh rs = fold (\<lambda>(fld, cands, conf). emit pid fresh fld cands conf) (plan rs) []"
  by (simp add: labelled_fields_def plan_def Let_def)

text \<open>A field is resolved when it has candidates and they agree on the value.\<close>

definition agreed :: "candidate list \<Rightarrow> bool" where
  "agreed candidates \<longleftrightarrow> candidates \<noteq> [] \<and> (\<forall>x \<in> set candidates. \<forall>y \<in> set candidates. fst x = fst y)"

lemma card_values: "candidates \<noteq> [] \<Longrightarrow> card (fst ` set candidates) = 1 \<longleftrightarrow> agreed candidates"
  using card_le_Suc0_iff_eq [of "fst ` set candidates"] card_gt_0_iff [of "fst ` set candidates"]
  by (auto simp: agreed_def le_Suc_eq)

lemma emit_agreed:
  "emit pid fresh fld candidates conf es =
     (if agreed candidates then es @ [new_extraction (fresh (length es)) pid fld (fst (hd candidates)) (fst (snd (hd candidates))) conf
        (chunk_id (snd (snd (hd candidates))))] else es)"
proof (cases candidates)
  case (Cons x xs)
  then have "card (fst ` set candidates) = 1 \<longleftrightarrow> agreed candidates" by (intro card_values) simp
  then show ?thesis by (simp only: emit_def Cons list.case list.sel split_beta not_not) simp
qed (simp add: agreed_def)

definition resolved :: "(str \<times> candidate list \<times> real) list \<Rightarrow> (str \<times> candidate list \<times> real) list" where
  "resolved ps = filter (\<lambda>p. agreed (fst (snd p))) ps"

definition entry_of :: "str \<Rightarrow> (nat \<Rightarrow> str) \<Rightarrow> nat \<Rightarrow> str \<times> candidate list \<times> real \<Rightarrow> Extraction" where
  "entry_of pid fresh i p = (let (fld, cands, conf) = p; (val, spn, c) = hd cands in
     new_extraction (fresh i) pid fld val spn conf (chunk_id c))"

lemma fold_emit:
  "fold (\<lambda>(fld, cands, conf). emit pid fresh fld cands conf) ps es =
     es @ map2 (entry_of pid fresh) [length es..<length es + length (resolved ps)] (resolved ps)"
proof (induction ps arbitrary: es)
  case Nil
  then show ?case by (simp add: resolved_def)
next
  case (Cons p ps)
  obtain fld cands conf where p: "p = (fld, cands, conf)" by (cases p) auto
  show ?case
  proof (cases "agreed cands")
    case True
    then have r: "resolved (p # ps) = p # resolved ps" by (simp add: resolved_def p)
    have "emit pid fresh fld cands conf es = es @ [entry_of pid fresh (length es) p]"
      using True by (simp add: emit_agreed entry_of_def p split_beta Let_def)
    moreover have "[length es..<length es + length (resolved (p # ps))] = length es # [Suc (length es)..<Suc (length es) + length (resolved ps)]"
      by (simp add: r upt_conv_Cons del: upt_Suc)
    ultimately show ?thesis using Cons.IH [of "es @ [entry_of pid fresh (length es) p]"] by (simp add: r del: upt_Suc) (simp add: p)
  next
    case False
    then have "emit pid fresh fld cands conf es = es" "resolved (p # ps) = resolved ps" by (simp_all add: emit_agreed resolved_def p)
    then show ?thesis using Cons.IH [of es] by (simp add: p)
  qed
qed

lemma labelled_fields_entries:
  "labelled_fields pid fresh rs = map2 (entry_of pid fresh) [0..<length (resolved (plan rs))] (resolved (plan rs))"
  by (simp add: labelled_fields_plan fold_emit)

text \<open>The description of a line item stands in its line.\<close>

lemma item_description: "item_of l = Ok (Some i) \<Longrightarrow> sublist (li_description i) l"
proof -
  assume i: "item_of l = Ok (Some i)"
  have d: "sublist (strip v) l" if "groups_of g (v # vs) l" for g v vs
    using that strip_sublist [of v] sublist_order.order_trans by (auto simp: groups_of_def)
  show ?thesis
    using i by (auto simp: item_of_def bind_ok_Inr intro: d [OF re_match_groups] d [OF re_search_groups_groups] split: option.splits list.splits)
qed

lemma items_description:
  "items_of rs = Ok is \<Longrightarrow> list_all (line_ok chunks) rs \<Longrightarrow> list_all (\<lambda>(i, c). line_ok chunks (li_description i, c)) is"
proof (induction rs arbitrary: "is" rule: items_of.induct)
  case (2 l c rs)
  show ?case
  proof (cases "strip l = []")
    case True
    then show ?thesis using 2 by simp
  next
    case False
    then obtain i js where js: "item_of (strip l) = Ok i" "items_of rs = Ok js" "is = (case i of None \<Rightarrow> js | Some x \<Rightarrow> (x, c) # js)"
      using 2(3) by (auto simp: bind_ok_Inr)
    have "line_ok chunks (li_description x, c)" if "i = Some x" for x
      using item_description [of "strip l" x] that js(1) 2(4) strip_sublist [of l] line_ok_sub [of chunks l c] sublist_order.order_trans
      by auto
    then show ?thesis using 2(2) [OF False js(2)] 2(4) js(3) by (auto split: option.splits)
  qed
qed simp

text \<open>Only the conversion of a quantity or an amount can fail.\<close>

definition value_error :: "'a result \<Rightarrow> bool" where
  "value_error r \<longleftrightarrow> (\<forall>e. r = Raise e \<longrightarrow> (\<exists>m. e = ValueError m))"

lemma value_error_Ok [simp]: "value_error (Ok x)"
  by (simp add: value_error_def)

lemma value_error_bind: "value_error r \<Longrightarrow> (\<And>x. value_error (f x)) \<Longrightarrow> value_error (bind_ok r f)"
  by (cases r) (simp_all add: value_error_def)

lemma value_error_numbers: "value_error (to_int s)" "value_error (to_float s)"
  by (simp_all add: value_error_def to_int_def to_float_def split: option.split)

lemmas value_error_intros = value_error_bind value_error_numbers value_error_Ok

lemma item_errors: "value_error (item_of l)"
  unfolding item_of_def by (intro value_error_intros | split option.split list.split | simp only: simp_thms | intro conjI allI impI)+

lemma items_errors: "value_error (items_of rs)"
  by (induction rs rule: items_of.induct) (simp_all add: value_error_intros item_errors)

text \<open>A text of the document up to case is grounded exactly.\<close>

lemma grounded_exact:
  "line_ok chunks (spn, c) \<Longrightarrow> strip spn = [] \<or> fst (verify H default_config val spn chunks) = GM_EXACT"
  by (rule mentioned_grounded [OF sublist_mentioned [of c]]) (simp_all add: line_ok_def)

definition cited :: "str \<Rightarrow> Chunk list \<Rightarrow> Extraction \<Rightarrow> bool" where
  "cited pid chunks e \<longleftrightarrow> pack_id e = pid \<and> field_name e \<in> set INVOICE_FIELDS \<and> ext_status e = ES_SUGGESTED \<and>
     CHR 0x0A \<notin> set (source_span e) \<and>
     list_ex (\<lambda>c. chunk_id c = ext_chunk_id e \<and> str_in (source_span e) (chunk_text c)) chunks"

definition exact_or_blank :: "(bytes \<Rightarrow> bytes) \<Rightarrow> Chunk list \<Rightarrow> Extraction \<Rightarrow> bool" where
  "exact_or_blank H chunks e \<longleftrightarrow> strip (source_span e) = [] \<or> fst (verify H default_config (ext_value e) (source_span e) chunks) = GM_EXACT"

lemma new_extraction_cited:
  "line_ok chunks (spn, c) \<Longrightarrow> fld \<in> set INVOICE_FIELDS \<Longrightarrow>
     cited pid chunks (new_extraction i pid fld val spn conf (chunk_id c)) \<and> exact_or_blank H chunks (new_extraction i pid fld val spn conf (chunk_id c))"
  using grounded_exact [of chunks spn c] by (auto simp: cited_def exact_or_blank_def list_ex_iff line_ok_def str_in_sublist)

lemma plan_ok: "p \<in> set (plan (records chunks)) \<Longrightarrow> list_all (cand_ok chunks) (fst (snd p)) \<and> fst p \<in> set INVOICE_FIELDS"
proof -
  have "list_all (line_ok chunks) (records chunks)" using records_ok by (auto simp: list_all_iff)
  note ok = vendors_ok [OF this] identifiers_ok [OF this] dates_ok [OF this] currencies_ok [OF this] amounts_ok [OF this] payment_terms_ok [OF this]
  assume "p \<in> set (plan (records chunks))"
  then show ?thesis using ok by (auto simp: plan_def INVOICE_FIELDS_def)
qed

lemma labelled_fields_cited:
  "e \<in> set (labelled_fields pid fresh (records chunks)) \<Longrightarrow> cited pid chunks e \<and> exact_or_blank H chunks e"
proof -
  assume "e \<in> set (labelled_fields pid fresh (records chunks))"
  then obtain i p where p: "p \<in> set (resolved (plan (records chunks)))" "e = entry_of pid fresh i p"
    by (auto simp: labelled_fields_entries dest: set_zip_rightD)
  have "agreed (fst (snd p))" using p(1) by (simp add: resolved_def)
  then have "fst (snd p) \<noteq> []" by (simp add: agreed_def)
  then obtain x xs where "fst (snd p) = x # xs" by (auto simp: neq_Nil_conv)
  then obtain fld conf where q: "p = (fld, x # xs, conf)" by (metis prod.collapse)
  have "cand_ok chunks x" "fld \<in> set INVOICE_FIELDS" using plan_ok [of p chunks] p(1) q by (auto simp: resolved_def)
  then show ?thesis using new_extraction_cited [of chunks "fst (snd x)" "snd (snd x)" fld pid "fresh i" "fst x" conf H]
    by (cases x) (auto simp: p(2) q entry_of_def cand_ok_def)
qed

lemma extract_shape:
  assumes "invoice_extract fr pid fresh chunks = Ok es"
  obtains (none) "es = []" "chunks = [] \<or> \<not> has_invoice_context (records chunks)"
  | (fields) "chunks \<noteq> []" "has_invoice_context (records chunks)" "es = labelled_fields pid fresh (records chunks)"
  | (items) val spn c where "chunks \<noteq> []" "has_invoice_context (records chunks)" "line_ok chunks (spn, c)"
      "es = labelled_fields pid fresh (records chunks) @
         [new_extraction (fresh (length (labelled_fields pid fresh (records chunks)))) pid ''line_items'' val spn (8 / 10) (chunk_id c)]"
proof (cases "chunks = [] \<or> \<not> has_invoice_context (records chunks)")
  case True
  then show ?thesis using assms none by (auto simp: invoice_extract_def Let_def)
next
  case False
  let ?ls = "concat (map (\<lambda>c. map (\<lambda>l. (l, c)) (splitlines (chunk_text c))) chunks)"
  obtain js where js: "items_of ?ls = Ok js" "es = emit_items fr pid fresh js (labelled_fields pid fresh (records chunks))"
    using assms False by (auto simp: invoice_extract_def Let_def bind_ok_Inr)
  have "list_all (line_ok chunks) ?ls" by (auto simp: list_all_iff intro: splitlines_ok)
  from items_description [OF js(1) this] show ?thesis
    using False js(2) fields items by (cases js) (auto simp: emit_items_def)
qed

lemma labelled_fields_names: "map field_name (labelled_fields pid fresh rs) = map fst (resolved (plan rs))"
proof -
  have "map field_name (map2 (entry_of pid fresh) is ps) = map fst ps" if "length is = length ps" for "is" ps
    using that by (induction "is" ps rule: list_induct2) (auto simp: entry_of_def split_beta Let_def)
  then show ?thesis by (simp add: labelled_fields_entries)
qed

lemma labelled_fields_ids: "map ext_id (labelled_fields pid fresh rs) = map fresh [0..<length (labelled_fields pid fresh rs)]"
proof -
  have "map ext_id (map2 (entry_of pid fresh) is ps) = map fresh is" if "length is = length ps" for "is" ps
    using that by (induction "is" ps rule: list_induct2) (auto simp: entry_of_def split_beta Let_def)
  then show ?thesis by (simp add: labelled_fields_entries)
qed

lemma labelled_fields_distinct: "distinct (map field_name (labelled_fields pid fresh rs)) \<and> ''line_items'' \<notin> set (map field_name (labelled_fields pid fresh rs))"
proof -
  have d: "distinct (map fst (plan rs))" and l: "''line_items'' \<notin> fst ` set (plan rs)" by (simp_all add: plan_def)
  have "distinct (map fst (resolved (plan rs)))" unfolding resolved_def using d by (rule distinct_map_filter)
  with l show ?thesis unfolding labelled_fields_names by (auto simp: resolved_def)
qed

section \<open>Properties\<close>

lemma extract_errors: "invoice_extract fr pid fresh chunks = Raise e \<Longrightarrow> \<exists>m. e = ValueError m"
  using items_errors by (auto simp: invoice_extract_def Let_def bind_ok_def value_error_def split: if_splits sum.splits)

lemma extract_cited:
  assumes "invoice_extract fr pid fresh chunks = Ok es"
  shows "list_all (\<lambda>e. cited pid chunks e \<and> exact_or_blank H chunks e) es \<and> distinct (map field_name es) \<and>
    map ext_id es = map fresh [0..<length es]"
  using assms
proof (cases rule: extract_shape)
  case (items val spn c)
  have "''line_items'' \<in> set INVOICE_FIELDS" by (simp add: INVOICE_FIELDS_def)
  then show ?thesis
    using items new_extraction_cited [OF items(3)] labelled_fields_cited labelled_fields_ids labelled_fields_distinct
    by (auto simp: list_all_iff)
qed (use labelled_fields_cited labelled_fields_ids labelled_fields_distinct in \<open>auto simp: list_all_iff\<close>)

definition as_option :: "'a result \<Rightarrow> 'a option" where
  "as_option r = (case r of Inl _ \<Rightarrow> None | Inr x \<Rightarrow> Some x)"

lemma as_option_Some [simp]: "as_option r = Some x \<longleftrightarrow> r = Ok x"
  by (cases r) (simp_all add: as_option_def)

lemma cited_own: "cited pid chunks e \<Longrightarrow> pack_id e = pid \<and> field_name e \<in> set INVOICE_FIELDS \<and> ext_chunk_id e \<in> set (map chunk_id chunks)"
  unfolding cited_def list_ex_iff set_map by (metis imageI)

lemma extract_own: "invoice_extract fr pid fresh chunks = Ok es \<Longrightarrow> e \<in> set es \<Longrightarrow>
   pack_id e = pid \<and> field_name e \<in> set INVOICE_FIELDS \<and> ext_chunk_id e \<in> set (map chunk_id chunks)"
  using extract_cited [of fr pid fresh chunks es] by (intro cited_own) (simp add: list_all_iff)

lemma extract_mentions: "invoice_extract fr pid fresh chunks = Ok es \<Longrightarrow> e \<in> set es \<Longrightarrow> mentioned chunks (source_span e)"
  using extract_cited [of fr pid fresh chunks es] by (auto simp: list_all_iff cited_def list_ex_iff str_in_sublist intro: sublist_mentioned)

interpretation invoice_pack: citing_pack pid INVOICE_FIELDS "\<lambda>fresh chunks. as_option (invoice_extract fr pid fresh chunks)" "[]" for pid fr
  using extract_cited [where H = "\<lambda>_. []"] extract_own extract_mentions by unfold_locales (simp_all add: list_all_iff)

lemma labelled_fields_view:
  "map (\<lambda>e. (field_name e, ext_value e, source_span e, ext_chunk_id e, confidence e)) (labelled_fields pid fresh rs) =
     map (\<lambda>(fld, cands, conf). (fld, fst (hd cands), fst (snd (hd cands)), chunk_id (snd (snd (hd cands))), conf)) (resolved (plan rs))"
proof -
  have "map (\<lambda>e. (field_name e, ext_value e, source_span e, ext_chunk_id e, confidence e)) (map2 (entry_of pid fresh) is ps) =
     map (\<lambda>(fld, cands, conf). (fld, fst (hd cands), fst (snd (hd cands)), chunk_id (snd (snd (hd cands))), conf)) ps"
    if "length is = length ps" for "is" ps
    using that by (induction "is" ps rule: list_induct2) (auto simp: entry_of_def split_beta Let_def)
  then show ?thesis by (simp add: labelled_fields_entries)
qed

lemma resolved_filter: "resolved ps = filter (\<lambda>(fld, cands, conf). agreed cands) ps"
  by (auto simp: resolved_def intro: filter_cong)

lemma extract_resolved:
  assumes "invoice_extract fr pid fresh chunks = Ok es"
  shows "map (\<lambda>e. (field_name e, ext_value e, source_span e, ext_chunk_id e, confidence e)) (filter (\<lambda>e. field_name e \<noteq> ''line_items'') es) =
    (if has_invoice_context (records chunks)
     then map (\<lambda>(fld, cands, conf). (fld, fst (hd cands), fst (snd (hd cands)), chunk_id (snd (snd (hd cands))), conf))
       (filter (\<lambda>(fld, cands, conf). agreed cands) (plan (records chunks)))
     else [])"
proof -
  let ?ls = "labelled_fields pid fresh (records chunks)"
  have "\<forall>e \<in> set ?ls. field_name e \<noteq> ''line_items''"
    using labelled_fields_distinct [of pid fresh "records chunks"] by (metis imageI list.set_map)
  then have keep: "filter (\<lambda>e. field_name e \<noteq> ''line_items'') ?ls = ?ls" by simp
  have empty: "\<not> has_invoice_context (records [])" by (simp add: has_invoice_context_def records_def)
  show ?thesis using assms
  proof (cases rule: extract_shape)
    case none
    then show ?thesis using empty by auto
  next
    case fields
    then show ?thesis by (simp only: if_True keep labelled_fields_view resolved_filter)
  next
    case (items val spn c)
    then show ?thesis by (simp add: keep labelled_fields_view resolved_filter)
  qed
qed

text \<open>C7: whatever the invoice pack extracts is cited. Extraction of any chunks either refuses with a
  ValueError (a number it cannot convert) or yields at most one extraction for each of the nine fields of
  the pack, with fresh identifiers, each with a source span that stands in the text of the chunk it names; so the
  grounding cascade accepts it as an exact match unless the span is blank.\<close>

theorem invoice_extractions_cited:
  "case invoice_extract fr pid fresh chunks of
     Inl e \<Rightarrow> (\<exists>m. e = ValueError m)
   | Inr es \<Rightarrow>
       length es \<le> 9 \<and> distinct (map field_name es) \<and> map ext_id es = map fresh [0..<length es] \<and>
       list_all (\<lambda>e. pack_id e = pid \<and> field_name e \<in> set INVOICE_FIELDS \<and> ext_status e = ES_SUGGESTED \<and>
         list_ex (\<lambda>c. chunk_id c = ext_chunk_id e \<and> str_in (source_span e) (chunk_text c)) chunks \<and>
         (strip (source_span e) = [] \<or> fst (verify H default_config (ext_value e) (source_span e) chunks) = GM_EXACT)) es"
proof (cases "invoice_extract fr pid fresh chunks")
  case (Inl e)
  then show ?thesis using extract_errors by simp
next
  case (Inr es)
  then have "length es \<le> length INVOICE_FIELDS" by (intro invoice_pack.bounded) simp
  then show ?thesis using Inr extract_cited [OF Inr, of H] by (simp add: cited_def exact_or_blank_def list_all_iff INVOICE_FIELDS_def)
qed


end
