(* ===== verification/Compressor.thy ===== *)
theory Compressor
  imports InvoicePack
begin

text \<open>
  \<^verbatim>\<open>kairo/context/compressor.py\<close>: the compression of chunks before extraction, that is the merging of
  overlapping regions, the removal of repeated sentences, and the life-time counters. The compression
  engine is a parameter: \<open>crush\<close> gives, for the position of a message and its text, the compressed text,
  whether it was modified and the strategy, or nothing when the engine is missing or raises; \<open>counter\<close> is
  its token counter.
\<close>

section \<open>Merging overlapping chunks\<close>

definition area :: "BBox \<Rightarrow> real" where
  "area b = (bx1 b - bx0 b) * (by1 b - by0 b)"

definition chunk_iou :: "BBox \<Rightarrow> BBox \<Rightarrow> real" where
  "chunk_iou b1 b2 =
     (let ix0 = max (bx0 b1) (bx0 b2); iy0 = max (by0 b1) (by0 b2);
          ix1 = min (bx1 b1) (bx1 b2); iy1 = min (by1 b1) (by1 b2);
          inter = max 0 (ix1 - ix0) * max 0 (iy1 - iy0);
          union = area b1 + area b2 - inter
      in if union \<le> 0 then 0 else inter / union)"

definition overlapping :: "real \<Rightarrow> Chunk \<Rightarrow> Chunk \<Rightarrow> bool" where
  "overlapping thr c d = (case (chunk_bbox c, chunk_bbox d) of
     (Some b1, Some b2) \<Rightarrow> chunk_page c = chunk_page d \<and> thr < chunk_iou b1 b2
   | _ \<Rightarrow> False)"

definition larger_bbox :: "BBox option \<Rightarrow> BBox option \<Rightarrow> BBox option" where
  "larger_bbox b d = (case (b, d) of (Some b1, Some b2) \<Rightarrow> if area b1 < area b2 then d else b | _ \<Rightarrow> b)"

definition merge_into :: "Chunk \<Rightarrow> Chunk \<Rightarrow> Chunk" where
  "merge_into c d = c\<lparr>chunk_text := chunk_text c @ [CHR 0x0A] @ chunk_text d, chunk_bbox := larger_bbox (chunk_bbox c) (chunk_bbox d)\<rparr>"

text \<open>The inner loop takes the chunks that are not used yet; the second result are those that stay
  unused, in order.\<close>

fun absorb :: "real \<Rightarrow> Chunk \<Rightarrow> Chunk list \<Rightarrow> Chunk \<times> Chunk list" where
  "absorb thr current [] = (current, [])"
| "absorb thr current (d # ds) =
     (if overlapping thr current d then absorb thr (merge_into current d) ds
      else (let (c, rest) = absorb thr current ds in (c, d # rest)))"

lemma absorb_length: "length (snd (absorb thr c ds)) \<le> length ds"
  by (induction thr c ds rule: absorb.induct) (auto simp: split_beta Let_def)

function merge_overlapping_chunks :: "real \<Rightarrow> Chunk list \<Rightarrow> Chunk list" where
  "merge_overlapping_chunks thr [] = []"
| "merge_overlapping_chunks thr (c # cs) =
     fst (absorb thr c cs) # merge_overlapping_chunks thr (snd (absorb thr c cs))"
  by pat_completeness auto
termination
  by (relation "measure (\<lambda>(thr, cs). length cs)") (auto simp: absorb_length le_imp_less_Suc)

section \<open>Repeated sentences\<close>

text \<open>\<^verbatim>\<open>re.split(r'(?<=[.!?])\s+', text)\<close>: the sentence being read is kept reversed.\<close>

definition ends_sentence :: "str \<Rightarrow> bool" where
  "ends_sentence acc \<longleftrightarrow> acc \<noteq> [] \<and> hd acc \<in> set ''.!?''"

function sentences_from :: "str \<Rightarrow> str \<Rightarrow> str list" where
  "sentences_from acc [] = [rev acc]"
| "sentences_from acc (c # s) =
     (if is_space c \<and> ends_sentence acc then rev acc # sentences_from [] (dropWhile is_space s)
      else sentences_from (c # acc) s)"
  by pat_completeness auto
termination
  by (relation "measure (\<lambda>(acc, s). length s)") (auto simp: le_imp_less_Suc length_dropWhile_le)

definition sentences :: "str \<Rightarrow> str list" where
  "sentences s = sentences_from [] s"

fun unique_from :: "str list \<Rightarrow> str list \<Rightarrow> str list" where
  "unique_from seen [] = []"
| "unique_from seen (s # ss) =
     (let k = lower (strip s) in
      if k \<noteq> [] \<and> k \<notin> set seen then s # unique_from (k # seen) ss else unique_from seen ss)"

definition dedup_sentences :: "str \<Rightarrow> str" where
  "dedup_sentences s = join '' '' (unique_from [] (sentences s))"

section \<open>Compression\<close>

record CompressionStats =
  tokens_before :: int
  tokens_after :: int
  tokens_saved :: int
  reduction_pct :: real
  chunks_before :: nat
  chunks_after :: nat
  transforms_applied :: "str list"

definition no_stats :: CompressionStats where
  "no_stats = \<lparr>tokens_before = 0, tokens_after = 0, tokens_saved = 0, reduction_pct = 0, chunks_before = 0, chunks_after = 0, transforms_applied = []\<rparr>"

definition count_tokens :: "(str \<Rightarrow> int option) \<Rightarrow> str \<Rightarrow> int" where
  "count_tokens counter s = (case counter s of
     Some n \<Rightarrow> n
   | None \<Rightarrow> max 1 (int (3 * length (split_ws s) div 4)))"

text \<open>The texts and strategies of the engine; it is given up as soon as one message fails.\<close>

fun crush_all :: "(nat \<Rightarrow> str \<Rightarrow> (str \<times> bool \<times> str) option) \<Rightarrow> nat \<Rightarrow> str list \<Rightarrow> (str list \<times> str list) option" where
  "crush_all crush i [] = Some ([], [])"
| "crush_all crush i (s # ss) = (case crush i s of
     None \<Rightarrow> None
   | Some (t, modified, strategy) \<Rightarrow>
       map_option (\<lambda>(ts, tr). (t # ts, if modified then strategy # tr else tr)) (crush_all crush (i + 1) ss))"

definition dedup_text :: "str \<Rightarrow> str" where
  "dedup_text s = (if length (dedup_sentences s) < length s then dedup_sentences s else s)"

definition dedup_marks :: "str list \<Rightarrow> str list" where
  "dedup_marks ss = concat (map (\<lambda>s. if length (dedup_sentences s) < length s then [''kairo_sentence_dedup''] else []) ss)"

definition compress_texts :: "(nat \<Rightarrow> str \<Rightarrow> (str \<times> bool \<times> str) option) \<Rightarrow> str list \<Rightarrow> str list \<times> str list" where
  "compress_texts crush ss = (case crush_all crush 0 ss of
     None \<Rightarrow> (ss, [''fallback_passthrough''])
   | Some (ts, tr) \<Rightarrow>
       (if tr \<noteq> [] then (ts, tr)
        else (map dedup_text ts, if dedup_marks ts = [] then [''passthrough''] else dedup_marks ts)))"

definition compress_document_chunks ::
  "(nat \<Rightarrow> str \<Rightarrow> (str \<times> bool \<times> str) option) \<Rightarrow> (str \<Rightarrow> int option) \<Rightarrow> Chunk list \<Rightarrow> Chunk list \<times> CompressionStats" where
  "compress_document_chunks crush counter chunks =
     (if chunks = [] then ([], no_stats)
      else let merged = merge_overlapping_chunks (8 / 10) chunks;
               before = (\<Sum>c\<leftarrow>merged. count_tokens counter (chunk_text c));
               (texts, transforms) = compress_texts crush (map chunk_text merged);
               after = (\<Sum>t\<leftarrow>texts. count_tokens counter t);
               cs = map2 (\<lambda>c t. c\<lparr>chunk_text := t\<rparr>) merged texts;
               saved = before - after
           in (cs, \<lparr>tokens_before = before, tokens_after = after, tokens_saved = saved,
                    reduction_pct = (if 0 < before then real_of_int saved / real_of_int before * 100 else 0),
                    chunks_before = length chunks, chunks_after = length cs, transforms_applied = transforms\<rparr>))"

section \<open>Life-time counters\<close>

definition round2 :: "real \<Rightarrow> real" where
  "round2 x = real_of_int (round_half_even (x * 100)) / 100"

definition to_dict :: "CompressionStats \<Rightarrow> CompressionStats" where
  "to_dict st = st\<lparr>reduction_pct := round2 (reduction_pct st)\<rparr>"

record CompressionTotals =
  ct_runs :: nat
  ct_before :: int
  ct_after :: int
  ct_saved :: int
  ct_last :: "CompressionStats option"

definition ct_clear :: CompressionTotals where
  "ct_clear = \<lparr>ct_runs = 0, ct_before = 0, ct_after = 0, ct_saved = 0, ct_last = None\<rparr>"

definition ct_append :: "CompressionStats \<Rightarrow> CompressionTotals \<Rightarrow> CompressionTotals" where
  "ct_append st t = (let last = to_dict st in
     \<lparr>ct_runs = ct_runs t + 1, ct_before = ct_before t + tokens_before last, ct_after = ct_after t + tokens_after last,
      ct_saved = ct_saved t + tokens_saved last, ct_last = Some last\<rparr>)"

record CompressionSnapshot =
  total_runs :: nat
  total_tokens_before :: int
  total_tokens_after :: int
  total_tokens_saved :: int
  avg_reduction_pct :: real
  last_run :: "CompressionStats option"

definition ct_snapshot :: "CompressionTotals \<Rightarrow> CompressionSnapshot" where
  "ct_snapshot t = \<lparr>total_runs = ct_runs t, total_tokens_before = ct_before t, total_tokens_after = ct_after t,
     total_tokens_saved = ct_saved t,
     avg_reduction_pct = (if 0 < ct_before t then round2 (real_of_int (ct_saved t) / real_of_int (ct_before t) * 100) else 0),
     last_run = ct_last t\<rparr>"

section \<open>What merging keeps\<close>

lemma chunk_iou_eq: "chunk_iou = bbox_iou"
  by (intro ext) (simp add: chunk_iou_def bbox_iou_def area_def Let_def)

text \<open>A merged chunk is the first of its chunks with another text and box.\<close>

definition stands_for :: "Chunk \<Rightarrow> Chunk \<Rightarrow> bool" where
  "stands_for m c \<longleftrightarrow> chunk_id m = chunk_id c \<and> chunk_doc_id m = chunk_doc_id c \<and> chunk_page m = chunk_page c \<and>
     source_type m = source_type c \<and> embedding m = embedding c"

lemma stands_for_refl: "stands_for c c"
  by (simp add: stands_for_def)

lemma stands_for_merge: "stands_for m (merge_into c d) \<Longrightarrow> stands_for m c"
  by (simp add: stands_for_def merge_into_def)

lemma absorb_stands_for: "stands_for (fst (absorb thr c ds)) c"
  by (induction thr c ds rule: absorb.induct) (auto simp: split_beta Let_def stands_for_refl dest: stands_for_merge)

lemma absorb_subseq: "subseq (snd (absorb thr c ds)) ds"
  by (induction thr c ds rule: absorb.induct) (auto simp: split_beta Let_def)

definition covers :: "Chunk \<Rightarrow> Chunk \<Rightarrow> bool" where
  "covers m c \<longleftrightarrow> chunk_page m = chunk_page c \<and> sublist (chunk_text c) (chunk_text m)"

lemma covers_trans: "covers m d \<Longrightarrow> covers d c \<Longrightarrow> covers m c"
  unfolding covers_def using sublist_order.order_trans by auto

lemma overlapping_page: "overlapping thr c d \<Longrightarrow> chunk_page c = chunk_page d"
  by (simp add: overlapping_def split: option.splits)

lemma covers_first: "covers (merge_into c d) c"
  unfolding covers_def merge_into_def by (simp del: append.simps)

lemma covers_second: "overlapping thr c d \<Longrightarrow> covers (merge_into c d) d"
proof -
  assume "overlapping thr c d"
  moreover have "sublist (chunk_text d) ((chunk_text c @ [CHR 0x0A]) @ chunk_text d)" by (rule sublist_append_leftI)
  ultimately show ?thesis using overlapping_page [of thr c d] unfolding covers_def merge_into_def by (simp only: append_assoc) simp
qed

lemma absorb_covers:
  "covers (fst (absorb thr c ds)) c \<and> (\<forall>d \<in> set ds. d \<in> set (snd (absorb thr c ds)) \<or> covers (fst (absorb thr c ds)) d)"
proof (induction thr c ds rule: absorb.induct)
  case (1 thr current)
  then show ?case by (simp add: covers_def)
next
  case (2 thr current d ds)
  show ?case
  proof (cases "overlapping thr current d")
    case True
    then show ?thesis using 2(1) [OF True] covers_trans [OF _ covers_first] covers_trans [OF _ covers_second [OF True]] by auto
  next
    case False
    then show ?thesis using 2(2) [OF False] by (auto simp: split_beta Let_def)
  qed
qed

lemma merge_subseq: "\<exists>cs'. subseq cs' cs \<and> list_all2 stands_for (merge_overlapping_chunks thr cs) cs'"
proof (induction thr cs rule: merge_overlapping_chunks.induct)
  case (2 thr c cs)
  then obtain cs' where "subseq cs' (snd (absorb thr c cs))" "list_all2 stands_for (merge_overlapping_chunks thr (snd (absorb thr c cs))) cs'"
    by blast
  then have "subseq (c # cs') (c # cs)" "list_all2 stands_for (merge_overlapping_chunks thr (c # cs)) (c # cs')"
    using absorb_subseq [of thr c cs] absorb_stands_for [of thr c cs] subseq_order.order_trans by auto
  then show ?case by blast
qed simp

lemma merge_covers: "c \<in> set cs \<Longrightarrow> \<exists>m \<in> set (merge_overlapping_chunks thr cs). covers m c"
proof (induction thr cs rule: merge_overlapping_chunks.induct)
  case (2 thr d ds)
  then show ?case using absorb_covers [of thr d ds] by auto
qed simp

section \<open>What the removal of repeated sentences keeps\<close>

text \<open>A sentence has no place to split inside; all but the last end it, all but the first start with a
  character that is no space.\<close>

definition inner :: "str \<Rightarrow> bool" where
  "inner e \<longleftrightarrow> (\<forall>p c q. e = p @ c # q \<longrightarrow> \<not> (is_space c \<and> ends_sentence (rev p)))"

definition opens :: "str \<Rightarrow> bool" where
  "opens e \<longleftrightarrow> e = [] \<or> \<not> is_space (hd e)"

lemma inner_Nil: "inner []"
  by (simp add: inner_def)

lemma inner_snoc: "inner e \<Longrightarrow> \<not> (is_space c \<and> ends_sentence (rev e)) \<Longrightarrow> inner (e @ [c])"
proof -
  assume e: "inner e" and c: "\<not> (is_space c \<and> ends_sentence (rev e))"
  have "\<not> (is_space d \<and> ends_sentence (rev p))" if "e @ [c] = p @ d # q" for p d q
  proof (cases q rule: rev_cases)
    case Nil
    then show ?thesis using that c by simp
  next
    case (snoc q' x)
    then have "e = p @ d # q'" using that by simp
    then show ?thesis using e inner_def by blast
  qed
  then show ?thesis unfolding inner_def by blast
qed

lemma inner_here: "inner (rev acc @ c # w) \<Longrightarrow> \<not> (is_space c \<and> ends_sentence acc)"
proof -
  assume "inner (rev acc @ c # w)"
  from this [unfolded inner_def, rule_format, of "rev acc" c w] show ?thesis by simp
qed

lemma sentences_inner: "inner (rev acc) \<Longrightarrow> list_all inner (sentences_from acc s)"
proof (induction acc s rule: sentences_from.induct)
  case (2 acc c s)
  then show ?case using inner_snoc [of "rev acc" c] inner_Nil by auto
qed simp

lemma sentences_closed: "list_all (\<lambda>e. ends_sentence (rev e)) (butlast (sentences_from acc s))"
proof (induction acc s rule: sentences_from.induct)
  case (2 acc c s)
  have "sentences_from u v \<noteq> []" for u v by (induction u v rule: sentences_from.induct) auto
  then show ?case using 2 by auto
qed simp

lemma sentences_head: "\<exists>w es. sentences_from acc s = (rev acc @ w) # es \<and> prefix w s \<and> list_all opens es"
proof (induction acc s rule: sentences_from.induct)
  case (2 acc c s)
  show ?case
  proof (cases "is_space c \<and> ends_sentence acc")
    case True
    from 2(1) [OF True] obtain w es where w: "sentences_from [] (dropWhile is_space s) = w # es" "prefix w (dropWhile is_space s)" "list_all opens es"
      by auto
    have "opens w" using w(2) by (cases w) (auto simp: opens_def prefix_def dropWhile_eq_Cons_conv)
    then show ?thesis using True w by (auto intro!: exI [of _ "w # es"])
  next
    case False
    from 2(2) [OF False] obtain w es where "sentences_from (c # acc) s = (rev (c # acc) @ w) # es" "prefix w s" "list_all opens es" by blast
    then show ?thesis using False by (intro exI [of _ "c # w"]) auto
  qed
qed (simp add: exI [of _ "[]"])

lemma sentences_single: "inner (rev acc @ w) \<Longrightarrow> sentences_from acc w = [rev acc @ w]"
proof (induction w arbitrary: acc)
  case (Cons c w)
  then show ?case using inner_here [OF Cons.prems] by auto
qed simp

lemma sentences_step:
  "inner (rev acc @ w) \<Longrightarrow> ends_sentence (rev w @ acc) \<Longrightarrow>
     sentences_from acc (w @ CHR '' '' # r) = (rev acc @ w) # sentences_from [] (dropWhile is_space r)"
proof (induction w arbitrary: acc)
  case Nil
  have "is_space CHR '' ''" by code_simp
  then show ?case using Nil by simp
next
  case (Cons c w)
  then show ?case using inner_here [OF Cons.prems(1)] by auto
qed

lemma sentences_join:
  "ss \<noteq> [] \<Longrightarrow> list_all inner ss \<Longrightarrow> list_all (\<lambda>e. ends_sentence (rev e)) (butlast ss) \<Longrightarrow> list_all (\<lambda>e. opens e \<and> e \<noteq> []) (tl ss) \<Longrightarrow>
     sentences (join '' '' ss) = ss"
proof (induction ss)
  case (Cons s ss)
  show ?case
  proof (cases ss)
    case Nil
    then show ?thesis using Cons.prems(2) sentences_single [of "[]" s] by (simp add: sentences_def join_def)
  next
    case (Cons t ts)
    have IH: "sentences (join '' '' ss) = ss" using Cons.IH Cons.prems Cons by (cases ts) auto
    have j: "join '' '' (s # ss) = s @ CHR '' '' # join '' '' ss" by (simp add: join_def Cons)
    have "dropWhile is_space (join '' '' ss) = join '' '' ss" using Cons.prems(4) Cons by (cases t) (auto simp: join_def opens_def)
    then show ?thesis using sentences_step [of "[]" s] Cons.prems(2,3) Cons IH by (simp add: j [unfolded Cons] sentences_def)
  qed
qed simp

text \<open>The sentences that stay: the first of each, without blank ones.\<close>

abbreviation sentence_key :: "str \<Rightarrow> str" where "sentence_key s \<equiv> lower (strip s)"

lemma unique_subseq: "subseq (unique_from seen ss) ss"
  by (induction seen ss rule: unique_from.induct) (auto simp: Let_def)

lemma unique_keys:
  "set (map sentence_key (unique_from seen ss)) = set (map sentence_key ss) - set seen - {[]}"
  "distinct (map sentence_key (unique_from seen ss))"
  by (induction seen ss rule: unique_from.induct) (auto simp: Let_def)

lemma unique_id:
  "distinct (map sentence_key ss) \<Longrightarrow> set (map sentence_key ss) \<inter> insert [] (set seen) = {} \<Longrightarrow> unique_from seen ss = ss"
  by (induction seen ss rule: unique_from.induct) (auto simp: Let_def lower_def)

lemma subseq_butlast_all: "subseq xs ys \<Longrightarrow> list_all p (butlast ys) \<Longrightarrow> list_all p (butlast xs)"
  by (induction xs ys rule: list_emb.induct) (auto split: if_splits simp: list_all_iff dest: in_set_butlastD)

lemma subseq_tl_all: "subseq xs ys \<Longrightarrow> list_all p (tl ys) \<Longrightarrow> list_all p (tl xs)"
  by (cases xs; cases ys) (auto simp: list_all_iff subseq_Cons2_iff split: if_splits dest: subseq_Cons' list_emb_set)

lemma unique_nonblank: "e \<in> set (unique_from seen ss) \<Longrightarrow> e \<noteq> []"
  by (induction seen ss rule: unique_from.induct) (auto simp: Let_def strip_def rstrip_def lstrip_def lower_def split: if_splits)

lemma sentences_dedup:
  "sentences (dedup_sentences s) = (if unique_from [] (sentences s) = [] then [[]] else unique_from [] (sentences s))"
proof (cases "unique_from [] (sentences s) = []")
  case True
  then show ?thesis by (simp add: dedup_sentences_def join_def sentences_def)
next
  case False
  let ?u = "unique_from [] (sentences s)"
  have i: "list_all inner ?u" using sentences_inner [of "[]" s] unique_subseq [of "[]" "sentences s"] inner_Nil
    by (auto simp: list_all_iff sentences_def dest: list_emb_set)
  have c: "list_all (\<lambda>e. ends_sentence (rev e)) (butlast ?u)"
    by (rule subseq_butlast_all [OF unique_subseq]) (simp add: sentences_def sentences_closed)
  have "list_all opens (tl (sentences s))" using sentences_head [of "[]" s] by (auto simp: sentences_def)
  then have "list_all opens (tl ?u)" by (rule subseq_tl_all [OF unique_subseq])
  moreover have "e \<noteq> []" if "e \<in> set (tl ?u)" for e using that unique_nonblank list.set_sel(2) [OF False] by blast
  ultimately have "list_all (\<lambda>e. opens e \<and> e \<noteq> []) (tl ?u)" by (simp add: list_all_iff)
  from sentences_join [OF False i c this] False show ?thesis by (simp add: dedup_sentences_def)
qed

lemma dedup_idem: "dedup_sentences (dedup_sentences s) = dedup_sentences s"
proof -
  let ?u = "unique_from [] (sentences s)"
  have "unique_from [] ?u = ?u" using unique_keys [of "[]" "sentences s"] by (intro unique_id) auto
  moreover have "unique_from [] [[]] = []" by (simp add: strip_def rstrip_def lstrip_def lower_def)
  ultimately show ?thesis by (simp add: dedup_sentences_def [of "dedup_sentences s"] sentences_dedup) (simp add: dedup_sentences_def)
qed

section \<open>What compression keeps\<close>

lemma crush_all_length: "crush_all crush i ss = Some (ts, tr) \<Longrightarrow> length ts = length ss"
  by (induction crush i ss arbitrary: ts tr rule: crush_all.induct) (auto split: option.splits)

lemma compress_texts_length: "length (fst (compress_texts crush ss)) = length ss"
  using crush_all_length [of crush 0 ss] by (auto simp: compress_texts_def split: option.splits)

lemma stands_for_texts: "list_all2 stands_for ms cs \<Longrightarrow> length ts = length ms \<Longrightarrow> list_all2 stands_for (map2 (\<lambda>c t. c\<lparr>chunk_text := t\<rparr>) ms ts) cs"
  by (induction arbitrary: ts rule: list_all2_induct) (auto simp: stands_for_def length_Suc_conv)

lemma texts_of_map2: "length ts = length ms \<Longrightarrow> map chunk_text (map2 (\<lambda>c t. c\<lparr>chunk_text := t\<rparr>) ms ts) = ts"
  by (induction ts ms rule: list_induct2) auto

lemma same_texts: "map2 (\<lambda>c t. c\<lparr>chunk_text := t\<rparr>) ms (map chunk_text ms) = ms"
  by (induction ms) auto

lemma compress_fallback: "fst (compress_document_chunks (\<lambda>_ _. None) counter chunks) = merge_overlapping_chunks (8 / 10) chunks"
proof -
  have "compress_texts (\<lambda>_ _. None) ss = (ss, if ss = [] then [''passthrough''] else [''fallback_passthrough''])" for ss
    by (cases ss) (simp_all add: compress_texts_def dedup_marks_def)
  then show ?thesis by (simp add: compress_document_chunks_def Let_def same_texts)
qed

section \<open>Invoices after merging\<close>

lemma sublist_part: "sublist v (a @ x # b) \<Longrightarrow> x \<notin> set v \<Longrightarrow> sublist v a \<or> sublist v b"
proof -
  assume "sublist v (a @ x # b)" and x: "x \<notin> set v"
  then consider "sublist v a" | "sublist v (x # b)" | p q where "v = p @ q" "suffix p a" "prefix q (x # b)"
    unfolding sublist_append by blast
  then show ?thesis
  proof cases
    case 2
    then show ?thesis using x by (auto simp: sublist_Cons_right prefix_Cons)
  next
    case 3
    then show ?thesis using x by (cases q) auto
  qed simp
qed

definition line_in :: "str \<Rightarrow> Chunk list \<Rightarrow> bool" where
  "line_in v cs \<longleftrightarrow> (\<exists>c \<in> set cs. sublist v (chunk_text c))"

lemma absorb_line: "CHR 0x0A \<notin> set v \<Longrightarrow> sublist v (chunk_text (fst (absorb thr c ds))) \<Longrightarrow> line_in v (c # ds)"
proof (induction thr c ds rule: absorb.induct)
  case (2 thr c d ds)
  show ?case
  proof (cases "overlapping thr c d")
    case True
    then have "line_in v (merge_into c d # ds)" using 2 by simp
    moreover have "sublist v (chunk_text c) \<or> sublist v (chunk_text d)" if "sublist v (chunk_text (merge_into c d))"
      using that sublist_part [of v "chunk_text c" "CHR 0x0A"] 2(3) by (simp add: merge_into_def)
    ultimately show ?thesis unfolding line_in_def by auto
  next
    case False
    then have "line_in v (c # ds)" using 2 by (simp add: split_beta Let_def)
    then show ?thesis by (auto simp: line_in_def)
  qed
qed (simp add: line_in_def)

lemma merge_line: "CHR 0x0A \<notin> set v \<Longrightarrow> line_in v (merge_overlapping_chunks thr cs) \<Longrightarrow> line_in v cs"
proof (induction thr cs rule: merge_overlapping_chunks.induct)
  case (2 thr c cs)
  from 2(3) consider "sublist v (chunk_text (fst (absorb thr c cs)))" | "line_in v (merge_overlapping_chunks thr (snd (absorb thr c cs)))"
    by (auto simp: line_in_def)
  then show ?case
  proof cases
    case 1
    then show ?thesis by (rule absorb_line [OF 2(2)])
  next
    case b: 2
    then show ?thesis using 2(1) [OF 2(2) b] list_emb_set [OF absorb_subseq [of thr c cs]] by (auto simp: line_in_def)
  qed
qed simp

lemma inject_filename_line: "line_in v (inject_filename path cs) \<longleftrightarrow> line_in v cs"
  by (auto simp: line_in_def inject_filename_def Let_def)

lemma line_in_mentioned: "line_in v chunks \<Longrightarrow> mentioned chunks v"
  by (auto simp: line_in_def intro: sublist_mentioned)

lemmas line_grounded = mentioned_grounded [OF line_in_mentioned]

lemma merged_invoice_line:
  assumes "invoice_extract fr pid fresh (merge_overlapping_chunks thr chunks) = Ok es" "e \<in> set es"
  shows "line_in (source_span e) chunks"
proof -
  have "cited pid (merge_overlapping_chunks thr chunks) e" using extract_cited [OF assms(1)] assms(2) by (simp add: list_all_iff)
  then have "CHR 0x0A \<notin> set (source_span e)" "line_in (source_span e) (merge_overlapping_chunks thr chunks)"
    by (auto simp: cited_def line_in_def list_ex_iff str_in_sublist)
  then show ?thesis by (rule merge_line)
qed

section \<open>Life-time totals\<close>

text \<open>The counters are the sums over all runs, and what is kept does not grow with them.\<close>

lemma totals_sums:
  "fold ct_append sts t =
     \<lparr>ct_runs = ct_runs t + length sts, ct_before = ct_before t + (\<Sum>st\<leftarrow>sts. tokens_before st),
      ct_after = ct_after t + (\<Sum>st\<leftarrow>sts. tokens_after st), ct_saved = ct_saved t + (\<Sum>st\<leftarrow>sts. tokens_saved st),
      ct_last = (if sts = [] then ct_last t else Some (to_dict (last sts)))\<rparr>"
  by (induction sts arbitrary: t) (auto simp: ct_append_def to_dict_def Let_def)

section \<open>Limits\<close>

text \<open>The box of a merged chunk grows while later chunks are looked at, and those passed over before
  are not looked at again: two chunks of the result can overlap beyond the threshold.\<close>

definition strip_chunk :: "str \<Rightarrow> real \<Rightarrow> Chunk" where
  "strip_chunk i w = \<lparr>chunk_id = i, chunk_doc_id = ''d'', chunk_page = 0, chunk_bbox = Some \<lparr>bx0 = 0, by0 = 0, bx1 = w, by1 = 1\<rparr>,
     chunk_text = [], source_type = [], embedding = []\<rparr>"

lemma merged_may_overlap:
  "\<exists>m d. merge_overlapping_chunks (8 / 10) [strip_chunk ''a'' 100, strip_chunk ''b'' 130, strip_chunk ''c'' 115] = [m, d] \<and>
     overlapping (8 / 10) m d"
  by (simp add: strip_chunk_def overlapping_def chunk_iou_def area_def merge_into_def larger_bbox_def Let_def max_def min_def)

text \<open>Sentences that differ in case only count as repeated.\<close>

lemma dedup_ignores_case: "dedup_sentences ''Pay ACME. Pay acme.'' = ''Pay ACME.''"
  by code_simp

section \<open>Properties\<close>

text \<open>C10: compression keeps the provenance of chunks. Whatever the compression engine does, the result
  stands for chunks of the input in their order, with identifier, document, page, source type and
  embedding unchanged; every input chunk's text is part of a chunk of its page that entered the engine;
  and the statistics are those of the chunks returned. Without an engine the texts are not touched.\<close>

theorem compression_keeps_provenance:
  "(\<exists>kept. subseq kept chunks \<and> list_all2 (\<lambda>m c. chunk_id m = chunk_id c \<and> chunk_doc_id m = chunk_doc_id c \<and> chunk_page m = chunk_page c \<and>
      source_type m = source_type c \<and> embedding m = embedding c) (fst (compress_document_chunks crush counter chunks)) kept) \<and>
   list_all (\<lambda>c. list_ex (\<lambda>m. chunk_page m = chunk_page c \<and> str_in (chunk_text c) (chunk_text m)) (merge_overlapping_chunks (8 / 10) chunks)) chunks \<and>
   fst (compress_document_chunks (\<lambda>_ _. None) counter chunks) = merge_overlapping_chunks (8 / 10) chunks \<and>
   (let (cs, st) = compress_document_chunks crush counter chunks in
      chunks_before st = length chunks \<and> chunks_after st = length cs \<and> chunks_after st \<le> chunks_before st \<and>
      tokens_before st = (\<Sum>m\<leftarrow>merge_overlapping_chunks (8 / 10) chunks. count_tokens counter (chunk_text m)) \<and>
      tokens_after st = (\<Sum>c\<leftarrow>cs. count_tokens counter (chunk_text c)) \<and>
      tokens_saved st = tokens_before st - tokens_after st)"
proof -
  let ?m = "merge_overlapping_chunks (8 / 10) chunks"
  let ?t = "fst (compress_texts crush (map chunk_text ?m))"
  let ?cs = "map2 (\<lambda>c t. c\<lparr>chunk_text := t\<rparr>) ?m ?t"
  have cs: "fst (compress_document_chunks crush counter chunks) = ?cs"
    by (cases chunks) (simp_all add: compress_document_chunks_def Let_def split_beta)
  have len: "length ?t = length ?m" by (simp add: compress_texts_length)
  obtain kept where k: "subseq kept chunks" "list_all2 stands_for ?m kept" using merge_subseq by blast
  then have "list_all2 stands_for ?cs kept" using len by (intro stands_for_texts)
  then have kept: "\<exists>kept. subseq kept chunks \<and> list_all2 (\<lambda>m c. chunk_id m = chunk_id c \<and> chunk_doc_id m = chunk_doc_id c \<and>
      chunk_page m = chunk_page c \<and> source_type m = source_type c \<and> embedding m = embedding c) ?cs kept"
    using k(1) unfolding stands_for_def by blast
  have n: "length ?cs \<le> length chunks" using len list_all2_lengthD [OF k(2)] list_emb_length [OF k(1)] by simp
  have after: "(\<Sum>c\<leftarrow>?cs. count_tokens counter (chunk_text c)) = (\<Sum>t\<leftarrow>?t. count_tokens counter t)"
    using arg_cong [OF texts_of_map2 [OF len], of "\<lambda>ts. \<Sum>t\<leftarrow>ts. count_tokens counter t"] by (simp only: map_map comp_def)
  have "let (cs, st) = compress_document_chunks crush counter chunks in
      chunks_before st = length chunks \<and> chunks_after st = length cs \<and> chunks_after st \<le> chunks_before st \<and>
      tokens_before st = (\<Sum>m\<leftarrow>?m. count_tokens counter (chunk_text m)) \<and>
      tokens_after st = (\<Sum>c\<leftarrow>cs. count_tokens counter (chunk_text c)) \<and> tokens_saved st = tokens_before st - tokens_after st"
    using n after by (cases "chunks = []") (simp_all add: compress_document_chunks_def Let_def split_beta no_stats_def)
  moreover have "list_all (\<lambda>c. list_ex (\<lambda>m. chunk_page m = chunk_page c \<and> str_in (chunk_text c) (chunk_text m)) ?m) chunks"
    using merge_covers [of _ chunks "8 / 10"] by (auto simp: list_all_iff list_ex_iff covers_def str_in_sublist)
  ultimately show ?thesis using kept compress_fallback unfolding cs by blast
qed

text \<open>C11: removing repeated sentences keeps every sentence once. The sentences of the result are
  sentences of the text in their order; up to case and surrounding blanks no two of them are equal, and
  each sentence of the text that is not blank is among them. Removing again changes nothing.\<close>

theorem dedup_keeps_sentences:
  "(\<exists>kept. subseq kept (sentences s) \<and> distinct (map (\<lambda>e. lower (strip e)) kept) \<and>
     set (map (\<lambda>e. lower (strip e)) kept) = set (map (\<lambda>e. lower (strip e)) (sentences s)) - {[]} \<and>
     sentences (dedup_sentences s) = (if kept = [] then [[]] else kept)) \<and>
   dedup_sentences (dedup_sentences s) = dedup_sentences s"
  using unique_subseq [of "[]" "sentences s"] unique_keys [of "[]" "sentences s"] sentences_dedup [of s] dedup_idem [of s]
  by (intro conjI exI [of _ "unique_from [] (sentences s)"]) simp_all

text \<open>C9: what the invoice pack reads from merged chunks is grounded in the document. When no
  compression engine is at hand, every extraction from the compressed chunks is accepted as an exact
  match by the cascade on the original chunks, as the orchestrator passes them to it, unless its span is
  blank: merging joins texts at a line break and the pack never reads across one.\<close>

theorem merged_invoice_grounded:
  "case invoice_extract fr pid fresh (fst (compress_document_chunks (\<lambda>_ _. None) counter chunks)) of
     Inl e \<Rightarrow> (\<exists>m. e = ValueError m)
   | Inr es \<Rightarrow> list_all (\<lambda>e. strip (source_span e) = [] \<or>
       fst (verify H default_config (ext_value e) (source_span e) (inject_filename path chunks)) = GM_EXACT) es"
proof (cases "invoice_extract fr pid fresh (merge_overlapping_chunks (8 / 10) chunks)")
  case (Inl e)
  then show ?thesis using extract_errors [OF Inl] by (simp add: compress_fallback)
next
  case (Inr es)
  have "strip (source_span e) = [] \<or> fst (verify H default_config (ext_value e) (source_span e) (inject_filename path chunks)) = GM_EXACT"
    if "e \<in> set es" for e
    using merged_invoice_line [OF Inr that] by (intro line_grounded) (simp add: inject_filename_line)
  then show ?thesis unfolding compress_fallback Inr sum.case by (simp add: list_all_iff)
qed

end
