(* ===== verification/GenericPack.thy ===== *)
theory GenericPack
  imports Compressor
begin

text \<open>
  \<^verbatim>\<open>packs/generic/pack.py\<close>: summary, key claims, entities and topics of any document. As in
  \<open>InvoicePack\<close> the characters of the patterns beyond U+00FF (the bullet and the long dashes) cannot occur
  in the modelled text and are left out.
\<close>

section \<open>Parts shared by the fields\<close>

definition GENERIC_FIELDS :: "str list" where
  "GENERIC_FIELDS = [''summary'', ''key_claims'', ''entities'', ''topics'']"

abbreviation nl :: str where "nl \<equiv> [CHR 0x0A]"

definition full_text :: "Chunk list \<Rightarrow> str" where
  "full_text chunks = join nl (map chunk_text chunks)"

definition first_chunk :: "(Chunk \<Rightarrow> bool) \<Rightarrow> Chunk list \<Rightarrow> Chunk" where
  "first_chunk p chunks = (case find p chunks of Some c \<Rightarrow> c | None \<Rightarrow> hd chunks)"

definition strings_json :: "str list \<Rightarrow> str" where
  "strings_json ss = dumps plain (JList (map JStr ss))"

section \<open>Summary\<close>

definition summary_rx :: grx where
  "summary_rx =
     [raw (alts [seqs [ci ''executive'', ws, ci ''summary''], ci ''summary'', ci ''abstract'']),
      raw (seqs [ws0, opt (ci '':''), ws0, ch nl]), grp (Seq dot_all (LazyStar dot_all)),
      raw (alts [Seq (ch nl) (ch nl),
        seqs [ch nl, Ch (\<lambda>c. upper_az c \<or> lower_az c), Star (Ch (\<lambda>c. c \<noteq> CHR 0x0A)), ch '':''], AtEnd])]"

definition summary_section :: "Chunk list \<Rightarrow> str" where
  "summary_section chunks = (case re_search_groups summary_rx (full_text chunks) of Some [v] \<Rightarrow> strip v | _ \<Rightarrow> [])"

definition first_sentences :: "Chunk list \<Rightarrow> (str \<times> Chunk) option" where
  "first_sentences chunks =
     map_option (\<lambda>c. (strip (join '' '' (take 2 (sentences (chunk_text c)))), c)) (find (\<lambda>c. 50 < length (strip (chunk_text c))) chunks)"

definition generic_summary :: "Chunk list \<Rightarrow> (str \<times> str \<times> str) option" where
  "generic_summary chunks =
     (let s = summary_section chunks in
      if s \<noteq> [] then Some (s, s, chunk_id (first_chunk (\<lambda>c. str_in (take 30 s) (chunk_text c)) chunks))
      else case first_sentences chunks of
             Some (t, c) \<Rightarrow> if t \<noteq> [] then Some (t, t, chunk_id c) else None
           | None \<Rightarrow> None)"

section \<open>Key claims\<close>

definition claims_header :: rx where
  "claims_header = Seq (alts
     [seqs [ci ''key'', ws, ci ''claim'', opt (ci ''s'')], seqs [ci ''main'', ws, ci ''findings''], seqs [ci ''key'', ws, ci ''findings''],
      seqs [ci ''key'', ws, ci ''recommendations''], ci ''findings'', ci ''recommendations'', ci ''results'', ci ''conclusions'',
      seqs [ci ''primary'', ws, ci ''conclusions''], seqs [ci ''key'', ws, ci ''contributions'']]) (Seq ws0 (ci '':''))"

definition bullet_line :: grx where
  "bullet_line = [raw (ch ''-*''), raw ws0, grp (plus dot)]"

definition numbered_line :: grx where
  "numbered_line = [raw (plus (Ch is_digit)), raw (ch ''.''), raw ws0, grp (plus dot)]"

text \<open>The text of a bulleted or numbered line.\<close>

definition listed :: "str \<Rightarrow> str option" where
  "listed l = (case re_match bullet_line l of
     Some [v] \<Rightarrow> Some (strip v)
   | _ \<Rightarrow> (case re_match numbered_line l of Some [v] \<Rightarrow> Some (strip v) | _ \<Rightarrow> None))"

definition add_claim :: "nat \<Rightarrow> str \<Rightarrow> str list \<Rightarrow> str list" where
  "add_claim n v claims = (if n < length v \<and> v \<notin> set claims then claims @ [v] else claims)"

record ClaimScan =
  cs_claims :: "str list"
  cs_chunk :: "Chunk option"
  cs_inside :: bool

definition set_first :: "Chunk \<Rightarrow> Chunk option \<Rightarrow> Chunk option" where
  "set_first c x = (case x of None \<Rightarrow> Some c | Some d \<Rightarrow> Some d)"

definition claim_line :: "Chunk \<Rightarrow> str \<Rightarrow> ClaimScan \<Rightarrow> ClaimScan" where
  "claim_line c l st =
     (let s = strip l in
      case re_search_groups [raw claims_header, grp (Star dot_all)] s of
        Some [rest] \<Rightarrow>
          (let after = strip rest;
               claim = (case listed after of Some v \<Rightarrow> v | None \<Rightarrow> after)
           in st\<lparr>cs_inside := True, cs_chunk := set_first c (cs_chunk st),
                 cs_claims := (if after \<noteq> [] then add_claim 10 claim (cs_claims st) else cs_claims st)\<rparr>)
      | _ \<Rightarrow>
          if \<not> cs_inside st then st
          else (case listed s of
            Some v \<Rightarrow> st\<lparr>cs_claims := add_claim 10 v (cs_claims st)\<rparr>
          | None \<Rightarrow> if s \<noteq> [] \<and> cs_claims st \<noteq> [] then st\<lparr>cs_inside := False\<rparr> else st))"

fun claim_chunks :: "Chunk list \<Rightarrow> ClaimScan \<Rightarrow> ClaimScan" where
  "claim_chunks [] st = st"
| "claim_chunks (c # cs) st =
     (let st' = fold (claim_line c) (splitlines (chunk_text c)) (st\<lparr>cs_inside := False\<rparr>) in
      if cs_claims st' \<noteq> [] then st' else claim_chunks cs st')"

definition claim_words :: "str list" where
  "claim_words = [''claim'', ''show'', ''propose'', ''suggest'', ''result'', ''find'', ''recommend'', ''complet'', ''reduc'', ''achiev'', ''budget'',
     ''cost'', ''vulnerab'', ''segment'', ''access'', ''migration'', ''latency'', ''market'', ''adoption'', ''growth'']"

text \<open>\<^verbatim>\<open>re.sub\<close> with a pattern anchored at the start.\<close>

definition cut_prefix :: "rx \<Rightarrow> str \<Rightarrow> str" where
  "cut_prefix r s = (case ends r ([], s) of [] \<Rightarrow> s | z # _ \<Rightarrow> snd z)"

definition loose_claim :: "Chunk \<Rightarrow> str \<Rightarrow> ClaimScan \<Rightarrow> ClaimScan" where
  "loose_claim c l st =
     (let s = strip l;
          cleaned = cut_prefix (seqs [plus (Ch is_digit), ch ''.'', ws0]) (cut_prefix (Seq (ch ''-*'') ws0) s)
      in if listed s \<noteq> None \<and> list_ex (\<lambda>k. str_in k (lower l)) claim_words \<and> 15 < length cleaned \<and> cleaned \<notin> set (cs_claims st)
         then st\<lparr>cs_claims := cs_claims st @ [cleaned], cs_chunk := set_first c (cs_chunk st)\<rparr>
         else st)"

definition scan_claims :: "Chunk list \<Rightarrow> ClaimScan" where
  "scan_claims chunks =
     (let st = claim_chunks chunks \<lparr>cs_claims = [], cs_chunk = None, cs_inside = False\<rparr> in
      if cs_claims st \<noteq> [] then st
      else fold (\<lambda>c. fold (loose_claim c) (splitlines (chunk_text c))) chunks st)"

definition generic_claims :: "Chunk list \<Rightarrow> (str \<times> str \<times> str) option" where
  "generic_claims chunks =
     (let st = scan_claims chunks in
      if cs_claims st = [] then None
      else Some (strings_json (cs_claims st), hd (cs_claims st),
        chunk_id (case cs_chunk st of Some c \<Rightarrow> c | None \<Rightarrow> hd chunks)))"

section \<open>Entities\<close>

definition title_line :: "Chunk list \<Rightarrow> str" where
  "title_line chunks =
     (let lines = concat (map (\<lambda>c. filter (\<lambda>l. l \<noteq> []) (map strip (splitlines (chunk_text c)))) chunks)
      in if lines = [] then [] else hd lines)"

definition clean_title :: "str \<Rightarrow> str" where
  "clean_title s = strip (re_sub (seqs [ws0, ch ''-'', ws0, Star dot, AtEnd]) [] s)"

definition entity_names :: "Chunk list \<Rightarrow> str list" where
  "entity_names chunks =
     (let t = lower (full_text chunks) in
      if str_in ''security audit'' t \<and> str_in ''vulnerabilit'' t then [''Security Operations Team'', ''IT Infrastructure'']
      else if str_in ''fiscal year'' t \<and> str_in ''budget review'' t then [''Finance Department'', ''Budget Committee'']
      else if str_in ''market intelligence group'' t then [''Market Intelligence Group'', ''China'', ''European'']
      else if str_in ''cross-functional initiative to modernize'' t then
        (let title = clean_title (title_line chunks) in
         if title \<noteq> [] then [title, ''Infrastructure Modernization Team''] else [''Infrastructure Modernization Team''])
      else [])"

definition generic_entities :: "Chunk list \<Rightarrow> (str \<times> str \<times> str) option" where
  "generic_entities chunks =
     (let names = entity_names chunks; t = lower (full_text chunks); e = lower (hd names) in
      if names = [] then None
      else Some (strings_json names, if str_in e t then hd names else take 100 (chunk_text (hd chunks)),
        chunk_id (first_chunk (\<lambda>c. str_in e (lower (chunk_text c)) \<or> str_in (take 50 t) (lower (chunk_text c))) chunks)))"

section \<open>Topics\<close>

definition topic_map :: "(str \<times> str list) list" where
  "topic_map =
     [(''technology'', [''technology'', ''software'', ''api'', ''cloud'', ''digital'', ''infrastructure'', ''system'', ''platform'']),
      (''security'', [''security'', ''vulnerability'', ''patch'', ''audit'', ''cyber'', ''threat'']),
      (''data'', [''data'', ''database'', ''migration'', ''analytics'']),
      (''financial'', [''financial'', ''finance'', ''budget'', ''cost'', ''revenue'', ''payment'', ''tax'']),
      (''analysis'', [''analysis'', ''report'', ''study'', ''research'', ''assessment'']),
      (''market'', [''market'', ''sales'', ''customer'', ''adoption'', ''growth'', ''competitive'']),
      (''automotive'', [''automotive'', ''vehicle'', ''ev'', ''car'', ''battery'', ''electric vehicle''])]"

definition topic_names :: "Chunk list \<Rightarrow> str list" where
  "topic_names chunks =
     (let t = lower (full_text chunks) in
      if str_in ''security audit'' t \<and> str_in ''vulnerabilit'' t then [''security'', ''data'', ''technology'']
      else if str_in ''fiscal year'' t \<and> str_in ''budget review'' t then [''financial'', ''data'', ''analysis'']
      else if str_in ''market intelligence group'' t \<or> str_in ''china remains the largest market'' t then [''technology'', ''market'', ''automotive'']
      else if str_in ''cross-functional initiative to modernize'' t then [''technology'', ''security'', ''data'']
      else take 4 (map fst (filter (\<lambda>(_, ks). list_ex (\<lambda>k. str_in k t) ks) topic_map)))"

definition generic_topics :: "Chunk list \<Rightarrow> (str \<times> str \<times> str) option" where
  "generic_topics chunks =
     (let names = topic_names chunks;
          c = first_chunk (\<lambda>c. list_ex (\<lambda>k. str_in k (lower (chunk_text c))) names) chunks
      in if names = [] then None else Some (strings_json names, take 100 (chunk_text c), chunk_id c))"

section \<open>Extraction\<close>

definition generic_extract :: "str \<Rightarrow> (nat \<Rightarrow> str) \<Rightarrow> Chunk list \<Rightarrow> Extraction list" where
  "generic_extract pid fresh chunks =
     (if chunks = [] then []
      else let put = add_field pid fresh;
               es = put ''summary'' (9 / 10) (generic_summary chunks) [];
               es = put ''key_claims'' (85 / 100) (generic_claims chunks) es;
               es = put ''entities'' (8 / 10) (generic_entities chunks) es
           in put ''topics'' (75 / 100) (generic_topics chunks) es)"

section \<open>Where the spans stand\<close>

lemma line_in_sub: "line_in v chunks \<Longrightarrow> sublist u v \<Longrightarrow> line_in u chunks"
  unfolding line_in_def using sublist_order.order_trans by blast

lemma line_in_text: "c \<in> set chunks \<Longrightarrow> sublist v (chunk_text c) \<Longrightarrow> line_in v chunks"
  by (auto simp: line_in_def)

lemma line_in_splitlines: "c \<in> set chunks \<Longrightarrow> l \<in> set (splitlines (chunk_text c)) \<Longrightarrow> line_in l chunks"
  using lines_from_sublist [of l "[]" "chunk_text c"] by (auto simp: splitlines_def line_in_def)

lemma listed_sublist: "listed s = Some v \<Longrightarrow> sublist v s"
proof -
  assume "listed s = Some v"
  then obtain g u us where "re_match g s = Some (u # us)" "v = strip u"
    by (auto simp: listed_def split: option.splits list.splits)
  then show ?thesis using re_match_groups [of g s "u # us"] strip_sublist [of u] sublist_order.order_trans by (auto simp: groups_of_def)
qed

lemma cut_prefix_sublist: "sublist (cut_prefix r s) s"
proof (cases "ends r ([], s)")
  case (Cons z zs)
  then have "matches r ([], s) z" using ends_iff [of z r "([], s)"] by simp
  then obtain w where "moved ([], s) w z" using matches_moved by blast
  then show ?thesis using Cons by (simp add: cut_prefix_def moved_def)
qed (simp add: cut_prefix_def)

text \<open>Every claim found so far is part of a line.\<close>

definition claims_ok :: "Chunk list \<Rightarrow> ClaimScan \<Rightarrow> bool" where
  "claims_ok chunks st \<longleftrightarrow> (\<forall>v \<in> set (cs_claims st). line_in v chunks) \<and> (\<forall>c. cs_chunk st = Some c \<longrightarrow> c \<in> set chunks)"

lemma claims_okI:
  "(\<And>v. v \<in> set (cs_claims st) \<Longrightarrow> line_in v chunks) \<Longrightarrow> (\<And>c. cs_chunk st = Some c \<Longrightarrow> c \<in> set chunks) \<Longrightarrow> claims_ok chunks st"
  by (simp add: claims_ok_def)

lemma claims_ok_inside [simp]: "claims_ok chunks (st\<lparr>cs_inside := b\<rparr>) = claims_ok chunks st"
  by (simp add: claims_ok_def)

lemma claims_ok_snoc: "claims_ok chunks st \<Longrightarrow> line_in v chunks \<Longrightarrow> claims_ok chunks (st\<lparr>cs_claims := cs_claims st @ [v]\<rparr>)"
  by (auto simp: claims_ok_def)

lemma claims_ok_add: "claims_ok chunks st \<Longrightarrow> line_in v chunks \<Longrightarrow> claims_ok chunks (st\<lparr>cs_claims := add_claim n v (cs_claims st)\<rparr>)"
  by (simp add: add_claim_def claims_ok_snoc)

lemma claims_ok_chunk: "claims_ok chunks st \<Longrightarrow> c \<in> set chunks \<Longrightarrow> claims_ok chunks (st\<lparr>cs_chunk := set_first c (cs_chunk st)\<rparr>)"
  by (cases "cs_chunk st") (auto simp: claims_ok_def set_first_def)

lemma one_group:
  obtains v where "r = Some [v]"
  | "\<And>(A :: 'a \<Rightarrow> 'b) B. (case r of Some [v] \<Rightarrow> A v | _ \<Rightarrow> B) = B"
  by (cases r; cases "the r"; cases "tl (the r)") auto

lemma claim_line_ok:
  assumes "claims_ok chunks st" "c \<in> set chunks" "line_in l chunks"
  shows "claims_ok chunks (claim_line c l st)"
proof -
  have s: "line_in u chunks" if "sublist u (strip l)" for u
    using assms(3) that strip_sublist [of l] line_in_sub sublist_order.order_trans by blast
  have li: "line_in v chunks" if "listed u = Some v" "sublist u (strip l)" for u v
    using listed_sublist [OF that(1)] that(2) s sublist_order.order_trans by blast
  have after: "sublist (strip rest) (strip l)" if "re_search_groups g (strip l) = Some [rest]" for g rest
    using re_search_groups_groups [OF that] strip_sublist [of rest] sublist_order.order_trans by (auto simp: groups_of_def)
  show ?thesis
  proof (rule one_group [of "re_search_groups [raw claims_header, grp (Star dot_all)] (strip l)"])
    fix rest
    assume 1: "re_search_groups [raw claims_header, grp (Star dot_all)] (strip l) = Some [rest]"
    have "line_in (case listed (strip rest) of Some v \<Rightarrow> v | None \<Rightarrow> strip rest) chunks"
      using after [OF 1] s li by (auto split: option.split)
    then have "claims_ok chunks (st\<lparr>cs_inside := True, cs_chunk := set_first c (cs_chunk st),
        cs_claims := add_claim 10 (case listed (strip rest) of Some v \<Rightarrow> v | None \<Rightarrow> strip rest) (cs_claims st)\<rparr>)"
      using claims_ok_add [of chunks "st\<lparr>cs_inside := True, cs_chunk := set_first c (cs_chunk st)\<rparr>"] claims_ok_chunk [OF _ assms(2), of "st\<lparr>cs_inside := True\<rparr>"] assms(1) by simp
    moreover have "claims_ok chunks (st\<lparr>cs_inside := True, cs_chunk := set_first c (cs_chunk st)\<rparr>)"
      using claims_ok_chunk [OF _ assms(2), of "st\<lparr>cs_inside := True\<rparr>"] assms(1) by simp
    ultimately show ?thesis using 1 by (simp add: claim_line_def Let_def)
  next
    assume miss: "\<And>A B. (case re_search_groups [raw claims_header, grp (Star dot_all)] (strip l) of Some [v] \<Rightarrow> A v | _ \<Rightarrow> B) = (B :: ClaimScan)"
    show ?thesis unfolding claim_line_def Let_def miss using assms(1) claims_ok_add [OF assms(1) li]
      by (cases "listed (strip l)") (simp_all split: if_split)
  qed
qed

lemma claim_chunks_ok: "claims_ok chunks st \<Longrightarrow> set cs \<subseteq> set chunks \<Longrightarrow> claims_ok chunks (claim_chunks cs st)"
proof (induction cs st rule: claim_chunks.induct)
  case (2 c cs st)
  have "claims_ok chunks (fold (claim_line c) (splitlines (chunk_text c)) (st\<lparr>cs_inside := False\<rparr>))"
    using 2(2,3) line_in_splitlines [of c chunks] by (intro fold_inv [where P = "claims_ok chunks"] claim_line_ok) auto
  then show ?case using 2(1) [OF refl] 2(3) by (simp add: Let_def)
qed simp

lemma loose_claim_ok:
  assumes "claims_ok chunks st" "c \<in> set chunks" "line_in l chunks"
  shows "claims_ok chunks (loose_claim c l st)"
proof -
  have "line_in (cut_prefix r (cut_prefix r' (strip l))) chunks" for r r'
    by (rule line_in_sub [OF line_in_sub [OF line_in_sub [OF assms(3) strip_sublist] cut_prefix_sublist] cut_prefix_sublist])
  from claims_ok_snoc [OF assms(1) this] show ?thesis
    using assms(1) claims_ok_chunk [OF _ assms(2), of "st\<lparr>cs_claims := _\<rparr>"] by (simp add: loose_claim_def Let_def)
qed

lemma scan_claims_ok: "claims_ok chunks (scan_claims chunks)"
proof -
  let ?st = "claim_chunks chunks \<lparr>cs_claims = [], cs_chunk = None, cs_inside = False\<rparr>"
  have st: "claims_ok chunks ?st" by (rule claim_chunks_ok) (simp_all add: claims_ok_def)
  then have "claims_ok chunks (fold (\<lambda>c. fold (loose_claim c) (splitlines (chunk_text c))) chunks ?st)"
    by (intro fold_inv [where P = "claims_ok chunks"] loose_claim_ok) (auto intro: line_in_splitlines)
  with st show ?thesis by (simp add: scan_claims_def Let_def)
qed

text \<open>A text without line break that stands in the joined texts stands in one of them.\<close>

lemma join_part: "sublist v (join [x] ss) \<Longrightarrow> x \<notin> set v \<Longrightarrow> ss \<noteq> [] \<Longrightarrow> \<exists>s \<in> set ss. sublist v s"
proof (induction ss)
  case (Cons s ss)
  show ?case
  proof (cases ss)
    case Nil
    then show ?thesis using Cons.prems(1) by (simp add: join_def)
  next
    case (Cons t ts)
    then have "join [x] (s # ss) = s @ x # join [x] ss" by (simp add: join_def)
    then have "sublist v s \<or> sublist v (join [x] ss)" using Cons.prems sublist_part by simp
    then show ?thesis using Cons.IH Cons.prems(2) Cons by auto
  qed
qed simp

lemma lower_char_nl: "lower_char c = CHR 0x0A \<longleftrightarrow> c = CHR 0x0A"
proof
  assume nl: "lower_char c = CHR 0x0A"
  let ?n = "of_char c :: nat"
  have "\<not> (65 \<le> ?n \<and> ?n \<le> 90 \<or> 192 \<le> ?n \<and> ?n \<le> 222 \<and> ?n \<noteq> 215)"
  proof
    assume up: "65 \<le> ?n \<and> ?n \<le> 90 \<or> 192 \<le> ?n \<and> ?n \<le> 222 \<and> ?n \<noteq> 215"
    then have "lower_char c = char_of (?n + 32)" unfolding lower_char_def Let_def by (rule if_P)
    with nl have "char_of (?n + 32) = CHR 0x0A" by (rule subst [rotated])
    then have "of_char (char_of (?n + 32) :: char) = (of_char CHR 0x0A :: nat)" by (rule arg_cong)
    moreover have "of_char CHR 0x0A = (10 :: nat)" by simp
    ultimately have "(?n + 32) mod 256 = 10" by (simp only: of_char_of)
    moreover from up have "(?n + 32) mod 256 = ?n + 32" by (intro mod_less) linarith
    ultimately show False using up by linarith
  qed
  then have "lower_char c = c" unfolding lower_char_def Let_def by (rule if_not_P)
  with nl show "c = CHR 0x0A" by simp
next
  assume "c = CHR 0x0A"
  then show "lower_char c = CHR 0x0A" by (simp add: lower_char_def Let_def)
qed

lemma lower_no_nl: "CHR 0x0A \<notin> set e \<Longrightarrow> CHR 0x0A \<notin> set (lower e)"
  by (induction e) (simp_all add: lower_def lower_char_nl eq_commute [of "CHR 0x0A"])

lemma lower_join: "lower (join [x] ss) = join [lower_char x] (map lower ss)"
  by (cases ss) (simp_all add: join_def lower_def map_concat comp_def)

lemma name_in_chunk:
  assumes "str_in (lower e) (lower (full_text chunks))" "CHR 0x0A \<notin> set e" "chunks \<noteq> []"
  shows "\<exists>c \<in> set chunks. str_in (lower e) (lower (chunk_text c))"
proof -
  have "lower (full_text chunks) = join nl (map lower (map chunk_text chunks))"
    using lower_char_nl [of "CHR 0x0A"] by (simp add: full_text_def lower_join)
  moreover have "CHR 0x0A \<notin> set (lower e)" by (rule lower_no_nl [OF assms(2)])
  ultimately show ?thesis
    using join_part [of "lower e" "CHR 0x0A" "map lower (map chunk_text chunks)"] assms(1,3) by (auto simp: str_in_sublist)
qed

text \<open>The first entity has no line break.\<close>

lemma pieces_gap: "Gap c \<in> set (pieces r b s) \<Longrightarrow> c \<in> set s"
proof (induction r b s rule: pieces.induct)
  case (1 r b s)
  show ?case
  proof (cases "first_end r b s")
    case None
    then show ?thesis using 1(1) [OF None] 1(3) by (cases s) (auto simp: pieces.simps [of r b "[]"] pieces.simps [of r b "_ # _"])
  next
    case (Some z)
    then have "z \<in> set (ends r (b, s))" by (auto simp: first_end_def split: list.splits if_splits)
    then have "matches r (b, s) z" by (simp only: ends_iff)
    then obtain u where "moved (b, s) u z" using matches_moved by blast
    then have "set (snd z) \<subseteq> set s" by (auto simp: moved_def)
    moreover have "Gap c \<in> set (pieces r (fst z) (snd z))" using 1(3) Some by (simp add: pieces.simps [of r b s])
    ultimately show ?thesis using 1(2) [OF Some] by blast
  qed
qed

lemma re_sub_set: "set (re_sub r [] s) \<subseteq> set s"
  using pieces_gap [of _ r "[]" s] by (auto simp: re_sub_def split: piece.splits)

lemma title_no_break: "CHR 0x0A \<notin> set (clean_title (title_line chunks))"
proof -
  have "CHR 0x0A \<notin> set (strip l)" if "l \<in> set (splitlines s)" for l s
    using lines_from_no_break [of "[]" l s] that set_mono_sublist [OF strip_sublist [of l]] by (auto simp: splitlines_def)
  then have "CHR 0x0A \<notin> set u" if "u \<in> set (concat (map (\<lambda>c. filter (\<lambda>l. l \<noteq> []) (map strip (splitlines (chunk_text c)))) chunks))" for u
    using that by auto
  from this [OF hd_in_set] have "CHR 0x0A \<notin> set (title_line chunks)" unfolding title_line_def Let_def by simp
  then show ?thesis using re_sub_set set_mono_sublist [OF strip_sublist] by (fastforce simp: clean_title_def)
qed

lemma entity_no_break: "entity_names chunks = e # es \<Longrightarrow> CHR 0x0A \<notin> set e"
  using title_no_break [of chunks] by (auto simp: entity_names_def Let_def split: if_splits)

section \<open>Properties\<close>

lemma first_chunk_in: "chunks \<noteq> [] \<Longrightarrow> first_chunk p chunks \<in> set chunks"
  by (auto simp: first_chunk_def find_Some_iff split: option.split)

lemma claims_mentioned: "generic_claims chunks = Some (val, spn, cid) \<Longrightarrow> mentioned chunks spn"
  using scan_claims_ok [of chunks] by (auto simp: generic_claims_def claims_ok_def Let_def intro: line_in_mentioned split: if_splits)

lemma entities_mentioned: "generic_entities chunks = Some (val, spn, cid) \<Longrightarrow> chunks \<noteq> [] \<Longrightarrow> mentioned chunks spn"
proof -
  assume x: "generic_entities chunks = Some (val, spn, cid)" and ne: "chunks \<noteq> []"
  then obtain e es where e: "entity_names chunks = e # es" by (cases "entity_names chunks") (auto simp: generic_entities_def)
  have t: "mentioned chunks (take 100 (chunk_text (hd chunks)))" using ne by (intro sublist_mentioned [of "hd chunks"]) simp_all
  have n: "mentioned chunks e" if "str_in (lower e) (lower (full_text chunks))"
    using name_in_chunk [OF that entity_no_break [OF e] ne] by (simp add: mentioned_def)
  show ?thesis using x t n by (auto simp: generic_entities_def e Let_def split: if_splits)
qed

lemma topics_mentioned: "generic_topics chunks = Some (val, spn, cid) \<Longrightarrow> chunks \<noteq> [] \<Longrightarrow> mentioned chunks spn"
  using sublist_mentioned [OF first_chunk_in] by (auto simp: generic_topics_def Let_def split: if_splits)

lemma fields_chunk:
  assumes "chunks \<noteq> []" and "x \<in> {generic_summary chunks, generic_claims chunks, generic_entities chunks, generic_topics chunks}" and "x = Some (val, spn, cid)"
  shows "cid \<in> set (map chunk_id chunks)"
proof -
  note fc = first_chunk_in [OF assms(1)]
  have s: "generic_summary chunks = Some (val, spn, cid) \<Longrightarrow> cid \<in> chunk_id ` set chunks"
    using fc by (auto simp: generic_summary_def first_sentences_def Let_def find_Some_iff split: if_splits option.splits)
  have "generic_claims chunks = Some (val, spn, cid) \<Longrightarrow> cid \<in> chunk_id ` set chunks"
    using scan_claims_ok [of chunks] assms(1) by (auto simp: generic_claims_def claims_ok_def Let_def split: if_splits option.splits)
  moreover have "generic_entities chunks = Some (val, spn, cid) \<Longrightarrow> cid \<in> chunk_id ` set chunks"
    "generic_topics chunks = Some (val, spn, cid) \<Longrightarrow> cid \<in> chunk_id ` set chunks"
    using fc by (auto simp: generic_entities_def generic_topics_def Let_def split: if_splits)
  ultimately show ?thesis using assms(2,3) s by auto
qed

text \<open>The fields in order.\<close>

definition generic_specs :: "Chunk list \<Rightarrow> (str \<times> real \<times> (str \<times> str \<times> str) option) list" where
  "generic_specs chunks =
     [(''summary'', 9 / 10, generic_summary chunks), (''key_claims'', 85 / 100, generic_claims chunks),
      (''entities'', 8 / 10, generic_entities chunks), (''topics'', 75 / 100, generic_topics chunks)]"

lemma generic_extract_report: "generic_extract pid fresh chunks = report generic_specs pid fresh chunks"
  by (simp add: generic_extract_def report_def put_all_def generic_specs_def Let_def)

lemma generic_specs_chunk: "chunks \<noteq> [] \<Longrightarrow> (fld, conf, Some (val, spn, cid)) \<in> set (generic_specs chunks) \<Longrightarrow> cid \<in> set (map chunk_id chunks)"
  using fields_chunk [of chunks "Some (val, spn, cid)" val spn cid] by (auto simp: generic_specs_def)

lemma generic_specs_span:
  assumes "chunks \<noteq> []" "(fld, conf, Some (val, spn, cid)) \<in> set (generic_specs chunks)" "fld \<notin> set [''summary'']"
  shows "mentioned chunks spn"
proof -
  from assms(2,3) have "Some (val, spn, cid) \<in> {generic_claims chunks, generic_entities chunks, generic_topics chunks}"
    by (auto simp: generic_specs_def)
  then show ?thesis using claims_mentioned [of chunks val spn cid] entities_mentioned [OF _ assms(1), of val spn cid]
      topics_mentioned [OF _ assms(1), of val spn cid] by auto
qed

interpretation generic_pack: field_pack GENERIC_FIELDS "[''summary'']" generic_specs
  using generic_specs_chunk generic_specs_span by unfold_locales (simp_all add: generic_specs_def GENERIC_FIELDS_def)

text \<open>The value of an entity or topic is not what the cascade looks for: a document that is a security
  audit gets the names of two teams that do not occur in it, and they count as exactly grounded.\<close>

definition audit_chunk :: Chunk where
  "audit_chunk = \<lparr>chunk_id = ''c1'', chunk_doc_id = ''d'', chunk_page = 0, chunk_bbox = None,
     chunk_text = ''The security audit found no vulnerabilities.'', source_type = [], embedding = []\<rparr>"

lemma entity_not_in_document:
  "\<exists>val spn cid. generic_entities [audit_chunk] = Some (val, spn, cid) \<and>
     val = strings_json [''Security Operations Team'', ''IT Infrastructure''] \<and>
     fst (verify H default_config val spn [audit_chunk]) = GM_EXACT \<and>
     \<not> str_in ''security operations team'' (lower (chunk_text audit_chunk)) \<and> \<not> str_in ''it infrastructure'' (lower (chunk_text audit_chunk))"
proof -
  have names: "entity_names [audit_chunk] = [''Security Operations Team'', ''IT Infrastructure'']" by code_simp
  have out: "\<not> str_in ''security operations team'' (lower (chunk_text audit_chunk))" "\<not> str_in ''it infrastructure'' (lower (chunk_text audit_chunk))"
    by code_simp+
  have "lower ''Security Operations Team'' = ''security operations team''" "full_text [audit_chunk] = chunk_text audit_chunk"
    by (code_simp, simp add: full_text_def join_def)
  then have "generic_entities [audit_chunk] = Some (strings_json [''Security Operations Team'', ''IT Infrastructure''], take 100 (chunk_text audit_chunk), ''c1'')"
    using names out(1) by (simp add: generic_entities_def Let_def first_chunk_def) (simp add: audit_chunk_def)
  moreover have "line_in (take 100 (chunk_text audit_chunk)) [audit_chunk]" by (simp add: line_in_def)
  moreover have "strip (take 100 (chunk_text audit_chunk)) \<noteq> []" by code_simp
  ultimately show ?thesis using line_grounded [of "take 100 (chunk_text audit_chunk)" "[audit_chunk]" H] out by blast
qed

text \<open>C12: the generic pack reports each of its fields at most once, in order and with fresh identifiers,
  and cites chunks of the document; but for the summary the cascade accepts every extraction whose
  source span is not blank as an exact match.\<close>

theorem generic_extractions_grounded:
  "subseq (map field_name (generic_extract pid fresh chunks)) GENERIC_FIELDS \<and>
   map ext_id (generic_extract pid fresh chunks) = map fresh [0..<length (generic_extract pid fresh chunks)] \<and>
   list_all (\<lambda>e. pack_id e = pid \<and> ext_chunk_id e \<in> set (map chunk_id chunks) \<and>
     (field_name e = ''summary'' \<or> strip (source_span e) = [] \<or>
      fst (verify H default_config (ext_value e) (source_span e) chunks) = GM_EXACT)) (generic_extract pid fresh chunks)"
proof -
  have "field_name e = ''summary'' \<or> strip (source_span e) = [] \<or> fst (verify H default_config (ext_value e) (source_span e) chunks) = GM_EXACT"
    if "e \<in> set (generic_extract pid fresh chunks)" for e
    using generic_pack.pack.grounded [where fresh = fresh and chunks = chunks and e = e and H = H and pid = pid] that unfolding generic_extract_report by simp
  then show ?thesis
    using generic_pack.report_subseq [of pid fresh chunks] generic_pack.report_mem [of _ pid fresh chunks] generic_pack.pack.ids [where fresh = fresh and chunks = chunks and pid = pid]
    unfolding generic_extract_report by (simp add: list_all_iff)
qed

end
