(* ===== verification/PaperPack.thy ===== *)
theory PaperPack
  imports GenericPack
begin

text \<open>
  \<^verbatim>\<open>packs/paper/pack.py\<close>: title, authors, abstract, claims, methods, numbers and references to figures
  and tables of a research paper. The scan for claims shares its state with \<open>GenericPack\<close>; a line is
  numbered or bulleted, never both, so the order of those two tests does not matter.
\<close>

definition stripped :: "str list \<Rightarrow> str list" where
  "stripped ls = filter (\<lambda>l. l \<noteq> []) (map strip ls)"

section \<open>Title and authors\<close>

definition PAPER_FIELDS :: "str list" where
  "PAPER_FIELDS = [''title'', ''authors'', ''abstract_summary'', ''key_claims'', ''methods'', ''reported_numbers'', ''figure_references'', ''table_references'']"

definition paper_title :: "Chunk list \<Rightarrow> (str \<times> str \<times> str) option" where
  "paper_title chunks = (case stripped (splitlines (chunk_text (hd chunks))) of
     [] \<Rightarrow> None
   | t # _ \<Rightarrow> Some (t, t, chunk_id (hd chunks)))"

definition is_upper :: "char \<Rightarrow> bool" where
  "is_upper c = (let n = (of_char c :: nat) in 65 \<le> n \<and> n \<le> 90 \<or> 192 \<le> n \<and> n \<le> 222 \<and> n \<noteq> 215)"

definition author_label :: grx where
  "author_label = [raw (Alt (ci_s ''author'') (ci ''by'')), raw (seqs [ws0, ci '':'', ws0]), grp (plus dot)]"

definition name_parts :: "str \<Rightarrow> str list" where
  "name_parts l = stripped (re_split (Alt (ch '',;'') (seqs [ws, ch ''a'', ch ''n'', ch ''d'', ws])) l)"

definition author_names :: "str \<Rightarrow> str list" where
  "author_names l = stripped (re_split (Alt (ch '',;'') (seqs [Edge, ci ''and'', Edge])) l)"

definition author_line :: "str \<Rightarrow> bool" where
  "author_line l =
     (let checked = (case re_match author_label l of Some [v] \<Rightarrow> v | _ \<Rightarrow> l); ps = name_parts l in
      lower l \<notin> {''abstract'', ''introduction'', ''keywords'', ''references''} \<and> CHR '':'' \<notin> set checked \<and>
      (l = [] \<or> last l \<noteq> CHR ''.'') \<and> (CHR '','' \<in> set l \<or> str_in '' and '' (lower l)) \<and> length l < 200 \<and>
      list_ex (\<lambda>p. p \<noteq> [] \<and> is_upper (hd p)) ps \<and> ps \<noteq> [] \<and> list_all (\<lambda>p. length (split_ws p) \<le> 4) ps)"

text \<open>The first author line of each of the first chunks, until one gives names.\<close>

fun find_authors :: "Chunk list \<Rightarrow> (str \<times> Chunk) option" where
  "find_authors [] = None"
| "find_authors (c # cs) = (case find author_line (stripped (splitlines (chunk_text c))) of
     Some l \<Rightarrow> if author_names l \<noteq> [] then Some (l, c) else find_authors cs
   | None \<Rightarrow> find_authors cs)"

definition paper_authors :: "Chunk list \<Rightarrow> (str \<times> str \<times> str) option" where
  "paper_authors chunks =
     (let put = (\<lambda>(l, c). Some (strings_json (author_names l), l, chunk_id c)) in
      case find_authors (take 4 chunks) of
        Some x \<Rightarrow> put x
      | None \<Rightarrow>
          if length chunks < 2 then None
          else (case stripped (splitlines (chunk_text (chunks ! 1))) of
            [] \<Rightarrow> None
          | l # _ \<Rightarrow> if author_names l \<noteq> [] then put (l, chunks ! 1) else None))"

section \<open>Abstract\<close>

definition abstract_rx :: grx where
  "abstract_rx = [raw (seqs [ci ''abstract'', Edge, opt (ci '':''), ws0]), grp (Star dot_all)]"

definition abstract_of :: "Chunk \<Rightarrow> str option" where
  "abstract_of c = (if str_in ''abstract'' (lower (chunk_text c))
     then (case re_search_groups abstract_rx (chunk_text c) of Some [v] \<Rightarrow> Some (take 300 (strip v)) | _ \<Rightarrow> None) else None)"

definition paper_abstract :: "Chunk list \<Rightarrow> (str \<times> str \<times> str) option" where
  "paper_abstract chunks = (case find (\<lambda>c. abstract_of c \<noteq> None) chunks of
     None \<Rightarrow> None
   | Some c \<Rightarrow> (case abstract_of c of
       Some a \<Rightarrow> if a \<noteq> [] then Some (a, take 50 a, chunk_id c) else None
     | None \<Rightarrow> None))"

section \<open>Key claims\<close>

definition paper_header :: rx where
  "paper_header = Seq (alts
     [seqs [ci ''key'', ws, ci ''claims''], seqs [ci ''main'', ws, ci ''results''], seqs [ci ''key'', ws, ci ''contributions''], ci ''results'',
      ci ''contributions'', ci ''findings'', ci ''conclusions'']) (Seq ws0 (ci '':''))"

definition paper_claim_line :: "Chunk \<Rightarrow> str \<Rightarrow> ClaimScan \<Rightarrow> ClaimScan" where
  "paper_claim_line c l st =
     (let s = strip l in
      if starts paper_header s then st\<lparr>cs_inside := True, cs_chunk := set_first c (cs_chunk st)\<rparr>
      else if \<not> cs_inside st then st
      else (case listed s of
        Some v \<Rightarrow> st\<lparr>cs_claims := add_claim 10 v (cs_claims st)\<rparr>
      | None \<Rightarrow> if s \<noteq> [] \<and> take 3 s \<noteq> ''---'' \<and> cs_claims st \<noteq> [] then st\<lparr>cs_inside := False\<rparr> else st))"

fun paper_claim_chunks :: "Chunk list \<Rightarrow> ClaimScan \<Rightarrow> ClaimScan" where
  "paper_claim_chunks [] st = st"
| "paper_claim_chunks (c # cs) st =
     (let st' = fold (paper_claim_line c) (splitlines (chunk_text c)) (st\<lparr>cs_inside := False\<rparr>) in
      if cs_claims st' \<noteq> [] then st' else paper_claim_chunks cs st')"

definition result_words :: "str list" where
  "result_words = [''we show'', ''we propose'', ''contribution'', ''our results'', ''conclude'', ''outperform'', ''improve'']"

definition result_line :: "Chunk \<Rightarrow> str \<Rightarrow> ClaimScan \<Rightarrow> ClaimScan" where
  "result_line c l st =
     (let cleaned = cut_prefix (seqs [plus (Ch is_digit), ch ''.'', ws0]) (strip l) in
      if list_ex (\<lambda>k. str_in k (lower l)) result_words \<and> 10 < length cleaned \<and> cleaned \<notin> set (cs_claims st)
      then st\<lparr>cs_claims := cs_claims st @ [cleaned], cs_chunk := set_first c (cs_chunk st)\<rparr>
      else st)"

definition scan_paper_claims :: "Chunk list \<Rightarrow> ClaimScan" where
  "scan_paper_claims chunks =
     (let st = paper_claim_chunks chunks \<lparr>cs_claims = [], cs_chunk = None, cs_inside = False\<rparr> in
      if cs_claims st \<noteq> [] then st
      else fold (\<lambda>c. fold (result_line c) (splitlines (chunk_text c))) chunks st)"

definition paper_claims :: "Chunk list \<Rightarrow> (str \<times> str \<times> str) option" where
  "paper_claims chunks =
     (let st = scan_paper_claims chunks in
      if cs_claims st = [] then None
      else Some (strings_json (cs_claims st), take 50 (hd (cs_claims st)),
        chunk_id (case cs_chunk st of Some c \<Rightarrow> c | None \<Rightarrow> hd chunks)))"

section \<open>Methods\<close>

definition method_header :: rx where
  "method_header = seqs [words [''methodology'', ''methods'', ''experimental setup'', ''proposed approach''], ws0, opt (ci '':''), AtEnd]"

text \<open>\<^verbatim>\<open>re.split(r'(?<=[.])\s+', text)\<close>.\<close>

function periods_from :: "str \<Rightarrow> str \<Rightarrow> str list" where
  "periods_from acc [] = [rev acc]"
| "periods_from acc (c # s) =
     (if is_space c \<and> acc \<noteq> [] \<and> hd acc = CHR ''.'' then rev acc # periods_from [] (dropWhile is_space s)
      else periods_from (c # acc) s)"
  by pat_completeness auto
termination
  by (relation "measure (\<lambda>(acc, s). length s)") (auto simp: le_imp_less_Suc length_dropWhile_le)

definition method_sentences :: "Chunk \<Rightarrow> str list" where
  "method_sentences c =
     (let content = join '' '' (filter (\<lambda>l. \<not> starts method_header l) (stripped (splitlines (chunk_text c))))
      in filter (\<lambda>s. 15 < length s) (map strip (periods_from [] content)))"

definition paper_methods :: "Chunk list \<Rightarrow> (str \<times> str \<times> str) option" where
  "paper_methods chunks =
     (case find (\<lambda>c. list_ex (\<lambda>k. str_in k (lower (chunk_text c)))
        [''methodology'', ''methods'', ''experimental setup'', ''proposed approach'']) chunks of
        None \<Rightarrow> None
      | Some c \<Rightarrow> (let ms = method_sentences c in if ms = [] then None else Some (strings_json ms, take 50 (hd ms), chunk_id c)))"

section \<open>Numbers, figures and tables\<close>

definition decimal_rx :: rx where
  "decimal_rx = seqs [Edge, plus (Ch is_digit), ch ''.'', plus (Ch is_digit), opt (ch ''%''), Edge]"

definition percent_rx :: rx where
  "percent_rx = seqs [Edge, plus (Ch is_digit), ch ''%'', Edge]"

definition figure_rx :: rx where
  "figure_rx = seqs [Edge, Alt (ci ''figure'') (ci ''fig.''), ws0, plus (Ch is_digit), Edge]"

definition table_rx :: rx where
  "table_rx = seqs [Edge, ci ''table'', ws0, plus (Ch is_digit), Edge]"

definition collect_hit :: "Chunk \<Rightarrow> str \<Rightarrow> str list \<times> Chunk option \<Rightarrow> str list \<times> Chunk option" where
  "collect_hit c v st = (if v \<in> set (fst st) then st else (fst st @ [v], set_first c (snd st)))"

definition collect :: "rx list \<Rightarrow> Chunk list \<Rightarrow> str list \<times> Chunk option" where
  "collect rs chunks = fold (\<lambda>c st. fold (\<lambda>r. fold (collect_hit c) (re_findall r (chunk_text c))) rs st) chunks ([], None)"

definition paper_hits :: "rx list \<Rightarrow> (str list \<Rightarrow> str list) \<Rightarrow> Chunk list \<Rightarrow> (str \<times> str \<times> str) option" where
  "paper_hits rs shown chunks =
     (let (vs, c) = collect rs chunks in
      if vs = [] then None
      else Some (strings_json (shown vs), hd vs, chunk_id (case c of Some d \<Rightarrow> d | None \<Rightarrow> hd chunks)))"

definition paper_numbers :: "Chunk list \<Rightarrow> (str \<times> str \<times> str) option" where
  "paper_numbers = paper_hits [decimal_rx, percent_rx] (take 10)"

definition paper_figures :: "Chunk list \<Rightarrow> (str \<times> str \<times> str) option" where
  "paper_figures = paper_hits [figure_rx] id"

definition paper_tables :: "Chunk list \<Rightarrow> (str \<times> str \<times> str) option" where
  "paper_tables = paper_hits [table_rx] id"

section \<open>Extraction\<close>

definition paper_extract :: "str \<Rightarrow> (nat \<Rightarrow> str) \<Rightarrow> Chunk list \<Rightarrow> Extraction list" where
  "paper_extract pid fresh chunks =
     (if chunks = [] then []
      else let put = add_field pid fresh;
               es = put ''title'' (9 / 10) (paper_title chunks) [];
               es = put ''authors'' (85 / 100) (paper_authors chunks) es;
               es = put ''abstract_summary'' (9 / 10) (paper_abstract chunks) es;
               es = put ''key_claims'' (85 / 100) (paper_claims chunks) es;
               es = put ''methods'' (8 / 10) (paper_methods chunks) es;
               es = put ''reported_numbers'' (85 / 100) (paper_numbers chunks) es;
               es = put ''figure_references'' (9 / 10) (paper_figures chunks) es
           in put ''table_references'' (9 / 10) (paper_tables chunks) es)"

section \<open>Where the spans stand\<close>

lemma stripped_line: "c \<in> set chunks \<Longrightarrow> l \<in> set (stripped (splitlines (chunk_text c))) \<Longrightarrow> line_in l chunks"
  by (auto simp: stripped_def intro: line_in_sub [OF line_in_splitlines strip_sublist])

lemma title_cited: "paper_title chunks = Some (val, spn, cid) \<Longrightarrow> chunks \<noteq> [] \<Longrightarrow> line_in spn chunks \<and> cid \<in> chunk_id ` set chunks"
proof -
  assume x: "paper_title chunks = Some (val, spn, cid)" and ne: "chunks \<noteq> []"
  then have "spn \<in> set (stripped (splitlines (chunk_text (hd chunks))))" "cid = chunk_id (hd chunks)"
    by (auto simp: paper_title_def split: list.splits)
  then show ?thesis using stripped_line [of "hd chunks" chunks] ne by auto
qed

lemma find_authors_in: "find_authors cs = Some (l, c) \<Longrightarrow> c \<in> set cs \<and> l \<in> set (stripped (splitlines (chunk_text c)))"
  by (induction cs rule: find_authors.induct) (auto simp: find_Some_iff split: option.splits if_splits)

lemma authors_cited: "paper_authors chunks = Some (val, spn, cid) \<Longrightarrow> line_in spn chunks \<and> cid \<in> chunk_id ` set chunks"
proof -
  assume x: "paper_authors chunks = Some (val, spn, cid)"
  show ?thesis
  proof (cases "find_authors (take 4 chunks)")
    case None
    then have "2 \<le> length chunks" "spn \<in> set (stripped (splitlines (chunk_text (chunks ! 1))))" "cid = chunk_id (chunks ! 1)"
      using x by (auto simp: paper_authors_def Let_def split: list.splits if_splits)
    moreover from this(1) have "chunks ! 1 \<in> set chunks" by (intro nth_mem) simp
    ultimately show ?thesis using stripped_line [of "chunks ! 1" chunks spn] by blast
  next
    case (Some y)
    then have "find_authors (take 4 chunks) = Some (fst y, snd y)" by simp
    from find_authors_in [OF this] have "snd y \<in> set chunks" "fst y \<in> set (stripped (splitlines (chunk_text (snd y))))"
      by (auto dest: in_set_takeD)
    then show ?thesis using x Some stripped_line by (auto simp: paper_authors_def Let_def split_beta)
  qed
qed

lemma find_in: "find p xs = Some x \<Longrightarrow> x \<in> set xs"
  by (auto simp: find_Some_iff)

lemma abstract_cited: "paper_abstract chunks = Some (val, spn, cid) \<Longrightarrow> line_in spn chunks \<and> cid \<in> chunk_id ` set chunks"
proof -
  assume x: "paper_abstract chunks = Some (val, spn, cid)"
  then obtain c a where c: "c \<in> set chunks" "abstract_of c = Some a" "spn = take 50 a" "cid = chunk_id c"
    by (auto simp: paper_abstract_def dest: find_in split: option.splits if_splits)
  then obtain v where v: "re_search_groups abstract_rx (chunk_text c) = Some [v]" "a = take 300 (strip v)"
    by (auto simp: abstract_of_def split: option.splits list.splits if_splits)
  have "sublist v (chunk_text c)" using re_search_groups_groups [OF v(1)] by (simp add: groups_of_def)
  then have "line_in (strip v) chunks" using c(1) line_in_text line_in_sub strip_sublist by blast
  then have "line_in spn chunks" using c(3) v(2) line_in_sub [of "strip v" chunks] by (simp add: min_def)
  then show ?thesis using c by auto
qed

lemma paper_claim_line_ok:
  assumes "claims_ok chunks st" "c \<in> set chunks" "line_in l chunks"
  shows "claims_ok chunks (paper_claim_line c l st)"
proof -
  have "line_in v chunks" if "listed (strip l) = Some v" for v
    using line_in_sub [OF line_in_sub [OF assms(3) strip_sublist] listed_sublist [OF that]] .
  then show ?thesis
    using assms(1) claims_ok_chunk [OF _ assms(2), of "st\<lparr>cs_inside := True\<rparr>"] claims_ok_add [OF assms(1)]
    by (cases "listed (strip l)") (simp_all add: paper_claim_line_def Let_def)
qed

lemma paper_claim_chunks_ok: "claims_ok chunks st \<Longrightarrow> set cs \<subseteq> set chunks \<Longrightarrow> claims_ok chunks (paper_claim_chunks cs st)"
proof (induction cs st rule: paper_claim_chunks.induct)
  case (2 c cs st)
  have "claims_ok chunks (fold (paper_claim_line c) (splitlines (chunk_text c)) (st\<lparr>cs_inside := False\<rparr>))"
    using 2(2,3) line_in_splitlines [of c chunks] by (intro fold_inv [where P = "claims_ok chunks"] paper_claim_line_ok) auto
  then show ?case using 2(1) [OF refl] 2(3) by (simp add: Let_def)
qed simp

lemma result_line_ok:
  assumes "claims_ok chunks st" "c \<in> set chunks" "line_in l chunks"
  shows "claims_ok chunks (result_line c l st)"
proof -
  have "line_in (cut_prefix r (strip l)) chunks" for r
    by (rule line_in_sub [OF line_in_sub [OF assms(3) strip_sublist] cut_prefix_sublist])
  from claims_ok_snoc [OF assms(1) this] show ?thesis
    using assms(1) claims_ok_chunk [OF _ assms(2), of "st\<lparr>cs_claims := _\<rparr>"] by (simp add: result_line_def Let_def)
qed

lemma scan_paper_claims_ok: "claims_ok chunks (scan_paper_claims chunks)"
proof -
  let ?st = "paper_claim_chunks chunks \<lparr>cs_claims = [], cs_chunk = None, cs_inside = False\<rparr>"
  have st: "claims_ok chunks ?st" by (rule paper_claim_chunks_ok) (simp_all add: claims_ok_def)
  then have "claims_ok chunks (fold (\<lambda>c. fold (result_line c) (splitlines (chunk_text c))) chunks ?st)"
    by (intro fold_inv [where P = "claims_ok chunks"] result_line_ok) (auto intro: line_in_splitlines)
  with st show ?thesis by (simp add: scan_paper_claims_def Let_def)
qed

lemma paper_claims_cited: "paper_claims chunks = Some (val, spn, cid) \<Longrightarrow> chunks \<noteq> [] \<Longrightarrow> line_in spn chunks \<and> cid \<in> chunk_id ` set chunks"
proof -
  assume x: "paper_claims chunks = Some (val, spn, cid)" and ne: "chunks \<noteq> []"
  let ?st = "scan_paper_claims chunks"
  have c: "cs_claims ?st \<noteq> []" "spn = take 50 (hd (cs_claims ?st))" "cid = chunk_id (case cs_chunk ?st of Some c \<Rightarrow> c | None \<Rightarrow> hd chunks)"
    using x by (auto simp: paper_claims_def Let_def split: if_splits)
  then have "line_in (hd (cs_claims ?st)) chunks" using scan_paper_claims_ok [of chunks] by (simp add: claims_ok_def)
  then have "line_in spn chunks" using c(2) line_in_sub by simp
  moreover have "cid \<in> chunk_id ` set chunks" using c(3) ne scan_paper_claims_ok [of chunks] by (auto simp: claims_ok_def split: option.splits)
  ultimately show ?thesis ..
qed

definition hits_ok :: "Chunk list \<Rightarrow> str list \<times> Chunk option \<Rightarrow> bool" where
  "hits_ok chunks st \<longleftrightarrow> (\<forall>v \<in> set (fst st). line_in v chunks) \<and> (\<forall>c. snd st = Some c \<longrightarrow> c \<in> set chunks)"

lemma collect_hit_ok: "hits_ok chunks st \<Longrightarrow> c \<in> set chunks \<Longrightarrow> line_in v chunks \<Longrightarrow> hits_ok chunks (collect_hit c v st)"
  by (cases "snd st") (auto simp: hits_ok_def collect_hit_def set_first_def)

lemma collect_ok: "hits_ok chunks (collect rs chunks)"
proof -
  have "line_in v chunks" if "c \<in> set chunks" "v \<in> set (re_findall r (chunk_text c))" for c v r
    using that findall_sublist line_in_text by blast
  then show ?thesis unfolding collect_def by (intro fold_inv [where P = "hits_ok chunks"] collect_hit_ok) (auto simp: hits_ok_def)
qed

lemma hits_cited: "paper_hits rs shown chunks = Some (val, spn, cid) \<Longrightarrow> chunks \<noteq> [] \<Longrightarrow> line_in spn chunks \<and> cid \<in> chunk_id ` set chunks"
  using collect_ok [of chunks rs] by (auto simp: paper_hits_def hits_ok_def split: prod.splits if_splits option.splits)

lemma methods_cited: "paper_methods chunks = Some (val, spn, cid) \<Longrightarrow> cid \<in> chunk_id ` set chunks"
  by (auto simp: paper_methods_def Let_def dest: find_in split: option.splits if_splits)

section \<open>Properties\<close>

definition paper_specs :: "Chunk list \<Rightarrow> (str \<times> real \<times> (str \<times> str \<times> str) option) list" where
  "paper_specs chunks =
     [(''title'', 9 / 10, paper_title chunks), (''authors'', 85 / 100, paper_authors chunks),
      (''abstract_summary'', 9 / 10, paper_abstract chunks), (''key_claims'', 85 / 100, paper_claims chunks),
      (''methods'', 8 / 10, paper_methods chunks), (''reported_numbers'', 85 / 100, paper_numbers chunks),
      (''figure_references'', 9 / 10, paper_figures chunks), (''table_references'', 9 / 10, paper_tables chunks)]"

lemma paper_extract_report: "paper_extract pid fresh chunks = report paper_specs pid fresh chunks"
  by (simp add: paper_extract_def report_def put_all_def paper_specs_def Let_def)

lemma paper_specs_cited:
  assumes "chunks \<noteq> []" "(fld, conf, Some (val, spn, cid)) \<in> set (paper_specs chunks)"
  shows "cid \<in> set (map chunk_id chunks) \<and> (fld = ''methods'' \<or> mentioned chunks spn)"
proof -
  have "fld = ''methods'' \<and> paper_methods chunks = Some (val, spn, cid) \<or>
      Some (val, spn, cid) \<in> {paper_title chunks, paper_authors chunks, paper_abstract chunks, paper_claims chunks, paper_numbers chunks,
        paper_figures chunks, paper_tables chunks}"
    using assms(2) by (auto simp: paper_specs_def)
  moreover have "line_in spn chunks \<and> cid \<in> chunk_id ` set chunks"
    if "Some (val, spn, cid) \<in> {paper_title chunks, paper_authors chunks, paper_abstract chunks, paper_claims chunks, paper_numbers chunks,
        paper_figures chunks, paper_tables chunks}"
    using that title_cited [OF _ assms(1), of val spn cid] authors_cited [of chunks val spn cid] abstract_cited [of chunks val spn cid]
      paper_claims_cited [OF _ assms(1), of val spn cid] hits_cited [OF _ assms(1), of _ _ val spn cid]
    unfolding paper_numbers_def paper_figures_def paper_tables_def insert_iff by (auto dest: sym)
  ultimately have "fld = ''methods'' \<and> paper_methods chunks = Some (val, spn, cid) \<or> line_in spn chunks \<and> cid \<in> chunk_id ` set chunks"
    by (elim disjE) simp_all
  then show ?thesis using methods_cited line_in_mentioned by auto
qed

interpretation paper_pack: field_pack PAPER_FIELDS "[''methods'']" paper_specs
proof
  show "cid \<in> set (map chunk_id chunks)" if "chunks \<noteq> []" "(fld, conf, Some (val, spn, cid)) \<in> set (paper_specs chunks)" for chunks fld conf val spn cid
    using paper_specs_cited [OF that] ..
  show "mentioned chunks spn" if "chunks \<noteq> []" "(fld, conf, Some (val, spn, cid)) \<in> set (paper_specs chunks)" "fld \<notin> set [''methods'']" for chunks fld conf val spn cid
    using paper_specs_cited [OF that(1,2)] that(3) by simp
qed (simp_all add: paper_specs_def PAPER_FIELDS_def)

text \<open>A percentage is found only when a letter or digit follows its sign: the pattern asks for a word
  boundary after it.\<close>

lemma percentages_missed: "re_findall percent_rx ''up 44% now'' = []" "re_findall decimal_rx ''up 4.5% now'' = [''4.5'']"
  by code_simp+

text \<open>The paper pack reports each of its fields at most once, in order and with fresh identifiers,
  and cites chunks of the document; but for the methods, whose sentences are put together from several
  lines, the cascade accepts every extraction whose source span is not blank as an exact match.\<close>

theorem paper_extractions_grounded:
  "subseq (map field_name (paper_extract pid fresh chunks)) PAPER_FIELDS \<and>
   map ext_id (paper_extract pid fresh chunks) = map fresh [0..<length (paper_extract pid fresh chunks)] \<and>
   list_all (\<lambda>e. pack_id e = pid \<and> ext_chunk_id e \<in> set (map chunk_id chunks) \<and>
     (field_name e = ''methods'' \<or> strip (source_span e) = [] \<or>
      fst (verify H default_config (ext_value e) (source_span e) chunks) = GM_EXACT)) (paper_extract pid fresh chunks)"
proof -
  have "field_name e = ''methods'' \<or> strip (source_span e) = [] \<or> fst (verify H default_config (ext_value e) (source_span e) chunks) = GM_EXACT"
    if "e \<in> set (paper_extract pid fresh chunks)" for e
    using paper_pack.pack.grounded [where fresh = fresh and chunks = chunks and e = e and H = H and pid = pid] that
    unfolding paper_extract_report by simp
  then show ?thesis
    using paper_pack.report_subseq [of pid fresh chunks] paper_pack.report_mem [of _ pid fresh chunks]
      paper_pack.pack.ids [where fresh = fresh and chunks = chunks and pid = pid]
    unfolding paper_extract_report by (simp add: list_all_iff)
qed

end
